(* ===== verification/Prelude.thy ===== *)
theory Prelude
  imports Main "HOL-Library.Word"
begin

text \<open>
  What every component of the kernel model shares: the machine integer types of
  \<^verbatim>\<open>lib/stdint.h\<close>, the constants of \<^verbatim>\<open>lib/global.h\<close>, and the result type of a kernel
  routine. A routine that may stop in \<^verbatim>\<open>panic_spin\<close> (\<^verbatim>\<open>kernel/debug.c\<close>), through a failed
  \<^verbatim>\<open>ASSERT\<close>, through \<^verbatim>\<open>PANIC\<close> or through an access that leaves an array of known size,
  returns a value of the sum type \<open>'a res\<close>: \<open>Inl\<close> is the reason it stopped, \<open>Inr\<close> the result.
  The reason \<open>Suspended\<close> is not a failure: the routine had to wait and another task runs.
  \<open>Never_returns\<close> is a loop that does not end.
  The Makefile does not define \<^verbatim>\<open>NDEBUG\<close>, so every \<^verbatim>\<open>ASSERT\<close> is active and is part of the
  model. The collection \<open>res_iff\<close> inverts the bind of this type, and \<open>wordnat\<close> moves word
  arithmetic to the natural numbers.
\<close>

unbundle bit_operations_syntax

named_theorems res_iff "when a sequence of kernel steps returns a value"
named_theorems wordnat "word arithmetic read as natural numbers"

section \<open>Machine integers\<close>

type_synonym u8 = "8 word"
type_synonym u16 = "16 word"
type_synonym u32 = "32 word"
type_synonym u64 = "64 word"

type_synonym addr = u32

abbreviation (input) NULL :: addr where
  "NULL \<equiv> 0"

abbreviation (input) PG_SIZE :: u32 where
  "PG_SIZE \<equiv> 4096"

definition DIV_ROUND_UP :: "u32 \<Rightarrow> u32 \<Rightarrow> u32" where
  "DIV_ROUND_UP x step = (x + step - 1) div step"

section \<open>Results of kernel routines\<close>

datatype panic = Assert_failed string | Panicked string | Bad_access string | Suspended | Never_returns

type_synonym 'a res = "panic + 'a"

definition bindR :: "'a res \<Rightarrow> ('a \<Rightarrow> 'b res) \<Rightarrow> 'b res" where
  "bindR m f = (case m of Inl e \<Rightarrow> Inl e | Inr x \<Rightarrow> f x)"

definition kassert :: "bool \<Rightarrow> string \<Rightarrow> unit res" where
  "kassert c what = (if c then Inr () else Inl (Assert_failed what))"

definition kpanic :: "string \<Rightarrow> 'a res" where
  "kpanic what = Inl (Panicked what)"

definition returns :: "'a res \<Rightarrow> bool" where
  "returns m \<longleftrightarrow> (case m of Inl e \<Rightarrow> False | Inr x \<Rightarrow> True)"

lemma bindR_simps [simp]:
  "bindR (Inl e) f = Inl e"
  "bindR (Inr x) f = f x"
  by (simp_all add: bindR_def)

lemma kassert_simps [simp]:
  "kassert True w = Inr ()"
  "kassert False w = Inl (Assert_failed w)"
  by (simp_all add: kassert_def)

lemma returns_simps [simp]:
  "returns (Inl e) = False"
  "returns (Inr x) = True"
  by (simp_all add: returns_def)

lemma bindR_Inr_iff [res_iff]:
  "bindR m f = Inr y \<longleftrightarrow> (\<exists>x. m = Inr x \<and> f x = Inr y)"
  by (cases m) auto

lemma bindR_Inl_iff:
  "bindR m f = Inl e \<longleftrightarrow> m = Inl e \<or> (\<exists>x. m = Inr x \<and> f x = Inl e)"
  by (cases m) auto

lemma kassert_Inr_iff [res_iff]: "kassert c w = Inr u \<longleftrightarrow> c"
  by (auto simp: kassert_def)

lemma bindR_assoc: "bindR (bindR m f) g = bindR m (\<lambda>x. bindR (f x) g)"
  by (cases m) auto

lemma bindR_cong [fundef_cong]:
  "m = m' \<Longrightarrow> (\<And>x. m' = Inr x \<Longrightarrow> f x = g x) \<Longrightarrow> bindR m f = bindR m' g"
  by (cases m') auto

section \<open>Steps over a state\<close>

text \<open>Routines that pass a state on, or stop.\<close>

type_synonym ('s, 'a) stm = "'s \<Rightarrow> ('a \<times> 's) res"

definition returnM :: "'a \<Rightarrow> ('s, 'a) stm" where
  "returnM x s = Inr (x, s)"

definition bindM :: "('s, 'a) stm \<Rightarrow> ('a \<Rightarrow> ('s, 'b) stm) \<Rightarrow> ('s, 'b) stm" where
  "bindM m f s = bindR (m s) (\<lambda>(x, s'). f x s')"

definition assertM :: "bool \<Rightarrow> string \<Rightarrow> ('s, unit) stm" where
  "assertM c w s = bindR (kassert c w) (\<lambda>_. Inr ((), s))"

definition failM :: "panic \<Rightarrow> ('s, 'a) stm" where
  "failM e s = Inl e"

definition liftM :: "'a res \<Rightarrow> ('s, 'a) stm" where
  "liftM r s = bindR r (\<lambda>x. Inr (x, s))"

definition getM :: "('s \<Rightarrow> 'a) \<Rightarrow> ('s, 'a) stm" where
  "getM f s = Inr (f s, s)"

definition modM :: "('s \<Rightarrow> 's) \<Rightarrow> ('s, unit) stm" where
  "modM f s = Inr ((), f s)"

definition whenM :: "bool \<Rightarrow> ('s, unit) stm \<Rightarrow> ('s, unit) stm" where
  "whenM c m = (if c then m else returnM ())"

lemmas stm_defs = returnM_def bindM_def assertM_def failM_def liftM_def getM_def modM_def whenM_def

lemma bindM_Inr_iff [res_iff]: "bindM m f s = Inr r \<longleftrightarrow> (\<exists>x s'. m s = Inr (x, s') \<and> f x s' = Inr r)"
  by (auto simp: bindM_def bindR_Inr_iff)

lemma stm_simps:
  "returnM x s = Inr (x, s)" "getM g s = Inr (g s, s)" "modM h s = Inr ((), h s)" "failM e s = Inl e"
  "assertM True w s = Inr ((), s)" "assertM False w s = Inl (Assert_failed w)"
  "liftM (Inr x) s = Inr (x, s)" "liftM (Inl e) s = Inl e" "whenM True m = m" "whenM False m = returnM ()"
  by (simp_all add: stm_defs)

lemma bindM_step: "m s = Inr (x, s') \<Longrightarrow> bindM m f s = f x s'"
  by (simp add: bindM_def)

lemma bindM_eqI: "m s = Inr (x, s') \<Longrightarrow> f x s' = r \<Longrightarrow> bindM m f s = r"
  by (simp add: bindM_def)

lemma bindM_getM: "bindM (getM g) f s = f (g s) s"
  by (simp add: stm_defs)

lemma bindM_stop: "m s = Inl e \<Longrightarrow> bindM m f s = Inl e"
  by (simp add: bindM_def)

section \<open>Words as natural numbers\<close>

lemma unat_add_lt [wordnat]:
  fixes a b :: "'a::len word"
  assumes "unat a + unat b < 2 ^ LENGTH('a)"
  shows "unat (a + b) = unat a + unat b"
  using assms by (simp add: unat_word_ariths)

lemma unat_mult_lt [wordnat]:
  fixes a b :: "'a::len word"
  assumes "unat a * unat b < 2 ^ LENGTH('a)"
  shows "unat (a * b) = unat a * unat b"
  using assms by (simp add: unat_word_ariths)

lemma unat_sub_le [wordnat]:
  fixes a b :: "'a::len word"
  assumes "unat b \<le> unat a"
  shows "unat (a - b) = unat a - unat b"
  using assms by (simp add: unat_sub word_le_nat_alt)

lemma unat_ucast: "unat (ucast w :: 'b::len word) = unat (w :: 'a::len word) mod 2 ^ LENGTH('b)"
  by (simp add: unsigned_ucast_eq take_bit_eq_mod)

lemma unat_ucast_up [wordnat]:
  "LENGTH('a) \<le> LENGTH('b) \<Longrightarrow> unat (ucast w :: 'b::len word) = unat (w :: 'a::len word)"
  unfolding unat_ucast
  by (rule mod_less, rule less_le_trans, rule unsigned_less, rule power_increasing) simp_all

lemma unat_of_nat_lt [wordnat]:
  "n < 2 ^ LENGTH('a::len) \<Longrightarrow> unat (of_nat n :: 'a word) = n"
  by (simp add: unat_of_nat take_bit_eq_mod)

lemma unat_div_word [wordnat]: "unat (a div b) = unat a div unat b" for a b :: "'a::len word"
  by (fact unat_div)

lemma unat_mod_word [wordnat]: "unat (a mod b) = unat a mod unat b" for a b :: "'a::len word"
  by (fact unat_mod)

lemma sint_eq_unat:
  fixes w :: u32
  assumes "unat w < 2 ^ 31"
  shows "sint w = int (unat w)"
proof -
  have "int (unat w) < int (2 ^ 31)" using assms by (simp only: of_nat_less_iff)
  then have "uint w < 2 ^ 31" by simp
  then have "sint w = uint w"
    by (simp add: sint_uint signed_take_bit_int_eq_self order_trans [OF _ uint_ge_0])
  then show ?thesis by simp
qed

lemma word_eq_unat_iff: "a = b \<longleftrightarrow> unat a = unat b" for a b :: "'a::len word"
  by (simp add: word_unat_eq_iff)

lemma unat_bound: "unat (w :: 'a::len word) < 2 ^ LENGTH('a)"
  by (fact unsigned_less)

lemma two_pow_overflow [simp]: "LENGTH('a) \<le> n \<Longrightarrow> (2 ^ n :: 'a::len word) = 0"
  by (simp only: exp_eq_zero_iff)

lemma unat_succ_lt [wordnat]:
  fixes a b :: "'a::len word"
  assumes "a < b"
  shows "unat (a + 1) = Suc (unat a)"
proof -
  have "unat a + unat (1 :: 'a word) \<le> unat b"
    using assms by (simp add: word_less_nat_alt)
  then have "unat a + unat (1 :: 'a word) < 2 ^ LENGTH('a)"
    by (rule le_less_trans) (rule unat_bound)
  then show ?thesis by (simp add: unat_add_lt)
qed

lemma word_bits_iff:
  "x = y \<longleftrightarrow> (\<forall>n<LENGTH('a). bit x n \<longleftrightarrow> bit y n)" for x y :: "'a::len word"
  by (auto intro: bit_word_eqI)

lemma bit_two_pow [simp]:
  "bit (2 ^ n :: 'a::len word) i \<longleftrightarrow> i = n \<and> n < LENGTH('a)"
  by (auto simp: bit_exp_iff)

lemma and_two_pow_eq_0 [simp]:
  fixes w :: "'a::len word"
  assumes "n < LENGTH('a)"
  shows "(w AND 2 ^ n = 0) \<longleftrightarrow> \<not> bit w n"
proof
  assume "w AND 2 ^ n = 0"
  then have "\<not> bit (w AND 2 ^ n) n" by simp
  then show "\<not> bit w n" using assms by (simp add: bit_and_iff)
next
  assume "\<not> bit w n"
  then show "w AND 2 ^ n = 0"
    by (intro bit_word_eqI) (auto simp: bit_and_iff)
qed

section \<open>Array loops\<close>

lemma fold_update_upt:
  "n \<le> length xs \<Longrightarrow> fold (\<lambda>i t. t[i := f i]) [0..<n] xs = map f [0..<n] @ drop n xs"
proof (induction n)
  case (Suc n)
  then have "drop n xs = xs ! n # drop (Suc n) xs" by (simp add: Cons_nth_drop_Suc)
  with Suc show ?case by (simp add: list_update_append)
qed simp

end
