(* ===== verification/Machine.thy ===== *)
theory Machine
  imports Prelude
begin

text \<open>
  The part of the processor the C sources touch through inline assembly, and the interrupt flag
  (\<^verbatim>\<open>lib/io.h\<close>, \<^verbatim>\<open>kernel/interrupt.c\<close>, \<^verbatim>\<open>lib/interrupt.h\<close>): the registers \<^verbatim>\<open>eflags\<close>,
  \<^verbatim>\<open>cr2\<close> and \<^verbatim>\<open>cr3\<close>, and the sequence of the writes the kernel makes to devices. A write to a
  port, a string put on the screen by \<^verbatim>\<open>kernel/print.S\<close> and the load of a descriptor-table
  register are events of that sequence, in program order.

  The lemmas show that the pair \<^verbatim>\<open>intr_disable\<close>/\<^verbatim>\<open>intr_set_status\<close>, with which the kernel
  brackets its critical sections, closes the section and then restores the flag it found.
\<close>

unbundle bit_operations_syntax

datatype io_event =
    Outb u16 u8 | Outsw u16 "u8 list"
  | Set_cursor u32 | Put_char char | Put_str string | Put_int u32
  | Lidt u64 | Lgdt u64 | Ltr u16 | Invlpg u32 | Cls_screen

record machine =
  eflags :: u32
  cr2 :: u32
  cr3 :: u32
  io_log :: "io_event list"

definition emit :: "io_event \<Rightarrow> 'a machine_scheme \<Rightarrow> 'a machine_scheme" where
  "emit e m = m\<lparr>io_log := io_log m @ [e]\<rparr>"

definition outb :: "u16 \<Rightarrow> u8 \<Rightarrow> 'a machine_scheme \<Rightarrow> 'a machine_scheme" where
  "outb port data = emit (Outb port data)"

text \<open>The line feed that ends most strings the kernel prints.\<close>

abbreviation NL :: string where
  "NL \<equiv> [CHR 0x0A]"

definition put_str :: "string \<Rightarrow> 'a machine_scheme \<Rightarrow> 'a machine_scheme" where
  "put_str s = emit (Put_str s)"

section \<open>The interrupt flag\<close>

datatype intr_status = INTR_OFF | INTR_ON

definition EFLAGS_IF :: u32 where
  "EFLAGS_IF = 0x00000200"

definition intr_get_status :: "'a machine_scheme \<Rightarrow> intr_status" where
  "intr_get_status m = (if EFLAGS_IF AND eflags m \<noteq> 0 then INTR_ON else INTR_OFF)"

text \<open>The instructions \<^verbatim>\<open>sti\<close> and \<^verbatim>\<open>cli\<close>.\<close>

definition sti :: "'a machine_scheme \<Rightarrow> 'a machine_scheme" where
  "sti m = m\<lparr>eflags := eflags m OR EFLAGS_IF\<rparr>"

definition cli :: "'a machine_scheme \<Rightarrow> 'a machine_scheme" where
  "cli m = m\<lparr>eflags := eflags m AND NOT EFLAGS_IF\<rparr>"

definition intr_enable :: "'a machine_scheme \<Rightarrow> 'a machine_scheme \<times> intr_status" where
  "intr_enable m =
     (if INTR_ON = intr_get_status m then (m, INTR_ON) else (sti m, INTR_OFF))"

definition intr_disable :: "'a machine_scheme \<Rightarrow> 'a machine_scheme \<times> intr_status" where
  "intr_disable m =
     (if INTR_ON = intr_get_status m then (cli m, INTR_ON) else (m, INTR_OFF))"

definition intr_set_status ::
  "intr_status \<Rightarrow> 'a machine_scheme \<Rightarrow> 'a machine_scheme \<times> intr_status" where
  "intr_set_status status m = (if status = INTR_ON then intr_enable m else intr_disable m)"

text \<open>How a routine that may stop the machine ends: it returns, or it stays in a loop.\<close>

datatype handler_end = Returned | Hung

text \<open>
  What \<^verbatim>\<open>panic_spin\<close> does before its endless loop. The result type \<open>'a res\<close> of the prelude keeps
  only the condition.
\<close>

definition panic_spin ::
  "string \<Rightarrow> u32 \<Rightarrow> string \<Rightarrow> string \<Rightarrow> 'a machine_scheme \<Rightarrow> 'a machine_scheme \<times> handler_end" where
  "panic_spin filename line func condition m =
     (let m1 = fst (intr_disable m);
          m2 = put_str (NL @ NL @ NL @ ''!!!!! error !!!!!'' @ NL) m1;
          m3 = put_str NL (put_str filename (put_str ''filename:'' m2));
          m4 = put_str NL (emit (Put_int line) (put_str ''line:0x'' m3));
          m5 = put_str NL (put_str func (put_str ''function:'' m4));
          m6 = put_str NL (put_str condition (put_str ''condition:'' m5))
      in (m6, Hung))"

section \<open>Critical sections\<close>

lemma bit_EFLAGS_IF [simp]: "bit EFLAGS_IF n \<longleftrightarrow> n = 9"
proof -
  have "EFLAGS_IF = 2 ^ 9" by (simp add: EFLAGS_IF_def)
  then have "bit EFLAGS_IF n \<longleftrightarrow> n = 9 \<and> 9 < LENGTH(32)" by (metis bit_two_pow)
  then show ?thesis by simp
qed

lemma intr_get_status_bit: "intr_get_status m = INTR_ON \<longleftrightarrow> bit (eflags m) 9"
proof -
  have "EFLAGS_IF AND eflags m = 0 \<longleftrightarrow> \<not> bit (eflags m) 9"
    by (auto simp: word_bits_iff bit_simps)
  then show ?thesis by (simp add: intr_get_status_def)
qed

lemma intr_status_sti [simp]: "intr_get_status (sti m) = INTR_ON"
  by (simp add: intr_get_status_bit sti_def bit_simps)

lemma intr_status_cli [simp]: "intr_get_status (cli m) = INTR_OFF"
  by (cases "intr_get_status (cli m)") (simp_all add: intr_get_status_bit cli_def bit_simps)

lemma sti_cli: "intr_get_status m = INTR_ON \<Longrightarrow> sti (cli m) = m"
  by (auto simp: intr_get_status_bit sti_def cli_def bit_simps
      intro!: machine.equality bit_word_eqI)

text \<open>
  A critical section: the state between \<^verbatim>\<open>intr_disable\<close> and \<^verbatim>\<open>intr_set_status\<close> is the state
  before with the interrupt flag clear, and the second call puts the flag back.
\<close>

definition critical :: "('a machine_scheme \<Rightarrow> 'a machine_scheme) \<Rightarrow> 'a machine_scheme \<Rightarrow> 'a machine_scheme"
  where "critical f m = (let (m1, old_status) = intr_disable m in fst (intr_set_status old_status (f m1)))"

lemma intr_disable_off [simp]: "intr_get_status (fst (intr_disable m)) = INTR_OFF"
  by (cases "intr_get_status m") (simp_all add: intr_disable_def)

lemma intr_disable_old [simp]: "snd (intr_disable m) = intr_get_status m"
  by (cases "intr_get_status m") (simp_all add: intr_disable_def)

lemma intr_enable_old [simp]: "snd (intr_enable m) = intr_get_status m"
  by (cases "intr_get_status m") (simp_all add: intr_enable_def)

lemma intr_set_get [simp]: "intr_get_status (fst (intr_set_status st m)) = st"
  by (cases "intr_get_status m"; cases st)
    (simp_all add: intr_set_status_def intr_enable_def intr_disable_def)

lemma intr_set_disable [simp]: "fst (intr_set_status (intr_get_status m) (fst (intr_disable m))) = m"
  by (cases "intr_get_status m") (simp_all add: intr_set_status_def intr_enable_def intr_disable_def sti_cli)

lemma critical_commute:
  assumes "\<And>m. sti (f m) = f (sti m)" and "\<And>m. eflags (f m) = eflags m"
  shows "fst (intr_set_status (intr_get_status m) (f (fst (intr_disable m)))) = f m"
proof -
  have st: "intr_get_status (f m) = intr_get_status m" for m using assms(2) by (simp add: intr_get_status_def)
  show ?thesis
    by (cases "intr_get_status m")
      (simp_all add: intr_set_status_def intr_enable_def intr_disable_def assms(1) st sti_cli)
qed

lemma critical_status: "intr_get_status (critical f m) = intr_get_status m"
  by (simp add: critical_def split_def)

lemma panic_spin_off: "intr_get_status (fst (panic_spin f l fn c m)) = INTR_OFF"
proof -
  have [simp]: "intr_get_status (put_str s m) = intr_get_status m"
    "intr_get_status (emit e m) = intr_get_status m" for s e and m :: "'a machine_scheme"
    by (simp_all add: intr_get_status_def put_str_def emit_def)
  show ?thesis by (simp add: panic_spin_def Let_def)
qed

text \<open>
  C40. The critical-section bracket of the kernel. Whatever the section does to the rest of the
  state, it starts with interrupts off, and if it leaves the flags register alone then the
  register at the end is the one found at the start.
\<close>

theorem critical_section_restores:
  assumes "\<And>m. eflags (f m) = eflags m"
  shows "intr_get_status (fst (intr_disable m)) = INTR_OFF \<and> eflags (critical f m) = eflags m"
proof -
  have eq: "eflags (fst (intr_set_status st m1)) = eflags (fst (intr_set_status st m2))"
    if "eflags m1 = eflags m2" for st :: intr_status and m1 m2 :: "'a machine_scheme"
    using that by (auto simp: intr_set_status_def intr_enable_def intr_disable_def
        intr_get_status_def sti_def cli_def)
  have "eflags (critical f m) = eflags (fst (intr_set_status (intr_get_status m) (fst (intr_disable m))))"
    unfolding critical_def split_def Let_def intr_disable_old by (rule eq) (rule assms)
  then show ?thesis by simp
qed

theorem critical_section_restores_witness:
  "intr_get_status (fst (intr_disable \<lparr>eflags = 0x202, cr2 = 0, cr3 = 0, io_log = []\<rparr>)) = INTR_OFF \<and>
   eflags (critical (put_str ''x'') \<lparr>eflags = 0x202, cr2 = 0, cr3 = 0, io_log = []\<rparr>) =
     eflags \<lparr>eflags = 0x202, cr2 = 0, cr3 = 0, io_log = []\<rparr>"
  by (rule critical_section_restores) (simp add: put_str_def emit_def)

end
