(* ===== verification/DList.thy ===== *)
theory DList
  imports Machine
begin

text \<open>
  The doubly linked list of \<^verbatim>\<open>kernel/list.c\<close>, on which the ready queue, the queue of all tasks,
  the waiters of a semaphore, the free blocks of an arena, the open inodes and the partitions are
  built. The heap gives the two pointers of the \<^verbatim>\<open>struct list_elem\<close> at every address; of the
  \<^verbatim>\<open>struct list\<close> at address \<open>l\<close> the head is the element at \<open>l\<close> and the tail the element at
  \<open>l + 8\<close>. Elements at different addresses do not overlap. The loops that follow \<^verbatim>\<open>next\<close> are partial
  functions, since they need not end on a damaged list.

  The relation \<open>dll h l xs\<close> says that the heap holds, at \<open>l\<close>, a well-formed list whose elements
  are \<open>xs\<close>. Every operation is shown to implement the corresponding operation on sequences, and
  to leave a list it does not touch as it was; the locale \<open>elem_queue\<close> is the contract the other
  components use.
\<close>

record heap = machine +
  prevp :: "addr \<Rightarrow> addr"
  nextp :: "addr \<Rightarrow> addr"

abbreviation tail_of :: "addr \<Rightarrow> addr" where
  "tail_of l \<equiv> l + 8"

definition list_init :: "addr \<Rightarrow> 'a heap_scheme \<Rightarrow> 'a heap_scheme" where
  "list_init l h =
     (let h = h\<lparr>prevp := (prevp h)(l := NULL)\<rparr>;
          h = h\<lparr>nextp := (nextp h)(l := tail_of l)\<rparr>;
          h = h\<lparr>prevp := (prevp h)(tail_of l := l)\<rparr>
      in h\<lparr>nextp := (nextp h)(tail_of l := NULL)\<rparr>)"

definition list_insert_before :: "addr \<Rightarrow> addr \<Rightarrow> 'a heap_scheme \<Rightarrow> 'a heap_scheme" where
  "list_insert_before before elem = critical (\<lambda>h.
     let h = h\<lparr>nextp := (nextp h)(prevp h before := elem)\<rparr>;
         h = h\<lparr>prevp := (prevp h)(elem := prevp h before)\<rparr>;
         h = h\<lparr>nextp := (nextp h)(elem := before)\<rparr>
     in h\<lparr>prevp := (prevp h)(before := elem)\<rparr>)"

definition list_push :: "addr \<Rightarrow> addr \<Rightarrow> 'a heap_scheme \<Rightarrow> 'a heap_scheme" where
  "list_push plist elem h = list_insert_before (nextp h plist) elem h"

definition list_append :: "addr \<Rightarrow> addr \<Rightarrow> 'a heap_scheme \<Rightarrow> 'a heap_scheme" where
  "list_append plist elem h = list_insert_before (tail_of plist) elem h"

definition list_remove :: "addr \<Rightarrow> 'a heap_scheme \<Rightarrow> 'a heap_scheme" where
  "list_remove pelem = critical (\<lambda>h.
     let h = h\<lparr>nextp := (nextp h)(prevp h pelem := nextp h pelem)\<rparr>
     in h\<lparr>prevp := (prevp h)(nextp h pelem := prevp h pelem)\<rparr>)"

definition list_pop :: "addr \<Rightarrow> 'a heap_scheme \<Rightarrow> 'a heap_scheme \<times> addr" where
  "list_pop plist h = (let elem = nextp h plist in (list_remove elem h, elem))"

definition list_empty :: "addr \<Rightarrow> 'a heap_scheme \<Rightarrow> bool" where
  "list_empty plist h \<longleftrightarrow> nextp h plist = tail_of plist"

partial_function (option) find_from :: "(addr \<Rightarrow> addr) \<Rightarrow> addr \<Rightarrow> addr \<Rightarrow> addr \<Rightarrow> bool option" where
  "find_from nx tail obj elem =
     (if elem \<noteq> tail then if elem = obj then Some True else find_from nx tail obj (nx elem)
      else Some False)"

definition elem_find :: "addr \<Rightarrow> addr \<Rightarrow> 'a heap_scheme \<Rightarrow> bool option" where
  "elem_find plist obj_elem h = find_from (nextp h) (tail_of plist) obj_elem (nextp h plist)"

partial_function (option) traverse_from ::
  "(addr \<Rightarrow> addr) \<Rightarrow> addr \<Rightarrow> (addr \<Rightarrow> 'b \<Rightarrow> bool) \<Rightarrow> 'b \<Rightarrow> addr \<Rightarrow> addr option" where
  "traverse_from nx tail func arg elem =
     (if elem \<noteq> tail then if func elem arg then Some elem else traverse_from nx tail func arg (nx elem)
      else Some NULL)"

definition list_traversal ::
  "addr \<Rightarrow> (addr \<Rightarrow> 'b \<Rightarrow> bool) \<Rightarrow> 'b \<Rightarrow> 'a heap_scheme \<Rightarrow> addr option" where
  "list_traversal plist func arg h =
     (let elem = nextp h plist in
      if list_empty plist h then Some NULL
      else traverse_from (nextp h) (tail_of plist) func arg elem)"

partial_function (option) len_from :: "(addr \<Rightarrow> addr) \<Rightarrow> addr \<Rightarrow> addr \<Rightarrow> u32 \<Rightarrow> u32 option" where
  "len_from nx tail elem len =
     (if elem \<noteq> tail then len_from nx tail (nx elem) (len + 1) else Some len)"

definition list_len :: "addr \<Rightarrow> 'a heap_scheme \<Rightarrow> u32 option" where
  "list_len plist h = len_from (nextp h) (tail_of plist) (nextp h plist) 0"

section \<open>Pointer updates of the operations\<close>

lemma critical_ptrs [simp]:
  "nextp (critical f h) = nextp (f (fst (intr_disable h)))"
  "prevp (critical f h) = prevp (f (fst (intr_disable h)))"
  by (simp_all add: critical_def split_def intr_set_status_def intr_enable_def intr_disable_def
      sti_def cli_def)

lemma intr_disable_ptrs [simp]:
  "nextp (fst (intr_disable h)) = nextp h" "prevp (fst (intr_disable h)) = prevp h"
  by (simp_all add: intr_disable_def cli_def)

lemma insert_before_ptrs:
  "nextp (list_insert_before b e h) = (nextp h)(prevp h b := e, e := b)"
  "prevp (list_insert_before b e h) = (prevp h)(e := prevp h b, b := e)"
  by (simp_all add: list_insert_before_def Let_def)

lemma remove_ptrs:
  "nextp (list_remove e h) = (nextp h)(prevp h e := nextp h e)"
  "prevp (list_remove e h) = (prevp h)(((nextp h)(prevp h e := nextp h e)) e := prevp h e)"
  by (simp_all add: list_remove_def Let_def)

section \<open>Well-formed lists\<close>

definition linked :: "'a heap_scheme \<Rightarrow> addr \<Rightarrow> addr \<Rightarrow> bool" where
  "linked h a b \<longleftrightarrow> nextp h a = b \<and> prevp h b = a"

definition dll :: "'a heap_scheme \<Rightarrow> addr \<Rightarrow> addr list \<Rightarrow> bool" where
  "dll h l xs \<longleftrightarrow> successively (linked h) (l # xs @ [tail_of l]) \<and> distinct (l # xs @ [tail_of l])"

lemma successively_neighbours:
  assumes "\<And>x y. x \<in> set (butlast zs) \<Longrightarrow> y \<in> set (tl zs) \<Longrightarrow> P x y = Q x y"
  shows "successively P zs = successively Q zs"
  using assms
proof (induction zs rule: induct_list012)
  case (3 x y zs)
  then have "successively P (y # zs) = successively Q (y # zs)"
    by (auto split: if_splits)
  with 3(3) [of x y] show ?case by simp
qed auto

lemma successively_relink:
  assumes "successively (linked h) us \<and> successively (linked h) vs"
    and "us \<noteq> []" and "vs \<noteq> []" and "distinct (us @ vs)"
    and "\<And>x. x \<in> set (us @ vs) \<Longrightarrow> x \<noteq> last us \<Longrightarrow> nextp h' x = nextp h x"
    and "\<And>x. x \<in> set (us @ vs) \<Longrightarrow> x \<noteq> hd vs \<Longrightarrow> prevp h' x = prevp h x"
  shows "successively (linked h') us" and "successively (linked h') vs"
proof -
  have u: "x \<in> set us \<and> x \<noteq> last us" if "x \<in> set (butlast us)" for x
    using that assms(4) by (metis append_butlast_last_id assms(2) distinct_append in_set_butlastD
        not_distinct_conv_prefix)
  have v: "y \<in> set vs \<and> y \<noteq> hd vs" if "y \<in> set (tl vs)" for y
    using that assms(3,4) by (cases vs) auto
  have sep: "y \<noteq> hd vs" if "y \<in> set us" for y using that assms(3,4) by (cases vs) auto
  have sep': "x \<noteq> last us" if "x \<in> set vs" for x 
    using that last_in_set [OF assms(2)] assms(4) by auto
  have "linked h' x y = linked h x y" if "x \<in> set (butlast us)" "y \<in> set us" for x y
    using u [OF that(1)] sep [OF that(2)] that(2) assms(5) [of x] assms(6) [of y] by (simp add: linked_def)
  then have "successively (linked h') us = successively (linked h) us"
    by (intro successively_neighbours) (auto dest: list.set_sel(2) [OF assms(2)])
  moreover have "linked h' x y = linked h x y" if "x \<in> set vs" "y \<in> set (tl vs)" for x y
    using v [OF that(2)] sep' [OF that(1)] that(1) assms(5) [of x] assms(6) [of y] by (simp add: linked_def)
  then have "successively (linked h') vs = successively (linked h) vs"
    by (intro successively_neighbours) (auto dest: in_set_butlastD)
  ultimately show "successively (linked h') us" "successively (linked h') vs"
    using assms(1) by simp_all
qed

lemma insert_before_segment:
  assumes "successively (linked h) (us @ vs)" and "us \<noteq> []" and "vs \<noteq> []" and "distinct (us @ vs)"
    and "e \<notin> set (us @ vs)"
  shows "successively (linked (list_insert_before (hd vs) e h)) (us @ e # vs)"
proof -
  let ?h = "list_insert_before (hd vs) e h"
  have mem: "last us \<in> set us" "hd vs \<in> set vs" using assms(2,3) by simp_all
  have p: "prevp h (hd vs) = last us"
    and old: "successively (linked h) us \<and> successively (linked h) vs"
    using assms(1-3) by (simp_all add: successively_append_iff linked_def)
  have seg: "successively (linked ?h) us" "successively (linked ?h) vs"
    by (rule successively_relink [OF old assms(2-4)]; use assms(5) p in \<open>auto simp: insert_before_ptrs\<close>)+
  have "last us \<noteq> e" "hd vs \<noteq> e" using mem assms(5) by auto
  then have "linked ?h (last us) e" "linked ?h e (hd vs)"
    using p by (auto simp: insert_before_ptrs linked_def)
  with seg show ?thesis using assms(2,3) by (simp add: successively_append_iff successively_Cons)
qed

lemma remove_segment:
  assumes "successively (linked h) (us @ e # vs)" and "us \<noteq> []" and "vs \<noteq> []"
    and "distinct (us @ e # vs)"
  shows "successively (linked (list_remove e h)) (us @ vs)"
proof -
  let ?h = "list_remove e h"
  have mem: "last us \<in> set us" "hd vs \<in> set vs" using assms(2,3) by simp_all
  then have ne: "last us \<noteq> e" "hd vs \<noteq> e" "last us \<noteq> hd vs" using assms(4) by auto
  have p: "prevp h e = last us" "nextp h e = hd vs"
    and old: "successively (linked h) us \<and> successively (linked h) vs"
    using assms(1-3) by (simp_all add: successively_append_iff linked_def successively_Cons)
  have "distinct (us @ vs)" "e \<notin> set (us @ vs)" using assms(4) by auto
  then have "successively (linked ?h) us" "successively (linked ?h) vs"
    by (intro successively_relink [OF old assms(2,3)]; use p ne in \<open>auto simp: remove_ptrs\<close>)+
  moreover have "linked ?h (last us) (hd vs)" using p ne by (simp add: remove_ptrs linked_def)
  ultimately show ?thesis using assms(2,3) by (simp add: successively_append_iff)
qed


lemma insert_before_dll:
  assumes "dll h l (xs @ ys)" and "e \<notin> set (l # xs @ ys @ [tail_of l])"
  shows "dll (list_insert_before (hd (ys @ [tail_of l])) e h) l (xs @ e # ys)"
  using assms insert_before_segment [of h "l # xs" "ys @ [tail_of l]" e] by (auto simp: dll_def)

lemma remove_dll:
  assumes "dll h l (xs @ e # ys)"
  shows "dll (list_remove e h) l (xs @ ys)"
  using assms remove_segment [of h "l # xs" e "ys @ [tail_of l]"] by (auto simp: dll_def)

section \<open>The operations implement sequences\<close>

lemma dll_init: "dll (list_init l h) l []"
  by (simp add: dll_def linked_def list_init_def Let_def)

lemma dll_hd: "dll h l xs \<Longrightarrow> nextp h l = hd (xs @ [tail_of l])"
  by (cases xs) (auto simp: dll_def linked_def)

lemma append_dll:
  "dll h l xs \<Longrightarrow> e \<notin> set (l # xs @ [tail_of l]) \<Longrightarrow> dll (list_append l e h) l (xs @ [e])"
  using insert_before_dll [of h l xs "[]" e] by (simp add: list_append_def)

lemma push_dll:
  "dll h l xs \<Longrightarrow> e \<notin> set (l # xs @ [tail_of l]) \<Longrightarrow> dll (list_push l e h) l (e # xs)"
  using insert_before_dll [of h l "[]" xs e] by (simp add: list_push_def dll_hd)

lemma pop_dll:
  "dll h l (x # xs) \<Longrightarrow> snd (list_pop l h) = x \<and> dll (fst (list_pop l h)) l xs"
  using remove_dll [of h l "[]" x xs] dll_hd [of h l "x # xs"] by (simp add: list_pop_def Let_def)

lemma empty_dll: "dll h l xs \<Longrightarrow> list_empty l h \<longleftrightarrow> xs = []"
  by (cases xs) (auto simp: list_empty_def linked_def dll_def)

text \<open>A loop that starts at the first of \<open>xs\<close> and follows the forward pointers to \<open>t\<close>.\<close>

lemma find_from_segment:
  assumes "successively (linked h) (xs @ [t])" and "t \<notin> set xs"
  shows "find_from (nextp h) t obj (hd (xs @ [t])) = Some (obj \<in> set xs)"
  using assms
proof (induction xs)
  case (Cons x xs)
  then have "nextp h x = hd (xs @ [t])" by (cases xs) (auto simp: linked_def)
  with Cons show ?case
    by (subst find_from.simps) (auto simp: successively_Cons)
qed (simp add: find_from.simps)

lemma traverse_from_segment:
  assumes "successively (linked h) (xs @ [t])" and "t \<notin> set xs"
  shows "traverse_from (nextp h) t f a (hd (xs @ [t])) =
    Some (case List.find (\<lambda>x. f x a) xs of None \<Rightarrow> NULL | Some x \<Rightarrow> x)"
  using assms
proof (induction xs)
  case (Cons x xs)
  then have "nextp h x = hd (xs @ [t])" by (cases xs) (auto simp: linked_def)
  with Cons show ?case
    by (subst traverse_from.simps) (auto simp: successively_Cons)
qed (simp add: traverse_from.simps)

lemma len_from_segment:
  assumes "successively (linked h) (xs @ [t])" and "t \<notin> set xs"
  shows "len_from (nextp h) t (hd (xs @ [t])) n = Some (n + of_nat (length xs))"
  using assms
proof (induction xs arbitrary: n)
  case (Cons x xs)
  then have "nextp h x = hd (xs @ [t])" by (cases xs) (auto simp: linked_def)
  with Cons show ?case
    by (subst len_from.simps) (auto simp: successively_Cons)
qed (simp add: len_from.simps)

lemma dll_segment:
  "dll h l xs \<Longrightarrow> successively (linked h) (xs @ [tail_of l]) \<and> tail_of l \<notin> set xs"
  by (cases xs) (auto simp: dll_def)

lemma find_dll: "dll h l xs \<Longrightarrow> elem_find l e h = Some (e \<in> set xs)"
  using dll_segment [of h l xs] by (simp add: elem_find_def dll_hd find_from_segment)

lemma traversal_dll:
  "dll h l xs \<Longrightarrow>
   list_traversal l f a h = Some (case List.find (\<lambda>x. f x a) xs of None \<Rightarrow> NULL | Some x \<Rightarrow> x)"
  using dll_segment [of h l xs] traverse_from_segment [of h xs "tail_of l" f a]
  by (cases xs) (auto simp: list_traversal_def dll_hd empty_dll)

lemma len_dll: "dll h l xs \<Longrightarrow> list_len l h = Some (of_nat (length xs))"
  using dll_segment [of h l xs] by (simp add: list_len_def dll_hd len_from_segment)

section \<open>The contract of the queue\<close>

fun pop_many :: "('s \<Rightarrow> 's \<times> 'e) \<Rightarrow> nat \<Rightarrow> 's \<Rightarrow> 's \<times> 'e list" where
  "pop_many pop 0 s = (s, [])"
| "pop_many pop (Suc n) s =
     (let (s1, x) = pop s; (s2, xs) = pop_many pop n s1 in (s2, x # xs))"

locale elem_queue =
  fixes rep :: "'s \<Rightarrow> 'e list \<Rightarrow> bool" and ok :: "'e \<Rightarrow> bool"
    and append push remove :: "'e \<Rightarrow> 's \<Rightarrow> 's" and pop :: "'s \<Rightarrow> 's \<times> 'e"
    and empty :: "'s \<Rightarrow> bool"
  assumes append_rep: "rep s xs \<Longrightarrow> ok e \<Longrightarrow> e \<notin> set xs \<Longrightarrow> rep (append e s) (xs @ [e])"
    and push_rep: "rep s xs \<Longrightarrow> ok e \<Longrightarrow> e \<notin> set xs \<Longrightarrow> rep (push e s) (e # xs)"
    and remove_rep: "rep s (xs @ e # ys) \<Longrightarrow> rep (remove e s) (xs @ ys)"
    and pop_rep: "rep s (x # xs) \<Longrightarrow> snd (pop s) = x \<and> rep (fst (pop s)) xs"
    and empty_rep: "rep s xs \<Longrightarrow> empty s \<longleftrightarrow> xs = []"
    and rep_ok: "rep s xs \<Longrightarrow> distinct xs \<and> (\<forall>e\<in>set xs. ok e)"
begin


lemma rep_unique: "rep s xs \<Longrightarrow> rep s ys \<Longrightarrow> xs = ys"
proof (induction xs arbitrary: s ys)
  case Nil
  then show ?case using empty_rep by blast
next
  case (Cons x xs)
  then obtain y ys' where "ys = y # ys'" using empty_rep by (metis list.exhaust list.discI)
  with Cons show ?case using pop_rep [of s x xs] pop_rep [of s y ys'] by auto
qed

lemma appends_rep:
  "rep s xs \<Longrightarrow> distinct (xs @ es) \<Longrightarrow> \<forall>e\<in>set es. ok e \<Longrightarrow> rep (fold append es s) (xs @ es)"
proof (induction es arbitrary: s xs)
  case (Cons e es)
  then have "rep (append e s) (xs @ [e])" by (intro append_rep) auto
  with Cons.IH [of "append e s" "xs @ [e]"] Cons.prems show ?case by auto
qed simp

lemma pops_rep: "rep s (xs @ ys) \<Longrightarrow>
    snd (pop_many pop (length xs) s) = xs \<and> rep (fst (pop_many pop (length xs) s)) ys"
proof (induction xs arbitrary: s)
  case (Cons x xs)
  then have "snd (pop s) = x" "rep (fst (pop s)) (xs @ ys)" using pop_rep [of s x "xs @ ys"] by auto
  with Cons.IH [of "fst (pop s)"] show ?case by (auto simp: split_def Let_def)
qed simp

lemma fifo:
  assumes "rep s xs" and "distinct (xs @ es)" and "\<forall>e\<in>set es. ok e"
  shows "snd (pop_many pop (length (xs @ es)) (fold append es s)) = xs @ es"
  using appends_rep [OF assms] pops_rep [of _ "xs @ es" "[]"] by simp

lemma rotate:
  assumes "rep s (x # xs)"
  shows "rep (append x (fst (pop s))) (xs @ [x])"
  using assms pop_rep [of s x xs] rep_ok [of s "x # xs"] by (auto intro: append_rep)

lemma move_to_front:
  assumes "rep s (xs @ x # ys)"
  shows "rep (push x (remove x s)) (x # xs @ ys)"
  using remove_rep [OF assms] rep_ok [OF assms] by (auto intro: push_rep)

end

interpretation dq: elem_queue "\<lambda>h. dll h l" "\<lambda>e. e \<noteq> l \<and> e \<noteq> tail_of l"
  "list_append l" "list_push l" list_remove "list_pop l" "list_empty l" for l
proof
  fix h :: "'a heap_scheme" and xs ys :: "addr list" and e :: addr
  assume h: "dll h l xs"
  show "distinct xs \<and> (\<forall>e\<in>set xs. e \<noteq> l \<and> e \<noteq> tail_of l)" using h by (auto simp: dll_def)
  show "list_empty l h \<longleftrightarrow> xs = []" using h by (rule empty_dll)
  assume "e \<noteq> l \<and> e \<noteq> tail_of l" and "e \<notin> set xs"
  then have "e \<notin> set (l # xs @ [tail_of l])" by simp
  with h show "dll (list_append l e h) l (xs @ [e])" "dll (list_push l e h) l (e # xs)"
    by (rule append_dll, rule push_dll)
qed (rule remove_dll pop_dll, assumption)+

section \<open>Frame\<close>

lemma dll_cong:
  assumes "dll h k ys" and "\<And>x. x \<in> set (k # ys @ [tail_of k]) \<Longrightarrow> nextp h' x = nextp h x"
    and "\<And>x. x \<in> set (k # ys @ [tail_of k]) \<Longrightarrow> prevp h' x = prevp h x"
  shows "dll h' k ys"
proof -
  have "successively (linked h') (k # ys @ [tail_of k]) = successively (linked h) (k # ys @ [tail_of k])"
    by (rule successively_neighbours)
      (auto simp: linked_def assms(2,3) dest!: in_set_butlastD list.set_sel(2) [rotated] simp del: butlast.simps)
  then show ?thesis using assms(1) by (simp add: dll_def)
qed

definition nodes :: "addr \<Rightarrow> addr list \<Rightarrow> addr set" where
  "nodes l xs = set (l # xs @ [tail_of l])"

lemma nodes_hd: "hd (ys @ [tail_of l]) \<in> nodes l (xs @ ys)"
  by (cases ys) (auto simp: nodes_def)

lemma dll_prev_node:
  assumes "dll h l (xs @ ys)"
  shows "prevp h (hd (ys @ [tail_of l])) \<in> nodes l (xs @ ys)"
proof -
  have "linked h (last (l # xs)) (hd (ys @ [tail_of l]))"
    using assms successively_append_iff [of "linked h" "l # xs" "ys @ [tail_of l]"] by (auto simp: dll_def)
  then have "prevp h (hd (ys @ [tail_of l])) = last (l # xs)" by (simp add: linked_def)
  then show ?thesis using last_in_set [of "l # xs"] by (auto simp: nodes_def)
qed

lemma insert_before_frame:
  assumes "dll h l (xs @ ys)" and "dll h k zs" and "nodes l (xs @ ys) \<inter> nodes k zs = {}"
    and "e \<notin> nodes k zs"
  shows "dll (list_insert_before (hd (ys @ [tail_of l])) e h) k zs"
proof (rule dll_cong [OF assms(2)])
  fix x assume "x \<in> set (k # zs @ [tail_of k])"
  then have "x \<in> nodes k zs" by (simp add: nodes_def)
  then have "x \<noteq> e" "x \<noteq> prevp h (hd (ys @ [tail_of l]))" "x \<noteq> hd (ys @ [tail_of l])"
    using nodes_hd [of ys l xs] dll_prev_node [OF assms(1)] assms(3,4) by blast+
  then show "nextp (list_insert_before (hd (ys @ [tail_of l])) e h) x = nextp h x"
    "prevp (list_insert_before (hd (ys @ [tail_of l])) e h) x = prevp h x"
    by (simp_all add: insert_before_ptrs)
qed

lemma remove_frame:
  assumes "dll h l (xs @ e # ys)" and "dll h k zs" and "nodes l (xs @ e # ys) \<inter> nodes k zs = {}"
  shows "dll (list_remove e h) k zs"
proof (rule dll_cong [OF assms(2)])
  fix x assume "x \<in> set (k # zs @ [tail_of k])"
  then have x: "x \<in> nodes k zs" by (simp add: nodes_def)
  have d: "successively (linked h) ((l # xs) @ e # ys @ [tail_of l])" "e \<notin> set (l # xs)"
    using assms(1) by (auto simp: dll_def)
  then have "linked h (last (l # xs)) e" "linked h e (hd (ys @ [tail_of l]))"
    by (auto simp: successively_append_iff successively_Cons)
  then have pq: "prevp h e = last (l # xs)" "nextp h e = hd (ys @ [tail_of l])"
    by (simp_all add: linked_def)
  have "prevp h e \<in> nodes l (xs @ e # ys)" "prevp h e \<noteq> e"
    using last_in_set [of "l # xs"] d(2) unfolding pq by (auto simp: nodes_def)
  moreover have "nextp h e \<in> nodes l (xs @ e # ys)"
    using nodes_hd [of ys l "xs @ [e]"] unfolding pq by simp
  ultimately have "prevp h e \<noteq> e" "x \<noteq> prevp h e" "x \<noteq> nextp h e"
    using x assms(3) by blast+
  then show "nextp (list_remove e h) x = nextp h x" "prevp (list_remove e h) x = prevp h x"
    by (simp_all add: remove_ptrs)
qed

lemma append_frame:
  assumes "dll h l xs" and "dll h k zs" and "nodes l xs \<inter> nodes k zs = {}" and "e \<notin> nodes k zs"
  shows "dll (list_append l e h) k zs"
  using insert_before_frame [of h l xs "[]"] assms by (simp add: list_append_def)

section \<open>Properties\<close>

text \<open>
  C35. First in, first out. Elements appended to a well-formed list leave it, through
  \<^verbatim>\<open>list_pop\<close>, after the elements it held and in the order of the appends.
\<close>

theorem list_fifo:
  assumes "dll h l xs" and "distinct (xs @ es)" and "\<forall>e\<in>set es. e \<noteq> l \<and> e \<noteq> tail_of l"
  shows "snd (pop_many (list_pop l) (length (xs @ es)) (fold (list_append l) es h)) = xs @ es"
  by (rule dq.fifo [OF assms])

definition heap_zero :: heap where
  "heap_zero = \<lparr>eflags = 2, cr2 = 0, cr3 = 0, io_log = [], prevp = (\<lambda>_. 0), nextp = (\<lambda>_. 0)\<rparr>"

theorem list_fifo_witness:
  "snd (pop_many (list_pop 0x100) (Suc (Suc 0)) (fold (list_append 0x100) [0x200, 0x300] (list_init 0x100 heap_zero)))
     = [0x200, 0x300]"
  using list_fifo [OF dll_init [of "0x100" heap_zero], of "[0x200, 0x300]"] by simp

text \<open>
  The searches end on a well-formed list and find what is there: membership, the length
  modulo the width of the counter, and the first element that satisfies the callback, or
  \<^verbatim>\<open>NULL\<close>.
\<close>

theorem list_searches:
  assumes "dll h l xs"
  shows "elem_find l e h = Some (e \<in> set xs) \<and> list_len l h = Some (of_nat (length xs)) \<and>
    list_empty l h = (xs = []) \<and>
    list_traversal l f a h = Some (case List.find (\<lambda>x. f x a) xs of None \<Rightarrow> NULL | Some x \<Rightarrow> x)"
  using assms by (simp add: find_dll len_dll empty_dll traversal_dll)

theorem list_searches_witness:
  "elem_find 0x100 0x200 (list_append 0x100 0x200 (list_init 0x100 heap_zero)) = Some True \<and>
   list_len 0x100 (list_append 0x100 0x200 (list_init 0x100 heap_zero)) = Some 1"
  using list_searches [OF append_dll [OF dll_init [of "0x100" heap_zero], of "0x200"], of "0x200" "\<lambda>_ _. True" "0 :: u32"]
  by simp

text \<open>
  Moving an element from one list to the end of another, as every change of a task's queue
  does: both lists stay well-formed, the first loses exactly that element and the second gains it.
\<close>

theorem list_move:
  assumes "dll h l (xs @ e # ys)" and "dll h k zs" and "nodes l (xs @ e # ys) \<inter> nodes k zs = {}"
  shows "dll (list_append k e (list_remove e h)) l (xs @ ys) \<and>
    dll (list_append k e (list_remove e h)) k (zs @ [e])"
proof -
  have k: "dll (list_remove e h) k zs" by (rule remove_frame [OF assms])
  have l: "dll (list_remove e h) l (xs @ ys)" by (rule remove_dll [OF assms(1)])
  have e: "e \<notin> nodes k zs" "e \<notin> nodes l (xs @ ys)"
    using assms(1,3) by (auto simp: dll_def nodes_def)
  moreover have "nodes k zs \<inter> nodes l (xs @ ys) = {}" using assms(3) by (auto simp: nodes_def)
  ultimately show ?thesis
    using append_frame [OF k l] append_dll [OF k, of e] by (simp add: nodes_def)
qed

theorem list_move_witness:
  "dll (list_append 0x900 0x200 (list_remove 0x200
      (list_init 0x900 (list_append 0x100 0x200 (list_init 0x100 heap_zero))))) 0x900 [0x200]"
proof -
  let ?h = "list_append 0x100 0x200 (list_init 0x100 heap_zero)"
  have "dll ?h 0x100 [0x200]" using append_dll [OF dll_init [of "0x100" heap_zero], of "0x200"] by simp
  then have "dll (list_init 0x900 ?h) 0x100 [0x200]"
    by (rule dll_cong) (auto simp: list_init_def Let_def)
  then have "dll (list_init 0x900 ?h) 0x100 ([] @ 0x200 # [])" by simp
  from list_move [OF this dll_init] show ?thesis by (simp add: nodes_def)
qed

end
