(* ===== verification/Allocator.thy ===== *)
theory Allocator
  imports Prelude
begin

text \<open>
  The contract that the kernel's bitmap allocators share. The physical page pools, the pid
  pool, the inode bitmap and the block bitmap of a partition all hand out an identifier that is
  not in use, mark it, and take it back later. The locale states this contract over an arbitrary
  state; its lemmas (several allocations never collide, an allocation undone by a release,
  exactly as many allocations succeed as there are free identifiers) are proved once, and each
  pool interprets it on its own operations.
\<close>

text \<open>A client that allocates \<open>n\<close> identifiers one after the other.\<close>

fun alloc_many :: "('s \<Rightarrow> ('s \<times> 'i) res) \<Rightarrow> nat \<Rightarrow> 's \<Rightarrow> ('s \<times> 'i list) res" where
  "alloc_many alloc 0 s = Inr (s, [])"
| "alloc_many alloc (Suc n) s =
     bindR (alloc s) (\<lambda>(s1, i). bindR (alloc_many alloc n s1) (\<lambda>(s2, is). Inr (s2, i # is)))"

locale id_allocator =
  fixes alloc :: "'s \<Rightarrow> ('s \<times> 'i) res"
    and free :: "'s \<Rightarrow> 'i \<Rightarrow> 's res"
    and live :: "'s \<Rightarrow> 'i set"
    and ids :: "'s \<Rightarrow> 'i set"
    and invar :: "'s \<Rightarrow> bool"
  assumes finite_ids: "invar s \<Longrightarrow> finite (ids s)"
    and live_ids: "invar s \<Longrightarrow> live s \<subseteq> ids s"
    and alloc_fresh: "invar s \<Longrightarrow> live s \<noteq> ids s \<Longrightarrow>
      \<exists>s' i. alloc s = Inr (s', i) \<and> i \<in> ids s - live s \<and> live s' = insert i (live s)
        \<and> ids s' = ids s \<and> invar s'"
    and alloc_full: "invar s \<Longrightarrow> live s = ids s \<Longrightarrow> \<not> returns (alloc s)"
    and free_live: "invar s \<Longrightarrow> i \<in> live s \<Longrightarrow>
      \<exists>s'. free s i = Inr s' \<and> live s' = live s - {i} \<and> ids s' = ids s \<and> invar s'"
begin

lemma alloc_returns_iff: "invar s \<Longrightarrow> returns (alloc s) \<longleftrightarrow> live s \<noteq> ids s"
  using alloc_fresh alloc_full by fastforce

lemma alloc_result:
  assumes "invar s" and "alloc s = Inr (s', i)"
  shows "i \<in> ids s" "i \<notin> live s" "live s' = insert i (live s)" "ids s' = ids s" "invar s'"
proof -
  have "live s \<noteq> ids s" using assms alloc_full [OF assms(1)] by auto
  then show "i \<in> ids s" "i \<notin> live s" "live s' = insert i (live s)" "ids s' = ids s" "invar s'"
    using alloc_fresh [OF assms(1)] assms(2) by auto
qed

lemma alloc_then_free:
  assumes "invar s" and "alloc s = Inr (s', i)"
  shows "\<exists>s''. free s' i = Inr s'' \<and> live s'' = live s \<and> ids s'' = ids s \<and> invar s''"
proof -
  note a = alloc_result [OF assms]
  have "i \<in> live s'" using a by simp
  from free_live [OF a(5) this] show ?thesis using a by auto
qed

lemma free_then_available:
  assumes "invar s" and "i \<in> live s" and "free s i = Inr s'"
  shows "returns (alloc s')"
proof -
  have "live s' = live s - {i}" "ids s' = ids s" "invar s'" using free_live [OF assms(1,2)] assms(3) by auto
  then show ?thesis using live_ids [OF assms(1)] assms(2) alloc_returns_iff [of s'] by blast
qed

lemma alloc_many_result:
  assumes "invar s" and "alloc_many alloc n s = Inr (s', is)"
  shows "length is = n \<and> distinct is \<and> set is \<subseteq> ids s - live s \<and> live s' = live s \<union> set is
    \<and> ids s' = ids s \<and> invar s'"
  using assms
proof (induction n arbitrary: s s' "is")
  case (Suc n)
  from Suc.prems(2) obtain s1 i js where
    one: "alloc s = Inr (s1, i)" and rest: "alloc_many alloc n s1 = Inr (s', js)" and eq: "is = i # js"
    by (auto simp: res_iff)
  note a = alloc_result [OF Suc.prems(1) one]
  show ?case using Suc.IH [OF a(5) rest] a eq by auto
qed simp

lemma alloc_many_returns_iff:
  assumes "invar s"
  shows "returns (alloc_many alloc n s) \<longleftrightarrow> n \<le> card (ids s - live s)"
  using assms
proof (induction n arbitrary: s)
  case (Suc n)
  show ?case
  proof (cases "live s = ids s")
    case True
    then obtain e where "alloc s = Inl e" using alloc_full [OF Suc.prems] by (cases "alloc s") auto
    with True show ?thesis by simp
  next
    case False
    then obtain s1 i where one: "alloc s = Inr (s1, i)" using alloc_fresh [OF Suc.prems] by blast
    note a = alloc_result [OF Suc.prems one]
    have "ids s - live s = insert i (ids s1 - live s1)" "i \<notin> ids s1 - live s1" using a by auto
    then have "card (ids s - live s) = Suc (card (ids s1 - live s1))"
      using finite_ids [OF a(5)] by simp
    moreover have "returns (alloc_many alloc (Suc n) s) \<longleftrightarrow> returns (alloc_many alloc n s1)"
      using one by (cases "alloc_many alloc n s1") auto
    ultimately show ?thesis using Suc.IH [OF a(5)] by simp
  qed
qed simp

end

end
