(* ===== verification/Bitmap.thy ===== *)
theory Bitmap
  imports Allocator
begin

text \<open>
  \<^verbatim>\<open>kernel/bitmap.c\<close> and \<^verbatim>\<open>lib/bitmap.h\<close>. The field \<open>bits\<close> is the memory that begins at the
  pointer \<^verbatim>\<open>bits\<close> of the C structure: it is a total function because C code can, and
  \<^verbatim>\<open>bitmap_scan\<close> does, read the bytes that follow the \<open>btmp_bytes_len\<close> bytes of the map.
  Indices are 32-bit words as in the source. The abstraction \<open>bm_bit\<close> reads the map as a
  predicate on natural numbers; \<open>bm_used\<close> is the set of allocated indices.
\<close>

record bitmap =
  btmp_bytes_len :: u32
  bits :: "u32 \<Rightarrow> u8"

definition bitmap_init :: "bitmap \<Rightarrow> bitmap" where
  "bitmap_init btmp = btmp\<lparr>bits := \<lambda>k. if k < btmp_bytes_len btmp then 0 else bits btmp k\<rparr>"

definition bitmap_scan_test :: "bitmap \<Rightarrow> u32 \<Rightarrow> bool" where
  "bitmap_scan_test btmp bit_idx =
     (let byte_idx = bit_idx div 8; bit_odd = bit_idx mod 8
      in bits btmp byte_idx AND push_bit (unat bit_odd) 1 \<noteq> 0)"

text \<open>The three loops of \<^verbatim>\<open>bitmap_scan\<close>.\<close>

function scan_byte :: "bitmap \<Rightarrow> u32 \<Rightarrow> u32" where
  "scan_byte btmp idx_byte =
     (if bits btmp idx_byte = 0xff \<and> idx_byte < btmp_bytes_len btmp
      then scan_byte btmp (idx_byte + 1) else idx_byte)"
  by pat_completeness auto
termination
  by (relation "measure (\<lambda>(b, i). unat (btmp_bytes_len b) - unat i)")
    (auto simp: unat_succ_lt word_less_nat_alt)

function scan_bit :: "u8 \<Rightarrow> nat \<Rightarrow> nat" where
  "scan_bit byte idx_bit =
     (if push_bit idx_bit 1 AND byte \<noteq> 0 then scan_bit byte (idx_bit + 1) else idx_bit)"
  by pat_completeness auto
termination
proof (relation "measure (\<lambda>(b, i). 8 - i)")
  fix byte :: u8 and i :: nat
  assume "push_bit i 1 AND byte \<noteq> 0"
  then have "i < 8" by (rule contrapos_np) simp
  then show "((byte, i + 1), byte, i) \<in> measure (\<lambda>(b, i). 8 - i)" by simp
qed simp

fun scan_run :: "bitmap \<Rightarrow> u32 \<Rightarrow> nat \<Rightarrow> u32 \<Rightarrow> u32 \<Rightarrow> int" where
  "scan_run btmp cnt 0 next_bit count = -1"
| "scan_run btmp cnt (Suc bit_left) next_bit count =
     (let count' = (if \<not> bitmap_scan_test btmp next_bit then count + 1 else 0)
      in if count' = cnt then sint (next_bit - cnt + 1)
         else scan_run btmp cnt bit_left (next_bit + 1) count')"

definition bitmap_scan :: "bitmap \<Rightarrow> u32 \<Rightarrow> int res" where
  "bitmap_scan btmp cnt =
     (let idx_byte = scan_byte btmp 0 in
      bindR (kassert (idx_byte < btmp_bytes_len btmp) ''idx_byte < btmp->btmp_bytes_len'') (\<lambda>_.
      if idx_byte = btmp_bytes_len btmp then Inr (-1)
      else
        let idx_bit = scan_bit (bits btmp idx_byte) 0;
            bit_idx_start = idx_byte * 8 + of_nat idx_bit
        in if cnt = 1 then Inr (sint bit_idx_start)
           else Inr (scan_run btmp cnt (unat (btmp_bytes_len btmp * 8 - bit_idx_start))
                       (bit_idx_start + 1) 1)))"

definition bitmap_set :: "bitmap \<Rightarrow> u32 \<Rightarrow> u8 \<Rightarrow> bitmap res" where
  "bitmap_set btmp bit_idx value =
     bindR (kassert (value = 0 \<or> value = 1) ''(value == 0) || (value == 1)'') (\<lambda>_.
       let byte_idx = bit_idx div 8; bit_odd = bit_idx mod 8 in
       if value \<noteq> 0
       then Inr (btmp\<lparr>bits := (bits btmp)(byte_idx := bits btmp byte_idx OR push_bit (unat bit_odd) 1)\<rparr>)
       else Inr (btmp\<lparr>bits := (bits btmp)(byte_idx :=
                        bits btmp byte_idx AND NOT (push_bit (unat bit_odd) 1))\<rparr>))"

declare scan_byte.simps [simp del]
declare scan_bit.simps [simp del]

section \<open>The map as a set of indices\<close>

definition bm_bit :: "bitmap \<Rightarrow> nat \<Rightarrow> bool" where
  "bm_bit b i \<longleftrightarrow> bit (bits b (of_nat (i div 8))) (i mod 8)"

definition bm_size :: "bitmap \<Rightarrow> nat" where
  "bm_size b = 8 * unat (btmp_bytes_len b)"

definition bm_used :: "bitmap \<Rightarrow> nat set" where
  "bm_used b = {i. i < bm_size b \<and> bm_bit b i}"

definition bm_ok :: "bitmap \<Rightarrow> bool" where
  "bm_ok b \<longleftrightarrow> bm_size b < 2 ^ 31"

definition bm_full :: "bitmap \<Rightarrow> bool" where
  "bm_full b \<longleftrightarrow> (\<forall>i < bm_size b. bm_bit b i)"

lemma bitmap_scan_test_bit: "bitmap_scan_test b i \<longleftrightarrow> bm_bit b (unat i)"
proof -
  have "of_nat (unat i div 8) = i div 8" by (simp add: word_arith_nat_div)
  then show ?thesis
    by (simp add: bitmap_scan_test_def bm_bit_def Let_def unat_mod)
qed

lemma of_nat_div8_eq_iff:
  assumes "j < 2 ^ 32"
  shows "of_nat (j div 8) = (i div 8 :: u32) \<longleftrightarrow> j div 8 = unat i div 8"
  using assms by (simp add: word_unat_eq_iff unat_div unat_of_nat_lt)

lemma bitmap_set_cases:
  assumes "bitmap_set b i v = Inr b'"
  shows "(v = 0 \<or> v = 1) \<and> btmp_bytes_len b' = btmp_bytes_len b \<and>
    bits b' = (bits b)(i div 8 := (if v = 1 then bits b (i div 8) OR 2 ^ (unat i mod 8)
                                  else bits b (i div 8) AND NOT (2 ^ (unat i mod 8))))"
  using assms by (auto simp: bitmap_set_def res_iff Let_def unat_mod split: if_splits)

lemma bm_bit_set:
  assumes "bitmap_set b i v = Inr b'" and "j < 2 ^ 32"
  shows "bm_bit b' j \<longleftrightarrow> (if j = unat i then v = 1 else bm_bit b j)"
proof (cases "j div 8 = unat i div 8")
  case True
  then have eq: "of_nat (j div 8) = i div 8" using of_nat_div8_eq_iff [OF assms(2)] by simp
  have "j = unat i \<longleftrightarrow> j mod 8 = unat i mod 8"
    using True by (metis div_mult_mod_eq)
  moreover have "v = 0 \<or> v = 1" using bitmap_set_cases [OF assms(1)] by simp
  ultimately show ?thesis
    using bitmap_set_cases [OF assms(1)] eq
    by (auto simp: bm_bit_def bit_simps)
next
  case False
  then have "of_nat (j div 8) \<noteq> i div 8" using of_nat_div8_eq_iff [OF assms(2)] by simp
  with False show ?thesis
    using bitmap_set_cases [OF assms(1)] by (auto simp: bm_bit_def)
qed

lemma bitmap_set_returns: "v = 0 \<or> v = 1 \<Longrightarrow> \<exists>b'. bitmap_set b i v = Inr b'"
  by (auto simp: bitmap_set_def Let_def)

lemma bm_size_set: "bitmap_set b i v = Inr b' \<Longrightarrow> bm_size b' = bm_size b"
  by (auto dest: bitmap_set_cases simp: bm_size_def)

lemma bm_ok_set: "bitmap_set b i v = Inr b' \<Longrightarrow> bm_ok b' = bm_ok b"
  by (simp add: bm_ok_def bm_size_set)

lemma bm_used_set:
  assumes "bitmap_set b i v = Inr b'" and "bm_ok b" and "unat i < bm_size b"
  shows "bm_used b' = (if v = 1 then insert (unat i) (bm_used b) else bm_used b - {unat i})"
  using assms(2,3) bm_bit_set [OF assms(1)] bm_size_set [OF assms(1)]
  by (auto simp: bm_used_def bm_ok_def split: if_splits)

section \<open>The loops of the scan\<close>

lemma scan_byte_spec:
  assumes "i \<le> btmp_bytes_len b"
  shows "i \<le> scan_byte b i \<and> scan_byte b i \<le> btmp_bytes_len b
    \<and> (\<forall>k. i \<le> k \<and> k < scan_byte b i \<longrightarrow> bits b k = 0xff)
    \<and> (scan_byte b i < btmp_bytes_len b \<longrightarrow> bits b (scan_byte b i) \<noteq> 0xff)"
  using assms
proof (induction b i rule: scan_byte.induct)
  case (1 b i)
  show ?case
  proof (cases "bits b i = 0xff \<and> i < btmp_bytes_len b")
    case True
    then have le: "i + 1 \<le> btmp_bytes_len b"
      using unat_succ_lt [of i "btmp_bytes_len b"] by (simp add: word_le_nat_alt word_less_nat_alt)
    have step: "scan_byte b i = scan_byte b (i + 1)" using True by (simp add: scan_byte.simps [of b i])
    note IH = "1.IH" [OF True le]
    have succ: "unat (i + 1) = Suc (unat i)" using True by (blast intro: unat_succ_lt)
    then have lt: "i \<le> i + 1" by (simp add: word_le_nat_alt)
    have split: "k = i \<or> i + 1 \<le> k" if "i \<le> k" for k
      using that succ by (auto simp: word_le_nat_alt word_unat_eq_iff)
    show ?thesis unfolding step
      using IH order_trans [OF lt] True by (auto dest!: split)
  next
    case False
    then have "scan_byte b i = i" by (auto simp: scan_byte.simps [of b i])
    with False "1.prems" show ?thesis by auto
  qed
qed

lemma scan_bit_spec:
  "i \<le> scan_bit byte i \<and> (i \<le> 8 \<longrightarrow> scan_bit byte i \<le> 8)
   \<and> (\<forall>k. i \<le> k \<and> k < scan_bit byte i \<longrightarrow> bit byte k)
   \<and> (scan_bit byte i < 8 \<longrightarrow> \<not> bit byte (scan_bit byte i))"
proof (induction byte i rule: scan_bit.induct)
  case (1 byte i)
  show ?case
  proof (cases "push_bit i 1 AND byte \<noteq> 0")
    case True
    then have i: "i < 8" and bi: "bit byte i"
      using and_two_pow_eq_0 [of i byte] by (cases "i < 8"; simp add: ac_simps)+
    have step: "scan_bit byte i = scan_bit byte (i + 1)" using True by (simp add: scan_bit.simps [of byte i])
    show ?thesis using "1.IH" [OF True] i bi unfolding step
      by (auto simp: Suc_le_eq dest: le_neq_implies_less)
  next
    case False
    then have "scan_bit byte i = i" by (simp add: scan_bit.simps [of byte i])
    moreover have "i < 8 \<Longrightarrow> \<not> bit byte i"
      using False and_two_pow_eq_0 [of i byte] by (simp add: ac_simps)
    ultimately show ?thesis by auto
  qed
qed

lemma byte_ff: "byte = 0xff \<longleftrightarrow> (\<forall>k<8. bit (byte :: u8) k)"
proof
  have ff: "(0xff :: u8) = - 1" by simp
  show "\<forall>k<8. bit byte k" if "byte = 0xff"
    unfolding that ff by simp
  show "byte = 0xff" if "\<forall>k<8. bit byte k"
    unfolding ff by (rule bit_word_eqI) (use that in simp)
qed

lemma scan_bit_not_ff:
  assumes "byte \<noteq> 0xff"
  shows "scan_bit byte 0 < 8"
proof -
  obtain k where k: "k < 8" "\<not> bit byte k" using assms byte_ff by blast
  have "\<not> k < scan_bit byte 0" using scan_bit_spec [of 0 byte] k(2) by auto
  with k(1) show ?thesis by simp
qed

text \<open>Bytes and bits: what the two loops found, as indices of the whole map.\<close>

definition run_free :: "bitmap \<Rightarrow> nat \<Rightarrow> nat \<Rightarrow> bool" where
  "run_free b start n \<longleftrightarrow> (\<forall>j. start \<le> j \<and> j < start + n \<longrightarrow> \<not> bm_bit b j)"

lemma scan_byte_full: "bm_full b \<Longrightarrow> scan_byte b 0 = btmp_bytes_len b"
proof (rule ccontr)
  assume full: "bm_full b" and ne: "scan_byte b 0 \<noteq> btmp_bytes_len b"
  let ?r = "scan_byte b 0"
  have lt: "?r < btmp_bytes_len b" and nff: "bits b ?r \<noteq> 0xff"
    using scan_byte_spec [of 0 b] ne by (auto simp: less_le)
  from nff obtain k where k: "k < 8" "\<not> bit (bits b ?r) k" using byte_ff by blast
  let ?i = "8 * unat ?r + k"
  have "?i div 8 = unat ?r" "?i mod 8 = k" using k(1) by simp_all
  then have "\<not> bm_bit b ?i" using k(2) by (simp add: bm_bit_def)
  moreover have "?i < bm_size b" using lt k(1) by (simp add: bm_size_def word_less_nat_alt)
  ultimately show False using full by (auto simp: bm_full_def)
qed

lemma first_free_index:
  assumes "\<not> bm_full b"
  defines "r \<equiv> scan_byte b 0"
  defines "i \<equiv> 8 * unat r + scan_bit (bits b r) 0"
  shows "r < btmp_bytes_len b \<and> i < bm_size b \<and> \<not> bm_bit b i \<and> (\<forall>j<i. bm_bit b j)
    \<and> scan_bit (bits b r) 0 < 8"
proof -
  note spec = scan_byte_spec [of 0 b, folded r_def, OF word_zero_le]
  have below: "bm_bit b j" if "j < 8 * unat r" for j
  proof -
    have j8: "j div 8 < unat r" using that by auto
    then have "(of_nat (j div 8) :: u32) < r"
      using unat_bound [of r] by (simp add: word_less_nat_alt unat_of_nat_lt)
    then have "bits b (of_nat (j div 8)) = 0xff" using spec by auto
    then show ?thesis unfolding bm_bit_def using byte_ff by simp
  qed
  have r: "r < btmp_bytes_len b"
  proof (rule ccontr)
    assume "\<not> r < btmp_bytes_len b"
    then have "unat r = unat (btmp_bytes_len b)" using spec by (simp add: word_le_nat_alt word_less_nat_alt)
    then have "bm_full b" using below by (simp add: bm_full_def bm_size_def)
    with assms(1) show False by simp
  qed
  then have s8: "scan_bit (bits b r) 0 < 8" using spec scan_bit_not_ff by blast
  have idx: "bm_bit b (8 * unat r + k) = bit (bits b r) k" if "k < 8" for k
    using that by (simp add: bm_bit_def)
  have i: "\<not> bm_bit b i" using scan_bit_spec [of 0 "bits b r"] s8 idx by (simp add: i_def)
  have "bm_bit b j" if "j < i" for j
  proof (cases "j < 8 * unat r")
    case False
    then obtain k where k: "j = 8 * unat r + k" by (metis le_iff_add not_less)
    with that s8 have "k < scan_bit (bits b r) 0" "k < 8" by (auto simp: i_def)
    then show ?thesis using scan_bit_spec [of 0 "bits b r"] idx k by auto
  qed (rule below)
  moreover have "i < bm_size b" using r s8 by (simp add: i_def bm_size_def word_less_nat_alt)
  ultimately show ?thesis using r s8 i by blast
qed

lemma start_word:
  assumes "\<not> bm_full b" and "bm_ok b"
  shows "unat (scan_byte b 0 * 8 + of_nat (scan_bit (bits b (scan_byte b 0)) 0))
    = 8 * unat (scan_byte b 0) + scan_bit (bits b (scan_byte b 0)) 0"
proof -
  let ?r = "scan_byte b 0" and ?k = "scan_bit (bits b (scan_byte b 0)) 0"
  have k: "?k < 8" and i: "8 * unat ?r + ?k < 2 ^ 31"
    using first_free_index [OF assms(1)] assms(2) by (auto simp: bm_ok_def)
  have m: "unat (?r * 8) = 8 * unat ?r" using i by (simp add: unat_mult_lt)
  have "unat (of_nat ?k :: u32) = ?k" using k by (simp add: unat_of_nat_lt)
  with m i show ?thesis by (simp add: unat_add_lt)
qed

lemma run_free_1: "run_free b i 1 \<longleftrightarrow> \<not> bm_bit b i"
proof -
  have "j = i \<longleftrightarrow> i \<le> j \<and> j < i + 1" for j by auto
  then show ?thesis by (metis run_free_def)
qed

lemma scan_run_spec:
  assumes "2 \<le> unat cnt" and "unat count < unat cnt" and "unat count \<le> unat nb"
    and "unat nb + n < 2 ^ 31" and "run_free b (unat nb - unat count) (unat count)"
  shows "(scan_run b cnt n nb count = -1 \<and>
            (\<forall>s. unat nb - unat count \<le> s \<and> s + unat cnt \<le> unat nb + n \<longrightarrow> \<not> run_free b s (unat cnt)))
       \<or> (\<exists>s. scan_run b cnt n nb count = int s \<and> unat nb - unat count \<le> s
            \<and> s + unat cnt \<le> unat nb + n \<and> run_free b s (unat cnt))"
  using assms(2-5)
proof (induction n arbitrary: nb count)
  case 0
  then show ?case using assms(1) by auto
next
  case (Suc n)
  have nb1: "unat (nb + 1) = unat nb + 1" using Suc.prems by (simp add: unat_add_lt)
  show ?case
  proof (cases "bm_bit b (unat nb)")
    case True
    have "unat (0::u32) < unat cnt" using assms(1) by simp
    then have IH: "(scan_run b cnt n (nb + 1) 0 = -1 \<and>
            (\<forall>s. unat (nb + 1) \<le> s \<and> s + unat cnt \<le> unat nb + 1 + n \<longrightarrow> \<not> run_free b s (unat cnt)))
       \<or> (\<exists>s. scan_run b cnt n (nb + 1) 0 = int s \<and> unat (nb + 1) \<le> s
            \<and> s + unat cnt \<le> unat nb + 1 + n \<and> run_free b s (unat cnt))"
      using Suc.IH [of 0 "nb + 1"] Suc.prems nb1 by (simp add: run_free_def)
    have "cnt \<noteq> 0" using assms(1) by auto
    then have step: "scan_run b cnt (Suc n) nb count = scan_run b cnt n (nb + 1) 0"
      using True by (simp add: bitmap_scan_test_bit)
    have "\<not> run_free b s (unat cnt)" if "unat nb - unat count \<le> s" "s \<le> unat nb" for s
      using True that Suc.prems(1,2) by (auto simp: run_free_def intro!: exI [of _ "unat nb"])
    then show ?thesis using IH unfolding step nb1 by (auto simp: not_less_eq_eq) (metis Suc_leI not_less)
  next
    case False
    have c1: "unat (count + 1) = unat count + 1"
      using Suc.prems(1) unat_bound [of cnt] by (simp add: unat_add_lt)
    have low: "unat (nb + 1) - unat (count + 1) = unat nb - unat count"
      using nb1 c1 by simp
    have free: "run_free b (unat nb - unat count) (unat count + 1)"
      using Suc.prems(2,4) False by (auto simp: run_free_def less_Suc_eq)
    show ?thesis
    proof (cases "count + 1 = cnt")
      case True
      have "unat (nb - cnt + 1) = unat nb - unat count"
      proof -
        have "nb - cnt + 1 = nb - count" using True by auto
        moreover have "unat (nb - count) = unat nb - unat count"
          using Suc.prems(2) by (rule unat_sub_le)
        ultimately show ?thesis by (simp only:)
      qed
      then have "sint (nb - cnt + 1) = int (unat nb - unat count)"
        using Suc.prems(3) by (subst sint_eq_unat) auto
      then have "scan_run b cnt (Suc n) nb count = int (unat nb - unat count)"
        using False True by (simp add: bitmap_scan_test_bit)
      moreover have "unat cnt = unat count + 1" using True c1 by simp
      ultimately show ?thesis using free Suc.prems(2) by auto
    next
      case ne: False
      then have "unat (count + 1) \<noteq> unat cnt" by (simp add: word_unat_eq_iff)
      then have lt: "unat (count + 1) < unat cnt" using Suc.prems(1) c1 by simp
      have "scan_run b cnt (Suc n) nb count = scan_run b cnt n (nb + 1) (count + 1)"
        using False ne by (simp add: bitmap_scan_test_bit)
      then show ?thesis
        using Suc.IH [OF lt, of "nb + 1"] Suc.prems free nb1 c1 low by simp
    qed
  qed
qed

section \<open>What a scan returns\<close>

lemma scan_first_fit:
  assumes "bm_ok b" and "\<not> bm_full b"
  shows "\<exists>i < bm_size b. bitmap_scan b 1 = Inr (int i) \<and> \<not> bm_bit b i \<and> (\<forall>j<i. bm_bit b j)"
proof -
  let ?r = "scan_byte b 0"
  let ?i = "8 * unat ?r + scan_bit (bits b ?r) 0"
  note f = first_free_index [OF assms(2)]
  have "?i < 2 ^ 31" using f assms(1) by (auto simp: bm_ok_def)
  then have "sint (?r * 8 + of_nat (scan_bit (bits b ?r) 0)) = int ?i"
    using start_word [OF assms(2,1)] by (subst sint_eq_unat) auto
  moreover have "?r \<noteq> btmp_bytes_len b" using f by auto
  ultimately have "bitmap_scan b 1 = Inr (int ?i)"
    using f unfolding bitmap_scan_def Let_def by (simp del: of_nat_add of_nat_mult)
  then show ?thesis using f by blast
qed

lemma scan_full:
  "bm_full b \<Longrightarrow> bitmap_scan b cnt = Inl (Assert_failed ''idx_byte < btmp->btmp_bytes_len'')"
  by (simp add: bitmap_scan_def scan_byte_full Let_def)

lemma scan_run_cases:
  assumes "bm_ok b" and "\<not> bm_full b" and "2 \<le> unat cnt"
  shows "(bitmap_scan b cnt = Inr (-1) \<and> (\<forall>s. s + unat cnt \<le> bm_size b + 1 \<longrightarrow> \<not> run_free b s (unat cnt)))
    \<or> (\<exists>s. bitmap_scan b cnt = Inr (int s) \<and> run_free b s (unat cnt) \<and> s + unat cnt \<le> bm_size b + 1)"
proof -
  let ?r = "scan_byte b 0"
  let ?w = "?r * 8 + of_nat (scan_bit (bits b ?r) 0)"
  let ?i = "unat ?w"
  note f = first_free_index [OF assms(2), folded start_word [OF assms(2,1)]]
  have size: "bm_size b + 1 < 2 ^ 31" using assms(1) by (simp add: bm_ok_def bm_size_def)
  have w1: "unat (?w + 1) = ?i + 1" using f size by (simp add: unat_add_lt)
  have "unat (btmp_bytes_len b * 8) = bm_size b" using size by (simp add: unat_mult_lt bm_size_def)
  then have left: "unat (btmp_bytes_len b * 8 - ?w) = bm_size b - ?i"
    using f by (subst unat_sub_le) auto
  have low: "?i \<le> s" if "run_free b s (unat cnt)" for s
    using that f assms(3) by (auto simp: run_free_def not_less [symmetric])
  have "cnt \<noteq> 1" "?r \<noteq> btmp_bytes_len b" using assms(3) f by auto
  then have eq: "bitmap_scan b cnt = Inr (scan_run b cnt (bm_size b - ?i) (?w + 1) 1)"
    using f left by (simp add: bitmap_scan_def Let_def)
  have start: "unat (?w + 1) - unat (1::u32) = ?i" "unat (?w + 1) + (bm_size b - ?i) = bm_size b + 1"
    using w1 f by auto
  have "run_free b (unat (?w + 1) - unat (1::u32)) (unat (1::u32))"
    using f run_free_1 start(1) by simp
  from scan_run_spec [OF assms(3) _ _ _ this, of "bm_size b - ?i"] show ?thesis
    unfolding eq start using assms(3) size w1 low by auto
qed

lemma scan_result_free:
  assumes "bm_ok b" and "bitmap_scan b cnt = Inr (int i)" and "cnt \<noteq> 0"
  shows "run_free b i (unat cnt)" "i + unat cnt \<le> bm_size b + 1"
proof -
  have nf: "\<not> bm_full b" using assms(2) scan_full [of b cnt] by auto
  have "run_free b i (unat cnt) \<and> i + unat cnt \<le> bm_size b + 1"
  proof (cases "cnt = 1")
    case True
    then show ?thesis using scan_first_fit [OF assms(1) nf] assms(2) run_free_1 by auto
  next
    case False
    then have "2 \<le> unat cnt" using assms(3) by (metis Suc_1 Suc_leI le_neq_implies_less not_less_eq_eq
      unat_1 unat_gt_0 word_eq_unat_iff less_Suc_eq_le One_nat_def)
    from scan_run_cases [OF assms(1) nf this] show ?thesis using assms(2) by auto
  qed
  then show "run_free b i (unat cnt)" "i + unat cnt \<le> bm_size b + 1" by simp_all
qed

section \<open>A bitmap as an allocator of indices\<close>

text \<open>The pattern of the kernel's allocators: scan for one free bit, set it, return its index.\<close>

definition bm_alloc :: "bitmap \<Rightarrow> (bitmap \<times> nat) res" where
  "bm_alloc b = bindR (bitmap_scan b 1) (\<lambda>i.
     bindR (bitmap_set b (word_of_int i) 1) (\<lambda>b'. Inr (b', nat i)))"

definition bm_free :: "bitmap \<Rightarrow> nat \<Rightarrow> bitmap res" where
  "bm_free b i = bitmap_set b (of_nat i) 0"

lemma bm_full_iff: "bm_full b \<longleftrightarrow> bm_used b = {..<bm_size b}"
  by (auto simp: bm_full_def bm_used_def)

interpretation bm: id_allocator bm_alloc bm_free bm_used "\<lambda>b. {..<bm_size b}" bm_ok
proof
  fix b :: bitmap and i :: nat
  assume ok: "bm_ok b"
  show "finite {..<bm_size b}" by simp
  show "bm_used b \<subseteq> {..<bm_size b}" by (auto simp: bm_used_def)
  show "\<not> returns (bm_alloc b)" if "bm_used b = {..<bm_size b}"
    using scan_full [of b 1] that by (simp add: bm_alloc_def bm_full_iff)
  show "\<exists>s' i. bm_alloc b = Inr (s', i) \<and> i \<in> {..<bm_size b} - bm_used b \<and>
      bm_used s' = insert i (bm_used b) \<and> {..<bm_size s'} = {..<bm_size b} \<and> bm_ok s'"
    if "bm_used b \<noteq> {..<bm_size b}"
  proof -
    have "\<not> bm_full b" using that by (simp add: bm_full_iff)
    then obtain i where i: "i < bm_size b" "bitmap_scan b 1 = Inr (int i)" "\<not> bm_bit b i"
      using scan_first_fit [OF ok] by blast
    obtain b' where b': "bitmap_set b (of_nat i) 1 = Inr b'" using bitmap_set_returns by blast
    have u: "unat (of_nat i :: u32) = i" using i(1) ok by (simp add: bm_ok_def unat_of_nat_lt)
    show ?thesis
      using i b' u bm_used_set [OF b' ok] bm_size_set [OF b'] bm_ok_set [OF b'] ok
      by (simp add: bm_alloc_def bm_used_def [of b])
  qed
  show "\<exists>s'. bm_free b i = Inr s' \<and> bm_used s' = bm_used b - {i} \<and>
      {..<bm_size s'} = {..<bm_size b} \<and> bm_ok s'" if "i \<in> bm_used b"
  proof -
    obtain b' where b': "bitmap_set b (of_nat i) 0 = Inr b'" using bitmap_set_returns by blast
    have i: "i < bm_size b" using that by (simp add: bm_used_def)
    then have u: "unat (of_nat i :: u32) = i" using ok by (simp add: bm_ok_def unat_of_nat_lt)
    show ?thesis
      using b' u i bm_used_set [OF b' ok] bm_size_set [OF b'] bm_ok_set [OF b'] ok
      by (simp add: bm_free_def)
  qed
qed

section \<open>Properties\<close>

text \<open>
  C36. A scan for one bit. In a map that is not full it returns the least clear index; in a full
  map the assertion before the test for \<open>-1\<close> stops the kernel, so the value \<open>-1\<close> that every
  caller tests for is never returned.
\<close>

theorem bitmap_scan_one:
  assumes "bm_ok b"
  shows "bitmap_scan b 1 =
    (if bm_full b then Inl (Assert_failed ''idx_byte < btmp->btmp_bytes_len'')
     else Inr (int (LEAST i. \<not> bm_bit b i)))"
proof (cases "bm_full b")
  case False
  then obtain i where i: "bitmap_scan b 1 = Inr (int i)" "\<not> bm_bit b i" "\<forall>j<i. bm_bit b j"
    using scan_first_fit [OF assms] by blast
  then have "(LEAST i. \<not> bm_bit b i) = i" by (intro Least_equality) (auto simp: not_less [symmetric])
  with False i show ?thesis by simp
qed (simp add: scan_full)

definition bm_example :: bitmap where
  "bm_example = \<lparr>btmp_bytes_len = 1, bits = (\<lambda>k. if k = 0 then 0x7f else 0)\<rparr>"

lemma bm_example_ok: "bm_ok bm_example"
  by (simp add: bm_ok_def bm_size_def bm_example_def)

lemma bm_example_not_full: "\<not> bm_full bm_example"
  by (auto simp: bm_full_def bm_size_def bm_example_def bm_bit_def intro!: exI [of _ 7])

theorem bitmap_scan_one_witness:
  "bitmap_scan bm_example 1 = Inr (int (LEAST i. \<not> bm_bit bm_example i))"
  using bitmap_scan_one [OF bm_example_ok] bm_example_not_full by simp

text \<open>
  C37. A scan for a run of \<open>cnt\<close> clear bits, \<open>cnt\<close> at least two, in a map that is not full. If it
  returns an index, the \<open>cnt\<close> bits from there are clear; if it returns \<open>-1\<close>, the map holds no
  such run. The run may end one bit after the last bit of the map: the last bit the loop tests
  is the one with index \<open>bm_size\<close>.
\<close>

theorem bitmap_scan_run_correct:
  assumes "bm_ok b" and "\<not> bm_full b" and "2 \<le> unat cnt"
  shows "(bitmap_scan b cnt = Inr (-1) \<and> (\<forall>s. s + unat cnt \<le> bm_size b + 1 \<longrightarrow> \<not> run_free b s (unat cnt)))
    \<or> (\<exists>s. bitmap_scan b cnt = Inr (int s) \<and> run_free b s (unat cnt) \<and> s + unat cnt \<le> bm_size b + 1)"
  by (rule scan_run_cases [OF assms])

theorem bitmap_scan_run_correct_witness:
  "(bitmap_scan bm_example 2 = Inr (-1) \<and> (\<forall>s. s + unat (2::u32) \<le> bm_size bm_example + 1 \<longrightarrow> \<not> run_free bm_example s (unat (2::u32))))
    \<or> (\<exists>s. bitmap_scan bm_example 2 = Inr (int s) \<and> run_free bm_example s (unat (2::u32)) \<and> s + unat (2::u32) \<le> bm_size bm_example + 1)"
  by (rule bitmap_scan_run_correct [OF bm_example_ok bm_example_not_full])
    (simp_all add: bm_size_def bm_example_def)

text \<open>
  The overrun is real: there is a map in which a scan for two bits returns a run whose last
  bit lies outside the map.
\<close>

theorem bitmap_scan_overrun:
  "\<exists>b s. bm_ok b \<and> bitmap_scan b 2 = Inr (int s) \<and> s + 2 > bm_size b"
proof -
  have "bitmap_scan bm_example 2 = Inr (int 7)" by code_simp
  moreover have "bm_size bm_example = 8" by (simp add: bm_size_def bm_example_def)
  ultimately show ?thesis using bm_example_ok by (intro exI [of _ bm_example] exI [of _ 7]) simp
qed

text \<open>
  Setting a bit. With a value other than 0 and 1 the assertion stops the kernel; otherwise
  exactly the bit \<open>i\<close> changes, to the given value, and the length of the map does not.
\<close>

theorem bitmap_set_exact:
  "if v = 0 \<or> v = 1
   then \<exists>b'. bitmap_set b i v = Inr b' \<and> btmp_bytes_len b' = btmp_bytes_len b
      \<and> (\<forall>j. bitmap_scan_test b' j = (if j = i then v = 1 else bitmap_scan_test b j))
   else \<not> returns (bitmap_set b i v)"
proof (cases "v = 0 \<or> v = 1")
  case True
  then obtain b' where b': "bitmap_set b i v = Inr b'" using bitmap_set_returns by blast
  have "bitmap_scan_test b' j = (if j = i then v = 1 else bitmap_scan_test b j)" for j
    using bm_bit_set [OF b', of "unat j"] unat_bound [of j]
    by (simp add: bitmap_scan_test_bit word_unat_eq_iff)
  with True b' show ?thesis using bitmap_set_cases [OF b'] by auto
qed (simp add: bitmap_set_def)

end
