(* ===== verification/KTypes.thy ===== *)
theory KTypes
  imports Machine Bitmap
begin

text \<open>
  The structures of the kernel (\<^verbatim>\<open>lib/thread.h\<close>, \<^verbatim>\<open>lib/sync.h\<close>, \<^verbatim>\<open>lib/memory.h\<close>,
  \<^verbatim>\<open>userprog/tss.c\<close>, \<^verbatim>\<open>kernel/memory.c\<close>) and the record of the kernel's global variables on
  which the components work. A list of \<^verbatim>\<open>kernel/list.c\<close> that is embedded in these structures is
  the sequence of its elements, by the contract of the theory \<open>DList\<close>; an element is named by the
  address of the structure that contains it, which is what \<^verbatim>\<open>elem2entry\<close> computes. A structure that
  the code reaches through a pointer is the value of a map from addresses, one map per type. The bytes of
  a bitmap of virtual addresses are part of its structure; where they are in memory, the pointer
  \<^verbatim>\<open>bits\<close>, is the field \<open>bits_at\<close>.
\<close>

datatype task_status =
  TASK_RUNNING | TASK_READY | TASK_BLOCKED | TASK_WAITING | TASK_HANGING | TASK_DIED

record semaphore =
  sem_value :: u8
  waiters :: "addr list"

record lock =
  holder :: addr
  sema :: semaphore
  holder_repeat_nr :: u32

datatype pool_flags = PF_KERNEL | PF_USER

record virtual_addr =
  vaddr_bitmap :: bitmap
  vaddr_start :: u32
  bits_at :: addr

record mem_block_desc =
  block_size :: u32
  blocks_per_arena :: u32
  free_list :: "addr list"

record pool =
  pool_bitmap :: bitmap
  phy_addr_start :: u32
  pool_size :: u32
  pool_lock :: lock

text \<open>
  An arena names its descriptor by the array that holds it, the kernel's or that of the task at an
  address, and the index there.
\<close>

datatype desc_ref = K_desc nat | U_desc addr nat

record arena =
  arena_desc :: "desc_ref option"
  arena_cnt :: u32
  arena_large :: u32

definition TASK_NAME_LEN :: nat where
  "TASK_NAME_LEN = 16"

definition MAX_FILES_OPEN_PER_PROC :: nat where
  "MAX_FILES_OPEN_PER_PROC = 8"

definition DESC_CNT :: nat where
  "DESC_CNT = 7"

record intr_stack =
  is_vec_no :: u32
  is_edi :: u32
  is_esi :: u32
  is_ebp :: u32
  is_esp_dummy :: u32
  is_ebx :: u32
  is_edx :: u32
  is_ecx :: u32
  is_eax :: u32
  is_gs :: u32
  is_fs :: u32
  is_es :: u32
  is_ds :: u32
  is_err_code :: u32
  is_eip :: addr
  is_cs :: u32
  is_eflags :: u32
  is_esp :: addr
  is_ss :: u32

record thread_stack =
  ts_ebp :: u32
  ts_ebx :: u32
  ts_edi :: u32
  ts_esi :: u32
  ts_eip :: addr
  ts_unused_retaddr :: addr
  ts_function :: addr
  ts_func_arg :: addr

record task_struct =
  self_kstack :: addr
  pid :: u16
  status :: task_status
  name :: "u8 list"
  priority :: u8
  ticks :: u8
  elapsed_ticks :: u32
  pgdir :: addr
  userprog_vaddr :: virtual_addr
  u_block_desc :: "mem_block_desc list"
  fd_table :: "u32 list"
  cwd_inode_nr :: u32
  parent_pid :: u16
  exit_status :: u8
  stack_magic :: u32

record tss =
  backlink :: u32
  esp0 :: addr
  ss0 :: u32
  esp1 :: addr
  ss1 :: u32
  esp2 :: addr
  ss2 :: u32
  tss_cr3 :: u32
  tss_eip :: addr
  tss_eflags :: u32
  tss_regs :: "u32 list"
  tss_segs :: "u32 list"
  ldt :: u32
  trace :: u32
  io_base :: u32

record pid_pool =
  pid_bitmap :: bitmap
  pid_start :: u32
  pid_lock :: lock

record kernel = machine +
  esp :: addr
  pmem :: "addr \<Rightarrow> u32"
  kernel_pool :: pool
  user_pool :: pool
  kernel_vaddr :: virtual_addr
  k_block_descs :: "mem_block_desc list"
  arenas :: "addr \<Rightarrow> arena"
  tasks :: "addr \<Rightarrow> task_struct"
  thread_ready_list :: "addr list"
  thread_all_list :: "addr list"
  main_thread :: addr
  idle_thread :: addr
  the_pid_pool :: pid_pool
  the_tss :: tss
  thread_stacks :: "addr \<Rightarrow> thread_stack"
  intr_stacks :: "addr \<Rightarrow> intr_stack"

text \<open>The state with every variable zero, as the loader leaves the data of the kernel.\<close>

definition bitmap_zero :: bitmap where
  "bitmap_zero = \<lparr>btmp_bytes_len = 0, bits = (\<lambda>_. 0)\<rparr>"

definition lock_zero :: lock where
  "lock_zero = \<lparr>holder = 0, sema = \<lparr>sem_value = 0, waiters = []\<rparr>, holder_repeat_nr = 0\<rparr>"

definition pool_zero :: pool where
  "pool_zero = \<lparr>pool_bitmap = bitmap_zero, phy_addr_start = 0, pool_size = 0, pool_lock = lock_zero\<rparr>"

definition vaddr_zero :: virtual_addr where
  "vaddr_zero = \<lparr>vaddr_bitmap = bitmap_zero, vaddr_start = 0, bits_at = 0\<rparr>"

definition desc_zero :: mem_block_desc where
  "desc_zero = \<lparr>block_size = 0, blocks_per_arena = 0, free_list = []\<rparr>"

definition task_zero :: task_struct where
  "task_zero = \<lparr>self_kstack = 0, pid = 0, status = TASK_RUNNING, name = replicate TASK_NAME_LEN 0,
     priority = 0, ticks = 0, elapsed_ticks = 0, pgdir = 0, userprog_vaddr = vaddr_zero,
     u_block_desc = replicate DESC_CNT desc_zero, fd_table = replicate MAX_FILES_OPEN_PER_PROC 0,
     cwd_inode_nr = 0, parent_pid = 0, exit_status = 0, stack_magic = 0\<rparr>"

definition kernel_zero :: kernel where
  "kernel_zero = \<lparr>eflags = 2, cr2 = 0, cr3 = 0x100000, io_log = [], esp = 0xc009f000, pmem = (\<lambda>_. 0),
     kernel_pool = pool_zero, user_pool = pool_zero, kernel_vaddr = vaddr_zero,
     k_block_descs = replicate DESC_CNT desc_zero,
     arenas = (\<lambda>_. \<lparr>arena_desc = None, arena_cnt = 0, arena_large = 0\<rparr>),
     tasks = (\<lambda>_. task_zero), thread_ready_list = [], thread_all_list = [],
     main_thread = 0, idle_thread = 0,
     the_pid_pool = \<lparr>pid_bitmap = bitmap_zero, pid_start = 0, pid_lock = lock_zero\<rparr>,
     the_tss = \<lparr>backlink = 0, esp0 = 0, ss0 = 0, esp1 = 0, ss1 = 0, esp2 = 0, ss2 = 0, tss_cr3 = 0,
       tss_eip = 0, tss_eflags = 0, tss_regs = replicate 8 0, tss_segs = replicate 6 0,
       ldt = 0, trace = 0, io_base = 0\<rparr>,
     thread_stacks = (\<lambda>_. \<lparr>ts_ebp = 0, ts_ebx = 0, ts_edi = 0, ts_esi = 0, ts_eip = 0,
       ts_unused_retaddr = 0, ts_function = 0, ts_func_arg = 0\<rparr>),
     intr_stacks = (\<lambda>_. \<lparr>is_vec_no = 0, is_edi = 0, is_esi = 0, is_ebp = 0, is_esp_dummy = 0,
       is_ebx = 0, is_edx = 0, is_ecx = 0, is_eax = 0, is_gs = 0, is_fs = 0, is_es = 0, is_ds = 0,
       is_err_code = 0, is_eip = 0, is_cs = 0, is_eflags = 0, is_esp = 0, is_ss = 0\<rparr>)\<rparr>"

definition upd_task :: "addr \<Rightarrow> (task_struct \<Rightarrow> task_struct) \<Rightarrow> 'a kernel_scheme \<Rightarrow> 'a kernel_scheme" where
  "upd_task t f s = s\<lparr>tasks := (tasks s)(t := f (tasks s t))\<rparr>"

end
