(* ===== verification/Paging.thy ===== *)
theory Paging
  imports KTypes
begin

text \<open>
  Virtual memory (the page-table part of \<^verbatim>\<open>kernel/memory.c\<close>). Physical memory gives a dword for
  every aligned physical address; \<open>translate\<close> is the two-level walk of the processor, starting at
  \<^verbatim>\<open>cr3\<close>, and a load or store through a virtual address goes through it, a missing entry being a
  page fault. Neither the translation cache nor the access rights of an entry are modelled: every
  access of the kernel is made in supervisor mode.

  \<^verbatim>\<open>pte_ptr\<close> and \<^verbatim>\<open>pde_ptr\<close> compute virtual addresses of the tables that only work because the
  last entry of a page directory points to the directory itself. The lemmas show that, with such an
  entry, the two pointers lead to the words that the walk of the processor reads, and that mapping
  and unmapping a page changes exactly the translations it should.
\<close>

definition page_of :: "u32 \<Rightarrow> u32" where
  "page_of w = w AND 0xfffff000"

definition PDE_IDX :: "u32 \<Rightarrow> u32" where
  "PDE_IDX a = drop_bit 22 (a AND 0xffc00000)"

definition PTE_IDX :: "u32 \<Rightarrow> u32" where
  "PTE_IDX a = drop_bit 12 (a AND 0x003ff000)"

section \<open>The walk of the processor\<close>

definition pde_addr :: "'a kernel_scheme \<Rightarrow> addr \<Rightarrow> addr" where
  "pde_addr s va = page_of (cr3 s) + 4 * PDE_IDX va"

definition pte_addr :: "'a kernel_scheme \<Rightarrow> addr \<Rightarrow> addr" where
  "pte_addr s va = page_of (pmem s (pde_addr s va)) + 4 * PTE_IDX va"

definition pde_present :: "'a kernel_scheme \<Rightarrow> addr \<Rightarrow> bool" where
  "pde_present s va \<longleftrightarrow> bit (pmem s (pde_addr s va)) 0"

definition translate :: "'a kernel_scheme \<Rightarrow> addr \<Rightarrow> addr option" where
  "translate s va =
     (if pde_present s va \<and> bit (pmem s (pte_addr s va)) 0
      then Some (page_of (pmem s (pte_addr s va)) + (va AND 0xfff)) else None)"

definition load_dw :: "addr \<Rightarrow> 'a kernel_scheme \<Rightarrow> u32 res" where
  "load_dw va s = (case translate s va of None \<Rightarrow> Inl (Bad_access ''page fault'') | Some pa \<Rightarrow> Inr (pmem s pa))"

definition store_dw :: "addr \<Rightarrow> u32 \<Rightarrow> 'a kernel_scheme \<Rightarrow> 'a kernel_scheme res" where
  "store_dw va v s = (case translate s va of None \<Rightarrow> Inl (Bad_access ''page fault'')
     | Some pa \<Rightarrow> Inr (s\<lparr>pmem := (pmem s)(pa := v)\<rparr>))"

section \<open>Page tables seen from the kernel\<close>

definition PG_P_1 :: u32 where "PG_P_1 = 1"
definition PG_RW_W :: u32 where "PG_RW_W = 2"
definition PG_US_U :: u32 where "PG_US_U = 4"

definition pte_ptr :: "u32 \<Rightarrow> addr" where
  "pte_ptr vaddr = 0xffc00000 + drop_bit 10 (vaddr AND 0xffc00000) + PTE_IDX vaddr * 4"

definition pde_ptr :: "u32 \<Rightarrow> addr" where
  "pde_ptr vaddr = 0xfffff000 + PDE_IDX vaddr * 4"

definition addr_v2p :: "u32 \<Rightarrow> 'a kernel_scheme \<Rightarrow> u32 res" where
  "addr_v2p vaddr s = bindR (load_dw (pte_ptr vaddr) s) (\<lambda>pte.
     Inr ((pte AND 0xfffff000) + (vaddr AND 0x00000fff)))"

text \<open>
  \<^verbatim>\<open>palloc\<close>. The bitmap never reports a failure to its caller, it stops the kernel; the branch
  that returns \<^verbatim>\<open>NULL\<close> is kept as it stands in the code.
\<close>

definition palloc :: "pool \<Rightarrow> (pool \<times> addr) res" where
  "palloc m_pool = bindR (bitmap_scan (pool_bitmap m_pool) 1) (\<lambda>bit_idx.
     if bit_idx = -1 then Inr (m_pool, NULL)
     else bindR (bitmap_set (pool_bitmap m_pool) (word_of_int bit_idx) 1) (\<lambda>b.
       Inr (m_pool\<lparr>pool_bitmap := b\<rparr>, word_of_int bit_idx * PG_SIZE + phy_addr_start m_pool)))"

text \<open>\<^verbatim>\<open>memset((void*)((int)pte & 0xfffff000), 0, PG_SIZE)\<close>: the 1024 dwords of one page.\<close>

fun clear_page_from :: "nat \<Rightarrow> addr \<Rightarrow> 'a kernel_scheme \<Rightarrow> 'a kernel_scheme res" where
  "clear_page_from 0 va s = Inr s"
| "clear_page_from (Suc n) va s = bindR (store_dw va 0 s) (clear_page_from n (va + 4))"

definition page_table_add :: "addr \<Rightarrow> addr \<Rightarrow> 'a kernel_scheme \<Rightarrow> 'a kernel_scheme res" where
  "page_table_add vaddr page_phyaddr s =
     (let pde = pde_ptr vaddr; pte = pte_ptr vaddr;
          entry = page_phyaddr OR PG_US_U OR PG_RW_W OR PG_P_1 in
      bindR (load_dw pde s) (\<lambda>d.
      if d AND 0x00000001 \<noteq> 0 then
        bindR (load_dw pte s) (\<lambda>t.
        bindR (kassert (\<not> t AND 0x00000001 \<noteq> 0) ''!(*pte & 0x00000001)'') (\<lambda>_.
        if \<not> t AND 0x00000001 \<noteq> 0 then store_dw pte entry s else kpanic ''pte repeat''))
      else
        bindR (palloc (kernel_pool s)) (\<lambda>(kp, pde_phyaddr).
        bindR (store_dw pde (pde_phyaddr OR PG_US_U OR PG_RW_W OR PG_P_1) (s\<lparr>kernel_pool := kp\<rparr>)) (\<lambda>s1.
        bindR (clear_page_from 1024 (pte AND 0xfffff000) s1) (\<lambda>s2.
        bindR (load_dw pte s2) (\<lambda>t.
        bindR (kassert (\<not> t AND 0x00000001 \<noteq> 0) ''!(*pte & 0x00000001)'') (\<lambda>_.
        store_dw pte entry s2)))))))"

text \<open>
  The operand of \<^verbatim>\<open>invlpg\<close> is the memory operand \<^verbatim>\<open>vaddr\<close>, a local variable: the instruction
  names the stack slot and not the page that was unmapped.
\<close>

definition page_table_pte_remove :: "u32 \<Rightarrow> 'a kernel_scheme \<Rightarrow> 'a kernel_scheme res" where
  "page_table_pte_remove vaddr s =
     (let pte = pte_ptr vaddr in
      bindR (load_dw pte s) (\<lambda>t.
      bindR (store_dw pte (t AND NOT PG_P_1) s) (\<lambda>s1.
      Inr (emit (Invlpg (esp s1)) s1))))"

section \<open>Addresses as numbers\<close>

lemma page_masks:
  "(0xfffff000 :: u32) = NOT (mask 12)" "(0xffc00000 :: u32) = NOT (mask 22)"
  "(0x003ff000 :: u32) = push_bit 12 (mask 10)" "(0xfff :: u32) = mask 12"
  by (simp_all add: mask_eq_exp_minus_1)

lemma unat_drop_bit: "unat (drop_bit n w) = unat w div 2 ^ n" for w :: "'a::len word"
  unfolding unat_drop_bit_eq by (rule drop_bit_eq_div)

lemma unat_PDE_IDX: "unat (PDE_IDX a) = unat a div 2 ^ 22"
proof -
  have "PDE_IDX a = drop_bit 22 a" unfolding PDE_IDX_def page_masks
    by (rule bit_word_eqI) (auto simp: bit_simps dest: bit_imp_le_length)
  then show ?thesis by (simp only: unat_drop_bit)
qed

lemma unat_PTE_IDX: "unat (PTE_IDX a) = unat a div 2 ^ 12 mod 2 ^ 10"
proof -
  have "PTE_IDX a = take_bit 10 (drop_bit 12 a)"
    unfolding PTE_IDX_def page_masks by (rule bit_word_eqI) (auto simp: bit_simps)
  then have "unat (PTE_IDX a) = take_bit 10 (unat a div 2 ^ 12)"
    by (simp only: unsigned_take_bit_eq unat_drop_bit)
  then show ?thesis by (simp only: take_bit_eq_mod)
qed

lemma unat_page_of: "unat (page_of w) = unat w div 2 ^ 12 * 2 ^ 12"
proof -
  have "page_of w = push_bit 12 (drop_bit 12 w)"
    unfolding page_of_def page_masks by (rule bit_word_eqI) (auto simp: bit_simps)
  also have "\<dots> = 2 ^ 12 * drop_bit 12 w" by (simp add: push_bit_eq_mult ac_simps)
  finally have "unat (page_of w) = unat (2 ^ 12 :: u32) * unat (drop_bit 12 w)"
    using unat_bound [of w] by (simp add: unat_mult_lt unat_drop_bit)
  then show ?thesis by (simp add: unat_drop_bit)
qed

lemma unat_offset: "unat (w AND 0xfff) = unat w mod 2 ^ 12" for w :: u32
  unfolding page_masks take_bit_eq_mask [symmetric] unsigned_take_bit_eq by (rule take_bit_eq_mod)

text \<open>The parts of an address: directory index, table index and offset.\<close>

definition va_of :: "nat \<Rightarrow> nat \<Rightarrow> nat \<Rightarrow> nat" where
  "va_of d t off = d * 2 ^ 22 + t * 2 ^ 12 + off"

lemma va_of_parts:
  assumes "t < 2 ^ 10" and "off < 2 ^ 12"
  shows "va_of d t off div 2 ^ 22 = d" "va_of d t off div 2 ^ 12 mod 2 ^ 10 = t"
    "va_of d t off mod 2 ^ 12 = off" "va_of d t off div 2 ^ 12 = d * 2 ^ 10 + t"
proof -
  show "va_of d t off div 2 ^ 22 = d" using assms by (simp add: va_of_def div_eq_dividend_iff)
  have eq: "va_of d t off = (d * 2 ^ 10 + t) * 2 ^ 12 + off" by (simp add: va_of_def)
  show o: "va_of d t off mod 2 ^ 12 = off" unfolding eq using assms(2) by (simp only: mod_mult_self3 mod_less)
  show dt: "va_of d t off div 2 ^ 12 = d * 2 ^ 10 + t" unfolding eq using assms(2) by simp
  show "va_of d t off div 2 ^ 12 mod 2 ^ 10 = t" unfolding dt using assms(1) by simp
qed

lemma idx_bounds: "unat (PDE_IDX a) < 2 ^ 10" "unat (PTE_IDX a) < 2 ^ 10"
proof -
  have "unat a < 2 ^ 32" using unat_bound [of a] by simp
  then show "unat (PDE_IDX a) < 2 ^ 10" unfolding unat_PDE_IDX by (simp add: less_mult_imp_div_less)
  show "unat (PTE_IDX a) < 2 ^ 10" unfolding unat_PTE_IDX by (rule mod_less_divisor) simp
qed

lemma unat_pde_ptr: "unat (pde_ptr va) = va_of 1023 1023 (4 * unat (PDE_IDX va))"
proof -
  have "unat (PDE_IDX va * 4) = unat (PDE_IDX va) * 4"
    using idx_bounds(1) [of va] by (subst unat_mult_lt) simp_all
  then show ?thesis using idx_bounds(1) [of va] unfolding pde_ptr_def
    by (subst unat_add_lt) (simp_all add: va_of_def)
qed

lemma unat_pte_ptr: "unat (pte_ptr va) = va_of 1023 (unat (PDE_IDX va)) (4 * unat (PTE_IDX va))"
proof -
  have "drop_bit 10 (va AND 0xffc00000) = push_bit 12 (PDE_IDX va)"
    unfolding PDE_IDX_def page_masks by (rule bit_word_eqI) (auto simp: bit_simps dest: bit_imp_le_length)
  then have "drop_bit 10 (va AND 0xffc00000) = PDE_IDX va * 2 ^ 12" by (simp only: push_bit_eq_mult)
  moreover have "unat (PDE_IDX va * 2 ^ 12) = unat (PDE_IDX va) * 2 ^ 12"
    using idx_bounds(1) [of va] by (subst unat_mult_lt) simp_all
  ultimately have d: "unat (drop_bit 10 (va AND 0xffc00000)) = unat (PDE_IDX va) * 2 ^ 12" by (simp only:)
  have t: "unat (PTE_IDX va * 4) = unat (PTE_IDX va) * 4"
    using idx_bounds(2) [of va] by (subst unat_mult_lt) simp_all
  have "unat (0xffc00000 + drop_bit 10 (va AND 0xffc00000)) = 0xffc00000 + unat (PDE_IDX va) * 2 ^ 12"
    using idx_bounds(1) [of va] d by (subst unat_add_lt) simp_all
  then show ?thesis unfolding pte_ptr_def using t idx_bounds [of va]
    by (subst unat_add_lt) (simp_all add: va_of_def)
qed

section \<open>The self-referencing entry\<close>

definition self_mapped :: "'a kernel_scheme \<Rightarrow> bool" where
  "self_mapped s \<longleftrightarrow> bit (pmem s (page_of (cr3 s) + 4 * 1023)) 0 \<and>
     page_of (pmem s (page_of (cr3 s) + 4 * 1023)) = page_of (cr3 s)"

lemma ptr_parts:
  "PDE_IDX (pde_ptr va) = 1023" "PTE_IDX (pde_ptr va) = 1023" "pde_ptr va AND 0xfff = 4 * PDE_IDX va"
  "PDE_IDX (pte_ptr va) = 1023" "PTE_IDX (pte_ptr va) = PDE_IDX va" "pte_ptr va AND 0xfff = 4 * PTE_IDX va"
proof -
  have b: "4 * unat (PDE_IDX va) < 2 ^ 12" "4 * unat (PTE_IDX va) < 2 ^ 12" "(1023 :: nat) < 2 ^ 10"
    using idx_bounds [of va] by simp_all
  have m: "unat (4 * PDE_IDX va) = 4 * unat (PDE_IDX va)" "unat (4 * PTE_IDX va) = 4 * unat (PTE_IDX va)"
    using b by (subst unat_mult_lt; simp)+
  have n: "unat (1023 :: u32) = 1023" by simp
  note v = va_of_parts [OF b(3,1), of 1023] va_of_parts [OF idx_bounds(1) [of va] b(2), of 1023]
  show "PDE_IDX (pde_ptr va) = 1023" "PTE_IDX (pde_ptr va) = 1023" "pde_ptr va AND 0xfff = 4 * PDE_IDX va"
    "PDE_IDX (pte_ptr va) = 1023" "PTE_IDX (pte_ptr va) = PDE_IDX va" "pte_ptr va AND 0xfff = 4 * PTE_IDX va"
    unfolding word_unat_eq_iff unat_offset m n
      unat_PDE_IDX [of "pde_ptr va"] unat_PTE_IDX [of "pde_ptr va"]
      unat_PDE_IDX [of "pte_ptr va"] unat_PTE_IDX [of "pte_ptr va"] unat_pde_ptr unat_pte_ptr
    by (rule v)+
qed

lemma translate_pde_ptr: "self_mapped s \<Longrightarrow> translate s (pde_ptr va) = Some (pde_addr s va)"
  by (simp add: translate_def pde_present_def pde_addr_def pte_addr_def ptr_parts self_mapped_def)

lemma translate_pte_ptr:
  "self_mapped s \<Longrightarrow> translate s (pte_ptr va) = (if pde_present s va then Some (pte_addr s va) else None)"
  by (simp add: translate_def pde_present_def pde_addr_def pte_addr_def ptr_parts self_mapped_def)

lemma load_pde: "self_mapped s \<Longrightarrow> load_dw (pde_ptr va) s = Inr (pmem s (pde_addr s va))"
  by (simp add: load_dw_def translate_pde_ptr)

lemma load_pte: "self_mapped s \<Longrightarrow> pde_present s va \<Longrightarrow> load_dw (pte_ptr va) s = Inr (pmem s (pte_addr s va))"
  by (simp add: load_dw_def translate_pte_ptr)

lemma store_pte: "self_mapped s \<Longrightarrow> pde_present s va \<Longrightarrow>
    store_dw (pte_ptr va) v s = Inr (s\<lparr>pmem := (pmem s)(pte_addr s va := v)\<rparr>)"
  by (simp add: store_dw_def translate_pte_ptr)

lemma store_pde: "self_mapped s \<Longrightarrow>
    store_dw (pde_ptr va) v s = Inr (s\<lparr>pmem := (pmem s)(pde_addr s va := v)\<rparr>)"
  by (simp add: store_dw_def translate_pde_ptr)

section \<open>Entries of tables\<close>

lemma page_of_page_of [simp]: "page_of (page_of w) = page_of w"
  by (simp add: word_unat_eq_iff unat_page_of)

lemma unat_entry:
  assumes "unat i < 1024"
  shows "unat (page_of w + 4 * i) = unat w div 2 ^ 12 * 2 ^ 12 + 4 * unat i"
proof -
  have "unat (4 * i) = 4 * unat i" using assms by (subst unat_mult_lt) simp_all
  moreover have "unat w div 2 ^ 12 * 2 ^ 12 + 4 * unat i < 2 ^ 32"
  proof -
    have "unat w div 2 ^ 12 < 2 ^ 20"
      using unat_bound [of w] by (intro less_mult_imp_div_less) simp
    then show ?thesis using assms by simp
  qed
  ultimately show ?thesis by (subst unat_add_lt) (simp_all add: unat_page_of)
qed

lemma page_of_entry: "unat i < 1024 \<Longrightarrow> page_of (page_of w + 4 * i) = page_of w"
  by (simp add: word_unat_eq_iff unat_page_of unat_entry)

lemma entry_inj:
  assumes "page_of v + 4 * i = page_of w + 4 * j" and "unat i < 1024" and "unat j < 1024"
  shows "page_of v = page_of w" and "i = j"
proof -
  show p: "page_of v = page_of w" using assms page_of_entry by metis
  then have "unat (page_of v + 4 * i) - unat (page_of v) = unat (page_of w + 4 * j) - unat (page_of w)"
    using assms(1) by simp
  then show "i = j" using assms(2,3) by (simp add: unat_entry unat_page_of word_unat_eq_iff)
qed

lemma idx_1024: "unat (PDE_IDX a) < 1024" "unat (PTE_IDX a) < 1024"
  using idx_bounds [of a] by simp_all

lemma page_of_eq_iff: "page_of a = page_of b \<longleftrightarrow> PDE_IDX a = PDE_IDX b \<and> PTE_IDX a = PTE_IDX b"
proof -
  have d: "x div 2 ^ 22 = x div 2 ^ 12 div 2 ^ 10" for x :: nat by (simp add: div_mult2_eq [symmetric])
  have c: "x * 2 ^ 12 = y * 2 ^ 12 \<longleftrightarrow> x = y" for x y :: nat by simp
  have "unat a div 2 ^ 12 = unat b div 2 ^ 12 \<longleftrightarrow>
      unat a div 2 ^ 12 div 2 ^ 10 = unat b div 2 ^ 12 div 2 ^ 10 \<and>
      unat a div 2 ^ 12 mod 2 ^ 10 = unat b div 2 ^ 12 mod 2 ^ 10"
    by (metis div_mult_mod_eq)
  then show ?thesis unfolding word_unat_eq_iff unat_page_of unat_PDE_IDX unat_PTE_IDX d c .
qed

section \<open>Changing one entry\<close>

text \<open>
  The table that holds the entry of \<open>va\<close> is not the directory itself. Two directory entries may lead to
  the same table: then the same index in both is one and the same entry.
\<close>

definition not_dir :: "'a kernel_scheme \<Rightarrow> addr \<Rightarrow> bool" where
  "not_dir s va \<longleftrightarrow> page_of (pmem s (pde_addr s va)) \<noteq> page_of (cr3 s)"

definition same_entry :: "'a kernel_scheme \<Rightarrow> addr \<Rightarrow> addr \<Rightarrow> bool" where
  "same_entry s v va \<longleftrightarrow> pde_present s v \<and> PTE_IDX v = PTE_IDX va \<and>
     page_of (pmem s (pde_addr s v)) = page_of (pmem s (pde_addr s va))"

definition set_pte :: "addr \<Rightarrow> u32 \<Rightarrow> 'a kernel_scheme \<Rightarrow> 'a kernel_scheme" where
  "set_pte va e s = s\<lparr>pmem := (pmem s)(pte_addr s va := e)\<rparr>"

lemma set_pte_walk:
  assumes "not_dir s va"
  shows "pde_addr (set_pte va e s) v = pde_addr s v" "pmem (set_pte va e s) (pde_addr s v) = pmem s (pde_addr s v)"
    "pte_addr (set_pte va e s) v = pte_addr s v" "pde_present (set_pte va e s) v = pde_present s v"
    "same_entry (set_pte va e s) v w = same_entry s v w"
proof -
  show a: "pde_addr (set_pte va e s) v = pde_addr s v" for v by (simp add: set_pte_def pde_addr_def)
  have "pde_addr s v \<noteq> pte_addr s va" for v
    using assms entry_inj(1) [OF _ idx_1024(1) idx_1024(2)] unfolding not_dir_def pde_addr_def pte_addr_def
    by metis
  then show b: "pmem (set_pte va e s) (pde_addr s v) = pmem s (pde_addr s v)" for v by (simp add: set_pte_def)
  show "pte_addr (set_pte va e s) v = pte_addr s v" "pde_present (set_pte va e s) v = pde_present s v"
    "same_entry (set_pte va e s) v w = same_entry s v w"
    by (simp_all only: pte_addr_def pde_present_def same_entry_def a b)
qed

lemma self_mapped_set_pte:
  assumes "not_dir s va" and "self_mapped s"
  shows "self_mapped (set_pte va e s)"
proof -
  have "page_of (cr3 s) + 4 * 1023 = pde_addr s 0xffffffff" by (simp add: pde_addr_def PDE_IDX_def)
  then show ?thesis using assms set_pte_walk(2) [OF assms(1), of e "0xffffffff"]
    by (simp add: self_mapped_def set_pte_def)
qed

lemma translate_set_pte:
  assumes "not_dir s va"
  shows "translate (set_pte va e s) v =
    (if same_entry s v va then if bit e 0 then Some (page_of e + (v AND 0xfff)) else None else translate s v)"
proof (cases "same_entry s v va")
  case True
  then have "pte_addr s v = pte_addr s va" "pde_present s v" by (simp_all add: same_entry_def pte_addr_def)
  then show ?thesis
    by (simp add: translate_def set_pte_walk [OF assms(1)] True) (simp add: set_pte_def)
next
  case False
  have "pte_addr s v \<noteq> pte_addr s va" if "pde_present s v"
    using that False entry_inj [OF _ idx_1024(2) idx_1024(2)] unfolding same_entry_def pte_addr_def by blast
  then show ?thesis
    by (simp add: translate_def set_pte_walk [OF assms(1)] False) (auto simp: set_pte_def)
qed

lemma same_entry_page: "pde_present s va \<Longrightarrow> page_of v = page_of va \<Longrightarrow> same_entry s v va"
  by (simp add: page_of_eq_iff same_entry_def pde_present_def pde_addr_def)

lemma entry_bits:
  assumes "page_of p = p"
  shows "bit (p OR PG_US_U OR PG_RW_W OR PG_P_1) 0" "page_of (p OR PG_US_U OR PG_RW_W OR PG_P_1) = p"
proof -
  have m: "p OR PG_US_U OR PG_RW_W OR PG_P_1 = p OR mask 3"
    by (simp add: PG_US_U_def PG_RW_W_def PG_P_1_def or.assoc mask_eq_exp_minus_1)
  show "bit (p OR PG_US_U OR PG_RW_W OR PG_P_1) 0" unfolding m by (simp add: bit_simps)
  have "page_of (p OR mask 3) = page_of p"
    unfolding page_of_def page_masks by (rule bit_word_eqI) (auto simp: bit_simps)
  then show "page_of (p OR PG_US_U OR PG_RW_W OR PG_P_1) = p" unfolding m using assms by simp
qed

section \<open>Adding a mapping\<close>

lemma and_1_iff [simp]: "(w AND 1 = 0) = (\<not> bit w 0)" for w :: u32
  using and_two_pow_eq_0 [of 0 w] by simp

text \<open>A directory that refers to itself by its last entry only.\<close>

definition pt_wf :: "'a kernel_scheme \<Rightarrow> bool" where
  "pt_wf s \<longleftrightarrow> self_mapped s \<and>
     (\<forall>v. pde_present s v \<and> PDE_IDX v \<noteq> 1023 \<longrightarrow> page_of (pmem s (pde_addr s v)) \<noteq> page_of (cr3 s))"

lemma add_to_table:
  assumes "self_mapped s" and "pde_present s va" and "\<not> bit (pmem s (pte_addr s va)) 0"
  shows "page_table_add va pa s = Inr (set_pte va (pa OR PG_US_U OR PG_RW_W OR PG_P_1) s)"
  using assms
  by (simp add: page_table_add_def Let_def load_pde load_pte store_pte set_pte_def pde_present_def)

lemma translate_cong:
  assumes "cr3 s' = cr3 s" and "pmem s' (pde_addr s v) = pmem s (pde_addr s v)"
    and "pde_present s v \<Longrightarrow> pmem s' (pte_addr s v) = pmem s (pte_addr s v)"
  shows "translate s' v = translate s v"
proof -
  have d: "pde_addr s' v = pde_addr s v" using assms(1) by (simp add: pde_addr_def)
  then have "pte_addr s' v = pte_addr s v" "pde_present s' v = pde_present s v"
    using assms(2) by (simp_all add: pte_addr_def pde_present_def)
  then show ?thesis using assms(3) by (auto simp: translate_def)
qed

text \<open>The page of a table, seen through the self-referencing entry.\<close>

lemma table_page_parts:
  assumes "unat i < 1024"
  shows "PDE_IDX (page_of (pte_ptr va) + 4 * i) = 1023" "PTE_IDX (page_of (pte_ptr va) + 4 * i) = PDE_IDX va"
    "(page_of (pte_ptr va) + 4 * i) AND 0xfff = 4 * i"
proof -
  have "page_of (page_of (pte_ptr va) + 4 * i) = page_of (pte_ptr va)" using assms by (rule page_of_entry)
  then show "PDE_IDX (page_of (pte_ptr va) + 4 * i) = 1023" "PTE_IDX (page_of (pte_ptr va) + 4 * i) = PDE_IDX va"
    by (simp_all add: page_of_eq_iff ptr_parts)
  have "unat (4 * i) = 4 * unat i" using assms by (subst unat_mult_lt) simp_all
  then show "(page_of (pte_ptr va) + 4 * i) AND 0xfff = 4 * i"
    using assms unfolding word_unat_eq_iff unat_offset unat_entry [OF assms] by simp
qed

lemma translate_table_page:
  assumes "self_mapped s" and "pde_present s va" and "unat i < 1024"
  shows "translate s (page_of (pte_ptr va) + 4 * i) = Some (page_of (pmem s (pde_addr s va)) + 4 * i)"
proof -
  let ?v = "page_of (pte_ptr va) + 4 * i"
  have "pde_addr s ?v = page_of (cr3 s) + 4 * 1023" by (simp add: pde_addr_def table_page_parts [OF assms(3)])
  moreover from this have "pte_addr s ?v = pde_addr s va"
    using assms(1) by (simp add: pte_addr_def table_page_parts [OF assms(3)] self_mapped_def pde_addr_def)
  ultimately show ?thesis
    using assms by (simp add: translate_def pde_present_def self_mapped_def table_page_parts [OF assms(3)])
qed

definition zeroed :: "addr \<Rightarrow> nat \<Rightarrow> nat \<Rightarrow> (addr \<Rightarrow> u32) \<Rightarrow> addr \<Rightarrow> u32" where
  "zeroed f k n m a = (if \<exists>i. k \<le> i \<and> i < k + n \<and> a = f + 4 * of_nat i then 0 else m a)"

lemma zeroed_Suc: "zeroed f (Suc k) n (m(f + 4 * of_nat k := 0)) = zeroed f k (Suc n) m"
proof
  fix a
  show "zeroed f (Suc k) n (m(f + 4 * of_nat k := 0)) a = zeroed f k (Suc n) m a"
  proof (cases "a = f + 4 * of_nat k")
    case True
    then have "\<exists>i. k \<le> i \<and> i < k + Suc n \<and> a = f + 4 * of_nat i" by (intro exI [of _ k]) simp
    with True show ?thesis by (simp add: zeroed_def)
  next
    case False
    then have "(\<exists>i. Suc k \<le> i \<and> i < Suc k + n \<and> a = f + 4 * of_nat i) \<longleftrightarrow>
        (\<exists>i. k \<le> i \<and> i < k + Suc n \<and> a = f + 4 * of_nat i)"
      by (metis Suc_leD Suc_leI add_Suc_shift le_neq_implies_less)
    then show ?thesis using False unfolding zeroed_def by (simp only: fun_upd_apply if_False)
  qed
qed

lemma clear_table:
  assumes "self_mapped s" and "pde_present s va" and "page_of (pmem s (pde_addr s va)) = f"
    and "f \<noteq> page_of (cr3 s)" and "k + n \<le> 1024"
  shows "clear_page_from n (page_of (pte_ptr va) + 4 * of_nat k) s = Inr (s\<lparr>pmem := zeroed f k n (pmem s)\<rparr>)"
  using assms
proof (induction n arbitrary: k s)
  case 0
  have "zeroed f k 0 (pmem s) = pmem s" by (rule ext) (auto simp: zeroed_def)
  then show ?case by simp
next
  case (Suc n)
  let ?s = "s\<lparr>pmem := (pmem s)(f + 4 * of_nat k := 0)\<rparr>"
  have k: "unat (of_nat k :: u32) < 1024" using Suc.prems(5) by (simp add: unat_of_nat_lt)
  have f: "page_of f = f" using Suc.prems(3) by auto
  have keep: "page_of (cr3 s) + 4 * i \<noteq> f + 4 * of_nat k" if "unat i < 1024" for i
    using entry_inj(1) [of "cr3 s" i f "of_nat k"] that k f Suc.prems(4) by auto
  have d: "pmem ?s (pde_addr s va) = pmem s (pde_addr s va)" "pde_addr ?s va = pde_addr s va"
    using keep [OF idx_1024(1)] by (simp_all add: pde_addr_def)
  have "self_mapped ?s" using Suc.prems(1) keep [of 1023] by (simp add: self_mapped_def)
  moreover have "pde_present ?s va" "page_of (pmem ?s (pde_addr ?s va)) = f"
    using Suc.prems(2,3) d by (simp_all only: pde_present_def)
  ultimately have "clear_page_from n (page_of (pte_ptr va) + 4 * of_nat (Suc k)) ?s =
      Inr (?s\<lparr>pmem := zeroed f (Suc k) n (pmem ?s)\<rparr>)"
    using Suc.prems(4,5) by (intro Suc.IH) simp_all
  moreover have "store_dw (page_of (pte_ptr va) + 4 * of_nat k) 0 s = Inr ?s"
    using translate_table_page [OF Suc.prems(1,2) k] Suc.prems(3) by (simp add: store_dw_def)
  ultimately show ?case using zeroed_Suc [of f k n "pmem s"] by (simp add: ac_simps)
qed

text \<open>The frame \<open>f\<close> holds neither the directory nor a table.\<close>

definition fresh_frame :: "'a kernel_scheme \<Rightarrow> addr \<Rightarrow> bool" where
  "fresh_frame s f \<longleftrightarrow> page_of f = f \<and> f \<noteq> page_of (cr3 s) \<and>
     (\<forall>v. pde_present s v \<longrightarrow> page_of (pmem s (pde_addr s v)) \<noteq> f)"

definition new_table :: "addr \<Rightarrow> addr \<Rightarrow> 'a kernel_scheme \<Rightarrow> 'a kernel_scheme" where
  "new_table va f s = s\<lparr>pmem := zeroed f 0 1024
     ((pmem s)(pde_addr s va := f OR PG_US_U OR PG_RW_W OR PG_P_1))\<rparr>"

lemma new_table_walk:
  assumes "pt_wf s" and "fresh_frame s f" and "PDE_IDX va \<noteq> 1023" and "\<not> pde_present s va"
  shows "pmem (new_table va f s) (pde_addr s v) =
      (if PDE_IDX v = PDE_IDX va then f OR PG_US_U OR PG_RW_W OR PG_P_1 else pmem s (pde_addr s v))"
    and "pde_present s v \<Longrightarrow> PDE_IDX v \<noteq> 1023 \<Longrightarrow> pmem (new_table va f s) (pte_addr s v) = pmem s (pte_addr s v)"
proof -
  have other: "zeroed f 0 1024 m (page_of w + 4 * i) = m (page_of w + 4 * i)"
    if "page_of w \<noteq> f" "unat i < 1024" for m w i
  proof -
    have "page_of w + 4 * i \<noteq> f + 4 * of_nat j" if "j < 1024" for j
    proof
      assume "page_of w + 4 * i = f + 4 * of_nat j"
      then have "page_of w + 4 * i = page_of f + 4 * of_nat j" using assms(2) by (simp add: fresh_frame_def)
      then have "page_of w = page_of f" by (rule entry_inj(1)) (use \<open>unat i < 1024\<close> that in \<open>simp_all add: unat_of_nat_lt\<close>)
      then show False using \<open>page_of w \<noteq> f\<close> assms(2) by (simp add: fresh_frame_def)
    qed
    then show ?thesis by (auto simp: zeroed_def)
  qed
  have dir: "page_of (cr3 s) \<noteq> f" using assms(2) by (auto simp: fresh_frame_def)
  have "pde_addr s v = pde_addr s va \<longleftrightarrow> PDE_IDX v = PDE_IDX va"
    unfolding pde_addr_def
    using entry_inj(2) [of "cr3 s" "PDE_IDX v" "cr3 s" "PDE_IDX va", OF _ idx_1024(1) idx_1024(1)] by auto
  then show "pmem (new_table va f s) (pde_addr s v) =
      (if PDE_IDX v = PDE_IDX va then f OR PG_US_U OR PG_RW_W OR PG_P_1 else pmem s (pde_addr s v))"
    using other [OF dir idx_1024(1)] by (auto simp: new_table_def pde_addr_def)
  assume v: "pde_present s v" "PDE_IDX v \<noteq> 1023"
  have "pte_addr s v \<noteq> pde_addr s va"
    using v assms(1) entry_inj(1) [OF _ idx_1024(2) idx_1024(1)] unfolding pt_wf_def pte_addr_def pde_addr_def
    by blast
  moreover have "page_of (pmem s (pde_addr s v)) \<noteq> f" using v assms(2) by (simp add: fresh_frame_def)
  ultimately show "pmem (new_table va f s) (pte_addr s v) = pmem s (pte_addr s v)"
    using other [OF _ idx_1024(2)] by (simp add: new_table_def pte_addr_def)
qed

lemma new_table_facts:
  assumes "pt_wf s" and "fresh_frame s f" and "PDE_IDX va \<noteq> 1023" and "\<not> pde_present s va"
  defines "s2 \<equiv> new_table va f s"
  shows "pde_addr s2 v = pde_addr s v" and "self_mapped s2"
    and "PDE_IDX v = PDE_IDX va \<Longrightarrow> pde_present s2 v \<and> pte_addr s2 v = f + 4 * PTE_IDX v \<and> pmem s2 (f + 4 * PTE_IDX v) = 0"
    and "PDE_IDX v \<noteq> PDE_IDX va \<Longrightarrow> PDE_IDX v \<noteq> 1023 \<Longrightarrow> translate s2 v = translate s v"
    and "not_dir s2 va" and "same_entry s2 v va \<Longrightarrow> page_of v = page_of va"
proof -
  note walk = new_table_walk [OF assms(1-4)]
  have f: "page_of f = f" "f \<noteq> page_of (cr3 s)" using assms(2) by (simp_all add: fresh_frame_def)
  show pde: "pde_addr s2 v = pde_addr s v" for v by (simp add: s2_def new_table_def pde_addr_def)
  have p: "page_of (cr3 s) + 4092 = pde_addr s 0xffffffff" "PDE_IDX 0xffffffff = 1023"
    by (simp_all add: pde_addr_def PDE_IDX_def)
  have "cr3 s2 = cr3 s" by (simp add: s2_def new_table_def)
  then show "self_mapped s2"
    using assms(1,3) walk(1) [of "0xffffffff"] unfolding pt_wf_def self_mapped_def s2_def by (simp add: p)
  have pres: "pde_present s2 v \<longleftrightarrow> PDE_IDX v = PDE_IDX va \<or> pde_present s v" for v
    unfolding pde_present_def pde unfolding s2_def walk(1) using entry_bits(1) [OF f(1)] by simp
  have frame: "page_of (pmem s2 (pde_addr s v)) = (if PDE_IDX v = PDE_IDX va then f else page_of (pmem s (pde_addr s v)))" for v
    unfolding s2_def walk(1) using entry_bits(2) [OF f(1)] by simp
  show "pde_present s2 v \<and> pte_addr s2 v = f + 4 * PTE_IDX v \<and> pmem s2 (f + 4 * PTE_IDX v) = 0"
    if "PDE_IDX v = PDE_IDX va"
  proof -
    have "\<exists>i. 0 \<le> i \<and> i < 0 + 1024 \<and> f + 4 * PTE_IDX v = f + 4 * of_nat i"
      using idx_1024(2) [of v] by (intro exI [of _ "unat (PTE_IDX v)"]) simp
    then have "pmem s2 (f + 4 * PTE_IDX v) = 0" by (simp add: s2_def new_table_def zeroed_def)
    then show ?thesis using that pres frame [of v] by (simp add: pte_addr_def pde)
  qed
  show "translate s2 v = translate s v" if "PDE_IDX v \<noteq> PDE_IDX va" "PDE_IDX v \<noteq> 1023"
    using that walk by (intro translate_cong) (simp_all add: s2_def new_table_def)
  show "not_dir s2 va" using f frame [of va] \<open>cr3 s2 = cr3 s\<close> by (simp add: not_dir_def pde)
  show "page_of v = page_of va" if "same_entry s2 v va"
  proof -
    have "pde_present s2 v" "PTE_IDX v = PTE_IDX va" "page_of (pmem s2 (pde_addr s v)) = f"
      using that frame [of va] by (simp_all add: same_entry_def pde)
    moreover from this have "PDE_IDX v = PDE_IDX va" using assms(2) pres frame [of v] by (auto simp: fresh_frame_def split: if_splits)
    ultimately show ?thesis by (simp add: page_of_eq_iff)
  qed
qed

lemma add_new_table:
  assumes "pt_wf s" and "\<not> pde_present s va" and "PDE_IDX va \<noteq> 1023"
    and "palloc (kernel_pool s) = Inr (kp, f)" and "fresh_frame s f"
  shows "page_table_add va pa s =
    Inr (set_pte va (pa OR PG_US_U OR PG_RW_W OR PG_P_1) (new_table va f (s\<lparr>kernel_pool := kp\<rparr>)))"
proof -
  let ?e = "f OR PG_US_U OR PG_RW_W OR PG_P_1"
  let ?s0 = "s\<lparr>kernel_pool := kp\<rparr>"
  let ?s1 = "?s0\<lparr>pmem := (pmem s)(pde_addr s va := ?e)\<rparr>"
  let ?s2 = "new_table va f ?s0"
  have f: "page_of f = f" "f \<noteq> page_of (cr3 s)" using assms(5) by (simp_all add: fresh_frame_def)
  have same [simp]: "pde_addr ?s0 = pde_addr s" "pde_addr ?s1 = pde_addr s"
    by (simp_all add: pde_addr_def fun_eq_iff)
  have wf0: "pt_wf ?s0" "fresh_frame ?s0 f" "\<not> pde_present ?s0 va"
    using assms(1,2,5) by (simp_all add: pt_wf_def self_mapped_def fresh_frame_def pde_present_def)
  have "page_of (cr3 s) + 4 * 1023 \<noteq> pde_addr s va"
    unfolding pde_addr_def using entry_inj(2) [of "cr3 s" 1023 "cr3 s" "PDE_IDX va", OF _ _ idx_1024(1)] assms(3)
    by auto
  then have sm: "self_mapped s" "self_mapped ?s0" "self_mapped ?s1"
    using wf0(1) by (simp_all add: pt_wf_def self_mapped_def)
  have p1: "pde_present ?s1 va" "page_of (pmem ?s1 (pde_addr ?s1 va)) = f"
    using entry_bits [OF f(1)] by (simp_all add: pde_present_def)
  have "page_of (pte_ptr va) + 4 * of_nat 0 = pte_ptr va AND 0xfffff000" by (simp add: page_of_def)
  then have clear: "clear_page_from 1024 (pte_ptr va AND 0xfffff000) ?s1 = Inr ?s2"
    using clear_table [OF sm(3) p1, of 0 1024] f(2) by (simp add: new_table_def)
  note facts = new_table_facts(2,3) [OF wf0(1,2) assms(3) wf0(3)]
  have p2: "pde_present ?s2 va" "pmem ?s2 (pte_addr ?s2 va) = 0" using facts(2) [of va] by simp_all
  have "load_dw (pte_ptr va) ?s2 = Inr 0" using load_pte [OF facts(1) p2(1)] unfolding p2(2) .
  moreover have "store_dw (pte_ptr va) v ?s2 = Inr (set_pte va v ?s2)" for v
    using store_pte [OF facts(1) p2(1)] by (simp add: set_pte_def)
  ultimately show ?thesis
    using assms(2,4) clear load_pde [OF sm(1)] store_pde [OF sm(2)]
    by (simp add: page_table_add_def Let_def pde_present_def)
qed

section \<open>The tables of the loader\<close>

text \<open>
  \<^verbatim>\<open>setup_page\<close> of \<^verbatim>\<open>boot/loader.S\<close>, on the physical memory: the directory at \<^verbatim>\<open>0x100000\<close> is cleared, its entries 0
  and 768 lead to one table for the first megabyte, its last entry to itself, and the entries from 769 on to the
  tables behind. The loader clears no table.
\<close>

definition PAGE_DIR_TABLE_POS :: u32 where
  "PAGE_DIR_TABLE_POS = 0x100000"

definition setup_page :: "(addr \<Rightarrow> u32) \<Rightarrow> addr \<Rightarrow> u32" where
  "setup_page m =
     (let attr = PG_US_U OR PG_RW_W OR PG_P_1;
          m1 = fold (\<lambda>i m. m(PAGE_DIR_TABLE_POS + 4 * of_nat i := 0)) [0..<1024] m;
          eax = (PAGE_DIR_TABLE_POS + 0x1000) OR attr;
          m2 = m1(PAGE_DIR_TABLE_POS + 0x0 := eax, PAGE_DIR_TABLE_POS + 0xc00 := eax, PAGE_DIR_TABLE_POS + 4092 := eax - 0x1000);
          m3 = fold (\<lambda>esi m. m(PAGE_DIR_TABLE_POS + 0x1000 + 4 * of_nat esi := attr + 4096 * of_nat esi)) [0..<256] m2;
          eax = (PAGE_DIR_TABLE_POS + 0x2000) OR attr
      in fold (\<lambda>i m. m(PAGE_DIR_TABLE_POS + 4 * of_nat (769 + i) := eax + 0x1000 * of_nat i)) [0..<254] m3)"

lemma fold_upd_at:
  assumes "inj_on f {..<n}"
  shows "fold (\<lambda>i m. m(f i := g i)) [0..<n] m a = (if a \<in> f ` {..<n} then g (the_inv_into {..<n} f a) else m a)"
  using assms
proof (induction n)
  case (Suc n)
  have i: "inj_on f {..<n}" "f n \<notin> f ` {..<n}" using Suc.prems by (auto simp: lessThan_Suc)
  have "the_inv_into {..<Suc n} f a = the_inv_into {..<n} f a" if "a \<in> f ` {..<n}"
    using that the_inv_into_f_f [OF Suc.prems] the_inv_into_f_f [OF i(1)] by (auto simp: lessThan_Suc)
  moreover have "the_inv_into {..<Suc n} f (f n) = n" using Suc.prems by (intro the_inv_into_f_f) simp_all
  ultimately show ?case using Suc.IH [OF i(1)] i(2) by (auto simp: lessThan_Suc)
qed simp

lemma small_of_nat: "n < 1024 \<Longrightarrow> unat (of_nat n :: u32) < 1024"
  by (simp add: unat_of_nat_lt)

lemma entry_of_nat_inj: "n \<le> 1024 \<Longrightarrow> inj_on (\<lambda>i. page_of w + 4 * of_nat i) {..<n}"
proof (rule inj_onI)
  fix i j assume n: "n \<le> 1024" and ij: "i \<in> {..<n}" "j \<in> {..<n}" "page_of w + 4 * of_nat i = page_of w + 4 * of_nat j"
  then have u: "unat (of_nat i :: u32) = i" "unat (of_nat j :: u32) = j" by (simp_all add: unat_of_nat_lt)
  then have "(of_nat i :: u32) = of_nat j" using ij n by (intro entry_inj(2) [OF ij(3)]) simp_all
  then show "i = j" using u by metis
qed

text \<open>The two loops over entries of one page, as reads of the page.\<close>

lemma fold_entries:
  assumes "k + n \<le> 1024" "i < 1024"
  shows "fold (\<lambda>j m. m(page_of w + 4 * of_nat (k + j) := g j)) [0..<n] m (page_of w + 4 * of_nat i) =
      (if k \<le> i \<and> i < k + n then g (i - k) else m (page_of w + 4 * of_nat i))"
    and "page_of v \<noteq> page_of w \<Longrightarrow> fold (\<lambda>j m. m(page_of w + 4 * of_nat (k + j) := g j)) [0..<n] m (page_of v + 4 * of_nat i) =
      m (page_of v + 4 * of_nat i)"
proof -
  let ?f = "\<lambda>j. page_of w + 4 * of_nat (k + j)"
  have inj0: "inj_on (\<lambda>i. page_of w + 4 * of_nat i) {..<1024}" by (rule entry_of_nat_inj) simp
  have inj: "inj_on ?f {..<n}"
    using inj_onD [OF inj0] assms(1) by (intro inj_onI) force
  have eq: "?f j = page_of w + 4 * of_nat i \<longleftrightarrow> k + j = i" if "j < n" for j
    using inj_onD [OF inj0, of "k + j" i] that assms by auto
  have "page_of w + 4 * of_nat i \<in> ?f ` {..<n} \<longleftrightarrow> (\<exists>j<n. page_of w + 4 * of_nat i = ?f j)" by blast
  also have "\<dots> \<longleftrightarrow> (\<exists>j<n. k + j = i)" using eq by metis
  also have "\<dots> \<longleftrightarrow> k \<le> i \<and> i < k + n" by presburger
  finally have im: "page_of w + 4 * of_nat i \<in> ?f ` {..<n} \<longleftrightarrow> k \<le> i \<and> i < k + n" .
  have "the_inv_into {..<n} ?f (page_of w + 4 * of_nat i) = i - k" if "k \<le> i" "i < k + n"
    using the_inv_into_f_f [OF inj, of "i - k"] that by simp
  then show "fold (\<lambda>j m. m(?f j := g j)) [0..<n] m (page_of w + 4 * of_nat i) =
      (if k \<le> i \<and> i < k + n then g (i - k) else m (page_of w + 4 * of_nat i))"
    by (simp only: fold_upd_at [OF inj] im) simp
  assume "page_of v \<noteq> page_of w"
  then have "page_of v + 4 * of_nat i \<noteq> ?f j" if "j < n" for j
  proof -
    have "unat (of_nat i :: u32) < 1024" "unat (of_nat (k + j) :: u32) < 1024"
      using that assms by (intro small_of_nat; simp)+
    then show ?thesis using entry_inj(1) [of v "of_nat i" w "of_nat (k + j)"] \<open>page_of v \<noteq> page_of w\<close> by blast
  qed
  then have "page_of v + 4 * of_nat i \<notin> ?f ` {..<n}" by blast
  then show "fold (\<lambda>j m. m(?f j := g j)) [0..<n] m (page_of v + 4 * of_nat i) = m (page_of v + 4 * of_nat i)"
    by (simp only: fold_upd_at [OF inj] if_False)
qed

text \<open>The state that the kernel finds, with memory that was clear before.\<close>

definition loader_state :: kernel where
  "loader_state = kernel_zero\<lparr>pmem := setup_page (\<lambda>_. 0)\<rparr>"

definition loader_entry :: "nat \<Rightarrow> u32" where
  "loader_entry i = (if i = 0 \<or> i = 768 then 0x101007 else if i = 1023 then 0x100007
     else if 769 \<le> i \<and> i < 1023 then 0x102007 + 0x1000 * of_nat (i - 769) else 0)"

lemma setup_page_entries:
  assumes "i < 1024"
  shows "setup_page m (0x100000 + 4 * of_nat i) = loader_entry i"
    and "setup_page m (0x101000 + 4 * of_nat i) = (if i < 256 then 7 + 4096 * of_nat i else m (0x101000 + 4 * of_nat i))"
proof -
  have pg: "page_of 0x100000 = 0x100000" "page_of 0x101000 = 0x101000" by (simp_all add: page_of_def)
  have at: "0x100000 + 4 * of_nat i = (0x100000 + 4 * of_nat j :: u32) \<longleftrightarrow> i = j" if "j < 1024" for j
    using inj_onD [OF entry_of_nat_inj [of 1024 "0x100000"], of i j] that assms by (auto simp: pg)
  have off: "0x101000 + 4 * of_nat i \<noteq> (0x100000 + 4 * of_nat j :: u32)" if "j < 1024" for j
  proof
    assume "0x101000 + 4 * of_nat i = (0x100000 + 4 * of_nat j :: u32)"
    then have "page_of 0x101000 + 4 * of_nat i = page_of 0x100000 + 4 * (of_nat j :: u32)" by (simp only: pg)
    then have "page_of 0x101000 = page_of 0x100000"
      by (rule entry_inj(1)) (use that assms small_of_nat in blast)+
    then show False by (simp add: pg)
  qed
  have a: "PG_US_U OR PG_RW_W OR PG_P_1 = 7" by (simp add: PG_US_U_def PG_RW_W_def PG_P_1_def)
  have b: "(0x101000 :: u32) OR 7 = 0x101007" "(0x102000 :: u32) OR 7 = 0x102007" by simp_all
  let ?clear = "fold (\<lambda>j m. m(0x100000 + 4 * of_nat j := 0)) [0..<1024] m"
  let ?dir = "?clear(0x100000 := 0x101007, 0x100c00 := 0x101007, 0x100ffc := 0x100007)"
  let ?ptes = "fold (\<lambda>j m. m(0x101000 + 4 * of_nat j := 7 + 4096 * of_nat j)) [0..<256] ?dir"
  have sp: "setup_page m = fold (\<lambda>j m. m(0x100000 + 4 * of_nat (769 + j) := 0x102007 + 0x1000 * of_nat j)) [0..<254] ?ptes"
    unfolding setup_page_def Let_def PAGE_DIR_TABLE_POS_def a by simp
  note f1 = fold_entries [of 0 256 i "0x101000", unfolded pg add_0] fold_entries [of 769 254 i "0x100000", unfolded pg]
    fold_entries [of 0 1024 i "0x100000", unfolded pg add_0]
  note f2 = fold_entries(2) [of 0 1024 i "0x101000" "0x100000", unfolded pg add_0] fold_entries(2) [of 0 256 i "0x100000" "0x101000", unfolded pg add_0]
    fold_entries(2) [of 769 254 i "0x101000" "0x100000", unfolded pg]
  have d: "(0x100000 :: u32) = 0x100000 + 4 * of_nat 0" "(0x100c00 :: u32) = 0x100000 + 4 * of_nat 768"
    "(0x100ffc :: u32) = 0x100000 + 4 * of_nat 1023" by simp_all
  have "?dir (0x100000 + 4 * of_nat i) = (if i = 1023 then 0x100007 else if i = 0 \<or> i = 768 then 0x101007 else 0)"
    using assms f1(5) [where g = "\<lambda>_. 0" and m = m] at [of 0] at [of 768] at [of 1023] by simp
  moreover have "?ptes (0x100000 + 4 * of_nat i) = ?dir (0x100000 + 4 * of_nat i)" using assms by (intro f2(2)) simp_all
  moreover have "setup_page m (0x100000 + 4 * of_nat i) = (if 769 \<le> i \<and> i < 1023 then 0x102007 + 0x1000 * of_nat (i - 769) else ?ptes (0x100000 + 4 * of_nat i))"
    unfolding sp using assms by (subst f1(3)) simp_all
  ultimately show "setup_page m (0x100000 + 4 * of_nat i) = loader_entry i" by (auto simp: loader_entry_def)
  have "?dir (0x101000 + 4 * of_nat i) = ?clear (0x101000 + 4 * of_nat i)"
    using off [of 0] off [of 768] off [of 1023] by simp
  moreover have "?clear (0x101000 + 4 * of_nat i) = m (0x101000 + 4 * of_nat i)" using assms by (intro f2(1)) simp_all
  moreover have "setup_page m (0x101000 + 4 * of_nat i) = ?ptes (0x101000 + 4 * of_nat i)"
    unfolding sp using assms by (intro f2(3)) simp_all
  moreover have "?ptes (0x101000 + 4 * of_nat i) = (if i < 256 then 7 + 4096 * of_nat i else ?dir (0x101000 + 4 * of_nat i))"
    using assms by (subst f1(1)) simp_all
  ultimately show "setup_page m (0x101000 + 4 * of_nat i) = (if i < 256 then 7 + 4096 * of_nat i else m (0x101000 + 4 * of_nat i))"
    by simp
qed

lemma loader_walk:
  assumes "pmem s = setup_page m" "cr3 s = PAGE_DIR_TABLE_POS"
  shows "pmem s (pde_addr s v) = loader_entry (unat (PDE_IDX v))" and "pt_wf s"
proof -
  have c: "page_of (cr3 s) = 0x100000" by (simp add: assms(2) PAGE_DIR_TABLE_POS_def page_of_def)
  show d: "pmem s (pde_addr s v) = loader_entry (unat (PDE_IDX v))" for v
    using setup_page_entries(1) [OF idx_1024(1) [of v], of m] by (simp add: pde_addr_def c assms(1))
  have "pmem s (page_of (cr3 s) + 4 * 1023) = 0x100007"
    using setup_page_entries(1) [of 1023 m] by (simp add: c assms(1) loader_entry_def)
  then have "self_mapped s" by (simp add: self_mapped_def c) (simp add: page_of_def)
  moreover have "page_of (loader_entry i) \<noteq> 0x100000" if i: "i < 1023" "bit (loader_entry i) 0" for i
  proof
    assume p: "page_of (loader_entry i) = 0x100000"
    consider "i = 0 \<or> i = 768" | "769 \<le> i" "i < 1023" using i by (auto simp: loader_entry_def split: if_splits)
    then show False
    proof cases
      case 1
      then show False using p by (auto simp: loader_entry_def page_of_def)
    next
      case 2
      then have e: "loader_entry i = of_nat (0x102007 + 0x1000 * (i - 769))" by (simp add: loader_entry_def)
      have "unat (loader_entry i) = 0x102007 + 0x1000 * (i - 769)" unfolding e using 2 by (intro unat_of_nat_lt) simp
      moreover have "unat (page_of (loader_entry i)) = 0x100000" unfolding p by simp
      ultimately show False by (simp add: unat_page_of)
    qed
  qed
  moreover have "unat (PDE_IDX v) < 1023" if "PDE_IDX v \<noteq> 1023" for v
    using that idx_1024(1) [of v] word_unat_eq_iff [of "PDE_IDX v" 1023] by (simp add: less_Suc_eq)
  ultimately show "pt_wf s" by (auto simp: pt_wf_def pde_present_def d c)
qed

lemma loader_state_facts: "pmem loader_state = setup_page (\<lambda>_. 0)" "cr3 loader_state = PAGE_DIR_TABLE_POS"
  by (simp_all add: loader_state_def kernel_zero_def PAGE_DIR_TABLE_POS_def)

lemmas loader_pde = loader_walk(1) [OF loader_state_facts]
lemmas loader_wf = loader_walk(2) [OF loader_state_facts]

lemma loader_pte: "i < 1024 \<Longrightarrow> pmem loader_state (0x101000 + 4 * of_nat i) = (if i < 256 then 7 + 4096 * of_nat i else 0)"
  using setup_page_entries(2) by (simp add: loader_state_facts)

section \<open>Properties\<close>

text \<open>
  C30. The tables of the loader. Whatever the memory held, the directory that \<^verbatim>\<open>setup_page\<close> builds refers to itself by its
  last entry only, and an address of the first megabyte is mapped to itself twice: where it is, and from
  \<^verbatim>\<open>0xc0000000\<close> on. The two mappings go through one and the same entry of a table, so a change of one is a change
  of the other.
\<close>

theorem setup_page_maps:
  assumes "pmem s = setup_page m" "cr3 s = PAGE_DIR_TABLE_POS" "v < 0x100000"
  shows "pt_wf s \<and> translate s v = Some v \<and> translate s (0xc0000000 + v) = Some v \<and> same_entry s v (0xc0000000 + v)"
proof -
  let ?k = "0xc0000000 + v" and ?t = "unat v div 2 ^ 12"
  have v: "unat v < 0x100000" using assms(3) by (simp add: word_less_nat_alt)
  then have k: "unat ?k = 0xc0000000 + unat v" by (subst unat_add_lt) simp_all
  have t: "?t < 256" using v by simp
  have "(0xc0000000 + unat v) div 2 ^ 12 = 768 * 2 ^ 10 + ?t" using div_mult_self3 [of "2 ^ 12" "768 * 2 ^ 10" "unat v"] by simp
  then have "(0xc0000000 + unat v) div 2 ^ 12 mod 2 ^ 10 = ?t"
    using t mod_mult_self3 [of 768 "2 ^ 10" ?t] by (simp only:) simp
  then have "unat (PDE_IDX v) = 0" "unat (PDE_IDX ?k) = 768" "unat (PTE_IDX v) = ?t" "unat (PTE_IDX ?k) = ?t"
    unfolding unat_PDE_IDX unat_PTE_IDX k using v by simp_all
  then have idx: "unat (PDE_IDX v) = 0" "unat (PDE_IDX ?k) = 768" "PTE_IDX v = of_nat ?t" "PTE_IDX ?k = of_nat ?t"
    by (metis of_nat_unat ucast_id)+
  have pde: "pmem s (pde_addr s v) = 0x101007" "pmem s (pde_addr s ?k) = 0x101007"
    using loader_walk(1) [OF assms(1,2)] idx by (simp_all add: loader_entry_def)
  have pg: "page_of 0x101007 = 0x101000" by (simp add: page_of_def)
  have pte: "pmem s (pte_addr s v) = of_nat (7 + 4096 * ?t)" "pmem s (pte_addr s ?k) = of_nat (7 + 4096 * ?t)"
    unfolding pte_addr_def pde pg idx using setup_page_entries(2) [of ?t m] t by (simp_all add: assms(1))
  have u: "unat (of_nat (7 + 4096 * ?t) :: u32) = 7 + 4096 * ?t" using t by (intro unat_of_nat_lt) simp
  have "unat (page_of (of_nat (7 + 4096 * ?t) :: u32)) = 4096 * ?t" unfolding unat_page_of u by simp
  then have f: "page_of (of_nat (7 + 4096 * ?t)) + (w AND 0xfff) = v" if "unat w mod 2 ^ 12 = unat v mod 2 ^ 12" for w
    using that v unfolding word_unat_eq_iff by (subst unat_add_lt) (simp_all add: unat_offset)
  have b: "bit (of_nat (7 + 4096 * ?t) :: u32) 0" by (simp add: bit_0)
  have "(0xc0000000 :: nat) = 786432 * 2 ^ 12" by simp
  then have "unat ?k mod 2 ^ 12 = unat v mod 2 ^ 12" unfolding k by (simp only: mod_mult_self3)
  then show ?thesis using loader_walk(2) [OF assms(1,2)] b f [of v] f [of ?k]
    by (simp add: translate_def pde_present_def pde pte same_entry_def idx)
qed

theorem setup_page_maps_witness:
  "translate loader_state 0xc00b8000 = Some 0xb8000"
  using setup_page_maps [OF loader_state_facts, of "0xb8000"] by simp

text \<open>
  C9. Mapping a page. In a directory that refers to itself by its last entry only, take an address outside the
  window of the tables that is not mapped; if there is no table for it, a free frame that is no table is at hand.
  Then \<^verbatim>\<open>page_table_add\<close> returns, and the page translates to the given frame. The other addresses outside the
  window translate as before, except those whose directory entry leads to the same table, with the same index in
  it: they share the new entry. A table that the call itself makes is shared by no other address.
\<close>

theorem page_table_add_maps:
  assumes "pt_wf s" and "PDE_IDX va \<noteq> 1023" and "translate s va = None" and "page_of pa = pa"
    and "pde_present s va \<or> (\<exists>kp f. palloc (kernel_pool s) = Inr (kp, f) \<and> fresh_frame s f)"
  shows "\<exists>s'. page_table_add va pa s = Inr s' \<and> (\<forall>v. PDE_IDX v \<noteq> 1023 \<longrightarrow>
    translate s' v = (if page_of v = page_of va \<or> pde_present s va \<and> same_entry s v va then Some (pa + (v AND 0xfff))
      else translate s v))"
proof (cases "pde_present s va")
  case True
  then have "\<not> bit (pmem s (pte_addr s va)) 0" using assms(3) by (auto simp: translate_def split: if_splits)
  moreover have "not_dir s va" using True assms(1,2) by (simp add: not_dir_def pt_wf_def)
  ultimately show ?thesis
    using True assms add_to_table [of s va pa] translate_set_pte [of s va] entry_bits [OF assms(4)] same_entry_page [OF True]
    by (auto simp: pt_wf_def)
next
  case False
  then obtain kp f where f: "palloc (kernel_pool s) = Inr (kp, f)" "fresh_frame s f" using assms(5) by auto
  let ?s0 = "s\<lparr>kernel_pool := kp\<rparr>"
  let ?s2 = "new_table va f ?s0"
  have wf0: "pt_wf ?s0" "fresh_frame ?s0 f" "\<not> pde_present ?s0 va"
    using assms(1) False f(2) by (simp_all add: pt_wf_def self_mapped_def fresh_frame_def pde_present_def pde_addr_def)
  note facts = new_table_facts [OF wf0(1,2) assms(2) wf0(3)]
  have pool: "translate ?s0 v = translate s v" for v by (rule translate_cong) simp_all
  have new: "translate ?s2 v = translate s v" if "PDE_IDX v \<noteq> 1023" for v
  proof (cases "PDE_IDX v = PDE_IDX va")
    case True
    then have "translate ?s2 v = None" using facts(3) [of v] by (simp add: translate_def)
    moreover have "translate s v = None" using True False by (simp add: translate_def pde_present_def pde_addr_def)
    ultimately show ?thesis by simp
  qed (use that facts(4) pool in simp)
  have p: "pde_present ?s2 va" using facts(3) [of va] by simp
  have "same_entry ?s2 v va \<longleftrightarrow> page_of v = page_of va" for v using facts(6) [of v] same_entry_page [OF p] by blast
  then show ?thesis
    using add_new_table [OF assms(1) False assms(2) f] translate_set_pte [OF facts(5)] new entry_bits [OF assms(4)] False
    by simp
qed

theorem page_table_add_maps_witness:
  "\<exists>s'. page_table_add 0xc0101000 0x300000 loader_state = Inr s' \<and>
     translate s' 0xc0101004 = Some 0x300004 \<and> translate s' 0x00101004 = Some 0x300004 \<and>
     translate s' 0xc0001234 = translate loader_state 0xc0001234"
proof -
  have idx: "PDE_IDX 0xc0101000 = 768" "PTE_IDX 0xc0101000 = 257" "PDE_IDX 0x00101004 = 0" "PTE_IDX 0x00101004 = 257"
    "PDE_IDX 0xc0001234 = 768" "PTE_IDX 0xc0001234 = 1" "PDE_IDX 0xc0101004 = 768"
    by (simp_all add: PDE_IDX_def PTE_IDX_def)
  have pres: "pde_present loader_state 0xc0101000" by (simp add: pde_present_def loader_pde idx loader_entry_def)
  have "pte_addr loader_state 0xc0101000 = 0x101000 + 4 * of_nat 257" by (simp add: pte_addr_def loader_pde idx loader_entry_def page_of_def)
  then have none: "translate loader_state 0xc0101000 = None" using loader_pte [of 257] by (simp add: translate_def)
  have same: "same_entry loader_state 0x00101004 0xc0101000" "\<not> same_entry loader_state 0xc0001234 0xc0101000"
    by (simp_all add: same_entry_def pde_present_def loader_pde idx loader_entry_def)
  from page_table_add_maps [OF loader_wf _ none, of "0x300000"] pres idx same show ?thesis
    by (auto simp: page_of_def)
qed

text \<open>
  What the translation cache does with the flushes of a run: \<^verbatim>\<open>invlpg\<close> drops the entry of the page of its operand.
\<close>

definition tlb_after :: "io_event list \<Rightarrow> (addr \<rightharpoonup> addr) \<Rightarrow> (addr \<rightharpoonup> addr)" where
  "tlb_after evs c = fold (\<lambda>e c. case e of Invlpg a \<Rightarrow> c(page_of a := None) | _ \<Rightarrow> c) evs c"

text \<open>
  C10. Unmapping a page. \<^verbatim>\<open>page_table_pte_remove\<close> clears the present bit of one entry: in the tables, the page and
  the pages that share its entry no longer translate, and every other address translates as before. The
  translation cache is another matter: the operand of \<^verbatim>\<open>invlpg\<close> is the local variable, so the flush concerns the
  page of the stack, and an entry for the page that was unmapped stays in the cache.
\<close>

theorem page_table_pte_remove_unmaps:
  assumes "self_mapped s" and "pde_present s va" and "not_dir s va"
  shows "\<exists>s'. page_table_pte_remove va s = Inr s' \<and>
    (\<forall>v. translate s' v = (if same_entry s v va then None else translate s v)) \<and>
    (\<exists>evs. io_log s' = io_log s @ evs \<and> (\<forall>c. tlb_after evs c = c(page_of (esp s) := None)))"
proof -
  let ?t = "pmem s (pte_addr s va) AND NOT PG_P_1"
  have "page_table_pte_remove va s = Inr (emit (Invlpg (esp (set_pte va ?t s))) (set_pte va ?t s))"
    using assms by (simp add: page_table_pte_remove_def Let_def load_pte store_pte set_pte_def)
  moreover have "translate (emit e s') v = translate s' v" for e v and s' :: "'a kernel_scheme"
    by (rule translate_cong) (simp_all add: emit_def)
  moreover have "\<not> bit ?t 0" by (simp add: PG_P_1_def bit_simps)
  moreover have "io_log (emit (Invlpg (esp (set_pte va ?t s))) (set_pte va ?t s)) = io_log s @ [Invlpg (esp s)]"
    by (simp add: emit_def set_pte_def)
  ultimately show ?thesis using translate_set_pte [OF assms(3)] by (simp add: tlb_after_def)
qed

theorem page_table_pte_remove_unmaps_witness:
  "\<exists>s' evs. page_table_pte_remove 0xc0001000 loader_state = Inr s' \<and> translate s' 0xc0001234 = None \<and>
     translate s' 0x00001234 = None \<and> io_log s' = evs \<and>
     tlb_after evs [0xc0001000 \<mapsto> 0x1000] 0xc0001000 = Some 0x1000"
proof -
  have idx: "PDE_IDX 0xc0001000 = 768" "PTE_IDX 0xc0001000 = 1" "PDE_IDX 0xc0001234 = 768" "PTE_IDX 0xc0001234 = 1"
    "PDE_IDX 0x00001234 = 0" "PTE_IDX 0x00001234 = 1" by (simp_all add: PDE_IDX_def PTE_IDX_def)
  have "pde_present loader_state 0xc0001000" by (simp add: pde_present_def loader_pde idx loader_entry_def)
  moreover have "not_dir loader_state 0xc0001000" unfolding not_dir_def loader_pde idx by (simp add: loader_entry_def loader_state_facts PAGE_DIR_TABLE_POS_def page_of_def)
  moreover have "self_mapped loader_state" using loader_wf by (simp add: pt_wf_def)
  moreover have "same_entry loader_state 0xc0001234 0xc0001000" "same_entry loader_state 0x00001234 0xc0001000"
    by (simp_all add: same_entry_def pde_present_def loader_pde idx loader_entry_def)
  ultimately show ?thesis using page_table_pte_remove_unmaps [of loader_state "0xc0001000"]
    by (auto simp: loader_state_def kernel_zero_def page_of_def)
qed

text \<open>
  C31. \<^verbatim>\<open>addr_v2p\<close> computes the translation of the processor for every mapped address, and faults
  when there is no table for the address. It does not test whether the page is present: for an absent page of a
  table it returns the address that the bits of the entry give, where the processor would fault.
\<close>

theorem addr_v2p_translates:
  assumes "self_mapped s"
  shows "(\<forall>pa. translate s va = Some pa \<longrightarrow> addr_v2p va s = Inr pa) \<and>
    (\<not> pde_present s va \<longrightarrow> addr_v2p va s = Inl (Bad_access ''page fault'')) \<and>
    (pde_present s va \<and> translate s va = None \<longrightarrow> addr_v2p va s = Inr (page_of (pmem s (pte_addr s va)) + (va AND 0xfff)))"
proof (intro conjI allI impI)
  show "addr_v2p va s = Inr pa" if "translate s va = Some pa" for pa
    using that assms by (auto simp: addr_v2p_def load_pte translate_def page_of_def split: if_splits)
  show "addr_v2p va s = Inl (Bad_access ''page fault'')" if "\<not> pde_present s va"
    using that assms by (simp add: addr_v2p_def load_dw_def translate_pte_ptr)
  show "addr_v2p va s = Inr (page_of (pmem s (pte_addr s va)) + (va AND 0xfff))" if "pde_present s va \<and> translate s va = None"
    using that assms by (simp add: addr_v2p_def load_pte page_of_def)
qed

theorem addr_v2p_translates_witness:
  "addr_v2p 0xc0001abc loader_state = Inr 0x1abc"
proof -
  have idx: "PDE_IDX 0xc0001abc = 768" "PTE_IDX 0xc0001abc = 1" by (simp_all add: PDE_IDX_def PTE_IDX_def)
  have pres: "pde_present loader_state 0xc0001abc" by (simp add: pde_present_def loader_pde idx loader_entry_def)
  have "pte_addr loader_state 0xc0001abc = 0x101000 + 4 * of_nat 1"
    by (simp add: pte_addr_def loader_pde idx loader_entry_def page_of_def)
  then have "pmem loader_state (pte_addr loader_state 0xc0001abc) = 0x1007" using loader_pte [of 1] by simp
  then have "translate loader_state 0xc0001abc = Some 0x1abc" using pres by (simp add: translate_def page_of_def)
  moreover have "self_mapped loader_state" using loader_wf by (simp add: pt_wf_def)
  ultimately show ?thesis using addr_v2p_translates [of loader_state "0xc0001abc"] by simp
qed

end
