(* ===== verification/Sched.thy ===== *)
theory Sched
  imports Paging
begin

text \<open>
  The scheduler: the parts of \<^verbatim>\<open>thread/thread.c\<close> that switch tasks, with \<^verbatim>\<open>thread/switch.S\<close>,
  \<^verbatim>\<open>page_dir_activate\<close> and \<^verbatim>\<open>process_activate\<close> of \<^verbatim>\<open>userprog/process.c\<close> and
  \<^verbatim>\<open>update_tss_esp\<close> of \<^verbatim>\<open>userprog/tss.c\<close>. The running task is the one whose page holds the stack
  pointer. A routine that gives the processor away ends, in the model, with the state in which the
  next task continues; what the suspended call still has to do is to restore the interrupt flag it
  saved, and that saved value is part of its result.

  The invariant \<open>sched_inv\<close> ties the status of every task to its place: exactly the ready tasks are
  in the ready queue, the running one is where the stack pointer is, and every other task has a
  saved stack pointer in its own page (that is, the one it has when the four registers are popped). The lemmas show that the scheduler keeps it, that no
  assertion on the way fails, and that the queue is served round robin.
\<close>

definition running_thread :: "'a kernel_scheme \<Rightarrow> addr" where
  "running_thread s = esp s AND 0xfffff000"

definition update_tss_esp :: "addr \<Rightarrow> 'a kernel_scheme \<Rightarrow> 'a kernel_scheme" where
  "update_tss_esp pthread s = s\<lparr>the_tss := (the_tss s)\<lparr>esp0 := pthread + PG_SIZE\<rparr>\<rparr>"

definition page_dir_activate :: "addr \<Rightarrow> 'a kernel_scheme \<Rightarrow> 'a kernel_scheme res" where
  "page_dir_activate p_thread s =
     bindR (if pgdir (tasks s p_thread) \<noteq> NULL then addr_v2p (pgdir (tasks s p_thread)) s
            else Inr 0x100000) (\<lambda>pagedir_phy_addr.
     Inr (s\<lparr>cr3 := pagedir_phy_addr\<rparr>))"

definition process_activate :: "addr \<Rightarrow> 'a kernel_scheme \<Rightarrow> 'a kernel_scheme res" where
  "process_activate p_thread s =
     bindR (kassert (p_thread \<noteq> NULL) ''p_thread != NULL'') (\<lambda>_.
     bindR (page_dir_activate p_thread s) (\<lambda>s1.
     if pgdir (tasks s1 p_thread) \<noteq> NULL then Inr (update_tss_esp p_thread s1) else Inr s1))"

text \<open>
  \<^verbatim>\<open>switch.S\<close>: four registers are pushed, the stack pointer is saved in the task that leaves and that of the next
  is loaded, and four registers are popped. The registers themselves, which the compiler keeps across a call, are
  not part of the state; \<open>esp\<close> is the stack pointer at the entry of the routine and at its \<^verbatim>\<open>ret\<close>.
\<close>

definition switch_to :: "addr \<Rightarrow> addr \<Rightarrow> 'a kernel_scheme \<Rightarrow> 'a kernel_scheme" where
  "switch_to cur next' s =
     (let s1 = upd_task cur (\<lambda>t. t\<lparr>self_kstack := esp s - 4 * 4\<rparr>) s
      in s1\<lparr>esp := self_kstack (tasks s1 next') + 4 * 4\<rparr>)"

definition may_wake :: "task_status \<Rightarrow> bool" where
  "may_wake st \<longleftrightarrow> st = TASK_BLOCKED \<or> st = TASK_WAITING \<or> st = TASK_HANGING"

definition thread_unblock :: "addr \<Rightarrow> 'a kernel_scheme \<Rightarrow> 'a kernel_scheme res" where
  "thread_unblock pthread s =
     (let (s1, old_status) = intr_disable s; st = status (tasks s1 pthread) in
      bindR (kassert (may_wake st) ''(pthread->status == TASK_BLOCKED) || ...'') (\<lambda>_.
      bindR (if st \<noteq> TASK_READY then
          bindR (kassert (pthread \<notin> set (thread_ready_list s1))
                   ''!elem_find(&thread_ready_list, &pthread->general_tag)'') (\<lambda>_.
          if pthread \<in> set (thread_ready_list s1)
          then kpanic ''thread_unblock: blocked thread in ready_list''
          else Inr (upd_task pthread (\<lambda>t. t\<lparr>status := TASK_READY\<rparr>)
                      (s1\<lparr>thread_ready_list := pthread # thread_ready_list s1\<rparr>)))
        else Inr s1) (\<lambda>s2.
      Inr (fst (intr_set_status old_status s2)))))"

definition schedule :: "'a kernel_scheme \<Rightarrow> 'a kernel_scheme res" where
  "schedule s =
     bindR (kassert (intr_get_status s = INTR_OFF) ''intr_get_status() == INTR_OFF'') (\<lambda>_.
     let cur = running_thread s in
     bindR (if status (tasks s cur) = TASK_RUNNING then
         bindR (kassert (cur \<notin> set (thread_ready_list s))
                  ''!elem_find(&thread_ready_list, &cur->general_tag)'') (\<lambda>_.
         Inr (upd_task cur (\<lambda>t. t\<lparr>ticks := priority t, status := TASK_READY\<rparr>)
                (s\<lparr>thread_ready_list := thread_ready_list s @ [cur]\<rparr>)))
       else Inr s) (\<lambda>s1.
     bindR (if thread_ready_list s1 = [] then thread_unblock (idle_thread s1) s1 else Inr s1) (\<lambda>s2.
     bindR (kassert (thread_ready_list s2 \<noteq> []) ''!list_empty(&thread_ready_list)'') (\<lambda>_.
     let next' = hd (thread_ready_list s2);
         s3 = upd_task next' (\<lambda>t. t\<lparr>status := TASK_RUNNING\<rparr>)
                (s2\<lparr>thread_ready_list := tl (thread_ready_list s2)\<rparr>) in
     bindR (process_activate next' s3) (\<lambda>s4.
     Inr (switch_to cur next' s4))))))"

text \<open>
  \<^verbatim>\<open>thread_block\<close> and \<^verbatim>\<open>thread_yield\<close> up to the switch. The second component is the local variable
  \<^verbatim>\<open>old_status\<close> of the suspended call, which \<open>thread_resume\<close> restores when the task runs again.
\<close>

definition thread_block ::
  "task_status \<Rightarrow> 'a kernel_scheme \<Rightarrow> ('a kernel_scheme \<times> intr_status) res" where
  "thread_block stat s =
     bindR (kassert (may_wake stat) ''(stat == TASK_BLOCKED) || ...'') (\<lambda>_.
     let (s1, old_status) = intr_disable s; cur_thread = running_thread s1 in
     bindR (schedule (upd_task cur_thread (\<lambda>t. t\<lparr>status := stat\<rparr>) s1)) (\<lambda>s2.
     Inr (s2, old_status)))"

definition thread_yield :: "'a kernel_scheme \<Rightarrow> ('a kernel_scheme \<times> intr_status) res" where
  "thread_yield s =
     (let cur = running_thread s; (s1, old_status) = intr_disable s in
      bindR (kassert (cur \<notin> set (thread_ready_list s1))
               ''!elem_find(&thread_ready_list, &cur->general_tag)'') (\<lambda>_.
      let s2 = upd_task cur (\<lambda>t. t\<lparr>status := TASK_READY\<rparr>)
                 (s1\<lparr>thread_ready_list := thread_ready_list s1 @ [cur]\<rparr>) in
      bindR (schedule s2) (\<lambda>s3. Inr (s3, old_status))))"

definition thread_resume :: "intr_status \<Rightarrow> 'a kernel_scheme \<Rightarrow> 'a kernel_scheme" where
  "thread_resume old_status s = fst (intr_set_status old_status s)"

section \<open>The invariant\<close>

definition space_set :: "(addr \<Rightarrow> addr) \<Rightarrow> 'a kernel_scheme \<Rightarrow> addr set" where
  "space_set pa s = insert 0x100000 (pa ` {t \<in> set (thread_all_list s). pgdir (tasks s t) \<noteq> NULL})"

text \<open>
  Every page directory of a process is mapped, at the same frame, in the address space of the kernel
  and of every process: the spaces share the kernel's part.
\<close>

definition spaces_ok :: "'a kernel_scheme \<Rightarrow> bool" where
  "spaces_ok s \<longleftrightarrow> (\<exists>pa. cr3 s \<in> space_set pa s \<and>
     (\<forall>t\<in>set (thread_all_list s). pgdir (tasks s t) \<noteq> NULL \<longrightarrow>
        (\<forall>c\<in>space_set pa s. addr_v2p (pgdir (tasks s t)) (s\<lparr>cr3 := c\<rparr>) = Inr (pa t))))"

definition task_ok :: "'a kernel_scheme \<Rightarrow> addr \<Rightarrow> bool" where
  "task_ok s t \<longleftrightarrow> page_of t = t \<and> t \<noteq> NULL \<and>
     (status (tasks s t) = TASK_READY \<longleftrightarrow> t \<in> set (thread_ready_list s)) \<and>
     (status (tasks s t) = TASK_RUNNING \<longrightarrow> t = running_thread s) \<and>
     (t \<noteq> running_thread s \<longrightarrow> page_of (self_kstack (tasks s t) + 4 * 4) = t)"

definition sched_core :: "'a kernel_scheme \<Rightarrow> bool" where
  "sched_core s \<longleftrightarrow> distinct (thread_ready_list s) \<and> distinct (thread_all_list s) \<and>
     set (thread_ready_list s) \<subseteq> set (thread_all_list s) \<and>
     (\<forall>t\<in>set (thread_all_list s). task_ok s t) \<and>
     idle_thread s \<in> set (thread_all_list s) \<and> status (tasks s (idle_thread s)) \<noteq> TASK_DIED \<and>
     (status (tasks s (running_thread s)) = TASK_RUNNING \<longrightarrow> running_thread s \<in> set (thread_all_list s)) \<and>
     spaces_ok s"

definition sched_inv :: "'a kernel_scheme \<Rightarrow> bool" where
  "sched_inv s \<longleftrightarrow> sched_core s \<and> status (tasks s (running_thread s)) = TASK_RUNNING"

lemma addr_v2p_cong:
  assumes "pmem s' = pmem s" and "cr3 s' = cr3 s"
  shows "addr_v2p va s' = addr_v2p va s"
proof -
  have t: "translate s' v = translate s v" for v using assms by (intro translate_cong) simp_all
  show ?thesis using assms(1) by (simp add: addr_v2p_def load_dw_def t split: option.split)
qed

lemma spaces_ok_cong:
  assumes "spaces_ok s" and "pmem s' = pmem s" and "cr3 s' = cr3 s"
    and "thread_all_list s' = thread_all_list s" and "\<And>t. pgdir (tasks s' t) = pgdir (tasks s t)"
  shows "spaces_ok s'"
proof -
  have "addr_v2p va (s'\<lparr>cr3 := c\<rparr>) = addr_v2p va (s\<lparr>cr3 := c\<rparr>)" for va c
    using assms(2) by (intro addr_v2p_cong) simp_all
  then show ?thesis using assms by (simp add: spaces_ok_def space_set_def)
qed

lemma running_thread_alt: "running_thread s = page_of (esp s)"
  by (simp add: running_thread_def page_of_def)

section \<open>Waking a task\<close>

definition wake :: "addr \<Rightarrow> 'a kernel_scheme \<Rightarrow> 'a kernel_scheme" where
  "wake t s = upd_task t (\<lambda>t. t\<lparr>status := TASK_READY\<rparr>) (s\<lparr>thread_ready_list := t # thread_ready_list s\<rparr>)"

lemma wake_simps [simp]:
  "thread_ready_list (wake t s) = t # thread_ready_list s" "thread_all_list (wake t s) = thread_all_list s"
  "pmem (wake t s) = pmem s" "cr3 (wake t s) = cr3 s" "idle_thread (wake t s) = idle_thread s"
  "esp (wake t s) = esp s" "eflags (wake t s) = eflags s"
  "tasks (wake t s) = (tasks s)(t := (tasks s t)\<lparr>status := TASK_READY\<rparr>)"
  "running_thread (wake t s) = running_thread s"
  by (simp_all add: wake_def upd_task_def running_thread_def)

lemma intr_disable_kernel [simp]:
  "tasks (fst (intr_disable s)) = tasks s" "thread_ready_list (fst (intr_disable s)) = thread_ready_list s"
  "esp (fst (intr_disable s)) = esp s" "thread_all_list (fst (intr_disable s)) = thread_all_list s"
  "pmem (fst (intr_disable s)) = pmem s" "cr3 (fst (intr_disable s)) = cr3 s"
  "idle_thread (fst (intr_disable s)) = idle_thread s"
  by (simp_all add: intr_disable_def cli_def)

lemma thread_unblock_wakes:
  assumes "may_wake (status (tasks s t))" and "t \<notin> set (thread_ready_list s)"
  shows "thread_unblock t s = Inr (wake t s)"
proof -
  have "fst (intr_set_status (intr_get_status s) (wake t (fst (intr_disable s)))) = wake t s"
    by (rule critical_commute) (simp_all add: wake_def upd_task_def sti_def)
  moreover have "status (tasks s t) \<noteq> TASK_READY" using assms(1) by (auto simp: may_wake_def)
  ultimately show ?thesis
    using assms by (simp add: thread_unblock_def Let_def split_def wake_def upd_task_def kassert_def)
qed

lemma wake_core:
  assumes "sched_core s" and "t \<in> set (thread_all_list s)" and "may_wake (status (tasks s t))"
  shows "t \<notin> set (thread_ready_list s)" and "sched_core (wake t s)"
proof -
  have ok: "task_ok s u" if "u \<in> set (thread_all_list s)" for u using assms(1) that by (simp add: sched_core_def)
  show t: "t \<notin> set (thread_ready_list s)" using ok [OF assms(2)] assms(3) by (auto simp: task_ok_def may_wake_def)
  have "task_ok (wake t s) u" if "u \<in> set (thread_all_list s)" for u
    using ok [OF that] ok [OF assms(2)] by (simp add: task_ok_def)
  moreover have "spaces_ok (wake t s)"
    using assms(1) by (intro spaces_ok_cong [of s "wake t s"]) (simp_all add: sched_core_def)
  moreover have "status (tasks (wake t s) (idle_thread s)) \<noteq> TASK_DIED"
    using assms(1) by (simp add: sched_core_def)
  moreover have "status (tasks (wake t s) (running_thread s)) = TASK_RUNNING \<longrightarrow>
      running_thread s \<in> set (thread_all_list s)"
    using assms(1) by (simp add: sched_core_def)
  ultimately show "sched_core (wake t s)"
    using assms(1,2) t unfolding sched_core_def by simp
qed

section \<open>One round of the scheduler\<close>

definition requeue :: "'a kernel_scheme \<Rightarrow> 'a kernel_scheme" where
  "requeue s = upd_task (running_thread s) (\<lambda>t. t\<lparr>ticks := priority t, status := TASK_READY\<rparr>)
     (s\<lparr>thread_ready_list := thread_ready_list s @ [running_thread s]\<rparr>)"

lemma requeue_simps [simp]:
  "thread_ready_list (requeue s) = thread_ready_list s @ [running_thread s]"
  "thread_all_list (requeue s) = thread_all_list s"
  "pmem (requeue s) = pmem s" "cr3 (requeue s) = cr3 s" "idle_thread (requeue s) = idle_thread s"
  "esp (requeue s) = esp s" "eflags (requeue s) = eflags s"
  "tasks (requeue s) = (tasks s)(running_thread s := (tasks s (running_thread s))
     \<lparr>ticks := priority (tasks s (running_thread s)), status := TASK_READY\<rparr>)"
  "running_thread (requeue s) = running_thread s"
  by (simp_all add: requeue_def upd_task_def running_thread_def)

lemma requeue_core:
  assumes "sched_core s" and "status (tasks s (running_thread s)) = TASK_RUNNING"
  shows "running_thread s \<notin> set (thread_ready_list s)" and "sched_core (requeue s)"
proof -
  let ?c = "running_thread s"
  have c: "?c \<in> set (thread_all_list s)" using assms by (simp add: sched_core_def)
  have ok: "task_ok s u" if "u \<in> set (thread_all_list s)" for u using assms(1) that by (simp add: sched_core_def)
  show t: "?c \<notin> set (thread_ready_list s)" using ok [OF c] assms(2) by (auto simp: task_ok_def)
  have "task_ok (requeue s) u" if "u \<in> set (thread_all_list s)" for u
    using ok [OF that] by (simp add: task_ok_def)
  moreover have "spaces_ok (requeue s)"
    using assms(1) by (intro spaces_ok_cong [of s "requeue s"]) (simp_all add: sched_core_def)
  moreover have "status (tasks (requeue s) (idle_thread s)) \<noteq> TASK_DIED"
    using assms(1) by (simp add: sched_core_def)
  ultimately show "sched_core (requeue s)" using assms(1) c t unfolding sched_core_def by simp
qed

lemma space_set_cr3 [simp]: "space_set pa (s\<lparr>cr3 := c\<rparr>) = space_set pa s"
  by (simp add: space_set_def)

lemma process_activate_ok:
  assumes "spaces_ok s" and "n \<in> set (thread_all_list s)" and "n \<noteq> NULL"
  shows "\<exists>c. process_activate n s =
      Inr (if pgdir (tasks s n) \<noteq> NULL then update_tss_esp n (s\<lparr>cr3 := c\<rparr>) else s\<lparr>cr3 := c\<rparr>) \<and>
    spaces_ok (s\<lparr>cr3 := c\<rparr>) \<and>
    (if pgdir (tasks s n) = NULL then c = 0x100000 else addr_v2p (pgdir (tasks s n)) s = Inr c)"
proof -
  obtain pa where pa: "cr3 s \<in> space_set pa s"
    "\<And>t c. t \<in> set (thread_all_list s) \<Longrightarrow> pgdir (tasks s t) \<noteq> NULL \<Longrightarrow> c \<in> space_set pa s \<Longrightarrow>
       addr_v2p (pgdir (tasks s t)) (s\<lparr>cr3 := c\<rparr>) = Inr (pa t)"
    using assms(1) unfolding spaces_ok_def by blast
  have here: "addr_v2p (pgdir (tasks s n)) s = Inr (pa n)" if "pgdir (tasks s n) \<noteq> NULL"
  proof -
    have "addr_v2p (pgdir (tasks s n)) (s\<lparr>cr3 := cr3 s\<rparr>) = Inr (pa n)" by (rule pa(2) [OF assms(2) that pa(1)])
    then show ?thesis by simp
  qed
  let ?c = "if pgdir (tasks s n) = NULL then 0x100000 else pa n"
  have in_set: "?c \<in> space_set pa s" using assms(2) by (auto simp: space_set_def)
  have "spaces_ok (s\<lparr>cr3 := c\<rparr>)" if "c \<in> space_set pa s" for c
    unfolding spaces_ok_def using that pa(2) by (intro exI [of _ pa]) simp
  then have "spaces_ok (s\<lparr>cr3 := ?c\<rparr>)" using in_set by blast
  then show ?thesis using here assms(3)
    by (intro exI [of _ ?c]) (simp add: process_activate_def page_dir_activate_def kassert_def)
qed

definition picked :: "addr \<Rightarrow> 'a kernel_scheme \<Rightarrow> 'a kernel_scheme" where
  "picked n s = upd_task n (\<lambda>t. t\<lparr>status := TASK_RUNNING\<rparr>) (s\<lparr>thread_ready_list := tl (thread_ready_list s)\<rparr>)"

lemma picked_simps [simp]:
  "thread_ready_list (picked n s) = tl (thread_ready_list s)" "thread_all_list (picked n s) = thread_all_list s"
  "pmem (picked n s) = pmem s" "cr3 (picked n s) = cr3 s" "idle_thread (picked n s) = idle_thread s"
  "esp (picked n s) = esp s" "eflags (picked n s) = eflags s"
  "tasks (picked n s) = (tasks s)(n := (tasks s n)\<lparr>status := TASK_RUNNING\<rparr>)"
  "running_thread (picked n s) = running_thread s"
  by (simp_all add: picked_def upd_task_def running_thread_def)

lemma switch_simps [simp]:
  "thread_ready_list (switch_to c n s) = thread_ready_list s" "thread_all_list (switch_to c n s) = thread_all_list s"
  "pmem (switch_to c n s) = pmem s" "cr3 (switch_to c n s) = cr3 s" "idle_thread (switch_to c n s) = idle_thread s"
  "eflags (switch_to c n s) = eflags s"
  "tasks (switch_to c n s) = (tasks s)(c := (tasks s c)\<lparr>self_kstack := esp s - 4 * 4\<rparr>)"
  "esp (switch_to c n s) = (if n = c then esp s else self_kstack (tasks s n) + 4 * 4)"
  by (simp_all add: switch_to_def upd_task_def)

lemma update_tss_simps [simp]:
  "thread_ready_list (update_tss_esp p s) = thread_ready_list s" "thread_all_list (update_tss_esp p s) = thread_all_list s"
  "pmem (update_tss_esp p s) = pmem s" "cr3 (update_tss_esp p s) = cr3 s" "idle_thread (update_tss_esp p s) = idle_thread s"
  "eflags (update_tss_esp p s) = eflags s" "tasks (update_tss_esp p s) = tasks s" "esp (update_tss_esp p s) = esp s"
  by (simp_all add: update_tss_esp_def)

text \<open>What a round leaves: the task at the head of the queue runs, in its own address space.\<close>

text \<open>A switch of tasks changes of a task only its status and its saved stack pointer.\<close>

definition same_pcb :: "task_struct \<Rightarrow> task_struct \<Rightarrow> bool" where
  "same_pcb t t' \<longleftrightarrow> t'\<lparr>self_kstack := self_kstack t, status := status t\<rparr> = t"

lemma same_pcb_fields:
  assumes "same_pcb t t'"
  shows "ticks t' = ticks t" "priority t' = priority t" "elapsed_ticks t' = elapsed_ticks t" "stack_magic t' = stack_magic t"
    "pid t' = pid t" "parent_pid t' = parent_pid t" "exit_status t' = exit_status t" "name t' = name t"
proof -
  have e: "t'\<lparr>self_kstack := self_kstack t, status := status t\<rparr> = t" using assms by (simp add: same_pcb_def)
  show "ticks t' = ticks t" "priority t' = priority t" "elapsed_ticks t' = elapsed_ticks t" "stack_magic t' = stack_magic t"
    using arg_cong [OF e, of ticks] arg_cong [OF e, of priority] arg_cong [OF e, of elapsed_ticks] arg_cong [OF e, of stack_magic] by simp_all
  show "pid t' = pid t" "parent_pid t' = parent_pid t" "exit_status t' = exit_status t" "name t' = name t"
    using arg_cong [OF e, of pid] arg_cong [OF e, of parent_pid] arg_cong [OF e, of exit_status] arg_cong [OF e, of name] by simp_all
qed

definition runs_next :: "addr \<Rightarrow> addr list \<Rightarrow> 'a kernel_scheme \<Rightarrow> 'a kernel_scheme \<Rightarrow> bool" where
  "runs_next n rest s s' \<longleftrightarrow> sched_inv s' \<and> running_thread s' = n \<and> thread_ready_list s' = rest \<and>
     thread_all_list s' = thread_all_list s \<and> eflags s' = eflags s \<and> pmem s' = pmem s \<and>
     idle_thread s' = idle_thread s \<and>
     (\<forall>t. t \<noteq> n \<longrightarrow> status (tasks s' t) = status (tasks s t)) \<and>
     (\<forall>t. pgdir (tasks s' t) = pgdir (tasks s t)) \<and> (\<forall>t. same_pcb (tasks s t) (tasks s' t)) \<and>
     (if pgdir (tasks s n) = NULL then cr3 s' = 0x100000 else addr_v2p (pgdir (tasks s n)) s = Inr (cr3 s'))"

lemma dispatch:
  assumes core: "sched_core s" and q: "thread_ready_list s = n # rest"
    and cur: "status (tasks s (running_thread s)) \<noteq> TASK_RUNNING"
  shows "\<exists>s4. process_activate n (picked n s) = Inr s4 \<and>
    runs_next n rest s (switch_to (running_thread s) n s4)"
proof -
  let ?c = "running_thread s" and ?p = "picked n s"
  have all: "n \<in> set (thread_all_list s)" and ok: "\<And>u. u \<in> set (thread_all_list s) \<Longrightarrow> task_ok s u"
    using core q by (auto simp: sched_core_def)
  have n0: "n \<noteq> NULL" "page_of n = n" using ok [OF all] by (auto simp: task_ok_def)
  have sp: "spaces_ok ?p" using core by (intro spaces_ok_cong [of s ?p]) (simp_all add: sched_core_def)
  have pg: "pgdir (tasks ?p n) = pgdir (tasks s n)" and pall: "n \<in> set (thread_all_list ?p)"
    using all by simp_all
  obtain c where c: "process_activate n ?p =
      Inr (if pgdir (tasks s n) \<noteq> NULL then update_tss_esp n (?p\<lparr>cr3 := c\<rparr>) else ?p\<lparr>cr3 := c\<rparr>)"
    "spaces_ok (?p\<lparr>cr3 := c\<rparr>)"
    "if pgdir (tasks s n) = NULL then c = 0x100000 else addr_v2p (pgdir (tasks s n)) ?p = Inr c"
    using process_activate_ok [OF sp pall n0(1)] unfolding pg by blast
  define s4 where "s4 = (if pgdir (tasks s n) \<noteq> NULL then update_tss_esp n (?p\<lparr>cr3 := c\<rparr>) else ?p\<lparr>cr3 := c\<rparr>)"
  have s4: "thread_ready_list s4 = rest" "thread_all_list s4 = thread_all_list s" "pmem s4 = pmem s" "cr3 s4 = c"
    "idle_thread s4 = idle_thread s" "eflags s4 = eflags s" "esp s4 = esp s"
    "tasks s4 = (tasks s)(n := (tasks s n)\<lparr>status := TASK_RUNNING\<rparr>)"
    using q by (simp_all add: s4_def)
  let ?s = "switch_to ?c n s4"
  have run: "running_thread ?s = n"
    using ok [OF all] by (auto simp: running_thread_alt s4 task_ok_def)
  have st: "status (tasks ?s u) = (if u = n then TASK_RUNNING else status (tasks s u))" for u by (simp add: s4)
  have ks: "self_kstack (tasks ?s u) = (if u = ?c then esp s - 4 * 4 else self_kstack (tasks s u))" for u by (simp add: s4)
  have rdy: "thread_ready_list ?s = rest" and nr: "n \<notin> set rest" "distinct rest" "set rest \<subseteq> set (thread_all_list s)"
    using core q by (simp_all add: s4 sched_core_def)
  have tok: "task_ok ?s u" if "u \<in> set (thread_all_list s)" for u
  proof (cases "u = n")
    case True
    then show ?thesis unfolding task_ok_def st run rdy using nr n0 by simp
  next
    case False
    have "status (tasks s u) \<noteq> TASK_RUNNING" using ok [OF that] cur by (auto simp: task_ok_def)
    with False show ?thesis using ok [OF that] unfolding task_ok_def st run rdy ks q
      by (simp add: running_thread_alt)
  qed
  have "spaces_ok ?s" by (rule spaces_ok_cong [OF c(2)]) (simp_all add: s4)
  then have "sched_inv ?s"
    using core all tok nr unfolding sched_inv_def sched_core_def run st rdy
    by (simp add: s4)
  moreover have "addr_v2p v ?p = addr_v2p v s" for v by (rule addr_v2p_cong) simp_all
  ultimately show ?thesis using c(1,3) run unfolding s4_def [symmetric]
    by (intro exI [of _ s4]) (auto simp: runs_next_def s4 same_pcb_def)
qed

definition next_queue :: "'a kernel_scheme \<Rightarrow> addr list" where
  "next_queue s =
     (let q = (if status (tasks s (running_thread s)) = TASK_RUNNING
               then thread_ready_list s @ [running_thread s] else thread_ready_list s)
      in if q = [] then [idle_thread s] else q)"

definition before_pick :: "'a kernel_scheme \<Rightarrow> 'a kernel_scheme" where
  "before_pick s = (if status (tasks s (running_thread s)) = TASK_RUNNING then requeue s
     else if thread_ready_list s = [] then wake (idle_thread s) s else s)"

lemma before_pick_core:
  assumes "sched_core s"
  shows "sched_core (before_pick s)" "thread_ready_list (before_pick s) = next_queue s"
    "running_thread (before_pick s) = running_thread s"
    "status (tasks (before_pick s) (running_thread s)) \<noteq> TASK_RUNNING"
    "status (tasks s (running_thread s)) \<noteq> TASK_RUNNING \<Longrightarrow> thread_ready_list s = [] \<Longrightarrow>
       may_wake (status (tasks s (idle_thread s)))"
proof -
  have idle: "may_wake (status (tasks s (idle_thread s)))"
    if "status (tasks s (running_thread s)) \<noteq> TASK_RUNNING" "thread_ready_list s = []"
  proof -
    have "task_ok s (idle_thread s)" "status (tasks s (idle_thread s)) \<noteq> TASK_DIED"
      using assms by (simp_all add: sched_core_def)
    then show ?thesis using that by (cases "status (tasks s (idle_thread s))") (auto simp: may_wake_def task_ok_def)
  qed
  then show "status (tasks s (running_thread s)) \<noteq> TASK_RUNNING \<Longrightarrow> thread_ready_list s = [] \<Longrightarrow>
      may_wake (status (tasks s (idle_thread s)))" .
  have "idle_thread s \<in> set (thread_all_list s)" using assms by (simp add: sched_core_def)
  then show "sched_core (before_pick s)"
    using assms requeue_core(2) [OF assms] wake_core(2) [OF assms] idle by (simp add: before_pick_def)
  show "thread_ready_list (before_pick s) = next_queue s"
    "running_thread (before_pick s) = running_thread s"
    "status (tasks (before_pick s) (running_thread s)) \<noteq> TASK_RUNNING"
    by (simp_all add: before_pick_def next_queue_def Let_def)
qed

lemma schedule_round:
  assumes "sched_core s" and "intr_get_status s = INTR_OFF"
  shows "\<exists>s'. schedule s = Inr s' \<and> runs_next (hd (next_queue s)) (tl (next_queue s)) (before_pick s) s'"
proof -
  note b = before_pick_core [OF assms(1)]
  have ne: "next_queue s \<noteq> []" by (simp add: next_queue_def Let_def)
  then have "thread_ready_list (before_pick s) = hd (next_queue s) # tl (next_queue s)" using b(2) by simp
  from dispatch [OF b(1) this] obtain s4
    where s4: "process_activate (hd (next_queue s)) (picked (hd (next_queue s)) (before_pick s)) = Inr s4"
      "runs_next (hd (next_queue s)) (tl (next_queue s)) (before_pick s)
         (switch_to (running_thread s) (hd (next_queue s)) s4)"
    using b(3,4) by auto
  let ?s1 = "if status (tasks s (running_thread s)) = TASK_RUNNING then requeue s else s"
  have one: "(if status (tasks s (running_thread s)) = TASK_RUNNING then
         bindR (kassert (running_thread s \<notin> set (thread_ready_list s))
                  ''!elem_find(&thread_ready_list, &cur->general_tag)'') (\<lambda>_.
         Inr (upd_task (running_thread s) (\<lambda>t. t\<lparr>ticks := priority t, status := TASK_READY\<rparr>)
                (s\<lparr>thread_ready_list := thread_ready_list s @ [running_thread s]\<rparr>)))
       else Inr s) = Inr ?s1"
    using requeue_core(1) [OF assms(1)] by (simp add: kassert_def requeue_def)
  have "thread_unblock (idle_thread s) s = Inr (wake (idle_thread s) s)"
    if "status (tasks s (running_thread s)) \<noteq> TASK_RUNNING" "thread_ready_list s = []"
    using that b(5) by (intro thread_unblock_wakes) simp_all
  then have two: "(if thread_ready_list ?s1 = [] then thread_unblock (idle_thread ?s1) ?s1 else Inr ?s1) =
      Inr (before_pick s)"
    by (simp add: before_pick_def)
  have "schedule s = Inr (switch_to (running_thread s) (hd (next_queue s)) s4)"
    unfolding schedule_def Let_def one bindR_simps two b(2) using assms(2) ne s4(1)
    by (simp add: kassert_def picked_def b(2))
  then show ?thesis using s4(2) by simp
qed

lemma intr_disable_running [simp]: "running_thread (fst (intr_disable s)) = running_thread s"
  by (simp add: running_thread_def)

lemma intr_disable_core: "sched_core s \<Longrightarrow> sched_core (fst (intr_disable s))"
  using spaces_ok_cong [of s "fst (intr_disable s)"] by (simp add: sched_core_def task_ok_def)

lemma set_status_core:
  assumes "sched_inv s" and "st \<noteq> TASK_READY" and "st \<noteq> TASK_DIED"
  shows "sched_core (upd_task (running_thread s) (\<lambda>t. t\<lparr>status := st\<rparr>) s)" (is "sched_core ?s")
proof -
  have core: "sched_core s" and run: "status (tasks s (running_thread s)) = TASK_RUNNING"
    using assms(1) by (simp_all add: sched_inv_def)
  then have cur: "running_thread s \<in> set (thread_all_list s)" by (simp add: sched_core_def)
  have r: "running_thread ?s = running_thread s" by (simp add: running_thread_def upd_task_def)
  have "task_ok ?s u" if "u \<in> set (thread_all_list s)" for u
  proof -
    have "task_ok s u" using core that by (simp add: sched_core_def)
    then show ?thesis using run assms(2) unfolding task_ok_def r
      by (cases "u = running_thread s") (simp_all add: upd_task_def)
  qed
  moreover have "spaces_ok ?s"
    using core by (intro spaces_ok_cong [of s ?s]) (simp_all add: sched_core_def upd_task_def)
  ultimately show ?thesis using core cur assms(3) unfolding sched_core_def r by (simp add: upd_task_def)
qed

text \<open>
  The processor is taken from the running task, as the handler of the timer does when the slice of the task is
  used up: \<open>Timer\<close> shows after how many interrupts it calls \<^verbatim>\<open>schedule\<close>.
\<close>

definition preempt :: "'a kernel_scheme \<Rightarrow> 'a kernel_scheme res" where
  "preempt s = schedule (fst (intr_disable s))"

fun preempts :: "nat \<Rightarrow> 'a kernel_scheme \<Rightarrow> 'a kernel_scheme res" where
  "preempts 0 s = Inr s"
| "preempts (Suc n) s = bindR (preempt s) (preempts n)"

lemma preempt_rotates:
  assumes "sched_inv s"
  shows "\<exists>s'. preempt s = Inr s' \<and> sched_inv s' \<and>
    running_thread s' # thread_ready_list s' = rotate1 (running_thread s # thread_ready_list s)"
proof -
  let ?d = "fst (intr_disable s)"
  have "sched_core ?d" using assms by (intro intr_disable_core) (simp add: sched_inv_def)
  from schedule_round [OF this] obtain s' where
    "schedule ?d = Inr s'" "runs_next (hd (next_queue ?d)) (tl (next_queue ?d)) (before_pick ?d) s'" by auto
  moreover have "next_queue ?d = thread_ready_list s @ [running_thread s]"
    using assms by (simp add: next_queue_def sched_inv_def)
  ultimately show ?thesis by (simp add: preempt_def runs_next_def)
qed

section \<open>What other tasks see\<close>

definition runnable :: "'a kernel_scheme \<Rightarrow> addr \<Rightarrow> bool" where
  "runnable s t \<longleftrightarrow> status (tasks s t) = TASK_READY \<or> status (tasks s t) = TASK_RUNNING"

text \<open>The tasks in \<open>T\<close> stay runnable or keep the status they are blocked with.\<close>

definition same_blocked :: "addr set \<Rightarrow> 'a kernel_scheme \<Rightarrow> 'a kernel_scheme \<Rightarrow> bool" where
  "same_blocked T s s' \<longleftrightarrow> thread_all_list s' = thread_all_list s \<and> idle_thread s' = idle_thread s \<and>
     (\<forall>t\<in>T. (runnable s t \<longrightarrow> runnable s' t) \<and>
        (\<not> runnable s t \<longrightarrow> status (tasks s' t) = status (tasks s t)))"

lemma runs_next_blocked:
  assumes "runs_next (hd (next_queue s)) (tl (next_queue s)) (before_pick s) s'" and "sched_core s"
  shows "same_blocked (- {idle_thread s}) s s'"
proof -
  let ?n = "hd (next_queue s)" and ?b = "before_pick s"
  have n: "status (tasks s' ?n) = TASK_RUNNING" using assms(1) by (auto simp: runs_next_def sched_inv_def)
  have b: "(runnable s t \<longrightarrow> runnable ?b t) \<and> (\<not> runnable s t \<longrightarrow> status (tasks ?b t) = status (tasks s t))"
    if "t \<noteq> idle_thread s" for t
    using that by (simp add: before_pick_def runnable_def)
  have "?n \<in> set (thread_ready_list ?b)"
    unfolding before_pick_core(2) [OF assms(2)] by (rule hd_in_set) (simp add: next_queue_def Let_def)
  then have "runnable ?b ?n"
    using before_pick_core(1) [OF assms(2)] unfolding sched_core_def task_ok_def runnable_def by blast
  then have "(runnable s t \<longrightarrow> runnable s' t) \<and> (\<not> runnable s t \<longrightarrow> status (tasks s' t) = status (tasks s t))"
    if "t \<noteq> idle_thread s" for t
    using b [OF that] assms(1) n by (cases "t = ?n") (auto simp: runs_next_def runnable_def split: if_splits)
  moreover have "thread_all_list s' = thread_all_list s" "idle_thread s' = idle_thread s"
    using assms(1) by (simp_all add: runs_next_def before_pick_def)
  ultimately show ?thesis by (simp add: same_blocked_def)
qed

text \<open>Two states that differ only where the scheduler does not look.\<close>

definition sched_same :: "'a kernel_scheme \<Rightarrow> 'a kernel_scheme \<Rightarrow> bool" where
  "sched_same s s' \<longleftrightarrow> esp s' = esp s \<and> tasks s' = tasks s \<and> thread_ready_list s' = thread_ready_list s \<and>
     thread_all_list s' = thread_all_list s \<and> idle_thread s' = idle_thread s \<and> pmem s' = pmem s \<and> cr3 s' = cr3 s"

lemma sched_same_inv:
  assumes "sched_same s s'"
  shows "sched_core s \<Longrightarrow> sched_core s'" "sched_inv s \<Longrightarrow> sched_inv s'" "running_thread s' = running_thread s"
proof -
  show r: "running_thread s' = running_thread s" using assms by (simp add: sched_same_def running_thread_def)
  have "spaces_ok s'" if "spaces_ok s" by (rule spaces_ok_cong [OF that]) (use assms in \<open>simp_all add: sched_same_def\<close>)
  then show core: "sched_core s \<Longrightarrow> sched_core s'"
    using assms unfolding sched_core_def task_ok_def r by (simp add: sched_same_def)
  show "sched_inv s \<Longrightarrow> sched_inv s'" using core assms unfolding sched_inv_def r by (simp add: sched_same_def)
qed

lemma intr_sched_same [simp]: "sched_same s (fst (intr_disable s))" "sched_same s (fst (intr_set_status st s))"
  by (simp_all add: sched_same_def intr_disable_def intr_set_status_def intr_enable_def sti_def cli_def)

lemma preempt_effect:
  assumes "sched_inv s"
  shows "\<exists>s'. preempt s = Inr s' \<and> sched_inv s' \<and> same_blocked (- {idle_thread s}) s s'"
proof -
  let ?d = "fst (intr_disable s)"
  have d: "sched_core ?d" using assms by (intro intr_disable_core) (simp add: sched_inv_def)
  from schedule_round [OF this] obtain s' where s': "schedule ?d = Inr s'"
    "runs_next (hd (next_queue ?d)) (tl (next_queue ?d)) (before_pick ?d) s'" by auto
  then have "same_blocked (- {idle_thread s}) s s'"
    using runs_next_blocked [OF s'(2) d] by (simp add: same_blocked_def runnable_def)
  then show ?thesis using s' by (auto simp: preempt_def runs_next_def)
qed

lemma block_effect:
  assumes "sched_inv s" and "may_wake st" and "running_thread s \<noteq> idle_thread s"
  shows "\<exists>s'. thread_block st s = Inr (s', intr_get_status s) \<and> sched_inv s' \<and>
    status (tasks s' (running_thread s)) = st \<and> same_blocked (- {idle_thread s, running_thread s}) s s'"
proof -
  let ?c = "running_thread s"
  let ?b = "upd_task ?c (\<lambda>t. t\<lparr>status := st\<rparr>) (fst (intr_disable s))"
  have d: "sched_inv (fst (intr_disable s))" using assms(1) sched_same_inv(2) intr_sched_same(1) by blast
  have b: "sched_core ?b" "intr_get_status ?b = INTR_OFF"
    using set_status_core [OF d, of st] assms(2) intr_disable_off [of s]
    by (auto simp: may_wake_def intr_get_status_def upd_task_def)
  obtain s' where s': "schedule ?b = Inr s'"
    "runs_next (hd (next_queue ?b)) (tl (next_queue ?b)) (before_pick ?b) s'"
    using schedule_round [OF b] by blast
  have sb: "same_blocked (- {idle_thread ?b}) ?b s'" by (rule runs_next_blocked [OF s'(2) b(1)])
  have "\<not> runnable ?b ?c" "status (tasks ?b ?c) = st" using assms(2) by (auto simp: runnable_def upd_task_def may_wake_def)
  then have "status (tasks s' ?c) = st" using sb assms(3) by (auto simp: same_blocked_def upd_task_def split: if_splits)
  moreover have "same_blocked (- {idle_thread s, ?c}) s s'"
    using sb by (auto simp: same_blocked_def runnable_def upd_task_def split: if_splits)
  moreover have "thread_block st s = Inr (s', intr_get_status s)"
    using assms(2) s'(1) by (simp add: thread_block_def Let_def split_def kassert_def)
  ultimately show ?thesis using s'(2) by (auto simp: runs_next_def)
qed

lemma unblock_effect:
  assumes "sched_inv s" and "t \<in> set (thread_all_list s)" and "may_wake (status (tasks s t))"
  shows "thread_unblock t s = Inr (wake t s)" "sched_inv (wake t s)" "t \<noteq> running_thread s"
proof -
  have core: "sched_core s" using assms(1) by (simp add: sched_inv_def)
  show "thread_unblock t s = Inr (wake t s)"
    using wake_core(1) [OF core assms(2,3)] assms(3) by (intro thread_unblock_wakes)
  show ne: "t \<noteq> running_thread s" using assms(1,3) by (auto simp: sched_inv_def may_wake_def)
  show "sched_inv (wake t s)" using wake_core(2) [OF core assms(2,3)] assms(1) ne by (simp add: sched_inv_def)
qed

section \<open>Properties\<close>

text \<open>
  C6. A round of the scheduler. From a state in which the queue and the tasks agree and interrupts
  are off, no assertion of \<^verbatim>\<open>schedule\<close> fails: the first task of the queue runs, or the idle task
  when there is none, the task that ran is queued last if it can still run, the address space is
  that of the new task, and the invariant holds.
\<close>

theorem schedule_correct:
  assumes "sched_core s" and "intr_get_status s = INTR_OFF"
  shows "\<exists>s'. schedule s = Inr s' \<and> sched_inv s' \<and> running_thread s' # thread_ready_list s' =
      (if status (tasks s (running_thread s)) = TASK_RUNNING
       then thread_ready_list s @ [running_thread s]
       else if thread_ready_list s = [] then [idle_thread s] else thread_ready_list s) \<and>
    (if pgdir (tasks s (running_thread s')) = NULL then cr3 s' = 0x100000
     else addr_v2p (pgdir (tasks s (running_thread s'))) s = Inr (cr3 s'))"
proof -
  obtain s' where s': "schedule s = Inr s'"
    "runs_next (hd (next_queue s)) (tl (next_queue s)) (before_pick s) s'"
    using schedule_round [OF assms] by blast
  have n: "running_thread s' = hd (next_queue s)" and q: "running_thread s' # thread_ready_list s' = next_queue s"
    using s'(2) by (simp_all add: runs_next_def next_queue_def Let_def split: if_splits)
  have a: "addr_v2p v (before_pick s) = addr_v2p v s" for v
    by (rule addr_v2p_cong) (simp_all add: before_pick_def)
  have p: "pgdir (tasks (before_pick s) t) = pgdir (tasks s t)" for t by (simp add: before_pick_def)
  have "sched_inv s'" and "if pgdir (tasks s (running_thread s')) = NULL then cr3 s' = 0x100000
     else addr_v2p (pgdir (tasks s (running_thread s'))) s = Inr (cr3 s')"
    using s'(2) unfolding runs_next_def a p n by blast+
  then show ?thesis using s'(1) q unfolding next_queue_def Let_def by auto
qed

text \<open>Three tasks without address spaces of their own: one runs, one is ready, the idle one is blocked.\<close>

definition sched_example :: kernel where
  "sched_example = kernel_zero\<lparr>esp := 0xc009ef00, idle_thread := 0xc0100000,
     thread_ready_list := [0xc0101000], thread_all_list := [0xc009e000, 0xc0100000, 0xc0101000],
     tasks := (\<lambda>_. task_zero)(0xc0100000 := task_zero\<lparr>status := TASK_BLOCKED, self_kstack := 0xc0100f00\<rparr>,
                0xc0101000 := task_zero\<lparr>status := TASK_READY, self_kstack := 0xc0101e50\<rparr>)\<rparr>"

lemma sched_example_inv: "sched_inv sched_example" "intr_get_status sched_example = INTR_OFF"
proof -
  have r: "running_thread sched_example = 0xc009e000" by (simp add: sched_example_def running_thread_def)
  have "spaces_ok sched_example"
    by (simp add: spaces_ok_def space_set_def sched_example_def kernel_zero_def task_zero_def)
  then show "sched_inv sched_example" unfolding sched_inv_def sched_core_def task_ok_def r
    by (simp add: sched_example_def kernel_zero_def task_zero_def page_of_def)
  show "intr_get_status sched_example = INTR_OFF"
    by (simp add: intr_get_status_def sched_example_def kernel_zero_def EFLAGS_IF_def)
qed

theorem schedule_correct_witness:
  "\<exists>s'. schedule sched_example = Inr s' \<and> sched_inv s' \<and> running_thread s' = 0xc0101000"
  using schedule_correct [of sched_example] sched_example_inv
  by (auto simp: sched_inv_def) (auto simp: sched_example_def)

text \<open>
  C12. Round robin. While no task blocks or wakes, \<open>n\<close> preemptions rotate the running task and the
  ready queue by \<open>n\<close> places, without a failed assertion: a task at place \<open>n\<close> of the queue runs after
  \<open>n + 1\<close> of them.
\<close>

theorem preempts_round_robin:
  assumes "sched_inv s"
  shows "\<exists>s'. preempts n s = Inr s' \<and> sched_inv s' \<and>
    running_thread s' # thread_ready_list s' = rotate n (running_thread s # thread_ready_list s)"
  using assms
proof (induction n arbitrary: s)
  case (Suc n)
  obtain s1 where s1: "preempt s = Inr s1" "sched_inv s1"
    "running_thread s1 # thread_ready_list s1 = rotate1 (running_thread s # thread_ready_list s)"
    using preempt_rotates [OF Suc.prems] by blast
  have "rotate n (rotate1 xs) = rotate (Suc n) xs" for xs :: "addr list"
    by (simp add: rotate_def funpow_swap1)
  then have "rotate n (running_thread s1 # thread_ready_list s1) = rotate (Suc n) (running_thread s # thread_ready_list s)"
    unfolding s1(3) by blast
  then show ?case using Suc.IH [OF s1(2)] s1(1) by simp
qed simp

theorem preempts_round_robin_witness:
  "\<exists>s'. preempts 1 sched_example = Inr s' \<and> running_thread s' # thread_ready_list s' =
     rotate 1 (running_thread sched_example # thread_ready_list sched_example)"
  using preempts_round_robin [OF sched_example_inv(1), of 1] by blast

text \<open>
  C24. Blocking and waking. \<^verbatim>\<open>thread_block\<close> takes the running task off the processor with the given
  status and remembers the interrupt flag it found; the task is in no queue then, and
  \<^verbatim>\<open>thread_unblock\<close> by the task that runs next puts it at the head of the ready queue. Both keep the
  invariant. The idle task is excepted: with no other task ready it would be picked again.
\<close>

theorem block_then_unblock:
  assumes "sched_inv s" and "may_wake st" and "running_thread s \<noteq> idle_thread s"
  shows "\<exists>s' s''. thread_block st s = Inr (s', intr_get_status s) \<and> sched_inv s' \<and>
    status (tasks s' (running_thread s)) = st \<and> running_thread s \<notin> set (running_thread s' # thread_ready_list s') \<and>
    thread_unblock (running_thread s) s' = Inr s'' \<and> sched_inv s'' \<and> running_thread s'' = running_thread s' \<and>
    thread_ready_list s'' = running_thread s # thread_ready_list s'"
proof -
  let ?c = "running_thread s"
  obtain s' where s': "thread_block st s = Inr (s', intr_get_status s)" "sched_inv s'"
    "status (tasks s' ?c) = st" "same_blocked (- {idle_thread s, ?c}) s s'"
    using block_effect [OF assms] by blast
  have all: "?c \<in> set (thread_all_list s')" using assms(1) s'(4) by (simp add: sched_inv_def sched_core_def same_blocked_def)
  note w = unblock_effect [OF s'(2) all, unfolded s'(3), OF assms(2)]
  have "task_ok s' ?c" using s'(2) all by (simp add: sched_inv_def sched_core_def)
  then have "?c \<notin> set (thread_ready_list s')" using s'(3) assms(2) by (auto simp: task_ok_def may_wake_def)
  then show ?thesis using s'(1-3) w by auto
qed

theorem block_then_unblock_witness:
  "\<exists>s' s''. thread_block TASK_WAITING sched_example = Inr (s', INTR_OFF) \<and>
     thread_unblock (running_thread sched_example) s' = Inr s'' \<and> sched_inv s''"
proof -
  have "running_thread sched_example \<noteq> idle_thread sched_example"
    by (simp add: sched_example_def running_thread_def)
  from block_then_unblock [OF sched_example_inv(1) _ this, of TASK_WAITING] sched_example_inv(2)
  show ?thesis by (auto simp: may_wake_def)
qed

end
