(* ===== verification/Sync.thy ===== *)
theory Sync
  imports Sched
begin

text \<open>
  Semaphores and locks (\<^verbatim>\<open>thread/sync.c\<close>). The loop of \<^verbatim>\<open>sema_down\<close> is modelled one pass at a time:
  a pass either takes the semaphore or puts the running task on the list of waiters and gives the
  processor away, and the task makes another pass when it runs again. \<open>lock_acquire\<close> and
  \<open>lock_release\<close> are the whole routines, for a caller that need not wait; when it must, the result
  is \<open>Suspended\<close>.

  The second part is a transition system. Every task may acquire and release one lock, nested or
  not; each step is a stretch of the code that no other task can interrupt, because interrupts are
  off in it or because it is one store; between steps the processor may go to another task; and a task that is
  outside the lock or holds it may block for a reason of its own (a holder of the lock of a disk channel waits for
  the disk, the holder of the lock of a ring buffer for room in it) and be woken again by whoever knows the
  reason. The idle task uses no lock, and a task acquires it less than \<open>2 ^ 32\<close> times before it releases it. Its
  invariant gives mutual exclusion, that no assertion of the code fails, and that a wake-up is not
  lost.
\<close>

definition sema_init :: "u8 \<Rightarrow> semaphore" where
  "sema_init v = \<lparr>sem_value = v, waiters = []\<rparr>"

definition lock_init :: lock where
  "lock_init = \<lparr>holder = NULL, sema = sema_init 1, holder_repeat_nr = 0\<rparr>"

text \<open>
  One pass of the loop of \<^verbatim>\<open>sema_down\<close>, entered with interrupts off; \<open>old_status\<close> is what
  \<^verbatim>\<open>intr_disable\<close> returned before the loop. The boolean says whether the semaphore was taken.
\<close>

definition sema_down_pass ::
  "intr_status \<Rightarrow> semaphore \<Rightarrow> 'a kernel_scheme \<Rightarrow> (semaphore \<times> 'a kernel_scheme \<times> bool) res" where
  "sema_down_pass old_status psema s =
     (if sem_value psema = 0 then
        bindR (kassert (running_thread s \<notin> set (waiters psema))
                 ''!elem_find(&psema->waiters, &running_thread()->general_tag)'') (\<lambda>_.
        if running_thread s \<in> set (waiters psema)
        then kpanic ''sema_down: thread blocked has been in waiters_list''
        else
          let psema' = psema\<lparr>waiters := waiters psema @ [running_thread s]\<rparr> in
          bindR (thread_block TASK_BLOCKED s) (\<lambda>(s', _). Inr (psema', s', False)))
      else
        let psema' = psema\<lparr>sem_value := sem_value psema - 1\<rparr> in
        bindR (kassert (sem_value psema' = 0) ''psema->value == 0'') (\<lambda>_.
        Inr (psema', fst (intr_set_status old_status s), True)))"

definition sema_up :: "semaphore \<Rightarrow> 'a kernel_scheme \<Rightarrow> (semaphore \<times> 'a kernel_scheme) res" where
  "sema_up psema s =
     (let (s1, old_status) = intr_disable s in
      bindR (kassert (sem_value psema = 0) ''psema->value == 0'') (\<lambda>_.
      bindR (case waiters psema of [] \<Rightarrow> Inr (psema, s1)
             | thread_blocked # ws \<Rightarrow>
                 bindR (thread_unblock thread_blocked s1) (\<lambda>s2. Inr (psema\<lparr>waiters := ws\<rparr>, s2))) (\<lambda>(psema1, s2).
      let psema2 = psema1\<lparr>sem_value := sem_value psema1 + 1\<rparr> in
      bindR (kassert (sem_value psema2 = 1) ''psema->value == 1'') (\<lambda>_.
      Inr (psema2, fst (intr_set_status old_status s2))))))"

definition lock_acquire :: "lock \<Rightarrow> 'a kernel_scheme \<Rightarrow> (lock \<times> 'a kernel_scheme) res" where
  "lock_acquire plock s =
     (if holder plock \<noteq> running_thread s then
        let (s1, old_status) = intr_disable s in
        bindR (sema_down_pass old_status (sema plock) s1) (\<lambda>(psema, s2, got).
        if \<not> got then Inl Suspended
        else
          bindR (kassert (holder_repeat_nr plock = 0) ''plock->holder_repeat_nr == 0'') (\<lambda>_.
          Inr (plock\<lparr>holder := running_thread s2, sema := psema, holder_repeat_nr := 1\<rparr>, s2)))
      else Inr (plock\<lparr>holder_repeat_nr := holder_repeat_nr plock + 1\<rparr>, s))"

definition lock_release :: "lock \<Rightarrow> 'a kernel_scheme \<Rightarrow> (lock \<times> 'a kernel_scheme) res" where
  "lock_release plock s =
     bindR (kassert (holder plock = running_thread s) ''plock->holder == running_thread()'') (\<lambda>_.
     if holder_repeat_nr plock > 1
     then Inr (plock\<lparr>holder_repeat_nr := holder_repeat_nr plock - 1\<rparr>, s)
     else
       bindR (kassert (holder_repeat_nr plock = 1) ''plock->holder_repeat_nr == 1'') (\<lambda>_.
       let plock1 = plock\<lparr>holder := NULL, holder_repeat_nr := 0\<rparr> in
       bindR (sema_up (sema plock1) s) (\<lambda>(psema, s1). Inr (plock1\<lparr>sema := psema\<rparr>, s1))))"

section \<open>Tasks that share a lock\<close>

text \<open>
  Where a task is with respect to the lock: outside; in the loop of \<^verbatim>\<open>sema_down\<close>; with the semaphore
  but not yet the holder; holding; and the two places inside \<^verbatim>\<open>lock_release\<close> after the stores to
  \<^verbatim>\<open>holder\<close> and \<^verbatim>\<open>holder_repeat_nr\<close>.
\<close>

datatype place = Out | Want intr_status | Got | Holds | Rel1 | Rel2

record lock_sys =
  lk :: lock
  ks :: kernel
  pc :: "addr \<Rightarrow> place"

inductive lstep :: "lock_sys \<Rightarrow> lock_sys \<Rightarrow> bool" where
  acquire: "t = running_thread (ks S) \<Longrightarrow> t \<noteq> idle_thread (ks S) \<Longrightarrow> pc S t \<in> {Out, Holds} \<Longrightarrow> holder (lk S) \<noteq> t \<Longrightarrow>
    intr_disable (ks S) = (s, old) \<Longrightarrow> lstep S (S\<lparr>ks := s, pc := (pc S)(t := Want old)\<rparr>)"
| again: "t = running_thread (ks S) \<Longrightarrow> pc S t \<in> {Out, Holds} \<Longrightarrow> holder (lk S) = t \<Longrightarrow>
    holder_repeat_nr (lk S) + 1 \<noteq> 0 \<Longrightarrow>
    lstep S (S\<lparr>lk := (lk S)\<lparr>holder_repeat_nr := holder_repeat_nr (lk S) + 1\<rparr>, pc := (pc S)(t := Holds)\<rparr>)"
| down: "t = running_thread (ks S) \<Longrightarrow> pc S t = Want old \<Longrightarrow>
    sema_down_pass old (sema (lk S)) (ks S) = Inr (psema, s, got) \<Longrightarrow>
    lstep S (S\<lparr>lk := (lk S)\<lparr>sema := psema\<rparr>, ks := s, pc := (pc S)(t := if got then Got else Want old)\<rparr>)"
| take: "t = running_thread (ks S) \<Longrightarrow> pc S t = Got \<Longrightarrow>
    lstep S (S\<lparr>lk := (lk S)\<lparr>holder := t, holder_repeat_nr := 1\<rparr>, pc := (pc S)(t := Holds)\<rparr>)"
| release_nested: "t = running_thread (ks S) \<Longrightarrow> pc S t = Holds \<Longrightarrow> holder_repeat_nr (lk S) > 1 \<Longrightarrow>
    lstep S (S\<lparr>lk := (lk S)\<lparr>holder_repeat_nr := holder_repeat_nr (lk S) - 1\<rparr>\<rparr>)"
| release: "t = running_thread (ks S) \<Longrightarrow> pc S t = Holds \<Longrightarrow> \<not> holder_repeat_nr (lk S) > 1 \<Longrightarrow>
    lstep S (S\<lparr>lk := (lk S)\<lparr>holder := NULL\<rparr>, pc := (pc S)(t := Rel1)\<rparr>)"
| release_count: "t = running_thread (ks S) \<Longrightarrow> pc S t = Rel1 \<Longrightarrow>
    lstep S (S\<lparr>lk := (lk S)\<lparr>holder_repeat_nr := 0\<rparr>, pc := (pc S)(t := Rel2)\<rparr>)"
| up: "t = running_thread (ks S) \<Longrightarrow> pc S t = Rel2 \<Longrightarrow> sema_up (sema (lk S)) (ks S) = Inr (psema, s) \<Longrightarrow>
    lstep S (S\<lparr>lk := (lk S)\<lparr>sema := psema\<rparr>, ks := s, pc := (pc S)(t := Out)\<rparr>)"
| switch: "preempt (ks S) = Inr s \<Longrightarrow> lstep S (S\<lparr>ks := s\<rparr>)"
| sleep: "t = running_thread (ks S) \<Longrightarrow> t \<noteq> idle_thread (ks S) \<Longrightarrow> pc S t \<in> {Out, Holds} \<Longrightarrow>
    thread_block st (ks S) = Inr (s, old) \<Longrightarrow> lstep S (S\<lparr>ks := s\<rparr>)"
| wakened: "t \<in> set (thread_all_list (ks S)) \<Longrightarrow> pc S t \<in> {Out, Holds} \<Longrightarrow> may_wake (status (tasks (ks S) t)) \<Longrightarrow>
    thread_unblock t (ks S) = Inr s \<Longrightarrow> lstep S (S\<lparr>ks := s\<rparr>)"

section \<open>The invariant of the lock\<close>

definition owner :: "lock_sys \<Rightarrow> addr \<Rightarrow> bool" where
  "owner S t \<longleftrightarrow> pc S t \<in> {Got, Holds, Rel1, Rel2}"

definition excl :: "lock_sys \<Rightarrow> bool" where
  "excl S \<longleftrightarrow> (\<forall>t u. owner S t \<longrightarrow> owner S u \<longrightarrow> t = u) \<and> sem_value (sema (lk S)) \<in> {0, 1} \<and>
     (sem_value (sema (lk S)) = 0 \<longleftrightarrow> (\<exists>t. owner S t))"

definition held :: "lock_sys \<Rightarrow> bool" where
  "held S \<longleftrightarrow> (\<forall>t. pc S t = Holds \<longleftrightarrow> holder (lk S) = t \<and> t \<noteq> NULL) \<and>
     (holder_repeat_nr (lk S) \<noteq> 0 \<longleftrightarrow> (\<exists>t. pc S t \<in> {Holds, Rel1}))"

definition waiting :: "lock_sys \<Rightarrow> addr \<Rightarrow> bool" where
  "waiting S t \<longleftrightarrow> (\<exists>old. pc S t = Want old)"

definition queued :: "lock_sys \<Rightarrow> bool" where
  "queued S \<longleftrightarrow> distinct (waiters (sema (lk S))) \<and>
     (\<forall>w\<in>set (waiters (sema (lk S))). waiting S w \<and> status (tasks (ks S) w) = TASK_BLOCKED) \<and>
     (\<forall>t. pc S t \<noteq> Out \<longrightarrow> t \<in> set (thread_all_list (ks S)) \<and> t \<noteq> NULL \<and> t \<noteq> idle_thread (ks S) \<and>
        (t \<notin> set (waiters (sema (lk S))) \<longrightarrow> pc S t \<noteq> Holds \<longrightarrow> runnable (ks S) t)) \<and>
     (waiters (sema (lk S)) \<noteq> [] \<longrightarrow> sem_value (sema (lk S)) = 0 \<or>
        (\<exists>t. waiting S t \<and> t \<notin> set (waiters (sema (lk S)))))"

definition lock_inv :: "lock_sys \<Rightarrow> bool" where
  "lock_inv S \<longleftrightarrow> sched_inv (ks S) \<and> excl S \<and> held S \<and> queued S"

lemma running_facts:
  assumes "sched_inv s"
  shows "running_thread s \<in> set (thread_all_list s)" "running_thread s \<noteq> NULL" "runnable s (running_thread s)"
  using assms by (auto simp: sched_inv_def sched_core_def task_ok_def runnable_def)

lemma running_not_waiting:
  assumes "lock_inv S"
  shows "running_thread (ks S) \<notin> set (waiters (sema (lk S)))"
  using assms by (auto simp: lock_inv_def queued_def sched_inv_def)

text \<open>What a step must keep for the first part of the invariant, by the owners before and after it.\<close>

lemma excl_same:
  assumes "excl S" and "owner S' = owner S" and "sem_value (sema (lk S')) = sem_value (sema (lk S))"
  shows "excl S'"
  using assms(1) unfolding excl_def assms(2,3) .

lemma excl_owned: "owner S = (\<lambda>u. u = t) \<Longrightarrow> sem_value (sema (lk S)) = 0 \<Longrightarrow> excl S"
  by (simp add: excl_def)

lemma excl_free: "owner S = (\<lambda>_. False) \<Longrightarrow> sem_value (sema (lk S)) = 1 \<Longrightarrow> excl S"
  by (simp add: excl_def)

lemma owner_eq:
  assumes "excl S" and "owner S t"
  shows "owner S = (\<lambda>u. u = t)" "sem_value (sema (lk S)) = 0"
  using assms unfolding excl_def by blast+

lemma only_owner:
  assumes "excl S" and "owner S t" and "u \<noteq> t"
  shows "pc S u \<notin> {Got, Holds, Rel1, Rel2}"
  using owner_eq(1) [OF assms(1,2)] assms(3) unfolding owner_def by meson

lemma held_same:
  assumes "held S" and "\<And>u. pc S' u = Holds \<longleftrightarrow> pc S u = Holds" and "\<And>u. pc S' u = Rel1 \<longleftrightarrow> pc S u = Rel1"
    and "holder (lk S') = holder (lk S)"
    and "holder_repeat_nr (lk S') = 0 \<longleftrightarrow> holder_repeat_nr (lk S) = 0"
  shows "held S'"
  using assms(1) unfolding held_def insert_iff empty_iff assms(2-5) .

lemma queuedD:
  assumes q: "queued S"
  shows "distinct (waiters (sema (lk S)))"
    "w \<in> set (waiters (sema (lk S))) \<Longrightarrow> \<exists>old. pc S w = Want old"
    "w \<in> set (waiters (sema (lk S))) \<Longrightarrow> status (tasks (ks S) w) = TASK_BLOCKED"
    "w \<in> set (waiters (sema (lk S))) \<Longrightarrow> w \<in> set (thread_all_list (ks S)) \<and> w \<noteq> idle_thread (ks S)"
    "pc S t \<noteq> Out \<Longrightarrow> t \<in> set (thread_all_list (ks S))" "pc S t \<noteq> Out \<Longrightarrow> t \<noteq> NULL"
    "pc S t \<noteq> Out \<Longrightarrow> t \<noteq> idle_thread (ks S)"
    "pc S t \<noteq> Out \<Longrightarrow> t \<notin> set (waiters (sema (lk S))) \<Longrightarrow> pc S t \<noteq> Holds \<Longrightarrow> runnable (ks S) t"
    "waiters (sema (lk S)) \<noteq> [] \<Longrightarrow> sem_value (sema (lk S)) \<noteq> 0 \<Longrightarrow>
       \<exists>t. waiting S t \<and> t \<notin> set (waiters (sema (lk S)))"
proof -
  note q = q [unfolded queued_def]
  show "distinct (waiters (sema (lk S)))" using q by (rule conjunct1)
  show w: "\<exists>old. pc S w = Want old" "status (tasks (ks S) w) = TASK_BLOCKED"
    if "w \<in> set (waiters (sema (lk S)))" using q that unfolding waiting_def by simp_all
  have "pc S w \<noteq> Out" if "w \<in> set (waiters (sema (lk S)))" using w(1) [OF that] by auto
  then show "w \<in> set (thread_all_list (ks S)) \<and> w \<noteq> idle_thread (ks S)"
    if "w \<in> set (waiters (sema (lk S)))" using q that by simp
  show "t \<in> set (thread_all_list (ks S))" "t \<noteq> NULL" "t \<noteq> idle_thread (ks S)" if "pc S t \<noteq> Out"
    using q that by simp_all
  show "runnable (ks S) t" if "pc S t \<noteq> Out" "t \<notin> set (waiters (sema (lk S)))" "pc S t \<noteq> Holds" using q that by simp
  show "\<exists>t. waiting S t \<and> t \<notin> set (waiters (sema (lk S)))"
    if "waiters (sema (lk S)) \<noteq> []" "sem_value (sema (lk S)) \<noteq> 0" using q that by simp
qed

lemma lock_invD:
  assumes "lock_inv S"
  shows "sched_inv (ks S)" "excl S" "held S" "queued S"
  using assms by (simp_all add: lock_inv_def)

lemma step_acquire:
  assumes inv: "lock_inv S" and t: "t = running_thread (ks S)" "t \<noteq> idle_thread (ks S)"
    and h: "holder (lk S) \<noteq> t" and p: "pc S t \<in> {Out, Holds}" and d: "intr_disable (ks S) = (s, old)"
  shows "lock_inv (S\<lparr>ks := s, pc := (pc S)(t := Want old)\<rparr>)" (is "lock_inv ?S")
proof -
  note I = lock_invD [OF inv]
  have out: "pc S t = Out" using I(3) h p by (auto simp: held_def)
  have same: "sched_same (ks S) s" using intr_sched_same(1) [of "ks S"] d by simp
  have "sched_inv s" by (rule sched_same_inv(2) [OF same I(1)])
  moreover have "excl ?S" by (rule excl_same [OF I(2)]) (use out in \<open>auto simp: owner_def fun_eq_iff\<close>)
  moreover have "held ?S" by (rule held_same [OF I(3)]) (use out in simp_all)
  moreover have "queued ?S"
    using I(4) out running_facts [OF I(1)] running_not_waiting [OF inv] t same
    unfolding queued_def waiting_def sched_same_def runnable_def by auto
  ultimately show ?thesis by (simp add: lock_inv_def)
qed

text \<open>A step that changes neither the kernel nor the semaphore, by a task that stays inside.\<close>

lemma queued_same:
  assumes q: "queued S" and t: "pc S t \<noteq> Out" "\<nexists>old. pc S t = Want old" "\<nexists>old. p = Want old" "runnable (ks S) t"
    and eq: "sema l = sema (lk S)"
  shows "queued (S\<lparr>lk := l, pc := (pc S)(t := p)\<rparr>)"
  using q t eq queuedD(5-8) [OF q t(1)] unfolding queued_def waiting_def by auto

lemma queued_lk: "queued S \<Longrightarrow> sema l = sema (lk S) \<Longrightarrow> queued (S\<lparr>lk := l\<rparr>)"
  by (simp add: queued_def waiting_def)

lemma step_again:
  assumes inv: "lock_inv S" and t: "t = running_thread (ks S)" and h: "holder (lk S) = t"
    and r: "holder_repeat_nr (lk S) + 1 \<noteq> 0"
  shows "lock_inv (S\<lparr>lk := (lk S)\<lparr>holder_repeat_nr := holder_repeat_nr (lk S) + 1\<rparr>, pc := (pc S)(t := Holds)\<rparr>)"
    (is "lock_inv ?S")
proof -
  note I = lock_invD [OF inv]
  have p: "pc S t = Holds" using I(3) h t running_facts(2) [OF I(1)] by (auto simp: held_def)
  have "excl ?S" by (rule excl_same [OF I(2)]) (use p in \<open>auto simp: owner_def fun_eq_iff\<close>)
  moreover have "queued ?S" by (rule queued_same [OF I(4)]) (use p t running_facts(3) [OF I(1)] in simp_all)
  moreover have "holder_repeat_nr (lk S) \<noteq> 0" using I(3) p unfolding held_def by auto
  then have "held ?S" using p r by (intro held_same [OF I(3)]) simp_all
  ultimately show ?thesis using I(1) by (simp add: lock_inv_def)
qed

lemma step_take:
  assumes inv: "lock_inv S" and t: "t = running_thread (ks S)" and p: "pc S t = Got"
  shows "lock_inv (S\<lparr>lk := (lk S)\<lparr>holder := t, holder_repeat_nr := 1\<rparr>, pc := (pc S)(t := Holds)\<rparr>)"
    (is "lock_inv ?S")
proof -
  note I = lock_invD [OF inv]
  have "owner S t" using p by (simp add: owner_def)
  note only = only_owner [OF I(2) this]
  have "excl ?S" by (rule excl_same [OF I(2)]) (use p in \<open>auto simp: owner_def fun_eq_iff\<close>)
  moreover have "queued ?S" by (rule queued_same [OF I(4)]) (use p t running_facts(3) [OF I(1)] in simp_all)
  moreover have "held ?S" using only queuedD(6) [OF I(4), of t] p unfolding held_def by auto
  ultimately show ?thesis using I(1) by (simp add: lock_inv_def)
qed

lemma step_release:
  assumes inv: "lock_inv S" and t: "t = running_thread (ks S)" and p: "pc S t = Holds"
  shows "lock_inv (S\<lparr>lk := (lk S)\<lparr>holder := NULL\<rparr>, pc := (pc S)(t := Rel1)\<rparr>)" (is "lock_inv ?S")
proof -
  note I = lock_invD [OF inv]
  have "owner S t" using p by (simp add: owner_def)
  note only = only_owner [OF I(2) this]
  have "excl ?S" by (rule excl_same [OF I(2)]) (use p in \<open>auto simp: owner_def fun_eq_iff\<close>)
  moreover have "queued ?S" by (rule queued_same [OF I(4)]) (use p t running_facts(3) [OF I(1)] in simp_all)
  moreover have "held ?S" using only I(3) p unfolding held_def by auto
  ultimately show ?thesis using I(1) by (simp add: lock_inv_def)
qed

lemma step_release_count:
  assumes inv: "lock_inv S" and t: "t = running_thread (ks S)" and p: "pc S t = Rel1"
  shows "lock_inv (S\<lparr>lk := (lk S)\<lparr>holder_repeat_nr := 0\<rparr>, pc := (pc S)(t := Rel2)\<rparr>)" (is "lock_inv ?S")
proof -
  note I = lock_invD [OF inv]
  have "owner S t" using p by (simp add: owner_def)
  note only = only_owner [OF I(2) this]
  have "excl ?S" by (rule excl_same [OF I(2)]) (use p in \<open>auto simp: owner_def fun_eq_iff\<close>)
  moreover have "queued ?S" by (rule queued_same [OF I(4)]) (use p t running_facts(3) [OF I(1)] in simp_all)
  moreover have nh: "pc S u \<noteq> Holds" for u using only [of u] p by (cases "u = t") auto
  then have "pc S u \<noteq> Holds \<and> \<not> (holder (lk S) = u \<and> u \<noteq> 0)" for u using I(3) by (auto simp: held_def)
  then have "held ?S" using only unfolding held_def by auto
  ultimately show ?thesis using I(1) by (simp add: lock_inv_def)
qed

lemma step_release_nested:
  assumes inv: "lock_inv S" and r: "holder_repeat_nr (lk S) > 1"
  shows "lock_inv (S\<lparr>lk := (lk S)\<lparr>holder_repeat_nr := holder_repeat_nr (lk S) - 1\<rparr>\<rparr>)" (is "lock_inv ?S")
proof -
  note I = lock_invD [OF inv]
  have "holder_repeat_nr (lk S) - 1 \<noteq> 0" "holder_repeat_nr (lk S) \<noteq> 0" using r by auto
  then have "held ?S" by (intro held_same [OF I(3)]) simp_all
  moreover have "excl ?S" by (rule excl_same [OF I(2)]) (simp_all add: owner_def fun_eq_iff)
  moreover have "queued ?S" by (rule queued_lk [OF I(4)]) simp
  ultimately show ?thesis using I(1) by (simp add: lock_inv_def)
qed

lemma step_switch:
  assumes inv: "lock_inv S" and s: "preempt (ks S) = Inr s"
  shows "lock_inv (S\<lparr>ks := s\<rparr>)" (is "lock_inv ?S")
proof -
  note I = lock_invD [OF inv]
  have sched: "sched_inv s" "same_blocked (- {idle_thread (ks S)}) (ks S) s"
    using preempt_effect [OF I(1)] s by auto
  have w: "status (tasks s u) = TASK_BLOCKED" if "u \<in> set (waiters (sema (lk S)))" for u
    using queuedD(3,4) [OF I(4) that] sched(2) by (auto simp: same_blocked_def runnable_def)
  have "queued ?S"
    using I(4) w sched(2) unfolding queued_def waiting_def same_blocked_def by auto
  moreover have "excl ?S" by (rule excl_same [OF I(2)]) (simp_all add: owner_def fun_eq_iff)
  moreover have "held ?S" by (rule held_same [OF I(3)]) simp_all
  ultimately show ?thesis using sched(1) by (simp add: lock_inv_def)
qed

lemma queued_ks:
  assumes inv: "lock_inv S" and s: "sched_inv s" "same_blocked (- {idle_thread (ks S), t}) (ks S) s" and p: "pc S t \<in> {Out, Holds}"
  shows "lock_inv (S\<lparr>ks := s\<rparr>)" (is "lock_inv ?S")
proof -
  note I = lock_invD [OF inv]
  have w: "status (tasks s u) = TASK_BLOCKED" if "u \<in> set (waiters (sema (lk S)))" for u
  proof -
    have "u \<noteq> t" "u \<noteq> idle_thread (ks S)" "status (tasks (ks S) u) = TASK_BLOCKED"
      using queuedD(2,3,4) [OF I(4) that] p by (auto simp: waiting_def)
    then show ?thesis using s(2) by (simp add: same_blocked_def runnable_def)
  qed
  have r: "runnable s u" if "pc S u \<noteq> Out" "u \<notin> set (waiters (sema (lk S)))" "pc S u \<noteq> Holds" for u
  proof -
    have "u \<noteq> t" "u \<noteq> idle_thread (ks S)" "runnable (ks S) u"
      using queuedD(7,8) [OF I(4), of u] that p by auto
    then show ?thesis using s(2) by (simp add: same_blocked_def)
  qed
  have "queued ?S"
    using I(4) w r s(2) unfolding queued_def waiting_def same_blocked_def by simp
  moreover have "excl ?S" by (rule excl_same [OF I(2)]) (simp_all add: owner_def fun_eq_iff)
  moreover have "held ?S" by (rule held_same [OF I(3)]) simp_all
  ultimately show ?thesis using s(1) by (simp add: lock_inv_def)
qed

lemma step_sleep:
  assumes inv: "lock_inv S" and t: "t = running_thread (ks S)" "t \<noteq> idle_thread (ks S)" "pc S t \<in> {Out, Holds}"
    and s: "thread_block st (ks S) = Inr (s, old)"
  shows "lock_inv (S\<lparr>ks := s\<rparr>)"
proof -
  have "may_wake st" using s by (auto simp: thread_block_def kassert_def split: if_splits)
  then have "sched_inv s" "same_blocked (- {idle_thread (ks S), t}) (ks S) s"
    using block_effect [OF lock_invD(1) [OF inv], of st] s t by auto
  then show ?thesis using t(3) by (intro queued_ks [OF inv])
qed

lemma step_wakened:
  assumes inv: "lock_inv S" and t: "t \<in> set (thread_all_list (ks S))" "pc S t \<in> {Out, Holds}" "may_wake (status (tasks (ks S) t))"
    and s: "thread_unblock t (ks S) = Inr s"
  shows "lock_inv (S\<lparr>ks := s\<rparr>)"
proof -
  note u = unblock_effect [OF lock_invD(1) [OF inv] t(1,3)]
  have "same_blocked (- {idle_thread (ks S), t}) (ks S) (wake t (ks S))"
    by (auto simp: same_blocked_def wake_def upd_task_def runnable_def)
  then show ?thesis using u(1,2) s t(2) by (intro queued_ks [OF inv]) simp_all
qed

lemma down_takes:
  assumes "sem_value psema = 1"
  shows "sema_down_pass old psema s = Inr (psema\<lparr>sem_value := 0\<rparr>, fst (intr_set_status old s), True)"
  using assms by (simp add: sema_down_pass_def kassert_def)

lemma down_blocks:
  assumes "sched_inv s" and "running_thread s \<noteq> idle_thread s" and "running_thread s \<notin> set (waiters psema)"
    and "sem_value psema = 0"
  shows "\<exists>s'. sema_down_pass old psema s = Inr (psema\<lparr>waiters := waiters psema @ [running_thread s]\<rparr>, s', False) \<and>
    sched_inv s' \<and> status (tasks s' (running_thread s)) = TASK_BLOCKED \<and>
    same_blocked (- {idle_thread s, running_thread s}) s s'"
  using block_effect [OF assms(1), of TASK_BLOCKED] assms(2-4)
  by (auto simp: sema_down_pass_def kassert_def may_wake_def)

lemma same_blocked_keeps:
  assumes "same_blocked T s s'" and "t \<in> T"
  shows "runnable s t \<Longrightarrow> runnable s' t" "status (tasks s t) = TASK_BLOCKED \<Longrightarrow> status (tasks s' t) = TASK_BLOCKED"
  using assms by (auto simp: same_blocked_def runnable_def)

lemma step_down_takes:
  assumes inv: "lock_inv S" and p: "pc S t = Want old" and t: "t = running_thread (ks S)"
    and v: "sem_value (sema (lk S)) = 1"
  shows "lock_inv (S\<lparr>lk := (lk S)\<lparr>sema := (sema (lk S))\<lparr>sem_value := 0\<rparr>\<rparr>,
    ks := fst (intr_set_status old (ks S)), pc := (pc S)(t := Got)\<rparr>)" (is "lock_inv ?S")
proof -
  note I = lock_invD [OF inv]
  have same: "sched_same (ks S) (ks ?S)" by simp
  have "\<not> owner S u" for u using I(2) v unfolding excl_def by force
  then have "excl ?S" by (intro excl_owned [of _ t]) (auto simp: owner_def fun_eq_iff)
  moreover have "held ?S" by (rule held_same [OF I(3)]) (use p in simp_all)
  moreover have "queued ?S"
    using I(4) same running_not_waiting [OF inv] queuedD(5-8) [OF I(4), of t] p t
    unfolding queued_def waiting_def sched_same_def runnable_def by simp blast
  moreover have "sched_inv (ks ?S)" by (rule sched_same_inv(2) [OF same I(1)])
  ultimately show ?thesis by (simp add: lock_inv_def)
qed

lemma step_down_blocks:
  assumes inv: "lock_inv S" and p: "pc S t = Want old" and t: "t = running_thread (ks S)"
    and v: "sem_value (sema (lk S)) = 0"
    and s: "sched_inv s" "status (tasks s t) = TASK_BLOCKED" "same_blocked (- {idle_thread (ks S), t}) (ks S) s"
  shows "lock_inv (S\<lparr>lk := (lk S)\<lparr>sema := (sema (lk S))\<lparr>waiters := waiters (sema (lk S)) @ [t]\<rparr>\<rparr>, ks := s\<rparr>)"
    (is "lock_inv ?S")
proof -
  note I = lock_invD [OF inv] and keep = same_blocked_keeps [OF s(3)]
  have "excl ?S" by (rule excl_same [OF I(2)]) (simp_all add: owner_def fun_eq_iff)
  moreover have "held ?S" by (rule held_same [OF I(3)]) simp_all
  moreover have "queued ?S" unfolding queued_def
  proof (intro conjI allI ballI impI)
    show "distinct (waiters (sema (lk ?S)))" using queuedD(1) [OF I(4)] running_not_waiting [OF inv] t by simp
    show "waiting ?S w" "status (tasks (ks ?S) w) = TASK_BLOCKED" if "w \<in> set (waiters (sema (lk ?S)))" for w
      using that p s(2) queuedD(2-4) [OF I(4), of w] keep(2) [of w] by (auto simp: waiting_def)
    show "u \<in> set (thread_all_list (ks ?S))" "u \<noteq> NULL" "u \<noteq> idle_thread (ks ?S)" if "pc ?S u \<noteq> Out" for u
      using that queuedD(5-7) [OF I(4), of u] s(3) by (simp_all add: same_blocked_def)
    show "runnable (ks ?S) u" if "pc ?S u \<noteq> Out" "u \<notin> set (waiters (sema (lk ?S)))" "pc ?S u \<noteq> Holds" for u
      using that queuedD(7,8) [OF I(4), of u] keep(1) [of u] by simp
    show "sem_value (sema (lk ?S)) = 0 \<or> (\<exists>t. waiting ?S t \<and> t \<notin> set (waiters (sema (lk ?S))))" using v by simp
  qed
  ultimately show ?thesis using s(1) by (simp add: lock_inv_def)
qed

lemma sched_same_blocked: "sched_same s s' \<Longrightarrow> same_blocked T s s'"
  by (simp add: sched_same_def same_blocked_def runnable_def)

lemma same_blocked_same: "same_blocked T s s' \<Longrightarrow> sched_same s' s'' \<Longrightarrow> same_blocked T s s''"
  by (simp add: sched_same_def same_blocked_def runnable_def)

text \<open>\<^verbatim>\<open>sema_up\<close> raises the value to one and wakes the first of the waiters, if there is one.\<close>

lemma up_wakes_first:
  assumes inv: "sched_inv s" and v: "sem_value psema = 0"
    and w: "\<And>w. w \<in> set (waiters psema) \<Longrightarrow> w \<in> set (thread_all_list s) \<and> status (tasks s w) = TASK_BLOCKED"
  shows "\<exists>s'. sema_up psema s = Inr (psema\<lparr>sem_value := 1, waiters := tl (waiters psema)\<rparr>, s') \<and> sched_inv s' \<and>
    running_thread s' = running_thread s \<and> same_blocked (- set (take 1 (waiters psema))) s s' \<and>
    (\<forall>w\<in>set (take 1 (waiters psema)). runnable s' w)"
proof -
  let ?d = "fst (intr_disable s)" and ?old = "snd (intr_disable s)"
  let ?up = "\<lambda>s2. fst (intr_set_status ?old s2)"
  have d: "sched_same s ?d" by simp
  have dinv: "sched_inv ?d" by (rule sched_same_inv(2) [OF d inv])
  show ?thesis
  proof (cases "waiters psema")
    case Nil
    have same: "sched_same s (?up ?d)" using d intr_sched_same(2) [of ?d ?old] by (simp add: sched_same_def)
    have "sema_up psema s = Inr (psema\<lparr>sem_value := 1, waiters := []\<rparr>, ?up ?d)"
      using v Nil by (simp add: sema_up_def split_def Let_def kassert_def)
    moreover note sched_same_inv(2) [OF same inv] sched_same_inv(3) [OF same] sched_same_blocked [OF same]
    ultimately show ?thesis using Nil by (intro exI [of _ "?up ?d"]) simp
  next
    case (Cons w ws)
    have "w \<in> set (thread_all_list ?d)" "may_wake (status (tasks ?d w))"
      using w [of w] Cons d by (auto simp: sched_same_def may_wake_def)
    note wk = unblock_effect [OF dinv this]
    have same: "sched_same (wake w ?d) (?up (wake w ?d))" by simp
    have "sema_up psema s = Inr (psema\<lparr>sem_value := 1, waiters := ws\<rparr>, ?up (wake w ?d))"
      using v Cons wk(1) by (simp add: sema_up_def split_def Let_def kassert_def)
    moreover have "same_blocked (- {w}) s (wake w ?d)" "runnable (wake w ?d) w"
      using d by (auto simp: same_blocked_def wake_def upd_task_def runnable_def sched_same_def)
    then have "same_blocked (- {w}) s (?up (wake w ?d))" "runnable (?up (wake w ?d)) w"
      using same same_blocked_same [OF _ same] by (simp_all add: sched_same_def runnable_def)
    moreover have "running_thread (?up (wake w ?d)) = running_thread s"
      using sched_same_inv(3) [OF d] sched_same_inv(3) [OF same] by simp
    moreover have "sched_inv (?up (wake w ?d))" by (rule sched_same_inv(2) [OF same wk(2)])
    ultimately show ?thesis using Cons by (intro exI [of _ "?up (wake w ?d)"]) simp
  qed
qed

lemma step_up:
  assumes inv: "lock_inv S" and p: "pc S t = Rel2" and up: "sema_up (sema (lk S)) (ks S) = Inr (psema, s)"
  shows "lock_inv (S\<lparr>lk := (lk S)\<lparr>sema := psema\<rparr>, ks := s, pc := (pc S)(t := Out)\<rparr>)" (is "lock_inv ?S")
proof -
  note I = lock_invD [OF inv]
  let ?ws = "waiters (sema (lk S))"
  have own: "owner S t" using p by (simp add: owner_def)
  obtain s': "psema = (sema (lk S))\<lparr>sem_value := 1, waiters := tl ?ws\<rparr>" "sched_inv s"
    "same_blocked (- set (take 1 ?ws)) (ks S) s" "\<And>w. w \<in> set (take 1 ?ws) \<Longrightarrow> runnable s w"
    using up_wakes_first [OF I(1) owner_eq(2) [OF I(2) own]] queuedD(3,4) [OF I(4)] up by auto
  have split: "w \<in> set (take 1 ?ws) \<longleftrightarrow> w \<notin> set (tl ?ws)" if "w \<in> set ?ws" for w
    using that queuedD(1) [OF I(4)] by (cases ?ws) auto
  have tl: "w \<in> set ?ws" if "w \<in> set (tl ?ws)" for w using that by (cases ?ws) auto
  have "excl ?S" by (rule excl_free) (use owner_eq(1) [OF I(2) own] s'(1) in \<open>auto simp: owner_def fun_eq_iff\<close>)
  moreover have "held ?S" by (rule held_same [OF I(3)]) (use p in simp_all)
  moreover have "queued ?S" unfolding queued_def
  proof (intro conjI allI ballI impI)
    show "distinct (waiters (sema (lk ?S)))" using queuedD(1) [OF I(4)] s'(1) by (simp add: distinct_tl)
    show "waiting ?S w" "status (tasks (ks ?S) w) = TASK_BLOCKED" if "w \<in> set (waiters (sema (lk ?S)))" for w
      using that p s'(1) queuedD(2,3) [OF I(4), of w] tl [of w] split [of w] same_blocked_keeps(2) [OF s'(3), of w]
      by (auto simp: waiting_def)
    show "u \<in> set (thread_all_list (ks ?S))" "u \<noteq> NULL" "u \<noteq> idle_thread (ks ?S)" if "pc ?S u \<noteq> Out" for u
      using that queuedD(5-7) [OF I(4), of u] s'(3) by (simp_all add: same_blocked_def split: if_splits)
    show "runnable (ks ?S) u" if "pc ?S u \<noteq> Out" "u \<notin> set (waiters (sema (lk ?S)))" "pc ?S u \<noteq> Holds" for u
      using that queuedD(8) [OF I(4), of u] same_blocked_keeps(1) [OF s'(3), of u] s'(1,4) split [of u]
      by (cases "u \<in> set (take 1 ?ws)") (auto split: if_splits dest: in_set_takeD)
    assume "waiters (sema (lk ?S)) \<noteq> []"
    then have "hd ?ws \<in> set (take 1 ?ws)" "hd ?ws \<in> set ?ws" using s'(1) by (cases ?ws; simp)+
    then have "waiting ?S (hd ?ws) \<and> hd ?ws \<notin> set (waiters (sema (lk ?S)))"
      using split queuedD(2) [OF I(4), of "hd ?ws"] p s'(1) by (auto simp: waiting_def)
    then show "sem_value (sema (lk ?S)) = 0 \<or> (\<exists>t. waiting ?S t \<and> t \<notin> set (waiters (sema (lk ?S))))" by blast
  qed
  ultimately show ?thesis using s'(2) by (simp add: lock_inv_def)
qed

lemma down_effect:
  assumes inv: "lock_inv S" and p: "pc S (running_thread (ks S)) = Want old"
  shows "\<exists>psema s got. sema_down_pass old (sema (lk S)) (ks S) = Inr (psema, s, got) \<and>
    lock_inv (S\<lparr>lk := (lk S)\<lparr>sema := psema\<rparr>, ks := s,
      pc := (pc S)(running_thread (ks S) := if got then Got else Want old)\<rparr>)"
proof -
  note I = lock_invD [OF inv]
  let ?t = "running_thread (ks S)"
  consider "sem_value (sema (lk S)) = 1" | "sem_value (sema (lk S)) = 0" using I(2) by (auto simp: excl_def)
  then show ?thesis
  proof cases
    case 1
    then show ?thesis using down_takes [of "sema (lk S)" old "ks S"] step_down_takes [OF inv p refl] by auto
  next
    case 2
    have "?t \<noteq> idle_thread (ks S)" using queuedD(7) [OF I(4), of ?t] p by simp
    then obtain s where s: "sema_down_pass old (sema (lk S)) (ks S) =
        Inr ((sema (lk S))\<lparr>waiters := waiters (sema (lk S)) @ [?t]\<rparr>, s, False)" "sched_inv s"
        "status (tasks s ?t) = TASK_BLOCKED" "same_blocked (- {idle_thread (ks S), ?t}) (ks S) s"
      using down_blocks [OF I(1) _ running_not_waiting [OF inv] 2] by blast
    have "(pc S)(?t := Want old) = pc S" using p by (simp add: fun_upd_idem)
    then show ?thesis using step_down_blocks [OF inv p refl 2 s(2-4)] s(1) by auto
  qed
qed

lemma lstep_inv: "lstep S S' \<Longrightarrow> lock_inv S \<Longrightarrow> lock_inv S'"
proof (induction rule: lstep.induct)
  case (acquire t S s old) then show ?case by (simp add: step_acquire)
next
  case (again t S) then show ?case by (simp add: step_again)
next
  case (down t S old psema s got) then show ?case using down_effect [of S old] by auto
next
  case (take t S) then show ?case by (simp add: step_take)
next
  case (release_nested t S) then show ?case by (simp add: step_release_nested)
next
  case (release t S) then show ?case by (simp add: step_release)
next
  case (release_count t S) then show ?case by (simp add: step_release_count)
next
  case (up t S psema s) then show ?case by (simp add: step_up)
next
  case (switch S s) then show ?case by (simp add: step_switch)
next
  case (sleep t S st s old) then show ?case by (simp add: step_sleep)
next
  case (wakened t S s) then show ?case by (simp add: step_wakened)
qed

definition lock_start :: "kernel \<Rightarrow> lock_sys" where
  "lock_start k = \<lparr>lk = lock_init, ks = k, pc = \<lambda>_. Out\<rparr>"

lemma start_inv: "sched_inv k \<Longrightarrow> lock_inv (lock_start k)"
  by (simp add: lock_start_def lock_init_def sema_init_def lock_inv_def excl_def held_def queued_def owner_def)

lemma reach_inv:
  assumes "lstep\<^sup>*\<^sup>* (lock_start k) S" and "sched_inv k"
  shows "lock_inv S"
  using assms(1)
proof (induction rule: rtranclp_induct)
  case base show ?case using assms(2) by (rule start_inv)
next
  case (step S S') then show ?case by (simp add: lstep_inv)
qed

text \<open>What the code asserts at the place a task is at, and that the routine it is in returns.\<close>

definition next_ok :: "lock_sys \<Rightarrow> addr \<Rightarrow> bool" where
  "next_ok S t = (case pc S t of
        Out \<Rightarrow> holder (lk S) \<noteq> t
      | Want old \<Rightarrow> (\<exists>psema s got. sema_down_pass old (sema (lk S)) (ks S) = Inr (psema, s, got))
      | Got \<Rightarrow> holder_repeat_nr (lk S) = 0
      | Holds \<Rightarrow> holder (lk S) = t \<and> (holder_repeat_nr (lk S) > 1 \<or> holder_repeat_nr (lk S) = 1)
      | Rel1 \<Rightarrow> True
      | Rel2 \<Rightarrow> (\<exists>psema s. sema_up (sema (lk S)) (ks S) = Inr (psema, s)))"

definition held_by :: "addr \<Rightarrow> lock" where
  "held_by t = \<lparr>holder = t, sema = sema_init 0, holder_repeat_nr = 1\<rparr>"

text \<open>A lock that nobody holds is taken at once, and its holder gives it back.\<close>

lemma lock_acquire_free:
  assumes "running_thread s \<noteq> NULL"
  shows "lock_acquire lock_init s = Inr (held_by (running_thread s), s)"
proof -
  have "sema_down_pass (intr_get_status s) (sema_init 1) (fst (intr_disable s)) = Inr (sema_init 0, s, True)"
    by (subst down_takes) (simp_all add: sema_init_def)
  then show ?thesis using assms by (simp add: lock_acquire_def lock_init_def split_def held_by_def)
qed

lemma lock_release_held: "lock_release (held_by (running_thread s)) s = Inr (lock_init, s)"
  by (simp add: lock_release_def held_by_def sema_up_def sema_init_def lock_init_def split_def Let_def)

section \<open>The routines as runs of the transition system\<close>

lemma three_steps: "lstep S S1 \<Longrightarrow> lstep S1 S2 \<Longrightarrow> lstep S2 S3 \<Longrightarrow> lstep\<^sup>*\<^sup>* S S3"
  by (meson converse_rtranclp_into_rtranclp rtranclp.rtrancl_refl)

lemma acquire_runs:
  assumes "lock_acquire (lk S) (ks S) = Inr (l, s)" and t: "t = running_thread (ks S)" "t \<noteq> idle_thread (ks S)"
    and pc: "pc S t \<in> {Out, Holds}" and r: "holder (lk S) = t \<longrightarrow> holder_repeat_nr (lk S) + 1 \<noteq> 0"
  shows "lstep\<^sup>*\<^sup>* S (S\<lparr>lk := l, ks := s, pc := (pc S)(t := Holds)\<rparr>)"
proof (cases "holder (lk S) = t")
  case True
  then have "l = (lk S)\<lparr>holder_repeat_nr := holder_repeat_nr (lk S) + 1\<rparr>" "s = ks S"
    using assms(1) t by (auto simp: lock_acquire_def)
  then show ?thesis using lstep.again [OF t(1) pc True] r True by auto
next
  case False
  obtain d old where d: "intr_disable (ks S) = (d, old)" by fastforce
  have rd: "running_thread d = t"
    using sched_same_inv(3) [OF intr_sched_same(1), of "ks S"] d t by simp
  obtain psema where p: "sema_down_pass old (sema (lk S)) d = Inr (psema, s, True)"
    "l = (lk S)\<lparr>holder := running_thread s, sema := psema, holder_repeat_nr := 1\<rparr>"
    using assms(1) False t d
    by (auto simp: lock_acquire_def kassert_def bindR_def split: sum.splits if_splits)
  have "sched_same d s"
    using p(1) by (auto simp: sema_down_pass_def kassert_def bindR_def Let_def split: sum.splits if_splits)
  then have rs: "running_thread s = t" using sched_same_inv(3) rd by metis
  let ?S1 = "S\<lparr>ks := d, pc := (pc S)(t := Want old)\<rparr>"
  let ?S2 = "S\<lparr>lk := (lk S)\<lparr>sema := psema\<rparr>, ks := s, pc := (pc S)(t := Got)\<rparr>"
  have "lstep S ?S1" using t pc False d by (rule lstep.acquire)
  moreover have "lstep ?S1 ?S2" using lstep.down [of t ?S1 old psema s True] rd p(1) by simp
  moreover have "lstep ?S2 (S\<lparr>lk := l, ks := s, pc := (pc S)(t := Holds)\<rparr>)"
    by (rule back_subst [where P = "lstep ?S2", OF lstep.take [of t ?S2]])
      (use rs p(2) in \<open>auto intro!: lock_sys.equality lock.equality\<close>)
  ultimately show ?thesis by (rule three_steps)
qed

lemma release_runs:
  assumes "lock_release (lk S) (ks S) = Inr (l, s)" and t: "t = running_thread (ks S)" and pc: "pc S t = Holds"
  shows "\<exists>p. lstep\<^sup>*\<^sup>* S (S\<lparr>lk := l, ks := s, pc := (pc S)(t := p)\<rparr>)"
proof (cases "holder_repeat_nr (lk S) > 1")
  case True
  then have "l = (lk S)\<lparr>holder_repeat_nr := holder_repeat_nr (lk S) - 1\<rparr>" "s = ks S"
    using assms(1) by (auto simp: lock_release_def kassert_def split: if_splits)
  then have "lstep S (S\<lparr>lk := l, ks := s, pc := (pc S)(t := Holds)\<rparr>)"
    using lstep.release_nested [OF t pc True] fun_upd_idem [of "pc S" t Holds] pc by simp
  then show ?thesis by blast
next
  case False
  obtain psema where p: "sema_up (sema (lk S)) (ks S) = Inr (psema, s)"
    "l = (lk S)\<lparr>holder := NULL, holder_repeat_nr := 0, sema := psema\<rparr>"
    using assms(1) False by (auto simp: lock_release_def kassert_def bindR_def split: sum.splits if_splits)
  let ?S1 = "S\<lparr>lk := (lk S)\<lparr>holder := NULL\<rparr>, pc := (pc S)(t := Rel1)\<rparr>"
  let ?S2 = "S\<lparr>lk := (lk S)\<lparr>holder := NULL, holder_repeat_nr := 0\<rparr>, pc := (pc S)(t := Rel2)\<rparr>"
  have "lstep S ?S1" using t pc False by (rule lstep.release)
  moreover have "lstep ?S1 ?S2" using lstep.release_count [of t ?S1] t by simp
  moreover have "lstep ?S2 (S\<lparr>lk := l, ks := s, pc := (pc S)(t := Out)\<rparr>)"
    using lstep.up [of t ?S2 psema s] t p by simp
  ultimately have "lstep\<^sup>*\<^sup>* S (S\<lparr>lk := l, ks := s, pc := (pc S)(t := Out)\<rparr>)" by (rule three_steps)
  then show ?thesis by blast
qed

section \<open>Properties\<close>

text \<open>
  C1. Mutual exclusion. In every state that tasks acquiring and releasing a lock can reach from an
  initialised lock, whatever the order in which they run, at most one task is inside the lock, and
  it is the one the lock names as its holder.
\<close>

theorem lock_mutual_exclusion:
  assumes "sched_inv k" and "lstep\<^sup>*\<^sup>* (lock_start k) S"
  shows "(pc S t = Holds \<longrightarrow> pc S u = Holds \<longrightarrow> t = u) \<and> (pc S t = Holds \<longleftrightarrow> holder (lk S) = t \<and> t \<noteq> NULL)"
proof -
  note I = lock_invD [OF reach_inv [OF assms(2,1)]]
  have "owner S t \<and> owner S u \<longrightarrow> t = u" using I(2) unfolding excl_def by blast
  moreover have "pc S t = Holds \<longleftrightarrow> holder (lk S) = t \<and> t \<noteq> NULL" using I(3) unfolding held_def by blast
  ultimately show ?thesis by (simp add: owner_def)
qed

lemma sched_example_acquires:
  "\<exists>s. lock_acquire lock_init sched_example = Inr (\<lparr>holder = 0xc009e000, sema = sema_init 0, holder_repeat_nr = 1\<rparr>, s) \<and>
     sched_same sched_example s"
proof -
  have r: "running_thread sched_example = 0xc009e000" by (simp add: sched_example_def running_thread_def)
  have "running_thread (fst (intr_set_status INTR_OFF sched_example)) = running_thread sched_example"
    by (rule sched_same_inv(3)) (rule intr_sched_same(2))
  moreover have "intr_disable sched_example = (sched_example, INTR_OFF)"
    using sched_example_inv(2) by (simp add: intr_disable_def)
  ultimately show ?thesis
    by (simp add: lock_acquire_def lock_init_def sema_init_def sema_down_pass_def kassert_def r)
qed

theorem lock_mutual_exclusion_witness:
  "\<exists>S. lstep\<^sup>*\<^sup>* (lock_start sched_example) S \<and> pc S 0xc009e000 = Holds \<and> holder (lk S) = 0xc009e000 \<and>
     pc S 0xc0101000 \<noteq> Holds"
proof -
  have r: "running_thread sched_example = 0xc009e000" "idle_thread sched_example = 0xc0100000"
    by (simp_all add: sched_example_def running_thread_def)
  from sched_example_acquires obtain s where a: "lock_acquire lock_init sched_example =
      Inr (\<lparr>holder = 0xc009e000, sema = sema_init 0, holder_repeat_nr = 1\<rparr>, s)" by blast
  let ?S = "\<lparr>lk = \<lparr>holder = 0xc009e000, sema = sema_init 0, holder_repeat_nr = 1\<rparr>, ks = s,
    pc = (\<lambda>_. Out)(0xc009e000 := Holds)\<rparr>"
  have run: "lstep\<^sup>*\<^sup>* (lock_start sched_example) ?S"
    using acquire_runs [of "lock_start sched_example" _ s "0xc009e000"] a r by (simp add: lock_start_def lock_init_def)
  have "pc ?S 0xc009e000 = Holds" "pc ?S 0xc0101000 \<noteq> Holds" by simp_all
  then show ?thesis using lock_mutual_exclusion [OF sched_example_inv(1) run, of "0xc009e000" "0xc0101000"] run by blast
qed

text \<open>
  C23. No assertion of \<^verbatim>\<open>sync.c\<close> fails. In every reachable state the running task can do what comes
  next: the pass of \<^verbatim>\<open>sema_down\<close> and \<^verbatim>\<open>sema_up\<close> return (so the value is 0 or 1 as they assert, and the
  task is not yet on the list), the count is 0 when \<^verbatim>\<open>lock_acquire\<close> takes the lock, the holder that
  releases it is the holder it names with a count of one or more, and a timer interrupt can switch
  tasks.
\<close>

theorem lock_assertions_hold:
  assumes "sched_inv k" and "lstep\<^sup>*\<^sup>* (lock_start k) S" and "t = running_thread (ks S)"
  shows "next_ok S t \<and> (\<exists>s. preempt (ks S) = Inr s)"
proof -
  note inv = reach_inv [OF assms(2,1)]
  note I = lock_invD [OF inv]
  have h: "pc S t = Holds \<longleftrightarrow> holder (lk S) = t" using I(3) running_facts(2) [OF I(1)] assms(3) by (auto simp: held_def)
  have got: "holder_repeat_nr (lk S) = 0" if "pc S t = Got"
  proof -
    have "\<not> (\<exists>u. pc S u \<in> {Holds, Rel1})" using only_owner [OF I(2), of t] that
      by (auto simp: owner_def) (metis place.distinct)+
    then show ?thesis using I(3) unfolding held_def by meson
  qed
  have one: "n > 1 \<or> n = 1" if "n \<noteq> 0" for n :: u32
    using that linorder_less_linear [of n 1] by auto
  have rep: "holder_repeat_nr (lk S) \<noteq> 0" if "pc S t = Holds" using I(3) that unfolding held_def by auto
  have up: "\<exists>psema s. sema_up (sema (lk S)) (ks S) = Inr (psema, s)" if "pc S t = Rel2"
    using up_wakes_first [OF I(1) owner_eq(2) [OF I(2), of t]] queuedD(3,4) [OF I(4)] that by (auto simp: owner_def)
  have "next_ok S t" unfolding next_ok_def
    using h got one [OF rep] up down_effect [OF inv] assms(3) by (cases "pc S t") auto
  then show ?thesis using preempt_effect [OF I(1)] by blast
qed

theorem lock_assertions_hold_witness:
  "next_ok (lock_start sched_example) 0xc009e000 \<and> (\<exists>s. preempt (ks (lock_start sched_example)) = Inr s)"
  by (rule lock_assertions_hold [OF sched_example_inv(1) rtranclp.rtrancl_refl])
    (simp add: sched_example_def running_thread_def lock_start_def)

text \<open>
  C8. No lost wake-up. In every reachable state, a task that waits for the lock is blocked exactly if it is on
  the list of waiters, where it is once. While there are waiters, some task inside the lock or on its way into it
  is not among them, and it can run, so that it will release the lock and wake the first of them or block behind
  one that will; the only exception is the holder of the lock, while it sleeps for a reason that has nothing to do
  with the lock.
\<close>

theorem lock_no_lost_wakeup:
  assumes "sched_inv k" and "lstep\<^sup>*\<^sup>* (lock_start k) S"
  shows "distinct (waiters (sema (lk S))) \<and>
    (waiting S t \<longrightarrow> (t \<in> set (waiters (sema (lk S))) \<longleftrightarrow> \<not> runnable (ks S) t)) \<and>
    (waiters (sema (lk S)) \<noteq> [] \<longrightarrow> (\<exists>u. pc S u \<noteq> Out \<and> u \<notin> set (waiters (sema (lk S))) \<and>
       (runnable (ks S) u \<or> holder (lk S) = u)))"
proof -
  note inv = reach_inv [OF assms(2,1)]
  note I = lock_invD [OF inv]
  have w: "\<not> runnable (ks S) t" if "t \<in> set (waiters (sema (lk S)))"
    using queuedD(3) [OF I(4) that] by (simp add: runnable_def)
  have run: "runnable (ks S) u \<or> holder (lk S) = u" if "pc S u \<noteq> Out" "u \<notin> set (waiters (sema (lk S)))" for u
    using queuedD(8) [OF I(4) that] I(3) by (auto simp: held_def)
  have ex: "\<exists>u. pc S u \<noteq> Out \<and> u \<notin> set (waiters (sema (lk S)))" if ne: "waiters (sema (lk S)) \<noteq> []"
  proof (cases "sem_value (sema (lk S)) = 0")
    case True
    then obtain u where u: "owner S u" using I(2) unfolding excl_def by blast
    then have "pc S u \<noteq> Out \<and> u \<notin> set (waiters (sema (lk S)))"
      using queuedD(2) [OF I(4), of u] by (auto simp: owner_def)
    then show ?thesis by blast
  next
    case False
    then obtain u where "waiting S u" "u \<notin> set (waiters (sema (lk S)))" using queuedD(9) [OF I(4) ne] by blast
    then have "pc S u \<noteq> Out \<and> u \<notin> set (waiters (sema (lk S)))" by (auto simp: waiting_def)
    then show ?thesis by blast
  qed
  have "runnable (ks S) t" if "waiting S t" "t \<notin> set (waiters (sema (lk S)))"
    using queuedD(8) [OF I(4), of t] that by (auto simp: waiting_def)
  then show ?thesis using w queuedD(1) [OF I(4)] ex run by blast
qed

text \<open>Two tasks, of which the second finds the lock taken.\<close>

lemma contended_run:
  "\<exists>S. lstep\<^sup>*\<^sup>* (lock_start sched_example) S \<and> waiters (sema (lk S)) = [0xc0101000]"
proof -
  let ?a = "0xc009e000 :: addr" and ?b = "0xc0101000 :: addr"
  have r: "running_thread sched_example = ?a" "idle_thread sched_example = 0xc0100000"
    "thread_ready_list sched_example = [?b]" by (simp_all add: sched_example_def running_thread_def)
  from sched_example_acquires obtain s where a: "lock_acquire lock_init sched_example =
      Inr (\<lparr>holder = ?a, sema = sema_init 0, holder_repeat_nr = 1\<rparr>, s)" and same: "sched_same sched_example s" by blast
  define S1 where "S1 = \<lparr>lk = \<lparr>holder = ?a, sema = sema_init 0, holder_repeat_nr = 1\<rparr>, ks = s,
    pc = (\<lambda>_. Out)(?a := Holds)\<rparr>"
  have run1: "lstep\<^sup>*\<^sup>* (lock_start sched_example) S1"
    using acquire_runs [of "lock_start sched_example" _ s ?a] a r by (simp add: lock_start_def lock_init_def S1_def)
  note I1 = lock_invD [OF reach_inv [OF run1 sched_example_inv(1)]]
  obtain s2 where s2: "preempt s = Inr s2" "sched_inv s2" "running_thread s2 = ?b" "idle_thread s2 = 0xc0100000"
    using preempt_rotates [OF I1(1)] preempt_effect [OF I1(1)] same r sched_same_inv(3) [OF same]
    by (auto simp: S1_def sched_same_def same_blocked_def)
  obtain d old where d: "intr_disable s2 = (d, old)" by fastforce
  have same2: "sched_same s2 d" using intr_sched_same(1) [of s2] d by simp
  let ?S2 = "S1\<lparr>ks := s2\<rparr>"
  let ?S3 = "S1\<lparr>ks := d, pc := (pc S1)(?b := Want old)\<rparr>"
  have st1: "lstep S1 ?S2" using s2(1) by (intro lstep.switch) (simp add: S1_def)
  have "lstep ?S2 (?S2\<lparr>ks := d, pc := (pc ?S2)(?b := Want old)\<rparr>)"
    using s2 d by (intro lstep.acquire) (simp_all add: S1_def)
  then have st2: "lstep ?S2 ?S3" by simp
  have rd: "running_thread d = ?b" using sched_same_inv(3) [OF same2] s2(3) by simp
  obtain s4 where s4: "sema_down_pass old (sema_init 0) d = Inr ((sema_init 0)\<lparr>waiters := [?b]\<rparr>, s4, False)"
    using down_blocks [OF sched_same_inv(2) [OF same2 s2(2)], of "sema_init 0" old] same2 s2(4) rd
    by (auto simp: sema_init_def sched_same_def)
  have "lstep ?S3 (?S3\<lparr>lk := (lk ?S3)\<lparr>sema := (sema_init 0)\<lparr>waiters := [?b]\<rparr>\<rparr>, ks := s4,
      pc := (pc ?S3)(?b := if False then Got else Want old)\<rparr>)" (is "lstep _ ?S4")
    using s4 rd by (intro lstep.down [where t = ?b]) (simp_all add: S1_def)
  then have "lstep\<^sup>*\<^sup>* (lock_start sched_example) ?S4"
    using run1 three_steps [OF st1 st2] by (meson rtranclp_trans)
  then show ?thesis by (intro exI [of _ ?S4]) simp
qed

theorem lock_no_lost_wakeup_witness:
  "\<exists>S u. lstep\<^sup>*\<^sup>* (lock_start sched_example) S \<and> waiters (sema (lk S)) = [0xc0101000] \<and> pc S u \<noteq> Out \<and>
     u \<noteq> 0xc0101000 \<and> (runnable (ks S) u \<or> holder (lk S) = u)"
proof -
  from contended_run obtain S where S: "lstep\<^sup>*\<^sup>* (lock_start sched_example) S" "waiters (sema (lk S)) = [0xc0101000]"
    by blast
  then obtain u where "pc S u \<noteq> Out" "u \<noteq> 0xc0101000" "runnable (ks S) u \<or> holder (lk S) = u"
    using lock_no_lost_wakeup [OF sched_example_inv(1) S(1)] by auto
  then show ?thesis using S by blast
qed

end
