(* ===== verification/IOQueue.thy ===== *)
theory IOQueue
  imports Sync "HOL-Library.Signed_Division"
begin

text \<open>
  The ring buffer between a producer and a consumer (\<^verbatim>\<open>device/ioqueue.c\<close>), which carries the characters of
  the keyboard and the bytes of a pipe. The routines run with interrupts off. As in the theory \<open>Sync\<close>, a
  routine that must wait is modelled one pass at a time: \<open>ioq_getchar\<close> and \<open>ioq_putchar\<close> end either
  with the byte transferred or, when the buffer is empty or full, with the caller blocked and another task
  running; \<open>ioq_again\<close> is what the caller does when it runs again, before its next pass.

  The locale \<open>byte_queue\<close> states what the clients of the buffer rely on, a queue of bounded capacity; the
  ring buffer interprets it.
\<close>

definition bufsize :: int where
  "bufsize = 2048"

record ioqueue =
  ioq_lock :: lock
  producer :: addr
  consumer :: addr
  ioq_buf :: "u8 list"
  ioq_head :: int
  ioq_tail :: int

definition ioqueue_init :: "ioqueue \<Rightarrow> ioqueue" where
  "ioqueue_init ioq = ioq\<lparr>ioq_lock := lock_init, producer := NULL, consumer := NULL, ioq_head := 0, ioq_tail := 0\<rparr>"

definition next_pos :: "int \<Rightarrow> int" where
  "next_pos pos = (pos + 1) smod bufsize"

definition ioq_full :: "ioqueue \<Rightarrow> 'a kernel_scheme \<Rightarrow> bool res" where
  "ioq_full ioq s =
     bindR (kassert (intr_get_status s = INTR_OFF) ''intr_get_status() == INTR_OFF'') (\<lambda>_.
     Inr (next_pos (ioq_head ioq) = ioq_tail ioq))"

definition ioq_empty :: "ioqueue \<Rightarrow> 'a kernel_scheme \<Rightarrow> bool res" where
  "ioq_empty ioq s =
     bindR (kassert (intr_get_status s = INTR_OFF) ''intr_get_status() == INTR_OFF'') (\<lambda>_.
     Inr (ioq_head ioq = ioq_tail ioq))"

text \<open>
  \<^verbatim>\<open>ioq_wait\<close> and \<^verbatim>\<open>wakeup\<close>, for the value that \<^verbatim>\<open>waiter\<close> points to. \<open>ioq_wait\<close> ends when the
  processor has been given away; the second component is the status \<^verbatim>\<open>thread_block\<close> will restore.
\<close>

definition ioq_wait :: "addr \<Rightarrow> 'a kernel_scheme \<Rightarrow> (addr \<times> 'a kernel_scheme \<times> intr_status) res" where
  "ioq_wait waiter s =
     bindR (kassert (waiter = NULL) ''*waiter == NULL && waiter != NULL'') (\<lambda>_.
     bindR (thread_block TASK_BLOCKED s) (\<lambda>(s', old). Inr (running_thread s, s', old)))"

definition wakeup :: "addr \<Rightarrow> 'a kernel_scheme \<Rightarrow> (addr \<times> 'a kernel_scheme) res" where
  "wakeup waiter s =
     bindR (kassert (waiter \<noteq> NULL) ''*waiter != NULL'') (\<lambda>_.
     bindR (thread_unblock waiter s) (\<lambda>s'. Inr (NULL, s')))"

text \<open>What a pass ends with: the byte, or the status that the blocked call still has to restore.\<close>

datatype 'b pass = Done 'b | Blocked intr_status

definition ioq_getchar :: "ioqueue \<Rightarrow> 'a kernel_scheme \<Rightarrow> (ioqueue \<times> 'a kernel_scheme \<times> u8 pass) res" where
  "ioq_getchar ioq s =
     bindR (kassert (intr_get_status s = INTR_OFF) ''intr_get_status() == INTR_OFF'') (\<lambda>_.
     bindR (ioq_empty ioq s) (\<lambda>empty.
     if empty then
       bindR (lock_acquire (ioq_lock ioq) s) (\<lambda>(l, s1).
       bindR (ioq_wait (consumer ioq) s1) (\<lambda>(c, s2, old).
       Inr (ioq\<lparr>ioq_lock := l, consumer := c\<rparr>, s2, Blocked old)))
     else
       let byte = ioq_buf ioq ! nat (ioq_tail ioq); ioq1 = ioq\<lparr>ioq_tail := next_pos (ioq_tail ioq)\<rparr> in
       if producer ioq1 \<noteq> NULL then
         bindR (wakeup (producer ioq1) s) (\<lambda>(w, s1). Inr (ioq1\<lparr>producer := w\<rparr>, s1, Done byte))
       else Inr (ioq1, s, Done byte)))"

definition ioq_putchar :: "ioqueue \<Rightarrow> u8 \<Rightarrow> 'a kernel_scheme \<Rightarrow> (ioqueue \<times> 'a kernel_scheme \<times> unit pass) res" where
  "ioq_putchar ioq byte s =
     bindR (kassert (intr_get_status s = INTR_OFF) ''intr_get_status() == INTR_OFF'') (\<lambda>_.
     bindR (ioq_full ioq s) (\<lambda>full.
     if full then
       bindR (lock_acquire (ioq_lock ioq) s) (\<lambda>(l, s1).
       bindR (ioq_wait (producer ioq) s1) (\<lambda>(p, s2, old).
       Inr (ioq\<lparr>ioq_lock := l, producer := p\<rparr>, s2, Blocked old)))
     else
       let ioq1 = ioq\<lparr>ioq_buf := (ioq_buf ioq)[nat (ioq_head ioq) := byte], ioq_head := next_pos (ioq_head ioq)\<rparr> in
       if consumer ioq1 \<noteq> NULL then
         bindR (wakeup (consumer ioq1) s) (\<lambda>(w, s1). Inr (ioq1\<lparr>consumer := w\<rparr>, s1, Done ()))
       else Inr (ioq1, s, Done ())))"

definition ioq_again :: "intr_status \<Rightarrow> ioqueue \<Rightarrow> 'a kernel_scheme \<Rightarrow> (ioqueue \<times> 'a kernel_scheme) res" where
  "ioq_again old ioq s =
     bindR (lock_release (ioq_lock ioq) (thread_resume old s)) (\<lambda>(l, s'). Inr (ioq\<lparr>ioq_lock := l\<rparr>, s'))"

definition ioq_length :: "ioqueue \<Rightarrow> u32" where
  "ioq_length ioq =
     (if ioq_head ioq \<ge> ioq_tail ioq then of_int (ioq_head ioq - ioq_tail ioq)
      else of_int (bufsize - (ioq_tail ioq - ioq_head ioq)))"

section \<open>The queue of bytes\<close>

definition ioq_ok :: "ioqueue \<Rightarrow> bool" where
  "ioq_ok q \<longleftrightarrow> length (ioq_buf q) = 2048 \<and> 0 \<le> ioq_head q \<and> ioq_head q < 2048 \<and> 0 \<le> ioq_tail q \<and> ioq_tail q < 2048"

definition ioq_count :: "ioqueue \<Rightarrow> nat" where
  "ioq_count q = nat ((ioq_head q - ioq_tail q) mod 2048)"

text \<open>The bytes between the tail and the head, the oldest first.\<close>

definition ioq_bytes :: "ioqueue \<Rightarrow> u8 list" where
  "ioq_bytes q = map (\<lambda>k. ioq_buf q ! ((nat (ioq_tail q) + k) mod 2048)) [0..<ioq_count q]"

lemma next_pos_if: "0 \<le> p \<Longrightarrow> p < 2048 \<Longrightarrow> next_pos p = (if p = 2047 then 0 else p + 1)"
  by (simp add: next_pos_def bufsize_def smod_int_alt_def)

lemma ring_diff: "0 \<le> h \<Longrightarrow> h < 2048 \<Longrightarrow> 0 \<le> t \<Longrightarrow> t < 2048 \<Longrightarrow> (h - t) mod 2048 = (if t \<le> h then h - t else h - t + 2048)"
  for h t :: int
proof -
  assume a: "0 \<le> h" "h < 2048" "0 \<le> t" "t < 2048"
  have "(h - t) mod 2048 = (h - t + 2048) mod 2048" by simp
  also have "\<dots> = h - t + 2048" if "\<not> t \<le> h" using that a by (intro mod_pos_pos_trivial) auto
  finally show ?thesis using a by (auto simp: mod_pos_pos_trivial)
qed

lemma ioq_count_if:
  assumes "ioq_ok q"
  shows "int (ioq_count q) = (if ioq_tail q \<le> ioq_head q then ioq_head q - ioq_tail q else ioq_head q - ioq_tail q + 2048)"
  using assms by (simp add: ioq_count_def ioq_ok_def ring_diff)

lemma ioq_bytes_length [simp]: "length (ioq_bytes q) = ioq_count q"
  by (simp add: ioq_bytes_def)

lemma ioq_init_ok: "length (ioq_buf q) = 2048 \<Longrightarrow> ioq_ok (ioqueue_init q)" "ioq_bytes (ioqueue_init q) = []"
  by (simp_all add: ioq_ok_def ioqueue_init_def ioq_bytes_def ioq_count_def)

lemma ioq_count_bound: "ioq_count q \<le> 2047"
proof -
  have "(ioq_head q - ioq_tail q) mod 2048 < 2048" by simp
  then show ?thesis unfolding ioq_count_def by linarith
qed

lemma ioq_empty_iff: "ioq_ok q \<Longrightarrow> ioq_head q = ioq_tail q \<longleftrightarrow> ioq_bytes q = []"
proof -
  assume q: "ioq_ok q"
  have "ioq_head q = ioq_tail q \<longleftrightarrow> int (ioq_count q) = 0"
    using q unfolding ioq_count_if [OF q] ioq_ok_def by auto
  then show ?thesis using ioq_bytes_length [of q] by (metis length_0_conv of_nat_eq_0_iff)
qed

lemma ioq_full_iff: "ioq_ok q \<Longrightarrow> next_pos (ioq_head q) = ioq_tail q \<longleftrightarrow> ioq_count q = 2047"
proof -
  assume q: "ioq_ok q"
  have "next_pos (ioq_head q) = ioq_tail q \<longleftrightarrow> int (ioq_count q) = 2047"
    using q unfolding ioq_count_if [OF q] ioq_ok_def by (auto simp: next_pos_if)
  then show ?thesis by auto
qed

lemma ioq_length_count: "ioq_ok q \<Longrightarrow> ioq_length q = of_nat (length (ioq_bytes q))"
proof -
  assume q: "ioq_ok q"
  have "ioq_length q = of_int (int (ioq_count q))"
    unfolding ioq_count_if [OF q] by (simp add: ioq_length_def bufsize_def algebra_simps)
  then show ?thesis by simp
qed

text \<open>A byte is put at the head.\<close>

lemma put_bytes_ring:
  fixes b :: u8
  assumes q: "ioq_ok q" and room: "ioq_count q < 2047"
  defines "q' \<equiv> q\<lparr>ioq_buf := (ioq_buf q)[nat (ioq_head q) := b], ioq_head := next_pos (ioq_head q)\<rparr>"
  shows "ioq_ok q'" "ioq_bytes q' = ioq_bytes q @ [b]"
proof -
  have h: "0 \<le> ioq_head q" "ioq_head q < 2048" "0 \<le> ioq_tail q" "ioq_tail q < 2048" "length (ioq_buf q) = 2048"
    using q by (simp_all add: ioq_ok_def)
  show q': "ioq_ok q'" using h by (simp add: q'_def ioq_ok_def next_pos_if)
  have "int (ioq_count q') = int (ioq_count q) + 1"
    using h room ioq_count_if [OF q] unfolding ioq_count_if [OF q'] by (auto simp: q'_def next_pos_if split: if_splits)
  then have c: "ioq_count q' = Suc (ioq_count q)" by linarith
  have at: "(nat (ioq_tail q) + ioq_count q) mod 2048 = nat (ioq_head q)"
  proof -
    have "int (nat (ioq_tail q) + ioq_count q) = (if ioq_tail q \<le> ioq_head q then ioq_head q else ioq_head q + 2048)"
      using h ioq_count_if [OF q] by auto
    then have "nat (ioq_tail q) + ioq_count q = nat (ioq_head q) \<or> nat (ioq_tail q) + ioq_count q = nat (ioq_head q) + 2048"
      using h by (auto split: if_splits)
    then show ?thesis using h by auto
  qed
  have other: "(nat (ioq_tail q) + k) mod 2048 \<noteq> nat (ioq_head q)" if "k < ioq_count q" for k
  proof
    assume "(nat (ioq_tail q) + k) mod 2048 = nat (ioq_head q)"
    then have "(nat (ioq_tail q) + k) mod 2048 = (nat (ioq_tail q) + ioq_count q) mod 2048" using at by simp
    then have "2048 dvd ioq_count q - k"
      using that mod_eq_dvd_iff_nat [of "nat (ioq_tail q) + k" "nat (ioq_tail q) + ioq_count q" 2048] by simp
    then show False using that room by (auto dest: dvd_imp_le)
  qed
  have "ioq_bytes q' = map (\<lambda>k. (ioq_buf q)[nat (ioq_head q) := b] ! ((nat (ioq_tail q) + k) mod 2048)) [0..<Suc (ioq_count q)]"
    unfolding ioq_bytes_def c by (simp add: q'_def)
  also have "\<dots> = ioq_bytes q @ [b]"
    using h by (simp add: ioq_bytes_def at nth_list_update_neq [OF other [symmetric]] cong: map_cong)
  finally show "ioq_bytes q' = ioq_bytes q @ [b]" .
qed

text \<open>A byte is taken from the tail.\<close>

lemma get_bytes_ring:
  assumes q: "ioq_ok q" and some: "ioq_count q \<noteq> 0"
  defines "q' \<equiv> q\<lparr>ioq_tail := next_pos (ioq_tail q)\<rparr>"
  shows "ioq_ok q'" "ioq_bytes q = ioq_buf q ! nat (ioq_tail q) # ioq_bytes q'"
proof -
  have h: "0 \<le> ioq_head q" "ioq_head q < 2048" "0 \<le> ioq_tail q" "ioq_tail q < 2048" "length (ioq_buf q) = 2048"
    using q by (simp_all add: ioq_ok_def)
  show q': "ioq_ok q'" using h by (simp add: q'_def ioq_ok_def next_pos_if)
  have "int (ioq_count q) = int (ioq_count q') + 1"
    using h some ioq_count_if [OF q] unfolding ioq_count_if [OF q'] by (auto simp: q'_def next_pos_if split: if_splits)
  then have c: "ioq_count q = Suc (ioq_count q')" by linarith
  have t: "(nat (next_pos (ioq_tail q)) + k) mod 2048 = (nat (ioq_tail q) + Suc k) mod 2048" for k
    using h by (auto simp: next_pos_if nat_add_distrib)
  have "ioq_bytes q = ioq_buf q ! nat (ioq_tail q) # map (\<lambda>k. ioq_buf q ! ((nat (ioq_tail q) + Suc k) mod 2048)) [0..<ioq_count q']"
    unfolding ioq_bytes_def c using h by (simp add: upt_conv_Cons map_Suc_upt [symmetric] del: upt_Suc)
  then show "ioq_bytes q = ioq_buf q ! nat (ioq_tail q) # ioq_bytes q'"
    unfolding ioq_bytes_def [of q'] by (simp add: q'_def t)
qed

section \<open>The contract of the queue of bytes\<close>

text \<open>Clients that put and get several bytes, as the loops of a pipe do.\<close>

fun put_all :: "(u8 \<Rightarrow> 'c \<Rightarrow> 'c res) \<Rightarrow> u8 list \<Rightarrow> 'c \<Rightarrow> 'c res" where
  "put_all put [] c = Inr c"
| "put_all put (b # bs) c = bindR (put b c) (put_all put bs)"

fun get_all :: "('c \<Rightarrow> ('c \<times> u8) res) \<Rightarrow> nat \<Rightarrow> 'c \<Rightarrow> ('c \<times> u8 list) res" where
  "get_all get 0 c = Inr (c, [])"
| "get_all get (Suc n) c = bindR (get c) (\<lambda>(c1, b). bindR (get_all get n c1) (\<lambda>(c2, bs). Inr (c2, b # bs)))"

locale byte_queue =
  fixes rep :: "'c \<Rightarrow> u8 list" and ok :: "'c \<Rightarrow> bool"
    and put :: "u8 \<Rightarrow> 'c \<Rightarrow> 'c res" and get :: "'c \<Rightarrow> ('c \<times> u8) res" and cap :: nat
  assumes put_rep: "ok c \<Longrightarrow> length (rep c) < cap \<Longrightarrow> \<exists>c'. put b c = Inr c' \<and> ok c' \<and> rep c' = rep c @ [b]"
    and put_full: "ok c \<Longrightarrow> length (rep c) = cap \<Longrightarrow> \<not> returns (put b c)"
    and get_rep: "ok c \<Longrightarrow> rep c = x # xs \<Longrightarrow> \<exists>c'. get c = Inr (c', x) \<and> ok c' \<and> rep c' = xs"
    and get_empty: "ok c \<Longrightarrow> rep c = [] \<Longrightarrow> \<not> returns (get c)"
    and rep_cap: "ok c \<Longrightarrow> length (rep c) \<le> cap"
begin

lemma puts_rep: "ok c \<Longrightarrow> length (rep c) + length bs \<le> cap \<Longrightarrow>
    \<exists>c'. put_all put bs c = Inr c' \<and> ok c' \<and> rep c' = rep c @ bs"
proof (induction bs arbitrary: c)
  case (Cons b bs)
  then obtain c1 where c1: "put b c = Inr c1" "ok c1" "rep c1 = rep c @ [b]" using put_rep [of c b] by auto
  with Cons.IH [of c1] Cons.prems show ?case by auto
qed simp

lemma puts_too_many: "ok c \<Longrightarrow> cap < length (rep c) + length bs \<Longrightarrow> \<not> returns (put_all put bs c)"
proof (induction bs arbitrary: c)
  case Nil
  then show ?case using rep_cap [of c] by simp
next
  case (Cons b bs)
  show ?case
  proof (cases "length (rep c) < cap")
    case True
    then obtain c1 where c1: "put b c = Inr c1" "ok c1" "rep c1 = rep c @ [b]" using put_rep [of c b] Cons.prems by auto
    with Cons.IH [of c1] Cons.prems show ?thesis by simp
  next
    case False
    then have "\<not> returns (put b c)" using put_full rep_cap Cons.prems by force
    then show ?thesis by (cases "put b c") auto
  qed
qed

lemma gets_rep: "ok c \<Longrightarrow> rep c = xs @ ys \<Longrightarrow>
    \<exists>c'. get_all get (length xs) c = Inr (c', xs) \<and> ok c' \<and> rep c' = ys"
proof (induction xs arbitrary: c)
  case (Cons x xs)
  then obtain c1 where c1: "get c = Inr (c1, x)" "ok c1" "rep c1 = xs @ ys" using get_rep [of c x "xs @ ys"] by auto
  with Cons.IH [of c1] show ?case by auto
qed simp

lemma puts_then_gets:
  assumes "ok c" and "length (rep c) + length bs \<le> cap"
  shows "\<exists>c1 c2. put_all put bs c = Inr c1 \<and> get_all get (length (rep c @ bs)) c1 = Inr (c2, rep c @ bs) \<and> ok c2 \<and> rep c2 = []"
proof -
  obtain c1 where c1: "put_all put bs c = Inr c1" "ok c1" "rep c1 = rep c @ bs" using puts_rep [OF assms] by blast
  then show ?thesis using gets_rep [of c1 "rep c @ bs" "[]"] by auto
qed

end

text \<open>A buffer together with the kernel; a call that must wait does not return here.\<close>

definition ioq_put :: "u8 \<Rightarrow> ioqueue \<times> 'a kernel_scheme \<Rightarrow> (ioqueue \<times> 'a kernel_scheme) res" where
  "ioq_put b = (\<lambda>(q, s). bindR (ioq_putchar q b s) (\<lambda>(q', s', r).
     case r of Done _ \<Rightarrow> Inr (q', s') | Blocked _ \<Rightarrow> Inl Suspended))"

definition ioq_get :: "ioqueue \<times> 'a kernel_scheme \<Rightarrow> ((ioqueue \<times> 'a kernel_scheme) \<times> u8) res" where
  "ioq_get = (\<lambda>(q, s). bindR (ioq_getchar q s) (\<lambda>(q', s', r).
     case r of Done b \<Rightarrow> Inr ((q', s'), b) | Blocked _ \<Rightarrow> Inl Suspended))"

text \<open>A task recorded as waiting can be woken.\<close>

definition waiter_ok :: "'a kernel_scheme \<Rightarrow> addr \<Rightarrow> bool" where
  "waiter_ok s t \<longleftrightarrow> t \<noteq> NULL \<longrightarrow> may_wake (status (tasks s t)) \<and> t \<notin> set (thread_ready_list s)"

definition ioq_inv :: "ioqueue \<times> 'a kernel_scheme \<Rightarrow> bool" where
  "ioq_inv = (\<lambda>(q, s). ioq_ok q \<and> intr_get_status s = INTR_OFF \<and> waiter_ok s (producer q) \<and> waiter_ok s (consumer q) \<and>
     (producer q \<noteq> NULL \<longrightarrow> producer q \<noteq> consumer q))"

lemma wakeup_waiter:
  assumes "waiter_ok s t" and "t \<noteq> NULL"
  shows "wakeup t s = Inr (NULL, wake t s)"
proof -
  have "thread_unblock t s = Inr (wake t s)" using assms by (intro thread_unblock_wakes) (simp_all add: waiter_ok_def)
  then show ?thesis using assms(2) by (simp add: wakeup_def)
qed

lemma waiter_ok_wake: "waiter_ok s u \<Longrightarrow> u \<noteq> t \<Longrightarrow> waiter_ok (wake t s) u"
  by (simp add: waiter_ok_def)

lemma waiter_ok_NULL [simp]: "waiter_ok s NULL"
  by (simp add: waiter_ok_def)

lemma intr_get_status_wake [simp]: "intr_get_status (wake t s) = intr_get_status s"
  by (simp add: intr_get_status_def)

interpretation ring: byte_queue "\<lambda>(q, s). ioq_bytes q" ioq_inv ioq_put ioq_get 2047
proof
  fix c :: "ioqueue \<times> 'a kernel_scheme" and b x :: u8 and xs :: "u8 list"
  obtain q s where c: "c = (q, s)" by force
  assume "ioq_inv c"
  then have i: "ioq_ok q" "intr_get_status s = INTR_OFF" "waiter_ok s (producer q)" "waiter_ok s (consumer q)"
    "producer q \<noteq> NULL \<longrightarrow> producer q \<noteq> consumer q" by (simp_all add: ioq_inv_def c)
  show "length ((\<lambda>(q, s). ioq_bytes q) c) \<le> 2047" using ioq_count_bound [of q] by (simp add: c)
  show "\<not> returns (ioq_put b c)" if "length ((\<lambda>(q, s). ioq_bytes q) c) = 2047"
  proof -
    have "next_pos (ioq_head q) = ioq_tail q" using that ioq_full_iff [OF i(1)] by (simp add: c)
    then show ?thesis using i(2)
      by (auto simp: ioq_put_def c ioq_putchar_def ioq_full_def bindR_def split: sum.splits)
  qed
  show "\<not> returns (ioq_get c)" if "(\<lambda>(q, s). ioq_bytes q) c = []"
  proof -
    have "ioq_head q = ioq_tail q" using that ioq_empty_iff [OF i(1)] by (simp add: c)
    then show ?thesis using i(2)
      by (auto simp: ioq_get_def c ioq_getchar_def ioq_empty_def bindR_def split: sum.splits)
  qed
  show "\<exists>c'. ioq_put b c = Inr c' \<and> ioq_inv c' \<and> (\<lambda>(q, s). ioq_bytes q) c' = (\<lambda>(q, s). ioq_bytes q) c @ [b]"
    if "length ((\<lambda>(q, s). ioq_bytes q) c) < 2047"
  proof -
    let ?q = "q\<lparr>ioq_buf := (ioq_buf q)[nat (ioq_head q) := b], ioq_head := next_pos (ioq_head q)\<rparr>"
    have room: "ioq_count q < 2047" using that by (simp add: c)
    then have nf: "next_pos (ioq_head q) \<noteq> ioq_tail q" using ioq_full_iff [OF i(1)] by simp
    note p = put_bytes_ring [OF i(1) room, of b]
    have eq: "ioq_ok (?q\<lparr>consumer := w\<rparr>) = ioq_ok ?q" "ioq_bytes (?q\<lparr>consumer := w\<rparr>) = ioq_bytes ?q" for w
      by (simp_all add: ioq_ok_def ioq_bytes_def ioq_count_def)
    show ?thesis
    proof (cases "consumer q = NULL")
      case True
      then show ?thesis using nf p i by (simp add: c ioq_put_def ioq_putchar_def ioq_full_def ioq_inv_def)
    next
      case False
      then have "ioq_put b c = Inr (?q\<lparr>consumer := NULL\<rparr>, wake (consumer q) s)"
        using nf i wakeup_waiter [OF i(4) False] by (simp add: c ioq_put_def ioq_putchar_def ioq_full_def)
      moreover have "waiter_ok (wake (consumer q) s) (producer q)"
        using i(3,5) by (cases "producer q = NULL") (auto intro: waiter_ok_wake)
      ultimately show ?thesis using p i eq [of NULL] by (simp add: c ioq_inv_def)
    qed
  qed
  show "\<exists>c'. ioq_get c = Inr (c', x) \<and> ioq_inv c' \<and> (\<lambda>(q, s). ioq_bytes q) c' = xs"
    if "(\<lambda>(q, s). ioq_bytes q) c = x # xs"
  proof -
    let ?q = "q\<lparr>ioq_tail := next_pos (ioq_tail q)\<rparr>"
    have some: "ioq_count q \<noteq> 0" using that ioq_bytes_length [of q] by (auto simp: c)
    then have ne: "ioq_head q \<noteq> ioq_tail q" using ioq_empty_iff [OF i(1)] that by (simp add: c)
    note p = get_bytes_ring [OF i(1) some]
    have x: "ioq_buf q ! nat (ioq_tail q) = x" "ioq_bytes ?q = xs" using p(2) that by (simp_all add: c)
    have eq: "ioq_ok (?q\<lparr>producer := w\<rparr>) = ioq_ok ?q" "ioq_bytes (?q\<lparr>producer := w\<rparr>) = ioq_bytes ?q" for w
      by (simp_all add: ioq_ok_def ioq_bytes_def ioq_count_def)
    show ?thesis
    proof (cases "producer q = NULL")
      case True
      then show ?thesis using ne p(1) x i by (simp add: c ioq_get_def ioq_getchar_def ioq_empty_def ioq_inv_def)
    next
      case False
      then have "ioq_get c = Inr ((?q\<lparr>producer := NULL\<rparr>, wake (producer q) s), x)"
        using ne i x wakeup_waiter [OF i(3) False] by (simp add: c ioq_get_def ioq_getchar_def ioq_empty_def)
      moreover have "waiter_ok (wake (producer q) s) (consumer q)"
        using i(4,5) False by (cases "consumer q = NULL") (auto intro: waiter_ok_wake)
      ultimately show ?thesis using p(1) x i eq [of NULL] by (simp add: c ioq_inv_def)
    qed
  qed
qed

section \<open>Properties\<close>

text \<open>
  C11. The ring buffer is a queue of 2047 bytes. From every state of the buffer, wherever its head and its
  tail are, bytes that fit are all accepted, and reading returns the bytes that were there and then the new
  ones, in order, and leaves the buffer empty; no assertion fails on the way, also when the other side waits.
\<close>

theorem ioq_fifo:
  assumes "ioq_inv (q, s)" and "length (ioq_bytes q) + length bs \<le> 2047"
  shows "\<exists>c1 q2 s2. put_all ioq_put bs (q, s) = Inr c1 \<and>
    get_all ioq_get (length (ioq_bytes q @ bs)) c1 = Inr ((q2, s2), ioq_bytes q @ bs) \<and> ioq_inv (q2, s2) \<and> ioq_bytes q2 = []"
proof -
  obtain c1 c2 where "put_all ioq_put bs (q, s) = Inr c1"
    "get_all ioq_get (length (ioq_bytes q @ bs)) c1 = Inr (c2, ioq_bytes q @ bs)" "ioq_inv c2" "(\<lambda>(q, s). ioq_bytes q) c2 = []"
    using ring.puts_then_gets [OF assms(1), of bs] assms(2) by auto
  then show ?thesis by (cases c2) auto
qed

definition ioq_zero :: ioqueue where
  "ioq_zero = \<lparr>ioq_lock = lock_zero, producer = 0, consumer = 0, ioq_buf = replicate 2048 0, ioq_head = 0, ioq_tail = 0\<rparr>"

lemma ioq_example: "ioq_ok (ioqueue_init ioq_zero)" "ioq_bytes (ioqueue_init ioq_zero) = []" "ioq_inv (ioqueue_init ioq_zero, sched_example)"
proof -
  show o: "ioq_ok (ioqueue_init ioq_zero)" by (rule ioq_init_ok) (simp add: ioq_zero_def)
  show e: "ioq_bytes (ioqueue_init ioq_zero) = []" by (rule ioq_init_ok)
  show "ioq_inv (ioqueue_init ioq_zero, sched_example)"
    using o sched_example_inv(2) by (simp add: ioq_inv_def) (simp add: ioqueue_init_def)
qed

theorem ioq_fifo_witness:
  "\<exists>c1 q2 s2. put_all ioq_put [104, 105] (ioqueue_init ioq_zero, sched_example) = Inr c1 \<and>
     get_all ioq_get (length [104 :: u8, 105]) c1 = Inr ((q2, s2), [104, 105])"
  using ioq_fifo [OF ioq_example(3), of "[104, 105]"] unfolding ioq_example(2) by (simp del: put_all.simps get_all.simps) blast

text \<open>
  C25. Waiting. A task other than the idle one that reads from an empty buffer blocks, with its address in
  \<^verbatim>\<open>consumer\<close>. When the task that runs then puts a byte, the reader is taken out of \<^verbatim>\<open>consumer\<close> and becomes
  the first of the ready queue, and the byte is in the buffer; the invariant of the scheduler holds throughout.
\<close>

theorem ioq_getchar_waits:
  assumes s: "sched_inv s" "intr_get_status s = INTR_OFF" "running_thread s \<noteq> idle_thread s"
    and q: "ioq_ok q" "ioq_bytes q = []" "ioq_lock q = lock_init" "producer q = NULL" "consumer q = NULL"
  shows "\<exists>q' s'. ioq_getchar q s = Inr (q', s', Blocked INTR_OFF) \<and> consumer q' = running_thread s \<and>
    sched_inv s' \<and> status (tasks s' (running_thread s)) = TASK_BLOCKED \<and>
    (\<exists>q'' s''. ioq_putchar q' b (fst (intr_disable s')) = Inr (q'', s'', Done ()) \<and> consumer q'' = NULL \<and> ioq_bytes q'' = [b] \<and>
      sched_inv s'' \<and> thread_ready_list s'' = running_thread s # thread_ready_list s')"
proof -
  let ?c = "running_thread s"
  have all: "?c \<in> set (thread_all_list s)" "?c \<noteq> NULL" using s(1) by (auto simp: sched_inv_def sched_core_def task_ok_def)
  obtain s' where s': "thread_block TASK_BLOCKED s = Inr (s', INTR_OFF)" "sched_inv s'" "status (tasks s' ?c) = TASK_BLOCKED"
    "same_blocked (- {idle_thread s, ?c}) s s'"
    using block_effect [OF s(1) _ s(3), of TASK_BLOCKED] s(2) by (auto simp: may_wake_def)
  let ?q = "q\<lparr>ioq_lock := \<lparr>holder = ?c, sema = sema_init 0, holder_repeat_nr = 1\<rparr>, consumer := ?c\<rparr>"
  have get: "ioq_getchar q s = Inr (?q, s', Blocked INTR_OFF)"
    using q s(2) s'(1) all(2) ioq_empty_iff [OF q(1)] lock_acquire_free [OF all(2), unfolded held_by_def]
    by (simp add: ioq_getchar_def ioq_empty_def ioq_wait_def)
  let ?t = "fst (intr_disable s')"
  have t: "sched_inv ?t" "?c \<in> set (thread_all_list ?t)" "may_wake (status (tasks ?t ?c))"
    using sched_same_inv(2) [OF intr_sched_same(1) s'(2)] all(1) s'(3,4) by (auto simp: same_blocked_def may_wake_def)
  note w = unblock_effect [OF t]
  have "waiter_ok ?t ?c" using wake_core(1) [of ?t ?c] t by (simp add: waiter_ok_def sched_inv_def)
  then have "ioq_inv (?q, ?t)"
    using q intr_disable_off [of s'] by (simp add: ioq_inv_def ioq_ok_def)
  moreover have "ioq_bytes ?q = []" using q(2) by (simp add: ioq_bytes_def ioq_count_def)
  ultimately obtain c' where c': "ioq_put b (?q, ?t) = Inr c'" "(\<lambda>(q, s). ioq_bytes q) c' = [b]"
    using ring.put_rep [of "(?q, ?t)" b] by auto
  have nf: "next_pos (ioq_head q) \<noteq> ioq_tail q" using ioq_full_iff [OF q(1)] q(2) ioq_bytes_length [of q] by auto
  have "wakeup ?c ?t = Inr (NULL, wake ?c ?t)" using \<open>waiter_ok ?t ?c\<close> all(2) by (rule wakeup_waiter)
  then obtain q'' where q'': "ioq_putchar ?q b ?t = Inr (q'', wake ?c ?t, Done ())" "consumer q'' = NULL"
    using nf all(2) intr_disable_off [of s'] by (simp add: ioq_putchar_def ioq_full_def)
  then have "c' = (q'', wake ?c ?t)" using c'(1) by (simp add: ioq_put_def)
  then have "ioq_bytes q'' = [b]" using c'(2) by simp
  then show ?thesis using get s'(2,3) q'' w(2) by auto
qed

theorem ioq_getchar_waits_witness:
  "\<exists>q' s' q'' s''. ioq_getchar (ioqueue_init ioq_zero) sched_example = Inr (q', s', Blocked INTR_OFF) \<and>
     ioq_putchar q' 104 (fst (intr_disable s')) = Inr (q'', s'', Done ()) \<and> ioq_bytes q'' = [104]"
proof -
  have "running_thread sched_example \<noteq> idle_thread sched_example" by (simp add: sched_example_def running_thread_def)
  from ioq_getchar_waits [OF sched_example_inv this ioq_example(1,2), of 104] show ?thesis
    by (auto simp: ioqueue_init_def ioq_zero_def)
qed

end
