(* ===== verification/FsTypes.thy ===== *)
theory FsTypes
  imports IOQueue
begin

text \<open>
  The state of the file system: the structures of \<^verbatim>\<open>lib/inode.h\<close>, \<^verbatim>\<open>lib/dir.h\<close>, \<^verbatim>\<open>lib/file.h\<close>,
  \<^verbatim>\<open>lib/super_block.h\<close> and \<^verbatim>\<open>lib/ide.h\<close>, the mounted partition, and the steps of which its routines
  consist. A routine is a function from the state to a result and a state, or to the reason why the
  kernel stopped; \<open>bindM\<close> composes two of them.

  A sector is a list of 512 bytes, and a structure that the code stores in a sector is encoded and
  decoded byte by byte, least significant byte first. A buffer is a list of bytes of its own, with
  every access checked. The driver below and the heap are used through their contracts. \<open>disk_read\<close>
  and \<open>disk_write\<close> transfer whole sectors (the theory \<open>Ide\<close> shows that the driver does this for requests of one sector; of requests for several it is an assumption).
  \<open>sys_malloc_fs\<close> returns a block that is not in use, or \<^verbatim>\<open>NULL\<close>, as the parameter \<open>malloc_ok\<close> of the state
  decides call by call, and a block goes back to the heap it came from, that of the kernel or that of
  the process (the theory \<open>Malloc\<close> shows the former of the kernel's heap).
\<close>

unbundle bit_operations_syntax

section \<open>Structures\<close>

text \<open>A pointer to a structure of the heap; 0 is \<^verbatim>\<open>NULL\<close>.\<close>

type_synonym ptr = nat

record inode =
  i_no :: u32
  i_size :: u32
  i_open_cnts :: u32
  write_deny :: bool
  i_sectors :: "u32 list"

record dir =
  dir_inode :: ptr
  dir_pos :: u32

record dir_entry =
  filename :: "u8 list"
  de_i_no :: u32
  f_type :: u32

record open_file =
  fd_pos :: u32
  fd_flag :: u32
  fd_inode :: ptr

record super_block =
  sb_magic :: u32
  sb_sec_cnt :: u32
  sb_inode_cnt :: u32
  sb_part_lba_base :: u32
  sb_block_bitmap_lba :: u32
  sb_block_bitmap_sects :: u32
  sb_inode_bitmap_lba :: u32
  sb_inode_bitmap_sects :: u32
  sb_inode_table_lba :: u32
  sb_inode_table_sects :: u32
  sb_data_start_lba :: u32
  sb_root_inode_no :: u32
  sb_dir_entry_size :: u32

text \<open>
  The partition that is mounted (\<^verbatim>\<open>cur_part\<close>), the sectors of its disk, the open inodes and directories,
  the file table and the ring buffers of pipes and of the keyboard, beside the variables of the kernel. The fields \<open>mallocs\<close>, \<open>malloc_ok\<close> and \<open>live\<close>
  belong to the contract of the heap; a block of \<open>live\<close> is marked with whether it is in the kernel's
  heap. The fields \<open>junk_name\<close> and \<open>junk_ino\<close> are what two local variables hold that the code reads
  without having set them.
\<close>

record fs = kernel +
  sectors :: "u32 \<Rightarrow> u8 list"
  part_start_lba :: u32
  part_sec_cnt :: u32
  sb :: super_block
  block_bitmap :: bitmap
  inode_bitmap :: bitmap
  open_inodes :: "ptr list"
  inodes :: "ptr \<Rightarrow> inode"
  dirs :: "ptr \<Rightarrow> dir"
  file_table :: "open_file list"
  pipes :: "ptr \<Rightarrow> ioqueue"
  kbd_buf :: ioqueue
  mallocs :: nat
  malloc_ok :: "nat \<Rightarrow> bool"
  live :: "(ptr \<times> bool) list"
  junk_name :: "u8 list"
  junk_ino :: u32

text \<open>The running task, \<^verbatim>\<open>running_thread()\<close>.\<close>

definition cur_task :: "fs \<Rightarrow> task_struct" where
  "cur_task s = tasks s (running_thread s)"

abbreviation (input) FT_UNKNOWN :: u32 where "FT_UNKNOWN \<equiv> 0"
abbreviation (input) FT_REGULAR :: u32 where "FT_REGULAR \<equiv> 1"
abbreviation (input) FT_DIRECTORY :: u32 where "FT_DIRECTORY \<equiv> 2"

abbreviation (input) O_RDONLY :: u32 where "O_RDONLY \<equiv> 0"
abbreviation (input) O_WRONLY :: u32 where "O_WRONLY \<equiv> 1"
abbreviation (input) O_RDWR :: u32 where "O_RDWR \<equiv> 2"
abbreviation (input) O_CREAT :: u32 where "O_CREAT \<equiv> 4"

abbreviation (input) PIPE_FLAG :: u32 where "PIPE_FLAG \<equiv> 0xffff"

definition MAX_FILE_OPEN :: nat where
  "MAX_FILE_OPEN = 32"

definition MAX_FILE_NAME_LEN :: nat where
  "MAX_FILE_NAME_LEN = 16"

definition MAX_PATH_LEN :: nat where
  "MAX_PATH_LEN = 512"

text \<open>The pointer \<^verbatim>\<open>&root_dir\<close>; the heap returns others.\<close>

definition ROOT_DIR :: ptr where
  "ROOT_DIR = 1"

section \<open>Steps\<close>

type_synonym 'a fsm = "(fs, 'a) stm"

text \<open>A message of \<^verbatim>\<open>printk\<close>; \<open>text_of\<close> is a string argument of it.\<close>

definition printkM :: "string \<Rightarrow> ('a machine_scheme, unit) stm" where
  "printkM msg = modM (put_str msg)"

definition text_of :: "u8 list \<Rightarrow> string" where
  "text_of bs = map (\<lambda>b. char_of (unat b)) bs"

definition bytes_of :: "string \<Rightarrow> u8 list" where
  "bytes_of s = map (\<lambda>c. of_nat (of_char c)) s"

lemmas fsm_defs = stm_defs printkM_def

section \<open>Bytes of a buffer\<close>

definition buf_write :: "nat \<Rightarrow> u8 list \<Rightarrow> u8 list \<Rightarrow> u8 list res" where
  "buf_write off bs buf =
     (if off + length bs \<le> length buf then Inr (take off buf @ bs @ drop (off + length bs) buf)
      else Inl (Bad_access ''write past the buffer''))"

definition buf_read :: "nat \<Rightarrow> nat \<Rightarrow> u8 list \<Rightarrow> u8 list res" where
  "buf_read off n buf =
     (if off + n \<le> length buf then Inr (take n (drop off buf)) else Inl (Bad_access ''read past the buffer''))"

text \<open>The string that starts at an offset of a buffer, without its terminator.\<close>

definition buf_cstr :: "nat \<Rightarrow> u8 list \<Rightarrow> u8 list res" where
  "buf_cstr off buf =
     (if 0 \<in> set (drop off buf) then Inr (takeWhile (\<lambda>b. b \<noteq> 0) (drop off buf))
      else Inl (Bad_access ''string without end''))"

definition enc32 :: "u32 \<Rightarrow> u8 list" where
  "enc32 w = [ucast w, ucast (drop_bit 8 w), ucast (drop_bit 16 w), ucast (drop_bit 24 w)]"

fun dec32 :: "u8 list \<Rightarrow> u32" where
  "dec32 [a, b, c, d] = ucast a OR push_bit 8 (ucast b) OR push_bit 16 (ucast c) OR push_bit 24 (ucast d)"
| "dec32 _ = 0"

fun dec_words :: "nat \<Rightarrow> u8 list \<Rightarrow> u32 list" where
  "dec_words 0 bs = []"
| "dec_words (Suc n) bs = dec32 (take 4 bs) # dec_words n (drop 4 bs)"

definition enc_words :: "u32 list \<Rightarrow> u8 list" where
  "enc_words ws = concat (map enc32 ws)"

lemma dec32_enc32 [simp]: "dec32 (enc32 w) = w"
proof -
  have "n - 16 < 8" if "bit w n" "\<not> bit w (24 + (n - 24))" for n
    using that by (cases "n < 24") auto
  then show ?thesis unfolding enc32_def dec32.simps by (intro bit_word_eqI) (auto simp: bit_simps)
qed

lemma enc32_length [simp]: "length (enc32 w) = 4"
  by (simp add: enc32_def)

lemma enc_words_simps [simp]:
  "enc_words [] = []" "enc_words (w # ws) = enc32 w @ enc_words ws" "enc_words (us @ vs) = enc_words us @ enc_words vs"
  "length (enc_words ws) = 4 * length ws"
  by (simp_all add: enc_words_def) (induction ws; simp)

lemma dec_enc_words [simp]: "dec_words (length ws) (enc_words ws @ bs) = ws"
  by (induction ws) simp_all

lemma dec_words_length [simp]: "length (dec_words n bs) = n"
  by (induction n arbitrary: bs) simp_all

section \<open>The contract of the heap\<close>

definition sys_malloc_fs :: "nat \<Rightarrow> ptr fsm" where
  "sys_malloc_fs size' s =
     (let p = mallocs s + 2 in
      if malloc_ok s (mallocs s)
      then Inr (p, s\<lparr>mallocs := mallocs s + 1, live := (p, pgdir (cur_task s) = NULL) # live s\<rparr>)
      else Inr (0, s\<lparr>mallocs := mallocs s + 1\<rparr>))"

definition sys_free_fs :: "ptr \<Rightarrow> unit fsm" where
  "sys_free_fs p = bindM (assertM (p \<noteq> 0) ''ptr != NULL'') (\<lambda>_ s.
     let kernel' = (pgdir (cur_task s) = NULL) in
     if (p, kernel') \<in> set (live s) then Inr ((), s\<lparr>live := remove1 (p, kernel') (live s)\<rparr>)
     else if kernel' \<and> (p, False) \<in> set (live s) then Inl (Assert_failed ''(uint32_t)ptr >= K_HEAP_START'')
     else Inl (Bad_access ''sys_free of a block not in use''))"

text \<open>The code clears \<^verbatim>\<open>cur->pgdir\<close> around an allocation that must come from the kernel's heap.\<close>

definition set_pgdir :: "addr \<Rightarrow> unit fsm" where
  "set_pgdir p = modM (\<lambda>s. upd_task (running_thread s) (\<lambda>t. t\<lparr>pgdir := p\<rparr>) s)"

section \<open>The contract of the driver\<close>

definition max_lba :: u32 where
  "max_lba = 80 * 1024 * 1024 div 512 - 1"

definition disk_read :: "u32 \<Rightarrow> nat \<Rightarrow> u8 list fsm" where
  "disk_read lba n = bindM (assertM (lba \<le> max_lba) ''lba <= max_lba'') (\<lambda>_.
     bindM (assertM (n > 0) ''sec_cnt > 0'') (\<lambda>_.
     getM (\<lambda>s. concat (map (\<lambda>k. sectors s (lba + of_nat k)) [0..<n]))))"

fun put_sectors :: "u32 \<Rightarrow> nat \<Rightarrow> u8 list \<Rightarrow> (u32 \<Rightarrow> u8 list) \<Rightarrow> u32 \<Rightarrow> u8 list" where
  "put_sectors lba 0 buf d = d"
| "put_sectors lba (Suc n) buf d = put_sectors (lba + 1) n (drop 512 buf) (d(lba := take 512 buf))"

definition disk_write :: "u32 \<Rightarrow> u8 list \<Rightarrow> nat \<Rightarrow> unit fsm" where
  "disk_write lba buf n = bindM (assertM (lba \<le> max_lba) ''lba <= max_lba'') (\<lambda>_.
     bindM (assertM (n > 0) ''sec_cnt > 0'') (\<lambda>_.
     if 512 * n \<le> length buf then modM (\<lambda>s. s\<lparr>sectors := put_sectors lba n buf (sectors s)\<rparr>)
     else failM (Bad_access ''write of more than the buffer'')))"

section \<open>Structures on disk\<close>

definition INODE_SIZE :: nat where
  "INODE_SIZE = 76"

text \<open>The order of the members; the last two are the pointers of \<^verbatim>\<open>inode_tag\<close>.\<close>

definition enc_inode :: "inode \<Rightarrow> u8 list" where
  "enc_inode i = enc_words ([i_no i, i_size i, i_open_cnts i, if write_deny i then 1 else 0] @ i_sectors i @ [0, 0])"

definition dec_inode :: "u8 list \<Rightarrow> inode" where
  "dec_inode bs = (let ws = dec_words 19 bs in
     \<lparr>i_no = ws ! 0, i_size = ws ! 1, i_open_cnts = ws ! 2, write_deny = (ws ! 3 \<noteq> 0), i_sectors = take 13 (drop 4 ws)\<rparr>)"

definition DIR_ENTRY_SIZE :: nat where
  "DIR_ENTRY_SIZE = 24"

definition enc_dir_entry :: "dir_entry \<Rightarrow> u8 list" where
  "enc_dir_entry e = filename e @ enc32 (de_i_no e) @ enc32 (f_type e)"

definition dec_dir_entry :: "u8 list \<Rightarrow> dir_entry" where
  "dec_dir_entry bs = \<lparr>filename = take 16 bs, de_i_no = dec32 (take 4 (drop 16 bs)), f_type = dec32 (take 4 (drop 20 bs))\<rparr>"

lemma enc_inode_length: "length (i_sectors i) = 13 \<Longrightarrow> length (enc_inode i) = INODE_SIZE"
  by (simp add: enc_inode_def INODE_SIZE_def)

lemma dec_enc_inode [simp]: "length (i_sectors i) = 13 \<Longrightarrow> dec_inode (enc_inode i) = i"
proof -
  let ?ws = "[i_no i, i_size i, i_open_cnts i, if write_deny i then 1 else 0] @ i_sectors i @ [0, 0]"
  assume "length (i_sectors i) = 13"
  then have "length ?ws = 19" by simp
  then have "dec_words 19 (enc_words ?ws) = ?ws" using dec_enc_words [of ?ws "[]"] by simp
  then show ?thesis using \<open>length (i_sectors i) = 13\<close> by (simp only: dec_inode_def enc_inode_def Let_def) (simp add: numeral_nat)
qed

lemma enc_dir_entry_length: "length (filename e) = 16 \<Longrightarrow> length (enc_dir_entry e) = DIR_ENTRY_SIZE"
  by (simp add: enc_dir_entry_def DIR_ENTRY_SIZE_def)

lemma dec_enc_dir_entry [simp]: "length (filename e) = 16 \<Longrightarrow> dec_dir_entry (enc_dir_entry e @ bs) = e"
  by (simp add: enc_dir_entry_def dec_dir_entry_def)

end
