(* ===== verification/DiskView.thy ===== *)
theory DiskView
  imports FsTypes
begin

text \<open>
  The disk as one sequence of bytes. \<open>dbyte s x\<close> is byte \<open>x\<close> of the disk, counted from the first sector.
  The lemmas give the reads and writes of the driver in these terms, so that a structure that lies across
  sectors is a range of bytes.
\<close>

definition dbyte :: "fs \<Rightarrow> nat \<Rightarrow> u8" where
  "dbyte s x = sectors s (of_nat (x div 512)) ! (x mod 512)"

definition sect_ok :: "fs \<Rightarrow> bool" where
  "sect_ok s \<longleftrightarrow> (\<forall>k. length (sectors s k) = 512)"

definition range_of :: "fs \<Rightarrow> nat \<Rightarrow> nat \<Rightarrow> u8 list" where
  "range_of s a n = map (dbyte s) [a..<a + n]"

lemma max_lba_less: "unat max_lba < 2 ^ 20"
  by (simp add: max_lba_def)

lemma range_of_length [simp]: "length (range_of s a n) = n"
  by (simp add: range_of_def)

lemma range_of_nth [simp]: "k < n \<Longrightarrow> range_of s a n ! k = dbyte s (a + k)"
  by (simp add: range_of_def)

lemma range_of_split: "range_of s a (m + n) = range_of s a m @ range_of s (a + m) n"
  unfolding range_of_def using upt_add_eq_append [of a "a + m" n] by (simp add: add.assoc)

lemma range_of_part: "off + m \<le> n \<Longrightarrow> take m (drop off (range_of s a n)) = range_of s (a + off) m"
  by (rule nth_equalityI) (simp_all add: add.assoc)

lemma range_of_cong: "(\<And>x. a \<le> x \<Longrightarrow> x < a + n \<Longrightarrow> dbyte s' x = dbyte s x) \<Longrightarrow> range_of s' a n = range_of s a n"
  by (simp add: range_of_def)

lemma sector_range:
  assumes "sect_ok s"
  shows "sectors s lba = range_of s (512 * unat lba) 512"
proof (rule nth_equalityI)
  show "length (sectors s lba) = length (range_of s (512 * unat lba) 512)" using assms by (simp add: sect_ok_def)
  fix k assume "k < length (sectors s lba)"
  then have "k < 512" using assms by (simp add: sect_ok_def)
  then show "sectors s lba ! k = range_of s (512 * unat lba) 512 ! k"
    by (simp add: dbyte_def)
qed

lemma disk_read_range:
  assumes "sect_ok s" and "lba \<le> max_lba" and "0 < n" and "unat lba + n \<le> 2 ^ 32"
  shows "disk_read lba n s = Inr (range_of s (512 * unat lba) (512 * n), s)"
proof -
  have "concat (map (\<lambda>k. sectors s (lba + of_nat k)) [0..<m]) = range_of s (512 * unat lba) (512 * m)" if "m \<le> n" for m
    using that
  proof (induction m)
    case (Suc m)
    have u: "unat (lba + of_nat m) = unat lba + m" using Suc.prems assms(4) by (subst unat_add_lt) (simp_all add: unat_of_nat_lt)
    have "512 * Suc m = 512 * m + 512" by simp
    then show ?case using Suc
      by (simp only: range_of_split) (simp add: sector_range [OF assms(1), of "lba + of_nat m"] u distrib_left)
  qed (simp add: range_of_def)
  from this [of n] show ?thesis using assms by (simp add: disk_read_def fsm_defs)
qed

lemma put_sectors_length: "512 * n \<le> length buf \<Longrightarrow> (\<forall>k. length (d k) = 512) \<Longrightarrow> length (put_sectors lba n buf d k) = 512"
proof (induction n arbitrary: lba buf d)
  case (Suc n)
  then show ?case using Suc.IH [of "drop 512 buf" "d(lba := take 512 buf)" "lba + 1"] by simp
qed simp

lemma put_sectors_nth:
  assumes "unat lba + n \<le> 2 ^ 32" and "512 * n \<le> length buf" and "j < 512"
  shows "put_sectors lba n buf d k ! j =
    (if unat lba \<le> unat k \<and> unat k < unat lba + n then buf ! (512 * (unat k - unat lba) + j) else d k ! j)"
  using assms
proof (induction n arbitrary: lba buf d)
  case (Suc n)
  show ?case
  proof (cases "n = 0")
    case True
    moreover have "k = lba \<longleftrightarrow> unat lba \<le> unat k \<and> unat k < unat lba + 1" by (auto simp: word_unat_eq_iff)
    ultimately show ?thesis using Suc.prems by auto
  next
    case False
    have u: "unat (lba + 1) = unat lba + 1" using Suc.prems(1) False by (subst unat_add_lt) simp_all
    have "put_sectors (lba + 1) n (drop 512 buf) (d(lba := take 512 buf)) k ! j =
      (if unat (lba + 1) \<le> unat k \<and> unat k < unat (lba + 1) + n then drop 512 buf ! (512 * (unat k - unat (lba + 1)) + j)
       else (d(lba := take 512 buf)) k ! j)"
      using Suc.prems by (intro Suc.IH) (simp_all add: u)
    moreover have "512 + (512 * (unat k - (unat lba + 1)) + j) = 512 * (unat k - unat lba) + j" if "unat lba + 1 \<le> unat k"
      using that by simp
    moreover have "k = lba \<longleftrightarrow> unat k = unat lba" by (simp add: word_unat_eq_iff)
    ultimately show ?thesis using Suc.prems unfolding u by (auto simp: add.assoc [symmetric])
  qed
qed auto

lemma disk_write_range:
  assumes "sect_ok s" and "lba \<le> max_lba" and "0 < n" and "unat lba + n \<le> 2 ^ 32" and "512 * n \<le> length buf"
  defines "s' \<equiv> s\<lparr>sectors := put_sectors lba n buf (sectors s)\<rparr>"
  shows "disk_write lba buf n s = Inr ((), s')" "sect_ok s'"
    "x < 512 * 2 ^ 32 \<Longrightarrow> dbyte s' x =
      (if 512 * unat lba \<le> x \<and> x < 512 * (unat lba + n) then buf ! (x - 512 * unat lba) else dbyte s x)"
proof -
  show "disk_write lba buf n s = Inr ((), s')" using assms by (simp add: disk_write_def fsm_defs)
  show "sect_ok s'" using assms(1,5) by (simp add: sect_ok_def s'_def put_sectors_length)
  assume x: "x < 512 * 2 ^ 32"
  have u: "unat (of_nat (x div 512) :: u32) = x div 512" using x by (intro unat_of_nat_lt) (simp add: less_mult_imp_div_less)
  have "unat lba \<le> x div 512 \<longleftrightarrow> 512 * unat lba \<le> x" by (metis less_eq_div_iff_mult_less_eq mult.commute zero_less_numeral)
  moreover have "x div 512 < unat lba + n \<longleftrightarrow> x < 512 * (unat lba + n)"
    by (metis div_less_iff_less_mult mult.commute zero_less_numeral)
  moreover have "512 * (x div 512 - unat lba) + x mod 512 = x - 512 * unat lba" if "512 * unat lba \<le> x"
    using that by (simp add: diff_mult_distrib2)
  ultimately show "dbyte s' x = (if 512 * unat lba \<le> x \<and> x < 512 * (unat lba + n) then buf ! (x - 512 * unat lba) else dbyte s x)"
    unfolding dbyte_def s'_def using put_sectors_nth [OF assms(4,5), of "x mod 512" "sectors s" "of_nat (x div 512)"] u by auto
qed

section \<open>An example\<close>

text \<open>A mounted partition of 20000 sectors at sector 2048 that holds nothing, with one task that runs.\<close>

definition sb_example :: super_block where
  "sb_example = \<lparr>sb_magic = 0x19590318, sb_sec_cnt = 20000, sb_inode_cnt = 4096, sb_part_lba_base = 2048,
     sb_block_bitmap_lba = 2050, sb_block_bitmap_sects = 5, sb_inode_bitmap_lba = 2055, sb_inode_bitmap_sects = 1,
     sb_inode_table_lba = 2056, sb_inode_table_sects = 608, sb_data_start_lba = 2664, sb_root_inode_no = 0,
     sb_dir_entry_size = 24\<rparr>"

definition fs_example :: fs where
  "fs_example = kernel.extend sched_example
     (fs.fields (\<lambda>_. replicate 512 0) 2048 20000 sb_example
        \<lparr>btmp_bytes_len = 2560, bits = (\<lambda>_. 0)\<rparr> \<lparr>btmp_bytes_len = 512, bits = (\<lambda>_. 0)\<rparr> []
        (\<lambda>_. \<lparr>i_no = 0, i_size = 0, i_open_cnts = 0, write_deny = False, i_sectors = replicate 13 0\<rparr>)
        (\<lambda>_. \<lparr>dir_inode = 0, dir_pos = 0\<rparr>) (replicate MAX_FILE_OPEN \<lparr>fd_pos = 0, fd_flag = 0, fd_inode = 0\<rparr>)
        (\<lambda>_. ioq_zero) ioq_zero 0 (\<lambda>_. True) [] (replicate 16 0) 0)"

lemma fs_example_simps [simp]:
  "sectors fs_example = (\<lambda>_. replicate 512 0)" "part_start_lba fs_example = 2048" "part_sec_cnt fs_example = 20000"
  "sb fs_example = sb_example" "block_bitmap fs_example = \<lparr>btmp_bytes_len = 2560, bits = (\<lambda>_. 0)\<rparr>"
  "inode_bitmap fs_example = \<lparr>btmp_bytes_len = 512, bits = (\<lambda>_. 0)\<rparr>" "open_inodes fs_example = []"
  "inodes fs_example = (\<lambda>_. \<lparr>i_no = 0, i_size = 0, i_open_cnts = 0, write_deny = False, i_sectors = replicate 13 0\<rparr>)"
  "file_table fs_example = replicate MAX_FILE_OPEN \<lparr>fd_pos = 0, fd_flag = 0, fd_inode = 0\<rparr>"
  "mallocs fs_example = 0" "malloc_ok fs_example = (\<lambda>_. True)" "live fs_example = []"
  "tasks fs_example = tasks sched_example" "esp fs_example = esp sched_example"
  by (simp_all add: fs_example_def kernel.defs fs.defs)

lemma fs_example_sect_ok: "sect_ok fs_example"
  by (simp add: sect_ok_def)

end
