(* ===== verification/Inode.thy ===== *)
theory Inode
  imports DiskView
begin

text \<open>
  The inodes of the mounted partition (\<^verbatim>\<open>fs/inode.c\<close>, and \<^verbatim>\<open>bitmap_sync\<close> of \<^verbatim>\<open>fs/file.c\<close>). An inode is
  76 bytes, and the table of inodes is one sequence of bytes, so an inode may lie in two sectors. The
  lemmas show where an inode lies, that what \<^verbatim>\<open>inode_sync\<close> writes is what \<^verbatim>\<open>inode_open\<close> reads, and that no
  other inode of the table changes, for the inodes whose number fits the 8-bit variable of
  \<^verbatim>\<open>inode_sync\<close>; for the others the write lands on the inode with the truncated number.
\<close>

section \<open>Positions\<close>

record inode_position =
  two_sec :: bool
  sec_lba :: u32
  off_size :: u32

definition inode_locate :: "u32 \<Rightarrow> inode_position fsm" where
  "inode_locate inode_no =
     bindM (assertM (inode_no < 4096) ''inode_no < 4096'') (\<lambda>_.
     bindM (getM (\<lambda>s. sb_inode_table_lba (sb s))) (\<lambda>inode_table_lba.
     let inode_size = of_nat INODE_SIZE;
         off_size' = inode_no * inode_size;
         off_sec = off_size' div 512;
         off_size_in_sec = off_size' mod 512;
         left_in_sec = 512 - off_size_in_sec
     in returnM \<lparr>two_sec = (left_in_sec < inode_size), sec_lba = inode_table_lba + off_sec, off_size = off_size_in_sec\<rparr>))"

text \<open>
  Reading the sectors of an inode into a buffer, changing its bytes, and writing the sectors back, as
  \<^verbatim>\<open>inode_sync\<close> and \<^verbatim>\<open>inode_delete\<close> both do. The caller provides the buffer, of \<open>buf_len\<close> bytes.
\<close>

definition inode_update :: "inode_position \<Rightarrow> u8 list \<Rightarrow> nat \<Rightarrow> unit fsm" where
  "inode_update pos new buf_len =
     (let n = (if two_sec pos then 2 else 1) in
      bindM (disk_read (sec_lba pos) n) (\<lambda>inode_buf.
      if buf_len < 512 * n then failM (Bad_access ''ide_read past io_buf'')
      else
        bindM (liftM (buf_write (unat (off_size pos)) new inode_buf)) (\<lambda>inode_buf'.
        disk_write (sec_lba pos) inode_buf' n)))"

definition inode_sync :: "inode \<Rightarrow> nat \<Rightarrow> unit fsm" where
  "inode_sync inode buf_len =
     (let inode_no = ucast (ucast (i_no inode) :: u8) :: u32 in
      bindM (inode_locate inode_no) (\<lambda>inode_pos.
      bindM (getM (\<lambda>s. part_start_lba s + part_sec_cnt s)) (\<lambda>end'.
      bindM (assertM (sec_lba inode_pos \<le> end') ''inode_pos.sec_lba <= (part->start_lba + part->sec_cnt)'') (\<lambda>_.
      let pure_inode = inode\<lparr>i_open_cnts := 0, write_deny := False\<rparr> in
      inode_update inode_pos (enc_inode pure_inode) buf_len))))"

section \<open>Open inodes\<close>

fun find_open :: "(ptr \<Rightarrow> inode) \<Rightarrow> u32 \<Rightarrow> ptr list \<Rightarrow> ptr option" where
  "find_open ino inode_no [] = None"
| "find_open ino inode_no (p # ps) = (if i_no (ino p) = inode_no then Some p else find_open ino inode_no ps)"

definition upd_inode :: "ptr \<Rightarrow> (inode \<Rightarrow> inode) \<Rightarrow> unit fsm" where
  "upd_inode p f = modM (\<lambda>s. s\<lparr>inodes := (inodes s)(p := f (inodes s p))\<rparr>)"

definition inode_open :: "u32 \<Rightarrow> ptr fsm" where
  "inode_open inode_no =
     bindM (getM (\<lambda>s. find_open (inodes s) inode_no (open_inodes s))) (\<lambda>found.
     case found of
       Some p \<Rightarrow> bindM (upd_inode p (\<lambda>i. i\<lparr>i_open_cnts := i_open_cnts i + 1\<rparr>)) (\<lambda>_. returnM p)
     | None \<Rightarrow>
         bindM (inode_locate inode_no) (\<lambda>inode_pos.
         bindM (getM (\<lambda>s. pgdir (cur_task s))) (\<lambda>cur_pagedir_bak.
         bindM (set_pgdir NULL) (\<lambda>_.
         bindM (sys_malloc_fs INODE_SIZE) (\<lambda>inode_found.
         bindM (set_pgdir cur_pagedir_bak) (\<lambda>_.
         let n = (if two_sec inode_pos then 2 else 1) in
         bindM (sys_malloc_fs (512 * n)) (\<lambda>inode_buf.
         if inode_buf = 0 then failM (Bad_access ''ide_read into NULL'')
         else
           bindM (disk_read (sec_lba inode_pos) n) (\<lambda>buf.
           bindM (assertM (inode_found \<noteq> 0) ''dst_ != NULL && src_ != NULL'') (\<lambda>_.
           bindM (liftM (buf_read (unat (off_size inode_pos)) INODE_SIZE buf)) (\<lambda>bs.
           bindM (modM (\<lambda>s. s\<lparr>open_inodes := inode_found # open_inodes s\<rparr>)) (\<lambda>_.
           bindM (upd_inode inode_found (\<lambda>_. (dec_inode bs)\<lparr>i_open_cnts := 1\<rparr>)) (\<lambda>_.
           bindM (sys_free_fs inode_buf) (\<lambda>_. returnM inode_found)))))))))))))"

definition intr_disableM :: "intr_status fsm" where
  "intr_disableM s = (let (s', old) = intr_disable s in Inr (old, s'))"

definition intr_set_statusM :: "intr_status \<Rightarrow> unit fsm" where
  "intr_set_statusM old = modM (\<lambda>s. fst (intr_set_status old s))"

definition inode_close :: "ptr \<Rightarrow> unit fsm" where
  "inode_close p =
     bindM intr_disableM (\<lambda>old_status.
     bindM (upd_inode p (\<lambda>i. i\<lparr>i_open_cnts := i_open_cnts i - 1\<rparr>)) (\<lambda>_.
     bindM (getM (\<lambda>s. i_open_cnts (inodes s p))) (\<lambda>cnts.
     bindM (if cnts = 0 then
         bindM (modM (\<lambda>s. s\<lparr>open_inodes := remove1 p (open_inodes s)\<rparr>)) (\<lambda>_.
         bindM (getM (\<lambda>s. pgdir (cur_task s))) (\<lambda>cur_pagedir_bak.
         bindM (set_pgdir NULL) (\<lambda>_.
         bindM (sys_free_fs p) (\<lambda>_. set_pgdir cur_pagedir_bak))))
       else returnM ()) (\<lambda>_.
     intr_set_statusM old_status))))"

section \<open>Deleting\<close>

definition inode_delete :: "u32 \<Rightarrow> nat \<Rightarrow> unit fsm" where
  "inode_delete inode_no buf_len =
     bindM (assertM (inode_no < 4096) ''inode_no < 4096'') (\<lambda>_.
     bindM (inode_locate inode_no) (\<lambda>inode_pos.
     bindM (getM (\<lambda>s. part_start_lba s + part_sec_cnt s)) (\<lambda>end'.
     bindM (assertM (sec_lba inode_pos \<le> end') ''inode_pos.sec_lba <= (part->start_lba + part->sec_cnt)'') (\<lambda>_.
     inode_update inode_pos (replicate INODE_SIZE 0) buf_len))))"

datatype bitmap_type = INODE_BITMAP | BLOCK_BITMAP

definition bitmap_sync :: "u32 \<Rightarrow> bitmap_type \<Rightarrow> unit fsm" where
  "bitmap_sync bit_idx btmp_type =
     (let off_sec = bit_idx div 4096; off = off_sec * 512 in
      bindM (getM (\<lambda>s. case btmp_type of
          INODE_BITMAP \<Rightarrow> (sb_inode_bitmap_lba (sb s) + off_sec, inode_bitmap s)
        | BLOCK_BITMAP \<Rightarrow> (sb_block_bitmap_lba (sb s) + off_sec, block_bitmap s))) (\<lambda>(lba, bm).
      if unat off + 512 \<le> unat (btmp_bytes_len bm)
      then disk_write lba (map (\<lambda>k. bits bm (off + of_nat k)) [0..<512]) 1
      else failM (Bad_access ''read past the bitmap'')))"

definition block_bitmap_set :: "u32 \<Rightarrow> u8 \<Rightarrow> unit fsm" where
  "block_bitmap_set idx v = bindM (getM block_bitmap) (\<lambda>bm.
     bindM (liftM (bitmap_set bm idx v)) (\<lambda>bm'. modM (\<lambda>s. s\<lparr>block_bitmap := bm'\<rparr>)))"

definition inode_bitmap_set :: "u32 \<Rightarrow> u8 \<Rightarrow> unit fsm" where
  "inode_bitmap_set idx v = bindM (getM inode_bitmap) (\<lambda>bm.
     bindM (liftM (bitmap_set bm idx v)) (\<lambda>bm'. modM (\<lambda>s. s\<lparr>inode_bitmap := bm'\<rparr>)))"

definition release_block :: "u32 \<Rightarrow> unit fsm" where
  "release_block lba =
     bindM (getM (\<lambda>s. lba - sb_data_start_lba (sb s))) (\<lambda>block_bitmap_idx.
     bindM (assertM (block_bitmap_idx > 0) ''block_bitmap_idx > 0'') (\<lambda>_.
     bindM (block_bitmap_set block_bitmap_idx 0) (\<lambda>_.
     bitmap_sync block_bitmap_idx BLOCK_BITMAP)))"

fun release_blocks :: "u32 list \<Rightarrow> unit fsm" where
  "release_blocks [] = returnM ()"
| "release_blocks (b # bs) = bindM (whenM (b \<noteq> 0) (release_block b)) (\<lambda>_. release_blocks bs)"

definition inode_release :: "u32 \<Rightarrow> unit fsm" where
  "inode_release inode_no =
     bindM (inode_open inode_no) (\<lambda>p.
     bindM (getM (\<lambda>s. inodes s p)) (\<lambda>inode_to_del.
     bindM (assertM (i_no inode_to_del = inode_no) ''inode_to_del->i_no == inode_no'') (\<lambda>_.
     let direct = take 12 (i_sectors inode_to_del); table = i_sectors inode_to_del ! 12 in
     bindM (if table \<noteq> 0 then
         bindM (disk_read table 1) (\<lambda>bs.
         bindM (release_block table) (\<lambda>_. returnM (direct @ dec_words 128 bs)))
       else returnM direct) (\<lambda>all_blocks.
     bindM (release_blocks all_blocks) (\<lambda>_.
     bindM (inode_bitmap_set inode_no 0) (\<lambda>_.
     bindM (bitmap_sync inode_no INODE_BITMAP) (\<lambda>_.
     bindM (sys_malloc_fs 1024) (\<lambda>io_buf.
     bindM (inode_delete inode_no (if io_buf = 0 then 0 else 1024)) (\<lambda>_.
     bindM (sys_free_fs io_buf) (\<lambda>_.
     inode_close p))))))))))"

definition inode_init :: "u32 \<Rightarrow> inode \<Rightarrow> inode" where
  "inode_init inode_no new_inode = new_inode\<lparr>i_no := inode_no, i_size := 0, i_open_cnts := 0, write_deny := False,
     i_sectors := replicate 13 0\<rparr>"

section \<open>Allocation\<close>

definition inode_bitmap_alloc :: "u32 fsm" where
  "inode_bitmap_alloc =
     bindM (getM inode_bitmap) (\<lambda>bm.
     bindM (liftM (bitmap_scan bm 1)) (\<lambda>bit_idx.
     if bit_idx = -1 then returnM (-1)
     else bindM (inode_bitmap_set (of_int bit_idx) 1) (\<lambda>_. returnM (of_int bit_idx))))"

text \<open>The result is the address of the sector.\<close>

definition block_bitmap_alloc :: "u32 fsm" where
  "block_bitmap_alloc =
     bindM (getM block_bitmap) (\<lambda>bm.
     bindM (liftM (bitmap_scan bm 1)) (\<lambda>bit_idx.
     if bit_idx = -1 then returnM (-1)
     else
       bindM (block_bitmap_set (of_int bit_idx) 1) (\<lambda>_.
       getM (\<lambda>s. sb_data_start_lba (sb s) + of_int bit_idx))))"

section \<open>The table of inodes\<close>

definition inode_addr :: "fs \<Rightarrow> nat \<Rightarrow> nat" where
  "inode_addr s n = 512 * unat (sb_inode_table_lba (sb s)) + INODE_SIZE * n"

definition disk_inode :: "fs \<Rightarrow> nat \<Rightarrow> inode" where
  "disk_inode s n = dec_inode (range_of s (inode_addr s n) INODE_SIZE)"

text \<open>The 608 sectors of the table lie on the disk and in the partition.\<close>

definition table_ok :: "fs \<Rightarrow> bool" where
  "table_ok s \<longleftrightarrow> sect_ok s \<and> unat (sb_inode_table_lba (sb s)) + 608 \<le> unat max_lba \<and>
     unat (sb_inode_table_lba (sb s)) + 608 \<le> unat (part_start_lba s + part_sec_cnt s)"

lemma inode_locate_spec:
  assumes t: "table_ok s" and n: "unat no < 4096"
  obtains pos where "inode_locate no s = Inr (pos, s)"
    "512 * unat (sec_lba pos) + unat (off_size pos) = inode_addr s (unat no)" "unat (off_size pos) < 512"
    "two_sec pos \<longleftrightarrow> 512 < unat (off_size pos) + INODE_SIZE" "unat (sec_lba pos) + 2 \<le> unat (sb_inode_table_lba (sb s)) + 609"
    "\<not> two_sec pos \<Longrightarrow> unat (sec_lba pos) + 1 \<le> unat (sb_inode_table_lba (sb s)) + 608"
    "two_sec pos \<Longrightarrow> unat (sec_lba pos) + 2 \<le> unat (sb_inode_table_lba (sb s)) + 608"
proof -
  let ?t = "sb_inode_table_lba (sb s)" and ?o = "no * 76 :: u32"
  have tb: "unat ?t + 608 < 2 ^ 20" using t max_lba_less unfolding table_ok_def by linarith
  have o: "unat ?o = 76 * unat no" using n by (subst unat_mult_lt) simp_all
  have d: "unat (?o div 512) = 76 * unat no div 512" "unat (?o mod 512) = 76 * unat no mod 512"
    using o by (simp_all add: unat_div unat_mod)
  have lt: "76 * unat no < 608 * 512" using n by simp
  have q: "76 * unat no div 512 < 608" using lt by (simp add: less_mult_imp_div_less)
  have l: "unat (?t + ?o div 512) = unat ?t + 76 * unat no div 512"
    using tb q by (subst unat_add_lt) (simp_all add: d)
  let ?pos = "\<lparr>two_sec = 512 - ?o mod 512 < 76, sec_lba = ?t + ?o div 512, off_size = ?o mod 512\<rparr>"
  have m: "76 * unat no mod 512 < 512" by simp
  have "?o mod 512 \<le> 512" using m by (simp add: word_le_nat_alt d)
  then have two: "512 - ?o mod 512 < 76 \<longleftrightarrow> 512 < 76 * unat no mod 512 + 76"
    using m by (auto simp: word_less_nat_alt unat_sub_le d)
  have "inode_locate no s = Inr (?pos, s)"
    using n by (simp add: inode_locate_def fsm_defs Let_def INODE_SIZE_def word_less_nat_alt)
  moreover have "512 * unat (sec_lba ?pos) + unat (off_size ?pos) = inode_addr s (unat no)"
    using div_mult_mod_eq [of "76 * unat no" 512] by (simp add: l d inode_addr_def INODE_SIZE_def)
  moreover have "unat ?t + 76 * unat no div 512 + 2 \<le> unat ?t + 608" if "512 < 76 * unat no mod 512 + 76"
  proof (rule ccontr)
    assume "\<not> ?thesis"
    then have "76 * unat no div 512 = 607" using q by linarith
    moreover have "76 * unat no + 76 \<le> 608 * 512" using n by simp
    ultimately show False using that div_mult_mod_eq [of "76 * unat no" 512] by linarith
  qed
  ultimately show ?thesis using that [of ?pos] two m q by (simp add: l d INODE_SIZE_def)
qed

lemma inode_update_range:
  assumes t: "table_ok s" and pos: "512 * unat (sec_lba pos) + unat (off_size pos) = a" "unat (off_size pos) < 512"
    "two_sec pos \<longleftrightarrow> 512 < unat (off_size pos) + INODE_SIZE"
    and n: "n = (if two_sec pos then 2 else 1)" "unat (sec_lba pos) + n \<le> unat (sb_inode_table_lba (sb s)) + 608"
    and len: "length new = INODE_SIZE" "512 * n \<le> buf_len"
  shows "\<exists>s'. inode_update pos new buf_len s = Inr ((), s') \<and> sect_ok s' \<and> s' = s\<lparr>sectors := sectors s'\<rparr> \<and>
    (\<forall>x<512 * 2 ^ 32. dbyte s' x = (if a \<le> x \<and> x < a + INODE_SIZE then new ! (x - a) else dbyte s x))"
proof -
  let ?l = "unat (sec_lba pos)" and ?o = "unat (off_size pos)"
  have o: "?o + INODE_SIZE \<le> 512 * n" using pos(2,3) n(1) by (auto simp: INODE_SIZE_def)
  have ok: "sect_ok s" and l: "sec_lba pos \<le> max_lba" "?l + n \<le> 2 ^ 32" "0 < n"
    using t n max_lba_less by (auto simp: table_ok_def word_le_nat_alt)
  have rd: "disk_read (sec_lba pos) n s = Inr (range_of s (512 * ?l) (512 * n), s)"
    by (rule disk_read_range [OF ok l(1,3,2)])
  let ?b = "take ?o (range_of s (512 * ?l) (512 * n)) @ new @ drop (?o + INODE_SIZE) (range_of s (512 * ?l) (512 * n))"
  have bw: "buf_write ?o new (range_of s (512 * ?l) (512 * n)) = Inr ?b" using o len(1) by (simp add: buf_write_def)
  have bl: "length ?b = 512 * n" using o len(1) by simp
  note w = disk_write_range [OF ok l(1,3,2), of ?b]
  let ?s = "s\<lparr>sectors := put_sectors (sec_lba pos) n ?b (sectors s)\<rparr>"
  have "inode_update pos new buf_len s = Inr ((), ?s)"
    using rd bw bl w(1) len(2) by (simp add: inode_update_def Let_def n(1) [symmetric] bindM_def liftM_def)
  moreover have "dbyte ?s x = (if a \<le> x \<and> x < a + INODE_SIZE then new ! (x - a) else dbyte s x)" if x: "x < 512 * 2 ^ 32" for x
  proof (cases "512 * ?l \<le> x \<and> x < 512 * (?l + n)")
    case True
    let ?k = "x - 512 * ?l"
    have k: "?k < 512 * n" "512 * ?l + ?k = x" using True by auto
    have "dbyte ?s x = ?b ! ?k" using w(3) [OF _ x] bl True by simp
    also have "\<dots> = (if ?k < ?o then dbyte s x else if ?k < ?o + INODE_SIZE then new ! (?k - ?o) else dbyte s x)"
      using k o len(1) by (auto simp: nth_append)
    finally show ?thesis using k pos(1) by auto
  next
    case False
    then have "dbyte ?s x = dbyte s x" using w(3) [OF _ x] bl by auto
    moreover have "\<not> (a \<le> x \<and> x < a + INODE_SIZE)" using False pos(1) o by auto
    ultimately show ?thesis by auto
  qed
  moreover have "sect_ok ?s" using w(2) bl by simp
  ultimately show ?thesis by (intro exI [of _ ?s]) simp
qed

lemma inode_sync_run:
  assumes t: "table_ok s" and i: "length (i_sectors i) = 13" "512 \<le> buf_len"
    and two: "512 < INODE_SIZE * (unat (i_no i) mod 256) mod 512 + INODE_SIZE \<longrightarrow> 1024 \<le> buf_len"
  shows "\<exists>s'. inode_sync i buf_len s = Inr ((), s') \<and> sect_ok s' \<and> s' = s\<lparr>sectors := sectors s'\<rparr> \<and>
    (\<forall>x<512 * 2 ^ 32. dbyte s' x = (let a = inode_addr s (unat (i_no i) mod 256) in
       if a \<le> x \<and> x < a + INODE_SIZE then enc_inode (i\<lparr>i_open_cnts := 0, write_deny := False\<rparr>) ! (x - a) else dbyte s x))"
proof -
  let ?no = "ucast (ucast (i_no i) :: u8) :: u32" and ?p = "i\<lparr>i_open_cnts := 0, write_deny := False\<rparr>"
  have no: "unat ?no = unat (i_no i) mod 256"
    by (simp add: unat_ucast take_bit_eq_mod)
  then have "unat ?no < 4096" by (simp add: order_less_trans [OF mod_less_divisor])
  from inode_locate_spec [OF t this] obtain pos where loc: "inode_locate ?no s = Inr (pos, s)"
    and pos: "512 * unat (sec_lba pos) + unat (off_size pos) = inode_addr s (unat ?no)" "unat (off_size pos) < 512"
      "two_sec pos \<longleftrightarrow> 512 < unat (off_size pos) + INODE_SIZE"
    and n: "\<not> two_sec pos \<Longrightarrow> unat (sec_lba pos) + 1 \<le> unat (sb_inode_table_lba (sb s)) + 608"
      "two_sec pos \<Longrightarrow> unat (sec_lba pos) + 2 \<le> unat (sb_inode_table_lba (sb s)) + 608"
    by blast
  have "(512 * unat (sec_lba pos) + unat (off_size pos)) mod 512 = inode_addr s (unat ?no) mod 512" unfolding pos(1) ..
  then have "unat (off_size pos) = INODE_SIZE * (unat (i_no i) mod 256) mod 512" using pos(2) no by (simp add: inode_addr_def)
  then have b: "512 * (if two_sec pos then 2 else 1) \<le> buf_len" using two i(2) pos(3) by auto
  have c: "sec_lba pos \<le> part_start_lba s + part_sec_cnt s"
    using n t by (cases "two_sec pos") (auto simp: table_ok_def word_le_nat_alt)
  have "inode_sync i buf_len s = inode_update pos (enc_inode ?p) buf_len s"
    using c loc by (simp add: inode_sync_def Let_def bindM_def getM_def assertM_def)
  with inode_update_range [OF t pos(1-3) refl, of "enc_inode ?p" buf_len] n i b
  show ?thesis unfolding no Let_def by (simp add: enc_inode_length)
qed

lemma inode_addr_bound: "table_ok s \<Longrightarrow> m < 4096 \<Longrightarrow> inode_addr s m + INODE_SIZE \<le> 512 * 2 ^ 32"
  using max_lba_less unfolding table_ok_def inode_addr_def INODE_SIZE_def by simp

section \<open>Opening and closing\<close>

text \<open>Between clearing \<^verbatim>\<open>pgdir\<close> and putting it back the block comes from the kernel's heap, and nothing else changes.\<close>

lemma kernel_malloc:
  fixes s :: fs
  assumes "malloc_ok s (mallocs s)"
  shows "bindM (getM (\<lambda>s. pgdir (cur_task s))) (\<lambda>bak. bindM (set_pgdir NULL) (\<lambda>_. bindM (sys_malloc_fs n) (\<lambda>p.
      bindM (set_pgdir bak) (\<lambda>_. f p)))) s =
    f (mallocs s + 2) (s\<lparr>mallocs := mallocs s + 1, live := (mallocs s + 2, True) # live s\<rparr>)"
  using assms by (simp add: fsm_defs set_pgdir_def sys_malloc_fs_def cur_task_def upd_task_def running_thread_def)

lemma kernel_free:
  fixes s :: fs
  assumes "live s = (p, True) # l" "p \<noteq> 0"
  shows "bindM (getM (\<lambda>s. pgdir (cur_task s))) (\<lambda>bak. bindM (set_pgdir NULL) (\<lambda>_. bindM (sys_free_fs p) (\<lambda>_. set_pgdir bak))) s =
    Inr ((), s\<lparr>live := l\<rparr>)"
  using assms by (simp add: fsm_defs set_pgdir_def sys_free_fs_def cur_task_def upd_task_def running_thread_def)

lemma inode_open_new:
  assumes t: "table_ok s" and no: "unat no < 4096" and new: "find_open (inodes s) no (open_inodes s) = None"
    and m: "malloc_ok s (mallocs s)" "malloc_ok s (mallocs s + 1)"
  shows "inode_open no s = Inr (mallocs s + 2, s\<lparr>mallocs := mallocs s + 2, live := (mallocs s + 2, True) # live s,
    open_inodes := (mallocs s + 2) # open_inodes s,
    inodes := (inodes s)(mallocs s + 2 := (disk_inode s (unat no))\<lparr>i_open_cnts := 1\<rparr>)\<rparr>)"
proof -
  obtain pos where loc: "inode_locate no s = Inr (pos, s)"
    and pos: "512 * unat (sec_lba pos) + unat (off_size pos) = inode_addr s (unat no)" "unat (off_size pos) < 512"
      "two_sec pos \<longleftrightarrow> 512 < unat (off_size pos) + INODE_SIZE"
    and n: "\<not> two_sec pos \<Longrightarrow> unat (sec_lba pos) + 1 \<le> unat (sb_inode_table_lba (sb s)) + 608"
      "two_sec pos \<Longrightarrow> unat (sec_lba pos) + 2 \<le> unat (sb_inode_table_lba (sb s)) + 608"
    using inode_locate_spec [OF t no] by blast
  define k where "k = (if two_sec pos then 2 else 1 :: nat)"
  let ?s1 = "s\<lparr>mallocs := mallocs s + 1, live := (mallocs s + 2, True) # live s\<rparr>"
  let ?s2 = "s\<lparr>mallocs := mallocs s + 2, live := (mallocs s + 3, pgdir (cur_task s) = NULL) # (mallocs s + 2, True) # live s\<rparr>"
  have l: "sec_lba pos \<le> max_lba" "unat (sec_lba pos) + k \<le> 2 ^ 32" "0 < k" "sect_ok ?s2" "sect_ok s"
    using t n max_lba_less by (cases "two_sec pos"; auto simp: table_ok_def word_le_nat_alt k_def sect_ok_def)+
  have r: "range_of ?s2 a b = range_of s a b" for a b by (rule range_of_cong) (simp add: dbyte_def)
  have rd: "disk_read (sec_lba pos) k ?s2 = Inr (range_of s (512 * unat (sec_lba pos)) (512 * k), ?s2)"
    using disk_read_range [OF l(4,1,3,2)] unfolding r .
  have o: "unat (off_size pos) + INODE_SIZE \<le> 512 * k" using pos(2,3) by (auto simp: INODE_SIZE_def k_def)
  then have br: "buf_read (unat (off_size pos)) INODE_SIZE (range_of s (512 * unat (sec_lba pos)) (512 * k)) =
      Inr (range_of s (inode_addr s (unat no)) INODE_SIZE)"
    using range_of_part [OF o, of s "512 * unat (sec_lba pos)"] pos(1) by (simp add: buf_read_def)
  have m2: "sys_malloc_fs (512 * k) ?s1 = Inr (mallocs s + 3, ?s2)"
    using m(2) by (simp add: sys_malloc_fs_def cur_task_def running_thread_def)
  show ?thesis unfolding inode_open_def
    apply (subst bindM_getM, unfold new option.case, subst bindM_step [where m = "inode_locate no", OF loc], subst kernel_malloc [OF m(1)])
    apply (simp only: Let_def k_def [symmetric])
    apply (rule bindM_eqI, rule m2, subst if_not_P, simp, rule bindM_eqI, rule rd)
    apply (simp add: fsm_defs br upd_inode_def sys_free_fs_def cur_task_def running_thread_def disk_inode_def)
    done
qed

lemma find_open_Some:
  "find_open ino no ps = Some p \<Longrightarrow> p \<in> set ps \<and> i_no (ino p) = no"
  by (induction ps) (auto split: if_splits)

text \<open>
  What the file system keeps of the list of open inodes: no block of the heap is on it twice, none that is still to
  be handed out, and every one is open at least once and less often than the counter can count.
\<close>

definition open_ok :: "fs \<Rightarrow> bool" where
  "open_ok s \<longleftrightarrow> distinct (open_inodes s) \<and>
     (\<forall>p\<in>set (open_inodes s). p < mallocs s + 2 \<and> i_open_cnts (inodes s p) \<noteq> 0 \<and> i_open_cnts (inodes s p) + 1 \<noteq> 0)"

lemma intr_disable_fs [simp]:
  "inodes (fst (intr_disable s)) = inodes s" "live (fst (intr_disable s)) = live s" "open_inodes (fst (intr_disable s)) = open_inodes s"
  by (cases "intr_get_status s"; simp add: intr_disable_def cli_def)+

lemma inode_open_again:
  assumes "find_open (inodes s) no (open_inodes s) = Some p"
  shows "inode_open no s = Inr (p, s\<lparr>inodes := (inodes s)(p := (inodes s p)\<lparr>i_open_cnts := i_open_cnts (inodes s p) + 1\<rparr>)\<rparr>)"
  using assms by (simp add: inode_open_def fsm_defs upd_inode_def)

lemma inode_close_more:
  assumes "i_open_cnts (inodes s p) \<noteq> 1"
  shows "inode_close p s = Inr ((), s\<lparr>inodes := (inodes s)(p := (inodes s p)\<lparr>i_open_cnts := i_open_cnts (inodes s p) - 1\<rparr>)\<rparr>)"
proof -
  let ?f = "\<lambda>s :: fs. s\<lparr>inodes := (inodes s)(p := (inodes s p)\<lparr>i_open_cnts := i_open_cnts (inodes s p) - 1\<rparr>)\<rparr>"
  have "inode_close p s = Inr ((), fst (intr_set_status (intr_get_status s) (?f (fst (intr_disable s)))))"
    using assms by (simp add: inode_close_def fsm_defs intr_disableM_def intr_set_statusM_def upd_inode_def split_def)
  also have "fst (intr_set_status (intr_get_status s) (?f (fst (intr_disable s)))) = ?f s"
    by (rule critical_commute) (simp_all add: sti_def)
  finally show ?thesis .
qed

lemma inode_close_last:
  assumes "i_open_cnts (inodes s p) = 1" "live s = (p, True) # l" "p \<noteq> 0"
  shows "inode_close p s = Inr ((), s\<lparr>inodes := (inodes s)(p := (inodes s p)\<lparr>i_open_cnts := 0\<rparr>), open_inodes := remove1 p (open_inodes s), live := l\<rparr>)"
proof -
  let ?f = "\<lambda>s :: fs. s\<lparr>inodes := (inodes s)(p := (inodes s p)\<lparr>i_open_cnts := 0\<rparr>), open_inodes := remove1 p (open_inodes s), live := l\<rparr>"
  have "inode_close p s = Inr ((), fst (intr_set_status (intr_get_status s) (?f (fst (intr_disable s)))))"
    using assms
    by (simp add: inode_close_def fsm_defs intr_disableM_def intr_set_statusM_def upd_inode_def split_def set_pgdir_def sys_free_fs_def
        cur_task_def upd_task_def running_thread_def del: intr_disable_kernel(1))
  also have "fst (intr_set_status (intr_get_status s) (?f (fst (intr_disable s)))) = ?f s"
    by (rule critical_commute) (simp_all add: sti_def)
  finally show ?thesis .
qed

text \<open>
  C20. Opening and closing an inode. An inode that is open already is shared and counted once more; any other is
  read from its place in the table on the disk, whether it lies in one sector or in two, into a block of the
  kernel's heap, and put first on the list, with a count of one. Closing it right away undoes this: the list of
  open inodes and every inode on it, the blocks in use, the disk, the tasks and the interrupt flag are what they
  were.
\<close>

theorem inode_open_close:
  assumes t: "table_ok s" and ok: "open_ok s" and no: "unat no < 4096" and m: "malloc_ok s (mallocs s)" "malloc_ok s (mallocs s + 1)"
  shows "\<exists>p s1 s2. inode_open no s = Inr (p, s1) \<and> p \<in> set (open_inodes s1) \<and>
    inodes s1 p = (case find_open (inodes s) no (open_inodes s) of
        Some q \<Rightarrow> (inodes s q)\<lparr>i_open_cnts := i_open_cnts (inodes s q) + 1\<rparr>
      | None \<Rightarrow> (disk_inode s (unat no))\<lparr>i_open_cnts := 1\<rparr>) \<and>
    inode_close p s1 = Inr ((), s2) \<and> s2 = s\<lparr>mallocs := mallocs s2, inodes := inodes s2\<rparr> \<and>
    (\<forall>q\<in>set (open_inodes s). inodes s2 q = inodes s q)"
proof (cases "find_open (inodes s) no (open_inodes s)")
  case None
  have "mallocs s + 2 \<notin> set (open_inodes s)" using ok by (auto simp: open_ok_def)
  then show ?thesis using inode_open_new [OF t no None m] None by (simp add: inode_close_last)
next
  case (Some q)
  then have q: "q \<in> set (open_inodes s)" using find_open_Some by blast
  then have "i_open_cnts (inodes s q) + 1 \<noteq> 1" using ok by (simp add: open_ok_def)
  then show ?thesis using inode_open_again [OF Some] Some q by (simp add: inode_close_more)
qed

text \<open>
  C19. The table of inodes after \<^verbatim>\<open>inode_sync\<close>. With a buffer of two sectors the routine returns, changes nothing
  but the disk, and on the disk only one inode of the 4096: the one whose number is that of the inode modulo
  256, since the number goes through a variable of type \<^verbatim>\<open>uint8_t\<close>. For a number below 256 this is the inode
  itself, without the members that only matter in memory; no other inode of the table changes, whether or not
  it shares a sector with this one.
\<close>

theorem inode_sync_table:
  assumes t: "table_ok s" and i: "length (i_sectors i) = 13" "1024 \<le> buf_len"
  shows "\<exists>s'. inode_sync i buf_len s = Inr ((), s') \<and> s' = s\<lparr>sectors := sectors s'\<rparr> \<and>
    (\<forall>m<4096. disk_inode s' m =
       (if m = unat (i_no i) mod 256 then i\<lparr>i_open_cnts := 0, write_deny := False\<rparr> else disk_inode s m)) \<and>
    (\<forall>x<512 * 2 ^ 32. x < inode_addr s 0 \<or> inode_addr s 4096 \<le> x \<longrightarrow> dbyte s' x = dbyte s x)"
proof -
  let ?k = "unat (i_no i) mod 256" and ?p = "i\<lparr>i_open_cnts := 0, write_deny := False\<rparr>"
  let ?a = "inode_addr s ?k"
  obtain s' where r: "inode_sync i buf_len s = Inr ((), s')" and e: "s' = s\<lparr>sectors := sectors s'\<rparr>"
    and d: "\<And>x. x < 512 * 2 ^ 32 \<Longrightarrow> dbyte s' x = (if ?a \<le> x \<and> x < ?a + INODE_SIZE then enc_inode ?p ! (x - ?a) else dbyte s x)"
    using inode_sync_run [OF t i(1), of buf_len] i(2) by (auto simp: Let_def)
  have sb: "inode_addr s' m = inode_addr s m" for m by (subst e) (simp add: inode_addr_def)
  have k: "?k < 256" by simp
  have "disk_inode s' m = (if m = ?k then ?p else disk_inode s m)" if m: "m < 4096" for m
  proof (cases "m = ?k")
    case True
    have "range_of s' ?a INODE_SIZE = enc_inode ?p"
      using inode_addr_bound [OF t m] i(1) unfolding True
      by (intro nth_equalityI) (simp_all add: enc_inode_length d)
    then show ?thesis using i(1) by (simp add: disk_inode_def sb True)
  next
    case False
    then have "m < ?k \<or> ?k < m" by linarith
    then have "range_of s' (inode_addr s m) INODE_SIZE = range_of s (inode_addr s m) INODE_SIZE"
      using inode_addr_bound [OF t m] by (intro range_of_cong) (auto simp: d inode_addr_def INODE_SIZE_def)
    then show ?thesis using False by (simp add: disk_inode_def sb)
  qed
  moreover have "dbyte s' x = dbyte s x" if "x < 512 * 2 ^ 32" "x < inode_addr s 0 \<or> inode_addr s 4096 \<le> x" for x
    using that d [of x] k by (auto simp: inode_addr_def INODE_SIZE_def)
  ultimately show ?thesis using r e by blast
qed

lemma inode_sync_sectors:
  assumes "table_ok s" "length (i_sectors i) = 13" "512 \<le> buf_len"
    "512 < INODE_SIZE * (unat (i_no i) mod 256) mod 512 + INODE_SIZE \<longrightarrow> 1024 \<le> buf_len"
  shows "\<exists>d. inode_sync i buf_len s = Inr ((), s\<lparr>sectors := d\<rparr>) \<and> sect_ok (s\<lparr>sectors := d\<rparr>) \<and>
    (\<forall>l. unat (sb_inode_table_lba (sb s)) + 608 \<le> unat l \<longrightarrow> d l = sectors s l)"
proof -
  let ?k = "unat (i_no i) mod 256"
  obtain s' where r: "inode_sync i buf_len s = Inr ((), s')" and ok: "sect_ok s'" and e: "s' = s\<lparr>sectors := sectors s'\<rparr>"
    and d0: "\<forall>x<512 * 2 ^ 32. dbyte s' x = (let a = inode_addr s ?k in
       if a \<le> x \<and> x < a + INODE_SIZE then enc_inode (i\<lparr>i_open_cnts := 0, write_deny := False\<rparr>) ! (x - a) else dbyte s x)"
    using inode_sync_run [OF assms] by blast
  have d: "dbyte s' x = dbyte s x" if "x < 512 * 2 ^ 32" "inode_addr s ?k + INODE_SIZE \<le> x" for x
    using that d0 by (simp add: Let_def)
  have "sectors s' l = sectors s l" if l: "unat (sb_inode_table_lba (sb s)) + 608 \<le> unat l" for l
  proof -
    have k: "?k < 256" by simp
    have "inode_addr s ?k + INODE_SIZE \<le> 512 * unat l" using l k by (simp add: inode_addr_def INODE_SIZE_def)
    moreover have "unat l < 2 ^ 32" using unat_bound [of l] by simp
    ultimately have "range_of s' (512 * unat l) 512 = range_of s (512 * unat l) 512" by (intro range_of_cong d) auto
    then show ?thesis using sector_range [OF ok] sector_range [of s] assms(1) by (simp add: table_ok_def)
  qed
  then show ?thesis using r e ok by metis
qed

lemma fs_example_table_ok: "table_ok fs_example"
  by (simp add: table_ok_def fs_example_sect_ok sb_example_def max_lba_def)

theorem inode_sync_table_witness:
  "\<exists>s'. inode_sync \<lparr>i_no = 300, i_size = 5, i_open_cnts = 1, write_deny = True, i_sectors = replicate 13 7\<rparr> 1024 fs_example = Inr ((), s') \<and>
     i_no (disk_inode s' 44) = 300 \<and> i_size (disk_inode s' 44) = 5 \<and> disk_inode s' 300 = disk_inode fs_example 300"
  using inode_sync_table [OF fs_example_table_ok,
      of "\<lparr>i_no = 300, i_size = 5, i_open_cnts = 1, write_deny = True, i_sectors = replicate 13 7\<rparr>" 1024]
  by (auto simp: inode.simps)

theorem inode_open_close_witness:
  "\<exists>p s1 s2. inode_open 5 fs_example = Inr (p, s1) \<and> inodes s1 p = (disk_inode fs_example 5)\<lparr>i_open_cnts := 1\<rparr> \<and>
     inode_close p s1 = Inr ((), s2) \<and> open_inodes s2 = []"
proof -
  have "open_ok fs_example" "unat (5 :: u32) = 5" by (simp_all add: open_ok_def)
  then obtain p s1 s2 where o: "inode_open 5 fs_example = Inr (p, s1)" "inodes s1 p = (disk_inode fs_example 5)\<lparr>i_open_cnts := 1\<rparr>"
    "inode_close p s1 = Inr ((), s2)" "s2 = fs_example\<lparr>mallocs := mallocs s2, inodes := inodes s2\<rparr>"
    using inode_open_close [OF fs_example_table_ok, of 5] by (simp, blast)
  have "open_inodes s2 = []" by (subst o(4)) simp
  with o show ?thesis by blast
qed


end
