(* ===== verification/Dir.thy ===== *)
theory Dir
  imports Inode
begin

text \<open>
  Directories (\<^verbatim>\<open>fs/dir.c\<close>). A directory is a file whose blocks hold entries of 24 bytes, none of which
  crosses a sector. The theory holds the operations, on which those of \<open>Path\<close>, \<open>File\<close>, \<open>Fs\<close> and \<open>FsDir\<close>
  are built.
\<close>

section \<open>Opening and closing\<close>

definition open_root_dir :: "unit fsm" where
  "open_root_dir =
     bindM (getM (\<lambda>s. sb_root_inode_no (sb s))) (\<lambda>no.
     bindM (inode_open no) (\<lambda>p.
     modM (\<lambda>s. s\<lparr>dirs := (dirs s)(ROOT_DIR := \<lparr>dir_inode = p, dir_pos = 0\<rparr>)\<rparr>)))"

definition dir_open :: "u32 \<Rightarrow> ptr fsm" where
  "dir_open inode_no =
     bindM (sys_malloc_fs 520) (\<lambda>pdir.
     bindM (inode_open inode_no) (\<lambda>p.
     if pdir = 0 then failM (Bad_access ''pdir->inode'')
     else bindM (modM (\<lambda>s. s\<lparr>dirs := (dirs s)(pdir := \<lparr>dir_inode = p, dir_pos = 0\<rparr>)\<rparr>)) (\<lambda>_. returnM pdir)))"

definition dir_close :: "ptr \<Rightarrow> unit fsm" where
  "dir_close d =
     (if d = ROOT_DIR then returnM ()
      else bindM (getM (\<lambda>s. dir_inode (dirs s d))) (\<lambda>p. bindM (inode_close p) (\<lambda>_. sys_free_fs d)))"

text \<open>The inode of an open directory.\<close>

definition inode_of :: "fs \<Rightarrow> ptr \<Rightarrow> inode" where
  "inode_of s d = inodes s (dir_inode (dirs s d))"

section \<open>Searching\<close>

text \<open>The 140 block addresses of an inode: 12 in the inode, 128 in the block of the table.\<close>

definition all_blocks_of :: "inode \<Rightarrow> u32 list fsm" where
  "all_blocks_of i =
     (if i_sectors i ! 12 \<noteq> 0
      then bindM (disk_read (i_sectors i ! 12) 1) (\<lambda>bs. returnM (take 12 (i_sectors i) @ dec_words 128 bs))
      else returnM (take 12 (i_sectors i) @ replicate 128 0))"

text \<open>\<^verbatim>\<open>!strcmp(a, b)\<close>, where \<^verbatim>\<open>a\<close> points into a buffer and \<^verbatim>\<open>b\<close> is a string.\<close>

fun str_eq :: "u8 list \<Rightarrow> u8 list \<Rightarrow> bool res" where
  "str_eq [] nm = Inl (Bad_access ''string without end'')"
| "str_eq (b # bs) [] = Inr (b = 0)"
| "str_eq (b # bs) (c # cs) = (if b = c then str_eq bs cs else Inr False)"

text \<open>The number of entries in a sector; the size comes from the super block.\<close>

definition entrys_per_sec :: "u32 fsm" where
  "entrys_per_sec = bindM (getM (\<lambda>s. sb_dir_entry_size (sb s))) (\<lambda>n.
     if n = 0 then failM (Panicked ''#DE Divide Error'') else returnM (512 div n))"

fun search_sector :: "nat \<Rightarrow> nat \<Rightarrow> u8 list \<Rightarrow> u8 list \<Rightarrow> nat option res" where
  "search_sector 0 off nm buf = Inr None"
| "search_sector (Suc n) off nm buf =
     bindR (str_eq (drop off buf) nm) (\<lambda>eq.
     if eq then Inr (Some off) else search_sector n (off + DIR_ENTRY_SIZE) nm buf)"

fun search_blocks :: "nat \<Rightarrow> u8 list \<Rightarrow> ptr \<Rightarrow> u32 list \<Rightarrow> dir_entry option fsm" where
  "search_blocks cnt nm buf [] = returnM None"
| "search_blocks cnt nm buf (b # bs) =
     (if b = 0 then search_blocks cnt nm buf bs
      else
        bindM (disk_read b 1) (\<lambda>sec.
        if buf = 0 then failM (Bad_access ''ide_read into NULL'')
        else
          bindM (liftM (search_sector cnt 0 nm sec)) (\<lambda>found.
          case found of
            Some off \<Rightarrow> bindM (getM (\<lambda>s. sb_dir_entry_size (sb s))) (\<lambda>n.
              if unat n > DIR_ENTRY_SIZE then failM (Bad_access ''memcpy past dir_e'')
              else bindM (liftM (buf_read off (unat n) sec)) (\<lambda>e. returnM (Some (dec_dir_entry e))))
          | None \<Rightarrow> search_blocks cnt nm buf bs)))"

definition search_dir_entry :: "ptr \<Rightarrow> u8 list \<Rightarrow> dir_entry option fsm" where
  "search_dir_entry pdir nm =
     bindM (sys_malloc_fs (48 + 512)) (\<lambda>all_blocks.
     if all_blocks = 0 then
       bindM (printkM ''search_dir_entry: sys_malloc for all_blocks failed'') (\<lambda>_. returnM None)
     else
       bindM (getM (\<lambda>s. inode_of s pdir)) (\<lambda>i.
       bindM (all_blocks_of i) (\<lambda>blocks.
       bindM (sys_malloc_fs 512) (\<lambda>buf.
       bindM entrys_per_sec (\<lambda>dir_entry_cnt.
       bindM (search_blocks (unat dir_entry_cnt) nm buf blocks) (\<lambda>dir_e.
       bindM (sys_free_fs buf) (\<lambda>_.
       bindM (sys_free_fs all_blocks) (\<lambda>_. returnM dir_e))))))))"

section \<open>Entries\<close>

definition create_dir_entry :: "u8 list \<Rightarrow> u32 \<Rightarrow> u32 \<Rightarrow> dir_entry \<Rightarrow> dir_entry fsm" where
  "create_dir_entry nm inode_no file_type p_de =
     bindM (assertM (length nm \<le> MAX_FILE_NAME_LEN) ''strlen(filename) <= MAX_FILE_NAME_LEN'') (\<lambda>_.
     bindM (liftM (buf_write 0 nm (filename p_de))) (\<lambda>nm'.
     returnM \<lparr>filename = nm', de_i_no = inode_no, f_type = file_type\<rparr>))"

definition dir_entry_zero :: dir_entry where
  "dir_entry_zero = \<lparr>filename = replicate 16 0, de_i_no = 0, f_type = 0\<rparr>"

text \<open>The type of the entry at an offset of a sector.\<close>

definition type_at :: "nat \<Rightarrow> u8 list \<Rightarrow> u32" where
  "type_at off buf = dec32 (take 4 (drop (off + 20) buf))"

definition ino_at :: "nat \<Rightarrow> u8 list \<Rightarrow> u32" where
  "ino_at off buf = dec32 (take 4 (drop (off + 16) buf))"

fun free_entry :: "nat \<Rightarrow> nat \<Rightarrow> u8 list \<Rightarrow> nat option" where
  "free_entry 0 off buf = None"
| "free_entry (Suc n) off buf = (if type_at off buf = FT_UNKNOWN then Some off else free_entry n (off + DIR_ENTRY_SIZE) buf)"

text \<open>Every block that is allocated is marked on disk at once.\<close>

definition sync_block :: "u32 \<Rightarrow> unit fsm" where
  "sync_block block_lba =
     bindM (getM (\<lambda>s. block_lba - sb_data_start_lba (sb s))) (\<lambda>block_bitmap_idx.
     bindM (assertM (block_bitmap_idx \<noteq> -1) ''block_bitmap_idx != -1'') (\<lambda>_.
     bitmap_sync block_bitmap_idx BLOCK_BITMAP))"

definition set_sector :: "ptr \<Rightarrow> nat \<Rightarrow> u32 \<Rightarrow> unit fsm" where
  "set_sector p idx lba = upd_inode p (\<lambda>i. i\<lparr>i_sectors := (i_sectors i)[idx := lba]\<rparr>)"

text \<open>
  A new block for place \<open>idx\<close> of the inode at \<open>p\<close>, as \<^verbatim>\<open>sync_dir_entry\<close> installs it: the result is the new
  list of blocks, or \<open>None\<close> when there is no block.
\<close>

definition install_block :: "ptr \<Rightarrow> nat \<Rightarrow> u32 list \<Rightarrow> u32 list option fsm" where
  "install_block p idx blocks =
     bindM block_bitmap_alloc (\<lambda>block_lba.
     if block_lba = -1 then
       bindM (printkM (''alloc block bitmap for sync_dir_entry failed'' @ NL)) (\<lambda>_. returnM None)
     else
       bindM (sync_block block_lba) (\<lambda>_.
       if idx < 12 then bindM (set_sector p idx block_lba) (\<lambda>_. returnM (Some (blocks[idx := block_lba])))
       else if idx = 12 then
         bindM (set_sector p 12 block_lba) (\<lambda>_.
         bindM block_bitmap_alloc (\<lambda>block_lba2.
         if block_lba2 = -1 then
           bindM (getM (\<lambda>s. block_lba - sb_data_start_lba (sb s))) (\<lambda>block_bitmap_idx.
           bindM (block_bitmap_set block_bitmap_idx 0) (\<lambda>_.
           bindM (set_sector p 12 0) (\<lambda>_.
           bindM (printkM (''alloc block bitmap for sync_dir_entry failed'' @ NL)) (\<lambda>_. returnM None))))
         else
           bindM (sync_block block_lba2) (\<lambda>_.
           let blocks' = blocks[12 := block_lba2] in
           bindM (disk_write block_lba (enc_words (drop 12 blocks')) 1) (\<lambda>_. returnM (Some blocks')))))
       else
         let blocks' = blocks[idx := block_lba] in
         bindM (getM (\<lambda>s. i_sectors (inodes s p) ! 12)) (\<lambda>table.
         bindM (disk_write table (enc_words (drop 12 blocks')) 1) (\<lambda>_. returnM (Some blocks')))))"

fun sync_loop :: "nat \<Rightarrow> nat \<Rightarrow> u32 list \<Rightarrow> ptr \<Rightarrow> u8 list \<Rightarrow> nat \<Rightarrow> bool fsm" where
  "sync_loop 0 idx blocks p e cnt = bindM (printkM (''directory is full!'' @ NL)) (\<lambda>_. returnM False)"
| "sync_loop (Suc n) idx blocks p e cnt =
     (if blocks ! idx = 0 then
        bindM (install_block p idx blocks) (\<lambda>r.
        case r of None \<Rightarrow> returnM False
        | Some blocks' \<Rightarrow>
            bindM (liftM (buf_write 0 e (replicate 512 0))) (\<lambda>io_buf.
            bindM (disk_write (blocks' ! idx) io_buf 1) (\<lambda>_.
            bindM (upd_inode p (\<lambda>i. i\<lparr>i_size := i_size i + of_nat (length e)\<rparr>)) (\<lambda>_. returnM True))))
      else
        bindM (disk_read (blocks ! idx) 1) (\<lambda>io_buf.
        case free_entry cnt 0 io_buf of
          Some off \<Rightarrow>
            bindM (liftM (buf_write off e io_buf)) (\<lambda>io_buf'.
            bindM (disk_write (blocks ! idx) io_buf' 1) (\<lambda>_.
            bindM (upd_inode p (\<lambda>i. i\<lparr>i_size := i_size i + of_nat (length e)\<rparr>)) (\<lambda>_. returnM True)))
        | None \<Rightarrow> sync_loop n (idx + 1) blocks p e cnt))"

text \<open>The list of blocks has the addresses of the 12 direct blocks only.\<close>

definition sync_dir_entry :: "ptr \<Rightarrow> dir_entry \<Rightarrow> bool fsm" where
  "sync_dir_entry parent_dir p_de =
     bindM (getM (\<lambda>s. dir_inode (dirs s parent_dir))) (\<lambda>p.
     bindM (getM (\<lambda>s. i_size (inodes s p))) (\<lambda>dir_size.
     bindM (getM (\<lambda>s. sb_dir_entry_size (sb s))) (\<lambda>dir_entry_size.
     bindM entrys_per_sec (\<lambda>dir_entrys_per_sec.
     bindM (assertM (dir_size mod dir_entry_size = 0) ''dir_size % dir_entry_size == 0'') (\<lambda>_.
     bindM (liftM (buf_read 0 (unat dir_entry_size) (enc_dir_entry p_de))) (\<lambda>e.
     bindM (getM (\<lambda>s. take 12 (i_sectors (inodes s p)) @ replicate 128 0)) (\<lambda>all_blocks.
     sync_loop 140 0 all_blocks p e (unat dir_entrys_per_sec))))))))"

section \<open>Deleting an entry\<close>

text \<open>
  The pass over a sector: whether it holds \<^verbatim>\<open>.\<close>, how many other entries, and where the entry with the
  number is. Text 46 is a dot.
\<close>

record sector_scan =
  is_dir_first_block :: bool
  dir_entry_cnt :: u8
  dir_entry_found :: "nat option"

definition scan_entry :: "u32 \<Rightarrow> nat \<Rightarrow> u8 list \<Rightarrow> sector_scan \<Rightarrow> sector_scan res" where
  "scan_entry inode_no off buf r =
     (if type_at off buf = FT_UNKNOWN then Inr r
      else
        bindR (str_eq (drop off buf) [46]) (\<lambda>dot.
        if dot then Inr (r\<lparr>is_dir_first_block := True\<rparr>)
        else
          bindR (str_eq (drop off buf) [46, 46]) (\<lambda>dotdot.
          if dotdot then Inr r
          else
            let r1 = r\<lparr>dir_entry_cnt := dir_entry_cnt r + 1\<rparr> in
            if ino_at off buf = inode_no then
              bindR (kassert (dir_entry_found r1 = None) ''dir_entry_found == NULL'') (\<lambda>_.
              Inr (r1\<lparr>dir_entry_found := Some off\<rparr>))
            else Inr r1)))"

fun scan_sector :: "nat \<Rightarrow> nat \<Rightarrow> u32 \<Rightarrow> u8 list \<Rightarrow> sector_scan \<Rightarrow> sector_scan res" where
  "scan_sector 0 off inode_no buf r = Inr r"
| "scan_sector (Suc n) off inode_no buf r =
     bindR (scan_entry inode_no off buf r) (scan_sector n (off + DIR_ENTRY_SIZE) inode_no buf)"

text \<open>The count of the indirect blocks; the loop does not advance its index.\<close>

partial_function (option) count_indirect :: "u32 list \<Rightarrow> nat \<Rightarrow> nat \<Rightarrow> nat option" where
  "count_indirect all_blocks indirect_block_idx indirect_blocks =
     (if indirect_block_idx < 140 then
        count_indirect all_blocks indirect_block_idx
          (if all_blocks ! indirect_block_idx \<noteq> 0 then indirect_blocks + 1 else indirect_blocks)
      else Some indirect_blocks)"

definition drop_block :: "ptr \<Rightarrow> nat \<Rightarrow> u32 list \<Rightarrow> unit fsm" where
  "drop_block p idx all_blocks =
     bindM (getM (\<lambda>s. all_blocks ! idx - sb_data_start_lba (sb s))) (\<lambda>block_bitmap_idx.
     bindM (block_bitmap_set block_bitmap_idx 0) (\<lambda>_.
     bindM (bitmap_sync block_bitmap_idx BLOCK_BITMAP) (\<lambda>_.
     if idx < 12 then set_sector p idx 0
     else case count_indirect all_blocks 12 0 of
       None \<Rightarrow> failM Never_returns
     | Some indirect_blocks \<Rightarrow>
         bindM (assertM (indirect_blocks \<ge> 1) ''indirect_blocks >= 1'') (\<lambda>_.
         bindM (getM (\<lambda>s. i_sectors (inodes s p) ! 12)) (\<lambda>table.
         if indirect_blocks > 1 then disk_write table (enc_words (drop 12 (all_blocks[idx := 0]))) 1
         else
           bindM (getM (\<lambda>s. table - sb_data_start_lba (sb s))) (\<lambda>table_idx.
           bindM (block_bitmap_set table_idx 0) (\<lambda>_.
           bindM (bitmap_sync table_idx BLOCK_BITMAP) (\<lambda>_. set_sector p 12 0))))))))"

fun delete_loop :: "nat \<Rightarrow> nat \<Rightarrow> u32 list \<Rightarrow> ptr \<Rightarrow> u32 \<Rightarrow> nat \<Rightarrow> nat \<Rightarrow> bool fsm" where
  "delete_loop 0 idx blocks p inode_no cnt buf_len = returnM False"
| "delete_loop (Suc n) idx blocks p inode_no cnt buf_len =
     (if blocks ! idx = 0 then delete_loop n (idx + 1) blocks p inode_no cnt buf_len
      else
        bindM (disk_read (blocks ! idx) 1) (\<lambda>io_buf.
        bindM (liftM (scan_sector cnt 0 inode_no io_buf
          \<lparr>is_dir_first_block = False, dir_entry_cnt = 0, dir_entry_found = None\<rparr>)) (\<lambda>r.
        case dir_entry_found r of
          None \<Rightarrow> delete_loop n (idx + 1) blocks p inode_no cnt buf_len
        | Some off \<Rightarrow>
            bindM (assertM (dir_entry_cnt r \<ge> 1) ''dir_entry_cnt >= 1'') (\<lambda>_.
            bindM (getM (\<lambda>s. sb_dir_entry_size (sb s))) (\<lambda>dir_entry_size.
            bindM (if dir_entry_cnt r = 1 \<and> \<not> is_dir_first_block r then drop_block p idx blocks
                   else
                     bindM (liftM (buf_write off (replicate (unat dir_entry_size) 0) io_buf)) (\<lambda>io_buf'.
                     disk_write (blocks ! idx) io_buf' 1)) (\<lambda>_.
            bindM (getM (\<lambda>s. i_size (inodes s p))) (\<lambda>size'.
            bindM (assertM (size' \<ge> dir_entry_size) ''dir_inode->i_size >= dir_entry_size'') (\<lambda>_.
            bindM (upd_inode p (\<lambda>i. i\<lparr>i_size := i_size i - dir_entry_size\<rparr>)) (\<lambda>_.
            bindM (getM (\<lambda>s. inodes s p)) (\<lambda>i.
            bindM (inode_sync i buf_len) (\<lambda>_. returnM True)))))))))))"

definition delete_dir_entry :: "ptr \<Rightarrow> u32 \<Rightarrow> nat \<Rightarrow> bool fsm" where
  "delete_dir_entry pdir inode_no buf_len =
     bindM (getM (\<lambda>s. dir_inode (dirs s pdir))) (\<lambda>p.
     bindM (getM (\<lambda>s. inodes s p)) (\<lambda>i.
     bindM (all_blocks_of i) (\<lambda>all_blocks.
     bindM entrys_per_sec (\<lambda>dir_entrys_per_sec.
     delete_loop 140 0 all_blocks p inode_no (unat dir_entrys_per_sec) buf_len))))"

section \<open>Reading and removing a directory\<close>

text \<open>
  The entries of one sector, from \<^verbatim>\<open>dir_entry_idx\<close> on: either the entry to return, or the position
  reached. \<open>pos\<close> is \<^verbatim>\<open>cur_dir_entry_pos\<close>, \<open>dpos\<close> is \<^verbatim>\<open>dir->dir_pos\<close>.
\<close>

fun read_sector :: "nat \<Rightarrow> nat \<Rightarrow> u32 \<Rightarrow> u32 \<Rightarrow> u32 \<Rightarrow> u8 list \<Rightarrow> (nat + u32) res" where
  "read_sector 0 off sz pos dpos buf = Inr (Inr pos)"
| "read_sector (Suc n) off sz pos dpos buf =
     (if type_at off buf \<noteq> FT_UNKNOWN then
        if pos < dpos then read_sector n (off + DIR_ENTRY_SIZE) sz (pos + sz) dpos buf
        else bindR (kassert (pos = dpos) ''cur_dir_entry_pos == dir->dir_pos'') (\<lambda>_. Inr (Inl off))
      else read_sector n (off + DIR_ENTRY_SIZE) sz pos dpos buf)"

fun read_blocks :: "u32 list \<Rightarrow> ptr \<Rightarrow> nat \<Rightarrow> u32 \<Rightarrow> u32 \<Rightarrow> dir_entry option fsm" where
  "read_blocks [] d cnt sz pos = returnM None"
| "read_blocks (b # bs) d cnt sz pos =
     bindM (getM (\<lambda>s. dir_pos (dirs s d))) (\<lambda>dpos.
     bindM (getM (\<lambda>s. i_size (inode_of s d))) (\<lambda>size'.
     if dpos \<ge> size' then returnM None
     else if b = 0 then read_blocks bs d cnt sz pos
     else
       bindM (disk_read b 1) (\<lambda>buf.
       bindM (liftM (read_sector cnt 0 sz pos dpos buf)) (\<lambda>r.
       case r of
         Inl off \<Rightarrow>
           bindM (modM (\<lambda>s. s\<lparr>dirs := (dirs s)(d := (dirs s d)\<lparr>dir_pos := dir_pos (dirs s d) + sz\<rparr>)\<rparr>)) (\<lambda>_.
           bindM (liftM (buf_read off DIR_ENTRY_SIZE buf)) (\<lambda>e. returnM (Some (dec_dir_entry e))))
       | Inr pos' \<Rightarrow> read_blocks bs d cnt sz pos'))))"

text \<open>The result is the entry to which the code returns a pointer.\<close>

definition dir_read :: "ptr \<Rightarrow> dir_entry option fsm" where
  "dir_read d =
     bindM (getM (\<lambda>s. inode_of s d)) (\<lambda>i.
     bindM (all_blocks_of i) (\<lambda>all_blocks.
     let block_cnt = (if i_sectors i ! 12 \<noteq> 0 then 140 else 12) in
     bindM (getM (\<lambda>s. sb_dir_entry_size (sb s))) (\<lambda>dir_entry_size.
     bindM entrys_per_sec (\<lambda>dir_entrys_per_sec.
     read_blocks (take block_cnt all_blocks) d (unat dir_entrys_per_sec) dir_entry_size 0))))"

definition dir_is_empty :: "ptr \<Rightarrow> bool fsm" where
  "dir_is_empty d = getM (\<lambda>s. i_size (inode_of s d) = sb_dir_entry_size (sb s) * 2)"

fun assert_zero :: "u32 list \<Rightarrow> unit fsm" where
  "assert_zero [] = returnM ()"
| "assert_zero (w # ws) = bindM (assertM (w = 0) ''child_dir_inode->i_sectors[block_idx] == 0'') (\<lambda>_. assert_zero ws)"

definition dir_remove :: "ptr \<Rightarrow> ptr \<Rightarrow> u32 fsm" where
  "dir_remove parent_dir child_dir =
     bindM (getM (\<lambda>s. inode_of s child_dir)) (\<lambda>child_dir_inode.
     bindM (assert_zero (drop 1 (i_sectors child_dir_inode))) (\<lambda>_.
     bindM (sys_malloc_fs 1024) (\<lambda>io_buf.
     if io_buf = 0 then bindM (printkM (''dir_remove: malloc for io_buf failed'' @ NL)) (\<lambda>_. returnM (-1))
     else
       bindM (delete_dir_entry parent_dir (i_no child_dir_inode) 1024) (\<lambda>_.
       bindM (inode_release (i_no child_dir_inode)) (\<lambda>_.
       bindM (sys_free_fs io_buf) (\<lambda>_. returnM 0))))))"

end
