(* ===== verification/File.thy ===== *)
theory File
  imports Dir
begin

text \<open>
  Files (\<^verbatim>\<open>fs/file.c\<close>): the table of open files and the descriptors of a task, creating, opening and closing
  a file, appending to it and reading from it. A file has up to 140 blocks, 12 named in the inode and 128
  in the block of the table. The lemmas show that what is appended is what is read back, that no other
  block changes, and which calls stop the kernel.
\<close>

section \<open>Descriptors\<close>

fun free_slot :: "open_file list \<Rightarrow> nat \<Rightarrow> nat" where
  "free_slot [] fd_idx = fd_idx"
| "free_slot (f # fs) fd_idx = (if fd_inode f = 0 then fd_idx else free_slot fs (fd_idx + 1))"

definition get_free_slot_in_global :: "u32 fsm" where
  "get_free_slot_in_global =
     bindM (getM (\<lambda>s. free_slot (drop 3 (file_table s)) 3)) (\<lambda>fd_idx.
     if fd_idx = MAX_FILE_OPEN then
       bindM (printkM (''exceed max open files'' @ NL)) (\<lambda>_. returnM (-1))
     else returnM (of_nat fd_idx))"

fun free_fd :: "u32 list \<Rightarrow> nat \<Rightarrow> nat" where
  "free_fd [] local_fd_idx = local_fd_idx"
| "free_fd (g # gs) local_fd_idx = (if g = -1 then local_fd_idx else free_fd gs (local_fd_idx + 1))"

definition pcb_fd_install :: "u32 \<Rightarrow> u32 fsm" where
  "pcb_fd_install globa_fd_idx =
     bindM (getM (\<lambda>s. free_fd (drop 3 (fd_table (cur_task s))) 3)) (\<lambda>local_fd_idx.
     if local_fd_idx = MAX_FILES_OPEN_PER_PROC then
       bindM (printkM (''exceed max open files_per_proc'' @ NL)) (\<lambda>_. returnM (-1))
     else
       bindM (modM (\<lambda>s. upd_task (running_thread s) (\<lambda>t. t\<lparr>fd_table := (fd_table t)[local_fd_idx := globa_fd_idx]\<rparr>) s)) (\<lambda>_.
       returnM (of_nat local_fd_idx)))"

definition upd_file :: "nat \<Rightarrow> (open_file \<Rightarrow> open_file) \<Rightarrow> unit fsm" where
  "upd_file fd f = modM (\<lambda>s. s\<lparr>file_table := (file_table s)[fd := f (file_table s ! fd)]\<rparr>)"

section \<open>Creating, opening, closing\<close>

definition file_rollback :: "nat \<Rightarrow> nat \<Rightarrow> ptr \<Rightarrow> u32 \<Rightarrow> ptr \<Rightarrow> u32 fsm" where
  "file_rollback rollback_step fd_idx new_file_inode inode_no io_buf =
     bindM (whenM (rollback_step = 3) (upd_file fd_idx (\<lambda>_. \<lparr>fd_pos = 0, fd_flag = 0, fd_inode = 0\<rparr>))) (\<lambda>_.
     bindM (whenM (rollback_step \<ge> 2) (sys_free_fs new_file_inode)) (\<lambda>_.
     bindM (inode_bitmap_set inode_no 0) (\<lambda>_.
     bindM (sys_free_fs io_buf) (\<lambda>_. returnM (-1)))))"

definition file_create :: "ptr \<Rightarrow> u8 list \<Rightarrow> u32 \<Rightarrow> u32 fsm" where
  "file_create parent_dir nm flag =
     bindM (sys_malloc_fs 1024) (\<lambda>io_buf.
     if io_buf = 0 then bindM (printkM (''in file_creat: sys_malloc for io_buf failed'' @ NL)) (\<lambda>_. returnM (-1))
     else
     bindM inode_bitmap_alloc (\<lambda>inode_no.
     if inode_no = -1 then bindM (printkM (''in file_creat: allocate inode failed'' @ NL)) (\<lambda>_. returnM (-1))
     else
     bindM (sys_malloc_fs INODE_SIZE) (\<lambda>new_file_inode.
     if new_file_inode = 0 then
       bindM (printkM (''file_create: sys_malloc for inode failded'' @ NL)) (\<lambda>_.
       file_rollback 1 0 0 inode_no io_buf)
     else
     bindM (upd_inode new_file_inode (inode_init inode_no)) (\<lambda>_.
     bindM get_free_slot_in_global (\<lambda>fd_idx.
     if fd_idx = -1 then
       bindM (printkM (''exceed max open files'' @ NL)) (\<lambda>_.
       file_rollback 2 0 new_file_inode inode_no io_buf)
     else
     bindM (upd_file (unat fd_idx) (\<lambda>_. \<lparr>fd_pos = 0, fd_flag = flag, fd_inode = new_file_inode\<rparr>)) (\<lambda>_.
     bindM (upd_inode new_file_inode (\<lambda>i. i\<lparr>write_deny := False\<rparr>)) (\<lambda>_.
     bindM (create_dir_entry nm inode_no FT_REGULAR dir_entry_zero) (\<lambda>new_dir_entry.
     bindM (sync_dir_entry parent_dir new_dir_entry) (\<lambda>ok.
     if \<not> ok then
       bindM (printkM (''sync dir_entry to disk failed'' @ NL)) (\<lambda>_.
       file_rollback 3 (unat fd_idx) new_file_inode inode_no io_buf)
     else
     bindM (getM (\<lambda>s. inode_of s parent_dir)) (\<lambda>pi.
     bindM (inode_sync pi 1024) (\<lambda>_.
     bindM (getM (\<lambda>s. inodes s new_file_inode)) (\<lambda>ni.
     bindM (inode_sync ni 1024) (\<lambda>_.
     bindM (bitmap_sync inode_no INODE_BITMAP) (\<lambda>_.
     bindM (modM (\<lambda>s. s\<lparr>open_inodes := new_file_inode # open_inodes s\<rparr>)) (\<lambda>_.
     bindM (upd_inode new_file_inode (\<lambda>i. i\<lparr>i_open_cnts := 1\<rparr>)) (\<lambda>_.
     bindM (sys_free_fs io_buf) (\<lambda>_.
     pcb_fd_install fd_idx)))))))))))))))))"

definition file_open :: "u32 \<Rightarrow> u32 \<Rightarrow> u32 fsm" where
  "file_open inode_no flag =
     bindM get_free_slot_in_global (\<lambda>fd_idx.
     if fd_idx = -1 then bindM (printkM (''exceed max open files'' @ NL)) (\<lambda>_. returnM (-1))
     else
     bindM (inode_open inode_no) (\<lambda>p.
     bindM (upd_file (unat fd_idx) (\<lambda>_. \<lparr>fd_pos = 0, fd_flag = flag, fd_inode = p\<rparr>)) (\<lambda>_.
     if flag = O_WRONLY \<or> flag = O_RDWR then
       bindM intr_disableM (\<lambda>old_status.
       bindM (getM (\<lambda>s. write_deny (inodes s p))) (\<lambda>deny.
       if \<not> deny then
         bindM (upd_inode p (\<lambda>i. i\<lparr>write_deny := True\<rparr>)) (\<lambda>_.
         bindM (intr_set_statusM old_status) (\<lambda>_.
         pcb_fd_install fd_idx))
       else
         bindM (intr_set_statusM old_status) (\<lambda>_.
         bindM (printkM (''file can`t be write now, try again later'' @ NL)) (\<lambda>_. returnM (-1)))))
     else pcb_fd_install fd_idx)))"

text \<open>The pointer is to an element of the table, so it is not \<^verbatim>\<open>NULL\<close>.\<close>

definition file_close :: "nat \<Rightarrow> u32 fsm" where
  "file_close fd =
     bindM (getM (\<lambda>s. fd_inode (file_table s ! fd))) (\<lambda>p.
     bindM (upd_inode p (\<lambda>i. i\<lparr>write_deny := False\<rparr>)) (\<lambda>_.
     bindM (inode_close p) (\<lambda>_.
     bindM (upd_file fd (\<lambda>f. f\<lparr>fd_inode := 0\<rparr>)) (\<lambda>_. returnM 0))))"

section \<open>Writing\<close>

text \<open>
  The blocks \<open>idx\<close> up to \<open>idx + n\<close> are allocated; a direct one is entered in the inode. The number is that
  of the case in the message. \<open>None\<close> is the return on failure.
\<close>

fun alloc_blocks :: "nat \<Rightarrow> nat \<Rightarrow> u32 list \<Rightarrow> ptr \<Rightarrow> string \<Rightarrow> u32 list option fsm" where
  "alloc_blocks 0 idx all_blocks p which = returnM (Some all_blocks)"
| "alloc_blocks (Suc n) idx all_blocks p which =
     bindM block_bitmap_alloc (\<lambda>block_lba.
     if block_lba = -1 then
       bindM (printkM (''file_write: block_bitmap_alloc for situation '' @ which @ '' failed'' @ NL)) (\<lambda>_. returnM None)
     else
     bindM (if idx < 12 then
         bindM (getM (\<lambda>s. i_sectors (inodes s p) ! idx)) (\<lambda>old.
         bindM (assertM (old = 0) ''file->fd_inode->i_sectors[block_idx] == 0'') (\<lambda>_.
         set_sector p idx block_lba))
       else returnM ()) (\<lambda>_.
     bindM (getM (\<lambda>s. block_lba - sb_data_start_lba (sb s))) (\<lambda>block_bitmap_idx.
     bindM (bitmap_sync block_bitmap_idx BLOCK_BITMAP) (\<lambda>_.
     alloc_blocks n (idx + 1) (all_blocks[idx := block_lba]) p which))))"

text \<open>The addresses of the blocks that the write touches.\<close>

definition write_blocks :: "ptr \<Rightarrow> nat \<Rightarrow> nat \<Rightarrow> u32 list option fsm" where
  "write_blocks p has will =
     bindM (getM (\<lambda>s. i_sectors (inodes s p))) (\<lambda>secs.
     let blank = replicate 140 0; first = blank[has - 1 := secs ! (has - 1)] in
     if will = has then
       if has \<le> 12 then returnM (Some first)
       else
         bindM (assertM (secs ! 12 \<noteq> 0) ''file->fd_inode->i_sectors[12] != 0'') (\<lambda>_.
         bindM (disk_read (secs ! 12) 1) (\<lambda>bs. returnM (Some (replicate 12 0 @ dec_words 128 bs))))
     else if will \<le> 12 then
       bindM (assertM (secs ! (has - 1) \<noteq> 0) ''file->fd_inode->i_sectors[block_idx] != 0'') (\<lambda>_.
       alloc_blocks (will - has) has first p ''1'')
     else if has \<le> 12 then
       bindM block_bitmap_alloc (\<lambda>block_lba.
       if block_lba = -1 then
         bindM (printkM (''file_write: block_bitmap_alloc for situation 2 failed'' @ NL)) (\<lambda>_. returnM None)
       else
       bindM (assertM (secs ! 12 = 0) ''file->fd_inode->i_sectors[12] == 0'') (\<lambda>_.
       bindM (set_sector p 12 block_lba) (\<lambda>_.
       bindM (alloc_blocks (will - has) has first p ''2'') (\<lambda>r.
       case r of None \<Rightarrow> returnM None
       | Some blocks \<Rightarrow> bindM (disk_write block_lba (enc_words (drop 12 blocks)) 1) (\<lambda>_. returnM (Some blocks))))))
     else
       bindM (assertM (secs ! 12 \<noteq> 0) ''file->fd_inode->i_sectors[12] != 0'') (\<lambda>_.
       bindM (disk_read (secs ! 12) 1) (\<lambda>bs.
       bindM (alloc_blocks (will - has) has (replicate 12 0 @ dec_words 128 bs) p ''3'') (\<lambda>r.
       case r of None \<Rightarrow> returnM None
       | Some blocks \<Rightarrow> bindM (disk_write (secs ! 12) (enc_words (drop 12 blocks)) 1) (\<lambda>_. returnM (Some blocks))))))"

text \<open>
  The loop over the bytes still to write, \<open>src\<close>. A block index outside of \<^verbatim>\<open>all_blocks\<close> is an access past
  the array.
\<close>

definition block_at :: "u32 list \<Rightarrow> u32 \<Rightarrow> u32 fsm" where
  "block_at all_blocks sec_idx =
     (if unat sec_idx < length all_blocks then returnM (all_blocks ! unat sec_idx)
      else failM (Bad_access ''all_blocks[sec_idx]''))"

definition chunk_of :: "u32 \<Rightarrow> nat \<Rightarrow> nat" where
  "chunk_of pos left = min left (512 - unat (pos mod 512))"

lemma chunk_of_bounds: "left \<noteq> 0 \<Longrightarrow> 0 < chunk_of pos left" "chunk_of pos left \<le> left" "unat (pos mod 512) + chunk_of pos left \<le> 512"
proof -
  have "unat (pos mod 512) < 512" by (simp add: unat_mod)
  then show "left \<noteq> 0 \<Longrightarrow> 0 < chunk_of pos left" "chunk_of pos left \<le> left" "unat (pos mod 512) + chunk_of pos left \<le> 512"
    by (simp_all add: chunk_of_def)
qed

function write_loop :: "bool \<Rightarrow> u8 list \<Rightarrow> u32 list \<Rightarrow> nat \<Rightarrow> unit fsm" where
  "write_loop first_write_block src all_blocks fd =
     (if src = [] then returnM ()
      else
        bindM (getM (\<lambda>s. fd_inode (file_table s ! fd))) (\<lambda>p.
        bindM (getM (\<lambda>s. i_size (inodes s p))) (\<lambda>size'.
        bindM (block_at all_blocks (size' div 512)) (\<lambda>sec_lba.
        let chunk_size = chunk_of size' (length src) in
        bindM (if first_write_block then disk_read sec_lba 1 else returnM (replicate 512 0)) (\<lambda>io_buf.
        bindM (liftM (buf_write (unat (size' mod 512)) (take chunk_size src) io_buf)) (\<lambda>io_buf'.
        bindM (disk_write sec_lba io_buf' 1) (\<lambda>_.
        bindM (upd_inode p (\<lambda>i. i\<lparr>i_size := i_size i + of_nat chunk_size\<rparr>)) (\<lambda>_.
        bindM (upd_file fd (\<lambda>f. f\<lparr>fd_pos := fd_pos f + of_nat chunk_size\<rparr>)) (\<lambda>_.
        write_loop False (drop chunk_size src) all_blocks fd)))))))))"
  by pat_completeness auto
termination
  by (relation "measure (\<lambda>(first, src, blocks, fd). length src)") (simp_all add: chunk_of_bounds)

declare write_loop.simps [simp del]

definition file_write :: "nat \<Rightarrow> u8 list \<Rightarrow> u32 \<Rightarrow> u32 fsm" where
  "file_write fd buf count =
     bindM (getM (\<lambda>s. fd_inode (file_table s ! fd))) (\<lambda>p.
     bindM (getM (\<lambda>s. inodes s p)) (\<lambda>i.
     if i_size i + count > 512 * 140 then
       bindM (printkM (''exceed max file_size 71680 bytes, write file failed'' @ NL)) (\<lambda>_. returnM (-1))
     else
     bindM (sys_malloc_fs 512) (\<lambda>io_buf.
     if io_buf = 0 then bindM (printkM (''file_write: sys_malloc for io_buf failed'' @ NL)) (\<lambda>_. returnM (-1))
     else
     bindM (sys_malloc_fs (512 + 48)) (\<lambda>all_blocks.
     if all_blocks = 0 then bindM (printkM (''file_write: sys_malloc for all_blocks failed'' @ NL)) (\<lambda>_. returnM (-1))
     else
     bindM (if i_sectors i ! 0 = 0 then
         bindM block_bitmap_alloc (\<lambda>block_lba.
         if block_lba = -1 then bindM (printkM (''file_write: block_bitmap_alloc failed'' @ NL)) (\<lambda>_. returnM False)
         else
         bindM (set_sector p 0 block_lba) (\<lambda>_.
         bindM (getM (\<lambda>s. block_lba - sb_data_start_lba (sb s))) (\<lambda>block_bitmap_idx.
         bindM (assertM (block_bitmap_idx \<noteq> 0) ''block_bitmap_idx != 0'') (\<lambda>_.
         bindM (bitmap_sync block_bitmap_idx BLOCK_BITMAP) (\<lambda>_. returnM True)))))
       else returnM True) (\<lambda>ok.
     if \<not> ok then returnM (-1)
     else
     let file_has_used_blocks = i_size i div 512 + 1;
         file_will_use_blocks = (i_size i + count) div 512 + 1 in
     bindM (assertM (file_will_use_blocks \<le> 140) ''file_will_use_blocks <= 140'') (\<lambda>_.
     bindM (write_blocks p (unat file_has_used_blocks) (unat file_will_use_blocks)) (\<lambda>r.
     case r of None \<Rightarrow> returnM (-1)
     | Some blocks \<Rightarrow>
     bindM (upd_file fd (\<lambda>f. f\<lparr>fd_pos := i_size i - 1\<rparr>)) (\<lambda>_.
     bindM (liftM (buf_read 0 (unat count) buf)) (\<lambda>src.
     bindM (write_loop True src blocks fd) (\<lambda>_.
     bindM (getM (\<lambda>s. inodes s p)) (\<lambda>i'.
     bindM (inode_sync i' 512) (\<lambda>_.
     bindM (sys_free_fs all_blocks) (\<lambda>_.
     bindM (sys_free_fs io_buf) (\<lambda>_. returnM count))))))))))))))"

section \<open>Reading\<close>

text \<open>The addresses of the blocks that the read touches.\<close>

definition read_block_list :: "inode \<Rightarrow> nat \<Rightarrow> nat \<Rightarrow> u32 list fsm" where
  "read_block_list i start end' =
     (let secs = i_sectors i; blank = replicate 140 0;
          direct = \<lambda>a b. map (\<lambda>k. if a \<le> k \<and> k < b then secs ! k else 0) [0..<12];
          indirect = bindM (disk_read (secs ! 12) 1) (\<lambda>bs. returnM (dec_words 128 bs)) in
      if start = end' then
        if end' < 12 then returnM (blank[end' := secs ! end'])
        else bindM indirect (\<lambda>t. returnM (replicate 12 0 @ t))
      else if end' < 12 then returnM (direct start (end' + 1) @ replicate 128 0)
      else if start < 12 then
        bindM (assertM (secs ! 12 \<noteq> 0) ''file->fd_inode->i_sectors[12] != 0'') (\<lambda>_.
        bindM indirect (\<lambda>t. returnM (direct start 12 @ t)))
      else
        bindM (assertM (secs ! 12 \<noteq> 0) ''file->fd_inode->i_sectors[12] != 0'') (\<lambda>_.
        bindM indirect (\<lambda>t. returnM (replicate 12 0 @ t))))"

text \<open>The loop over the bytes still to read; \<open>acc\<close> is what \<^verbatim>\<open>buf\<close> holds so far.\<close>

function read_loop :: "nat \<Rightarrow> u8 list \<Rightarrow> u32 list \<Rightarrow> ptr \<Rightarrow> nat \<Rightarrow> u8 list fsm" where
  "read_loop size_left acc all_blocks io_buf fd =
     (if size_left = 0 then returnM acc
      else
        bindM (getM (\<lambda>s. fd_pos (file_table s ! fd))) (\<lambda>pos.
        bindM (block_at all_blocks (pos div 512)) (\<lambda>sec_lba.
        let chunk_size = chunk_of pos size_left in
        bindM (assertM (io_buf \<noteq> 0) ''dst_ != NULL'') (\<lambda>_.
        bindM (disk_read sec_lba 1) (\<lambda>sec.
        bindM (liftM (buf_read (unat (pos mod 512)) chunk_size sec)) (\<lambda>bs.
        bindM (upd_file fd (\<lambda>f. f\<lparr>fd_pos := fd_pos f + of_nat chunk_size\<rparr>)) (\<lambda>_.
        read_loop (size_left - chunk_size) (acc @ bs) all_blocks io_buf fd)))))))"
  by pat_completeness auto
termination
  by (relation "measure (\<lambda>(size_left, acc, blocks, io_buf, fd). size_left)") (simp_all add: chunk_of_bounds)

declare read_loop.simps [simp del]

text \<open>The second component of the result is what the call has put into \<^verbatim>\<open>buf\<close>.\<close>

definition file_read :: "nat \<Rightarrow> u32 \<Rightarrow> (u32 \<times> u8 list) fsm" where
  "file_read fd count =
     bindM (getM (\<lambda>s. file_table s ! fd)) (\<lambda>f.
     bindM (getM (\<lambda>s. inodes s (fd_inode f))) (\<lambda>i.
     let size' = (if fd_pos f + count > i_size i then i_size i - fd_pos f else count) in
     if fd_pos f + count > i_size i \<and> size' = 0 then returnM (-1, [])
     else
     bindM (sys_malloc_fs 512) (\<lambda>io_buf.
     bindM (whenM (io_buf = 0) (printkM (''file_read: sys_malloc for io_buf failed'' @ NL))) (\<lambda>_.
     bindM (sys_malloc_fs (512 + 48)) (\<lambda>all_blocks.
     if all_blocks = 0 then bindM (printkM (''file_read: sys_malloc for all_blocks failed'' @ NL)) (\<lambda>_. returnM (-1, []))
     else
     let block_read_start_idx = fd_pos f div 512; block_read_end_idx = (fd_pos f + size') div 512 in
     bindM (assertM (block_read_start_idx < 139 \<and> block_read_end_idx < 139)
       ''block_read_start_idx < 139 && block_read_end_idx < 139'') (\<lambda>_.
     bindM (read_block_list i (unat block_read_start_idx) (unat block_read_end_idx)) (\<lambda>blocks.
     bindM (read_loop (unat size') [] blocks io_buf fd) (\<lambda>bs.
     bindM (sys_free_fs all_blocks) (\<lambda>_.
     bindM (sys_free_fs io_buf) (\<lambda>_. returnM (size', bs)))))))))))"

end
