(* ===== verification/Path.thy ===== *)
theory Path
  imports File
begin

text \<open>
  Path names (\<^verbatim>\<open>path_parse\<close>, \<^verbatim>\<open>path_depth_cnt\<close> and \<^verbatim>\<open>search_file\<close> of \<^verbatim>\<open>fs/fs.c\<close>). A path is the list of its
  bytes, 47 is the slash. The name of a component goes to an array of 16 bytes that the caller has
  cleared; \<^verbatim>\<open>path_parse\<close> writes no terminator. The lemmas show that the routines split a path into its
  components.
\<close>

definition path_parse :: "u8 list \<Rightarrow> u8 list \<Rightarrow> (u8 list option \<times> u8 list) res" where
  "path_parse pathname name_store =
     (let p = dropWhile (\<lambda>c. c = 47) pathname;
          comp = takeWhile (\<lambda>c. c \<noteq> 47) p; rest = dropWhile (\<lambda>c. c \<noteq> 47) p in
      bindR (buf_write 0 comp name_store) (\<lambda>nm.
      Inr (if rest = [] then None else Some rest, nm)))"

lemma rest_shorter: "dropWhile (\<lambda>c. c \<noteq> x) (dropWhile (\<lambda>c. c = x) q) \<noteq> [] \<Longrightarrow>
    length (dropWhile (\<lambda>c. c \<noteq> x) (dropWhile (\<lambda>c. c = x) q)) < length q"
proof (induction q)
  case (Cons c q)
  then show ?case
    using length_dropWhile_le [of "\<lambda>c. c \<noteq> x" q] by (cases "c = x") auto
qed simp

lemma bind_rest: "bindR A (\<lambda>nm. Inr (if rest = [] then None else Some rest, nm)) = Inr (Some r, nm') \<Longrightarrow> rest = r \<and> rest \<noteq> []"
  by (cases A) (auto split: if_splits)

lemma path_parse_shorter: "path_parse q nm = Inr (Some r, nm') \<Longrightarrow> length r < length q"
  unfolding path_parse_def Let_def by (drule bind_rest) (metis rest_shorter)

function depth_loop :: "u8 list option \<Rightarrow> u8 list \<Rightarrow> u32 \<Rightarrow> u32 res" where
  "depth_loop p nm depth =
     (if nm ! 0 = 0 then Inr depth
      else case p of
        None \<Rightarrow> Inr (depth + 1)
      | Some q \<Rightarrow>
          (case path_parse q (replicate 16 0) of Inl e \<Rightarrow> Inl e | Inr (p', nm') \<Rightarrow> depth_loop p' nm' (depth + 1)))"
  by pat_completeness auto
termination
  by (relation "measure (\<lambda>(p, nm, depth). case p of None \<Rightarrow> 0 | Some q \<Rightarrow> Suc (length q))")
    (auto split: option.split dest: path_parse_shorter)

declare depth_loop.simps [simp del]

definition path_depth_cnt :: "u8 list \<Rightarrow> u32 fsm" where
  "path_depth_cnt pathname =
     bindM (getM junk_name) (\<lambda>junk.
     bindM (liftM (path_parse pathname junk)) (\<lambda>(p, nm).
     liftM (depth_loop p nm 0)))"

record path_search_record =
  searched_path :: "u8 list"
  parent_dir :: ptr
  file_type :: u32

definition record_zero :: path_search_record where
  "record_zero = \<lparr>searched_path = [], parent_dir = 0, file_type = 0\<rparr>"

text \<open>\<^verbatim>\<open>strcat\<close> on the array of 512 bytes that holds the searched path.\<close>

definition path_cat :: "u8 list \<Rightarrow> u8 list \<Rightarrow> u8 list res" where
  "path_cat path bs = (if length path + length bs < MAX_PATH_LEN then Inr (path @ bs) else Inl (Bad_access ''strcat past searched_path''))"

definition search_end :: "path_search_record \<Rightarrow> u32 \<Rightarrow> u32 \<Rightarrow> (u32 \<times> path_search_record) fsm" where
  "search_end r parent_inode_no ino =
     bindM (dir_close (parent_dir r)) (\<lambda>_.
     bindM (dir_open parent_inode_no) (\<lambda>d.
     returnM (ino, r\<lparr>parent_dir := d, file_type := FT_DIRECTORY\<rparr>)))"

function search_loop ::
  "u8 list option \<Rightarrow> u8 list \<Rightarrow> path_search_record \<Rightarrow> ptr \<Rightarrow> u32 \<Rightarrow> u32 \<Rightarrow> (u32 \<times> path_search_record) fsm" where
  "search_loop sub_path nm r parent parent_inode_no ino =
     (if nm ! 0 = 0 then search_end r parent_inode_no ino
      else
        bindM (assertM (length (searched_path r) < 512) ''strlen(searched_record->searched_path) < 512'') (\<lambda>_.
        bindM (liftM (path_cat (searched_path r) [47])) (\<lambda>path1.
        bindM (liftM (buf_cstr 0 nm)) (\<lambda>str.
        bindM (liftM (path_cat path1 str)) (\<lambda>path2.
        let r1 = r\<lparr>searched_path := path2\<rparr> in
        bindM (search_dir_entry parent str) (\<lambda>found.
        case found of
          None \<Rightarrow> returnM (-1, r1)
        | Some dir_e \<Rightarrow>
            (case sub_path of
               None \<Rightarrow>
                 if f_type dir_e = FT_DIRECTORY then
                   bindM (getM (\<lambda>s. i_no (inode_of s parent))) (\<lambda>pino.
                   bindM (dir_close parent) (\<lambda>_.
                   bindM (dir_open (de_i_no dir_e)) (\<lambda>d.
                   search_end (r1\<lparr>parent_dir := d\<rparr>) pino (de_i_no dir_e))))
                 else if f_type dir_e = FT_REGULAR then returnM (de_i_no dir_e, r1\<lparr>file_type := FT_REGULAR\<rparr>)
                 else search_end r1 parent_inode_no (de_i_no dir_e)
             | Some q \<Rightarrow>
                 (case path_parse q (replicate 16 0) of
                    Inl e \<Rightarrow> failM e
                  | Inr (sub_path', nm') \<Rightarrow>
                      if f_type dir_e = FT_DIRECTORY then
                        bindM (getM (\<lambda>s. i_no (inode_of s parent))) (\<lambda>pino.
                        bindM (dir_close parent) (\<lambda>_.
                        bindM (dir_open (de_i_no dir_e)) (\<lambda>d.
                        search_loop sub_path' nm' (r1\<lparr>parent_dir := d\<rparr>) d pino (de_i_no dir_e))))
                      else if f_type dir_e = FT_REGULAR then returnM (de_i_no dir_e, r1\<lparr>file_type := FT_REGULAR\<rparr>)
                      else search_loop sub_path' nm' r1 parent parent_inode_no (de_i_no dir_e)))))))))"
  by pat_completeness auto
termination
  by (relation "measure (\<lambda>(p, _). case p of None \<Rightarrow> 0 | Some q \<Rightarrow> Suc (length q))")
    (auto split: option.split dest: path_parse_shorter)

declare search_loop.simps [simp del]

text \<open>The first byte of the searched path is cleared for the root, which makes it the empty string.\<close>

definition search_file :: "u8 list \<Rightarrow> path_search_record \<Rightarrow> (u32 \<times> path_search_record) fsm" where
  "search_file pathname r =
     (if pathname = [47] \<or> pathname = [47, 46] \<or> pathname = [47, 46, 46] then
        returnM (0, r\<lparr>parent_dir := ROOT_DIR, file_type := FT_DIRECTORY, searched_path := []\<rparr>)
      else
        bindM (assertM (pathname \<noteq> [] \<and> hd pathname = 47 \<and> length pathname > 1 \<and> length pathname < MAX_PATH_LEN)
          ''pathname[0] == '/' && path_len > 1 && path_len < MAX_PATH_LEN'') (\<lambda>_.
        bindM (getM junk_ino) (\<lambda>junk.
        bindM (liftM (path_parse pathname (replicate 16 0))) (\<lambda>(sub_path, nm).
        search_loop sub_path nm (r\<lparr>parent_dir := ROOT_DIR, file_type := FT_UNKNOWN\<rparr>) ROOT_DIR 0 junk))))"

section \<open>Components\<close>

text \<open>The words of a string.\<close>

function words_of :: "u8 \<Rightarrow> u8 list \<Rightarrow> u8 list list" where
  "words_of t s = (let r = dropWhile (\<lambda>c. c = t) s in
     if r = [] then [] else takeWhile (\<lambda>c. c \<noteq> t) r # words_of t (dropWhile (\<lambda>c. c \<noteq> t) r))"
  by pat_completeness auto
termination
proof (relation "measure (\<lambda>(t, s). length s)", goal_cases)
  case (2 t s r)
  then have "r \<noteq> []" "hd r \<noteq> t" "length r \<le> length s"
    using hd_dropWhile [of "\<lambda>c. c = t" s] by (auto simp: length_dropWhile_le)
  then have "length (dropWhile (\<lambda>c. c \<noteq> t) r) < length r"
    by (cases r) (auto simp: le_imp_less_Suc length_dropWhile_le)
  with \<open>length r \<le> length s\<close> show ?case by simp
qed simp

declare words_of.simps [simp del]

lemma words_of_skip: "words_of t (t # s) = words_of t s"
  by (subst (1 2) words_of.simps) simp

lemma words_of_Nil: "words_of t [] = []"
  by (subst words_of.simps) simp

lemma dropWhile_until: "dropWhile (\<lambda>c. c \<noteq> t) r = [] \<or> (\<exists>rest. dropWhile (\<lambda>c. c \<noteq> t) r = t # rest)"
  by (induction r) auto

text \<open>One word of a string, as the loop sees it.\<close>

lemma word_split:
  assumes "dropWhile (\<lambda>c. c = t) s \<noteq> []" "0 \<notin> set s"
  obtains ts w rest where "s = ts @ w @ rest" "\<forall>x\<in>set ts. x = t" "w \<noteq> []" "\<forall>x\<in>set w. x \<noteq> t \<and> x \<noteq> 0"
    "rest = [] \<or> (\<exists>rest'. rest = t # rest')" "words_of t s = w # words_of t rest"
proof -
  let ?r = "dropWhile (\<lambda>c. c = t) s"
  have s: "s = takeWhile (\<lambda>c. c = t) s @ takeWhile (\<lambda>c. c \<noteq> t) ?r @ dropWhile (\<lambda>c. c \<noteq> t) ?r" by simp
  have "takeWhile (\<lambda>c. c \<noteq> t) ?r \<noteq> []" using hd_dropWhile [OF assms(1)] assms(1) by (cases ?r) auto
  moreover have "\<forall>x\<in>set (takeWhile (\<lambda>c. c \<noteq> t) ?r). x \<noteq> t \<and> x \<noteq> 0"
    using assms(2) by (auto dest!: set_takeWhileD set_dropWhileD)
  moreover have "dropWhile (\<lambda>c. c \<noteq> t) ?r = [] \<or> (\<exists>rest'. dropWhile (\<lambda>c. c \<noteq> t) ?r = t # rest')"
    by (rule dropWhile_until)
  moreover have "words_of t s = takeWhile (\<lambda>c. c \<noteq> t) ?r # words_of t (dropWhile (\<lambda>c. c \<noteq> t) ?r)"
    using assms(1) by (subst words_of.simps) (simp only: Let_def if_False)
  moreover have "\<forall>x\<in>set (takeWhile (\<lambda>c. c = t) s). x = t" by (auto dest: set_takeWhileD)
  ultimately show thesis by (intro that [OF s])
qed

text \<open>A call of \<^verbatim>\<open>path_parse\<close> takes the first component.\<close>

lemma words_of_cases:
  "words_of t s = [] \<longleftrightarrow> dropWhile (\<lambda>c. c = t) s = []"
  "words_of t s = w # ws \<longleftrightarrow> dropWhile (\<lambda>c. c = t) s \<noteq> [] \<and> w = takeWhile (\<lambda>c. c \<noteq> t) (dropWhile (\<lambda>c. c = t) s) \<and>
     ws = words_of t (dropWhile (\<lambda>c. c \<noteq> t) (dropWhile (\<lambda>c. c = t) s))"
proof -
  have e: "words_of t s = (if dropWhile (\<lambda>c. c = t) s = [] then []
    else takeWhile (\<lambda>c. c \<noteq> t) (dropWhile (\<lambda>c. c = t) s) # words_of t (dropWhile (\<lambda>c. c \<noteq> t) (dropWhile (\<lambda>c. c = t) s)))"
    by (subst words_of.simps) (simp only: Let_def)
  show "words_of t s = [] \<longleftrightarrow> dropWhile (\<lambda>c. c = t) s = []" by (cases "dropWhile (\<lambda>c. c = t) s") (simp_all only: e list.distinct if_True if_False simp_thms)
  show "words_of t s = w # ws \<longleftrightarrow> dropWhile (\<lambda>c. c = t) s \<noteq> [] \<and> w = takeWhile (\<lambda>c. c \<noteq> t) (dropWhile (\<lambda>c. c = t) s) \<and>
     ws = words_of t (dropWhile (\<lambda>c. c \<noteq> t) (dropWhile (\<lambda>c. c = t) s))"
    by (cases "dropWhile (\<lambda>c. c = t) s = []") (simp_all only: e list.distinct list.inject if_True if_False simp_thms eq_commute [of _ w] eq_commute [of _ ws])
qed

lemma path_parse_none: "words_of 47 q = [] \<Longrightarrow> path_parse q nm = Inr (None, nm)"
  unfolding words_of_cases by (simp only: path_parse_def Let_def) (simp add: buf_write_def)

lemma path_parse_some:
  assumes "words_of 47 q = w # ws" "length w \<le> 16" "0 \<notin> set q"
  obtains rest where "path_parse q (replicate 16 0) = Inr (rest, w @ replicate (16 - length w) 0)"
    "words_of 47 (case rest of None \<Rightarrow> [] | Some r \<Rightarrow> r) = ws" "\<And>r. rest = Some r \<Longrightarrow> length r < length q \<and> 0 \<notin> set r"
    "w \<noteq> []" "0 \<notin> set w"
proof -
  define r where "r = dropWhile (\<lambda>c. c = 47) q"
  define d where "d = dropWhile (\<lambda>c. c \<noteq> 47) r"
  have ne: "r \<noteq> []" and w: "w = takeWhile (\<lambda>c. c \<noteq> 47) r" and ws: "ws = words_of 47 d"
    using assms(1) unfolding words_of_cases d_def r_def by blast+
  have p: "path_parse q (replicate 16 0) = Inr (if d = [] then None else Some d, w @ replicate (16 - length w) 0)"
    unfolding path_parse_def Let_def r_def [symmetric] d_def [symmetric] w [symmetric] using assms(2) by (simp add: buf_write_def)
  have "hd r \<noteq> 47" using hd_dropWhile [of "\<lambda>c. c = 47" q] ne by (simp add: r_def)
  then have w1: "w \<noteq> []" using ne w by (cases r) auto
  have "0 \<notin> set r" using assms(3) by (auto simp: r_def dest: set_dropWhileD)
  then have z: "0 \<notin> set w" "0 \<notin> set d" by (auto simp: w d_def dest: set_takeWhileD set_dropWhileD)
  have "d \<noteq> [] \<Longrightarrow> length d < length q" unfolding d_def r_def by (rule rest_shorter)
  then show thesis using that [OF p] ws w1 z by (cases "d = []") (simp_all add: words_of_Nil)
qed

lemma depth_loop_counts:
  "w \<noteq> [] \<Longrightarrow> 0 \<notin> set w \<Longrightarrow> words_of 47 (case p of None \<Rightarrow> [] | Some q \<Rightarrow> q) = ws \<Longrightarrow> (\<And>q. p = Some q \<Longrightarrow> 0 \<notin> set q) \<Longrightarrow>
   \<forall>v\<in>set ws. length v \<le> 16 \<Longrightarrow> depth_loop p (w @ zs) depth = Inr (depth + 1 + of_nat (length ws))"
proof (induction ws arbitrary: p w zs depth)
  case Nil
  have "(w @ zs) ! 0 \<noteq> 0" using Nil.prems(1,2) by (cases w) auto
  then show ?case using Nil.prems(3)
    by (subst depth_loop.simps) (auto split: option.splits simp: path_parse_none, subst depth_loop.simps, simp)
next
  case (Cons v vs)
  obtain q where p: "p = Some q" using Cons.prems(3) by (cases p) (auto simp: words_of_Nil)
  obtain rest where r: "path_parse q (replicate 16 0) = Inr (rest, v @ replicate (16 - length v) 0)"
    "words_of 47 (case rest of None \<Rightarrow> [] | Some r \<Rightarrow> r) = vs" "\<And>r. rest = Some r \<Longrightarrow> length r < length q \<and> 0 \<notin> set r"
    "v \<noteq> []" "0 \<notin> set v"
    using path_parse_some [of q v vs] Cons.prems(3-5) p by auto
  have "(w @ zs) ! 0 \<noteq> 0" using Cons.prems(1,2) by (cases w) auto
  moreover have "depth_loop rest (v @ replicate (16 - length v) 0) (depth + 1) = Inr (depth + 1 + 1 + of_nat (length vs))"
    using Cons.prems(5) r by (intro Cons.IH) auto
  ultimately show ?case using p r(1) by (subst depth_loop.simps) (simp add: ac_simps)
qed

text \<open>The depth of a path is the number of its components.\<close>

lemma path_depth_cnt_components:
  assumes "words_of 47 path \<noteq> []" "0 \<notin> set path" "\<forall>v\<in>set (words_of 47 path). length v \<le> 16" "junk_name s = replicate 16 0"
  shows "path_depth_cnt path s = Inr (of_nat (length (words_of 47 path)), s)"
proof -
  obtain w ws where w: "words_of 47 path = w # ws" using assms(1) by (cases "words_of 47 path") auto
  obtain rest where r: "path_parse path (replicate 16 0) = Inr (rest, w @ replicate (16 - length w) 0)"
    "words_of 47 (case rest of None \<Rightarrow> [] | Some r \<Rightarrow> r) = ws" "\<And>r. rest = Some r \<Longrightarrow> length r < length path \<and> 0 \<notin> set r"
    "w \<noteq> []" "0 \<notin> set w"
    using path_parse_some [OF w] assms by (auto simp: w)
  have "depth_loop rest (w @ replicate (16 - length w) 0) 0 = Inr (0 + 1 + of_nat (length ws))"
    using assms(3) r w by (intro depth_loop_counts) auto
  then show ?thesis using r(1) assms(4) w by (simp add: path_depth_cnt_def fsm_defs)
qed

end
