(* ===== verification/VMem.thy ===== *)
theory VMem
  imports Sync
begin

text \<open>
  Page allocation (\<^verbatim>\<open>kernel/memory.c\<close>): virtual pages are taken from a bitmap of the kernel or of the
  running process, frames from the bitmap of one of the two pools, and the two are tied together in
  the page tables. A pool and the map of virtual addresses live in the record of the kernel; the
  pointer \<^verbatim>\<open>bits\<close> of a bitmap is the memory it points to, as in the theory \<open>Bitmap\<close>. Structures that
  the kernel later places in a page are kept in maps of their own and are initialised by the code
  that creates them, so clearing a page concerns the dwords of that page only.

  The second half gives the invariant of the kernel's address space: the bitmap of virtual pages,
  the bitmap of frames and the page tables agree. \<^verbatim>\<open>malloc_page\<close> and \<^verbatim>\<open>mfree_page\<close> keep it and are
  inverse to each other.
\<close>

section \<open>Bitmaps of virtual addresses\<close>

fun set_bits :: "nat \<Rightarrow> u32 \<Rightarrow> u8 \<Rightarrow> bitmap \<Rightarrow> bitmap res" where
  "set_bits 0 bit_idx value btmp = Inr btmp"
| "set_bits (Suc n) bit_idx value btmp =
     bindR (bitmap_set btmp bit_idx value) (set_bits n (bit_idx + 1) value)"

definition upd_uvaddr :: "bitmap \<Rightarrow> 'a kernel_scheme \<Rightarrow> 'a kernel_scheme" where
  "upd_uvaddr b s = upd_task (running_thread s)
     (\<lambda>t. t\<lparr>userprog_vaddr := (userprog_vaddr t)\<lparr>vaddr_bitmap := b\<rparr>\<rparr>) s"

definition upd_kvaddr :: "bitmap \<Rightarrow> 'a kernel_scheme \<Rightarrow> 'a kernel_scheme" where
  "upd_kvaddr b s = s\<lparr>kernel_vaddr := (kernel_vaddr s)\<lparr>vaddr_bitmap := b\<rparr>\<rparr>"

definition vaddr_get :: "pool_flags \<Rightarrow> u32 \<Rightarrow> 'a kernel_scheme \<Rightarrow> ('a kernel_scheme \<times> addr) res" where
  "vaddr_get pf pg_cnt s =
     (if pf = PF_KERNEL then
        bindR (bitmap_scan (vaddr_bitmap (kernel_vaddr s)) pg_cnt) (\<lambda>bit_idx_start.
        if bit_idx_start = -1 then Inr (s, NULL)
        else
          bindR (set_bits (unat pg_cnt) (word_of_int bit_idx_start) 1 (vaddr_bitmap (kernel_vaddr s))) (\<lambda>b.
          Inr (upd_kvaddr b s, vaddr_start (kernel_vaddr s) + word_of_int bit_idx_start * PG_SIZE)))
      else
        let cur = userprog_vaddr (tasks s (running_thread s)) in
        bindR (bitmap_scan (vaddr_bitmap cur) pg_cnt) (\<lambda>bit_idx_start.
        if bit_idx_start = -1 then Inr (s, NULL)
        else
          bindR (set_bits (unat pg_cnt) (word_of_int bit_idx_start) 1 (vaddr_bitmap cur)) (\<lambda>b.
          let vaddr = vaddr_start cur + word_of_int bit_idx_start * PG_SIZE in
          bindR (kassert (vaddr < 0xc0000000 - PG_SIZE) ''(uint32_t)vaddr_start < (0xc0000000 - PG_SIZE)'') (\<lambda>_.
          Inr (upd_uvaddr b s, vaddr)))))"

definition vaddr_remove :: "pool_flags \<Rightarrow> addr \<Rightarrow> u32 \<Rightarrow> 'a kernel_scheme \<Rightarrow> 'a kernel_scheme res" where
  "vaddr_remove pf vaddr pg_cnt s =
     (if pf = PF_KERNEL then
        let bit_idx_start = (vaddr - vaddr_start (kernel_vaddr s)) div PG_SIZE in
        bindR (set_bits (unat pg_cnt) bit_idx_start 0 (vaddr_bitmap (kernel_vaddr s))) (\<lambda>b. Inr (upd_kvaddr b s))
      else
        let cur = userprog_vaddr (tasks s (running_thread s));
            bit_idx_start = (vaddr - vaddr_start cur) div PG_SIZE in
        bindR (set_bits (unat pg_cnt) bit_idx_start 0 (vaddr_bitmap cur)) (\<lambda>b. Inr (upd_uvaddr b s)))"

section \<open>Pools of frames\<close>

definition pool_of :: "pool_flags \<Rightarrow> 'a kernel_scheme \<Rightarrow> pool" where
  "pool_of pf s = (if pf = PF_KERNEL then kernel_pool s else user_pool s)"

definition set_pool :: "pool_flags \<Rightarrow> pool \<Rightarrow> 'a kernel_scheme \<Rightarrow> 'a kernel_scheme" where
  "set_pool pf p s = (if pf = PF_KERNEL then s\<lparr>kernel_pool := p\<rparr> else s\<lparr>user_pool := p\<rparr>)"

text \<open>\<^verbatim>\<open>lock_acquire(&mem_pool->lock)\<close> and \<^verbatim>\<open>lock_release(&mem_pool->lock)\<close>.\<close>

definition pool_acquire :: "pool_flags \<Rightarrow> 'a kernel_scheme \<Rightarrow> 'a kernel_scheme res" where
  "pool_acquire pf s = bindR (lock_acquire (pool_lock (pool_of pf s)) s) (\<lambda>(l, s1).
     Inr (set_pool pf ((pool_of pf s1)\<lparr>pool_lock := l\<rparr>) s1))"

definition pool_release :: "pool_flags \<Rightarrow> 'a kernel_scheme \<Rightarrow> 'a kernel_scheme res" where
  "pool_release pf s = bindR (lock_release (pool_lock (pool_of pf s)) s) (\<lambda>(l, s1).
     Inr (set_pool pf ((pool_of pf s1)\<lparr>pool_lock := l\<rparr>) s1))"

definition pfree :: "u32 \<Rightarrow> 'a kernel_scheme \<Rightarrow> 'a kernel_scheme res" where
  "pfree pg_phy_addr s =
     (let pf = (if pg_phy_addr \<ge> phy_addr_start (user_pool s) then PF_USER else PF_KERNEL);
          mem_pool = pool_of pf s;
          bit_idx = (pg_phy_addr - phy_addr_start mem_pool) div PG_SIZE in
      bindR (bitmap_set (pool_bitmap mem_pool) bit_idx 0) (\<lambda>b.
      Inr (set_pool pf (mem_pool\<lparr>pool_bitmap := b\<rparr>) s)))"

definition free_a_phy_page :: "u32 \<Rightarrow> 'a kernel_scheme \<Rightarrow> 'a kernel_scheme res" where
  "free_a_phy_page pg_phy_addr s =
     (let pf = (if pg_phy_addr \<ge> phy_addr_start (user_pool s) then PF_USER else PF_KERNEL);
          mem_pool = pool_of pf s;
          bit_idx = (pg_phy_addr - phy_addr_start mem_pool) div PG_SIZE in
      bindR (bitmap_set (pool_bitmap mem_pool) bit_idx 0) (\<lambda>b.
      Inr (set_pool pf (mem_pool\<lparr>pool_bitmap := b\<rparr>) s)))"

section \<open>Pages\<close>

text \<open>
  The loop of \<^verbatim>\<open>malloc_page\<close>: a frame for each page, tied to it in the tables. The boolean says
  whether every page got one.
\<close>

fun map_pages :: "pool_flags \<Rightarrow> nat \<Rightarrow> addr \<Rightarrow> 'a kernel_scheme \<Rightarrow> ('a kernel_scheme \<times> bool) res" where
  "map_pages pf 0 vaddr s = Inr (s, True)"
| "map_pages pf (Suc cnt) vaddr s =
     bindR (palloc (pool_of pf s)) (\<lambda>(p, page_phyaddr).
     if page_phyaddr = NULL then Inr (set_pool pf p s, False)
     else bindR (page_table_add vaddr page_phyaddr (set_pool pf p s)) (map_pages pf cnt (vaddr + PG_SIZE)))"

definition malloc_page :: "pool_flags \<Rightarrow> u32 \<Rightarrow> 'a kernel_scheme \<Rightarrow> ('a kernel_scheme \<times> addr) res" where
  "malloc_page pf pg_cnt s =
     bindR (kassert (pg_cnt > 0 \<and> pg_cnt < 3840) ''pg_cnt > 0 && pg_cnt < 3840'') (\<lambda>_.
     bindR (vaddr_get pf pg_cnt s) (\<lambda>(s1, vaddr_start).
     if vaddr_start = NULL then Inr (s1, NULL)
     else bindR (map_pages pf (unat pg_cnt) vaddr_start s1) (\<lambda>(s2, mapped).
       Inr (s2, if mapped then vaddr_start else NULL))))"

text \<open>\<^verbatim>\<open>memset(vaddr, 0, size)\<close> of aligned memory, by dwords.\<close>

definition memzero :: "addr \<Rightarrow> u32 \<Rightarrow> 'a kernel_scheme \<Rightarrow> 'a kernel_scheme res" where
  "memzero vaddr sz s = clear_page_from (unat sz div 4) vaddr s"

definition get_kernel_pages :: "u32 \<Rightarrow> 'a kernel_scheme \<Rightarrow> ('a kernel_scheme \<times> addr) res" where
  "get_kernel_pages pg_cnt s =
     bindR (pool_acquire PF_KERNEL s) (\<lambda>s1.
     bindR (malloc_page PF_KERNEL pg_cnt s1) (\<lambda>(s2, vaddr).
     bindR (if vaddr \<noteq> NULL then memzero vaddr (pg_cnt * PG_SIZE) s2 else Inr s2) (\<lambda>s3.
     bindR (pool_release PF_KERNEL s3) (\<lambda>s4. Inr (s4, vaddr)))))"

definition get_user_pages :: "u32 \<Rightarrow> 'a kernel_scheme \<Rightarrow> ('a kernel_scheme \<times> addr) res" where
  "get_user_pages pg_cnt s =
     bindR (pool_acquire PF_USER s) (\<lambda>s1.
     bindR (malloc_page PF_USER pg_cnt s1) (\<lambda>(s2, vaddr).
     bindR (if vaddr \<noteq> NULL then memzero vaddr (pg_cnt * PG_SIZE) s2 else Inr s2) (\<lambda>s3.
     bindR (pool_release PF_USER s3) (\<lambda>s4. Inr (s4, vaddr)))))"

definition get_a_page :: "pool_flags \<Rightarrow> u32 \<Rightarrow> 'a kernel_scheme \<Rightarrow> ('a kernel_scheme \<times> addr) res" where
  "get_a_page pf vaddr s0 =
     bindR (pool_acquire pf s0) (\<lambda>s.
     let cur = tasks s (running_thread s) in
     bindR (if pgdir cur \<noteq> NULL \<and> pf = PF_USER then
              let bit_idx = (vaddr - vaddr_start (userprog_vaddr cur)) div PG_SIZE in
              bindR (kassert (sint bit_idx \<ge> 0) ''bit_idx >= 0'') (\<lambda>_.
              bindR (bitmap_set (vaddr_bitmap (userprog_vaddr cur)) bit_idx 1) (\<lambda>b. Inr (upd_uvaddr b s)))
            else if pgdir cur = NULL \<and> pf = PF_KERNEL then
              let bit_idx = (vaddr - vaddr_start (kernel_vaddr s)) div PG_SIZE in
              bindR (kassert (sint bit_idx > 0) ''bit_idx > 0'') (\<lambda>_.
              bindR (bitmap_set (vaddr_bitmap (kernel_vaddr s)) bit_idx 1) (\<lambda>b. Inr (upd_kvaddr b s)))
            else kpanic ''get_a_page:not allow kernel alloc userspace or user alloc kernelspace by get_a_page'') (\<lambda>s1.
     bindR (palloc (pool_of pf s1)) (\<lambda>(p, page_phyaddr).
     let s2 = set_pool pf p s1 in
     if page_phyaddr = NULL then bindR (pool_release pf s2) (\<lambda>s3. Inr (s3, NULL))
     else bindR (page_table_add vaddr page_phyaddr s2) (\<lambda>s3. bindR (pool_release pf s3) (\<lambda>s4. Inr (s4, vaddr))))))"

definition get_a_page_without_opvaddrbitmap ::
  "pool_flags \<Rightarrow> u32 \<Rightarrow> 'a kernel_scheme \<Rightarrow> ('a kernel_scheme \<times> addr) res" where
  "get_a_page_without_opvaddrbitmap pf vaddr s =
     bindR (pool_acquire pf s) (\<lambda>s1.
     bindR (palloc (pool_of pf s1)) (\<lambda>(p, page_phyaddr).
     let s2 = set_pool pf p s1 in
     if page_phyaddr = NULL then bindR (pool_release pf s2) (\<lambda>s3. Inr (s3, NULL))
     else bindR (page_table_add vaddr page_phyaddr s2) (\<lambda>s3. bindR (pool_release pf s3) (\<lambda>s4. Inr (s4, vaddr)))))"

text \<open>
  The loops of \<^verbatim>\<open>mfree_page\<close>, for frames of the user pool and of the kernel pool. The address is
  advanced before it is used, so the loop starts one page below.
\<close>

fun unmap_pages :: "pool_flags \<Rightarrow> nat \<Rightarrow> addr \<Rightarrow> 'a kernel_scheme \<Rightarrow> 'a kernel_scheme res" where
  "unmap_pages pool 0 vaddr s = Inr s"
| "unmap_pages pool (Suc cnt) vaddr0 s =
     (let vaddr = vaddr0 + PG_SIZE in
      bindR (addr_v2p vaddr s) (\<lambda>pg_phy_addr.
      bindR (if pool = PF_USER
             then kassert (pg_phy_addr mod PG_SIZE = 0 \<and> pg_phy_addr \<ge> phy_addr_start (user_pool s))
               ''(pg_phy_addr % PG_SIZE) == 0 && pg_phy_addr >= user_pool.phy_addr_start''
             else kassert (pg_phy_addr mod PG_SIZE = 0 \<and> pg_phy_addr \<ge> phy_addr_start (kernel_pool s) \<and>
                 pg_phy_addr < phy_addr_start (user_pool s))
               ''(pg_phy_addr % PG_SIZE) == 0 && pg_phy_addr >= kernel_pool.phy_addr_start && ...'') (\<lambda>_.
      bindR (pfree pg_phy_addr s) (\<lambda>s1.
      bindR (page_table_pte_remove vaddr s1) (unmap_pages pool cnt vaddr)))))"

definition mfree_page :: "pool_flags \<Rightarrow> addr \<Rightarrow> u32 \<Rightarrow> 'a kernel_scheme \<Rightarrow> 'a kernel_scheme res" where
  "mfree_page pf vaddr pg_cnt s =
     bindR (kassert (pg_cnt \<ge> 1 \<and> vaddr mod PG_SIZE = 0) ''pg_cnt >=1 && vaddr % PG_SIZE == 0'') (\<lambda>_.
     bindR (addr_v2p vaddr s) (\<lambda>pg_phy_addr.
     bindR (kassert (pg_phy_addr mod PG_SIZE = 0 \<and> pg_phy_addr \<ge> 0x102000)
              ''(pg_phy_addr % PG_SIZE) == 0 && pg_phy_addr >= 0x102000'') (\<lambda>_.
     bindR (unmap_pages (if pg_phy_addr \<ge> phy_addr_start (user_pool s) then PF_USER else PF_KERNEL)
              (unat pg_cnt) (vaddr - PG_SIZE) s) (\<lambda>s1.
     vaddr_remove pf vaddr pg_cnt s1))))"

section \<open>Initialisation\<close>

text \<open>
  \<^verbatim>\<open>mem_pool_init\<close>. The number of pages is kept in 16 bits, as in the code. The pointers of the two
  pools' bitmaps appear only in what is printed; the bytes that a bitmap does not cover keep their values.
\<close>

definition MEM_BITMAP_BASE :: u32 where
  "MEM_BITMAP_BASE = 0xc009a000"

definition K_HEAP_START :: u32 where
  "K_HEAP_START = 0xc0100000"

definition mem_pool_init :: "u32 \<Rightarrow> 'a kernel_scheme \<Rightarrow> 'a kernel_scheme" where
  "mem_pool_init all_mem s0 =
     (let s = put_str (''   mem_pool_init start'' @ NL) s0;
          page_table_size = PG_SIZE * 256;
          used_mem = page_table_size + 0x100000;
          free_mem = all_mem - used_mem;
          all_free_pages = (ucast (free_mem div PG_SIZE) :: u16);
          kernel_free_pages = all_free_pages div 2;
          user_free_pages = all_free_pages - kernel_free_pages;
          kbm_length = (ucast (kernel_free_pages div 8) :: u32);
          ubm_length = (ucast (user_free_pages div 8) :: u32);
          kp_start = used_mem;
          up_start = kp_start + ucast kernel_free_pages * PG_SIZE;
          kb = (pool_bitmap (kernel_pool s))\<lparr>btmp_bytes_len := kbm_length\<rparr>;
          ub = (pool_bitmap (user_pool s))\<lparr>btmp_bytes_len := ubm_length\<rparr>;
          vb = (vaddr_bitmap (kernel_vaddr s))\<lparr>btmp_bytes_len := kbm_length\<rparr>;
          s1 = emit (Put_int MEM_BITMAP_BASE) (put_str ''      kernel_pool_bitmap_start:'' s);
          s2 = put_str NL (emit (Put_int kp_start) (put_str '' kernel_pool_phy_addr_start:'' s1));
          s3 = emit (Put_int (MEM_BITMAP_BASE + kbm_length)) (put_str ''      user_pool_bitmap_start:'' s2);
          s4 = put_str NL (emit (Put_int up_start) (put_str '' user_pool_phy_addr_start:'' s3));
          s5 = s4\<lparr>kernel_pool := \<lparr>pool_bitmap = bitmap_init kb, phy_addr_start = kp_start,
                     pool_size = ucast kernel_free_pages * PG_SIZE, pool_lock = lock_init\<rparr>,
                   user_pool := \<lparr>pool_bitmap = bitmap_init ub, phy_addr_start = up_start,
                     pool_size = ucast user_free_pages * PG_SIZE, pool_lock = lock_init\<rparr>,
                   kernel_vaddr := \<lparr>vaddr_bitmap = bitmap_init vb, vaddr_start = K_HEAP_START,
                     bits_at = MEM_BITMAP_BASE + kbm_length + ubm_length\<rparr>\<rparr>
      in put_str (''   mem_pool_init done'' @ NL) s5)"

section \<open>The kernel's part of the tables\<close>

text \<open>
  An address of the kernel: its directory entry is one of 768 to 1022. The loader has a table for
  each of them, every address space shares these tables, and no two entries share one. (Entry 0 of
  the kernel's own directory does share the table of entry 768; nothing is said of it here.)
\<close>

definition kaddr :: "addr \<Rightarrow> bool" where
  "kaddr v \<longleftrightarrow> 768 \<le> unat (PDE_IDX v) \<and> unat (PDE_IDX v) < 1023"

definition ktab :: "'a kernel_scheme \<Rightarrow> addr \<Rightarrow> bool" where
  "ktab s f \<longleftrightarrow> (\<exists>v. kaddr v \<and> page_of (pmem s (pde_addr s v)) = f)"

definition ktables :: "'a kernel_scheme \<Rightarrow> bool" where
  "ktables s \<longleftrightarrow> self_mapped s \<and> \<not> ktab s (page_of (cr3 s)) \<and>
     (\<forall>v. kaddr v \<longrightarrow> pde_present s v) \<and>
     (\<forall>v w. kaddr v \<longrightarrow> kaddr w \<longrightarrow>
        page_of (pmem s (pde_addr s v)) = page_of (pmem s (pde_addr s w)) \<longrightarrow> PDE_IDX v = PDE_IDX w)"

lemma page_of_pde_addr: "page_of (pde_addr s v) = page_of (cr3 s)"
  unfolding pde_addr_def by (rule page_of_entry) (rule idx_1024)

lemma page_of_pte_addr: "page_of (pte_addr s v) = page_of (pmem s (pde_addr s v))"
  unfolding pte_addr_def by (rule page_of_entry) (rule idx_1024)

text \<open>A change of memory outside the directory and the kernel's tables changes no walk.\<close>

lemma ktables_frame:
  assumes kt: "ktables s" and c: "cr3 s' = cr3 s"
    and m: "\<And>a. page_of a = page_of (cr3 s) \<or> ktab s (page_of a) \<Longrightarrow> pmem s' a = pmem s a"
  shows "ktables s'" "ktab s' = ktab s" "kaddr v \<Longrightarrow> translate s' v = translate s v"
proof -
  have d: "pde_addr s' v = pde_addr s v" "pmem s' (pde_addr s v) = pmem s (pde_addr s v)" for v
    using c m page_of_pde_addr [of s v] by (simp_all add: pde_addr_def)
  show k: "ktab s' = ktab s" by (simp add: ktab_def fun_eq_iff d)
  have "page_of (page_of (cr3 s) + 4 * 1023) = page_of (cr3 s)" by (rule page_of_entry) simp
  then have "self_mapped s'" using kt c m [of "page_of (cr3 s) + 4 * 1023"] by (simp add: ktables_def self_mapped_def)
  then show "ktables s'" using kt unfolding ktables_def pde_present_def
    by (simp only: k c d simp_thms) (elim conjE, intro conjI)
  have "ktab s (page_of (pte_addr s v))" if "kaddr v" for v
    using that by (auto simp: ktab_def page_of_pte_addr)
  then show "translate s' v = translate s v" if "kaddr v" using that c d m by (intro translate_cong) simp_all
qed

lemma set_pte_kernel:
  assumes kt: "ktables s" and va: "kaddr va"
  shows "ktables (set_pte va e s)" "ktab (set_pte va e s) = ktab s"
    "kaddr v \<Longrightarrow> translate (set_pte va e s) v =
      (if page_of v = page_of va then if bit e 0 then Some (page_of e + (v AND 0xfff)) else None
       else translate s v)"
proof -
  let ?s = "set_pte va e s"
  have t: "ktab s (page_of (pte_addr s va))" "\<not> ktab s (page_of (cr3 s))"
    using kt va by (auto simp: ktab_def page_of_pte_addr ktables_def)
  have m: "pmem ?s a = pmem s a" if "page_of a = page_of (cr3 s)" for a using that t by (auto simp: set_pte_def)
  have c: "cr3 ?s = cr3 s" by (simp add: set_pte_def)
  have d: "pde_addr ?s v = pde_addr s v" "pmem ?s (pde_addr s v) = pmem s (pde_addr s v)" for v
    using c m [OF page_of_pde_addr, of v] by (simp_all add: pde_addr_def)
  show k: "ktab ?s = ktab s" by (simp add: ktab_def fun_eq_iff d)
  have "page_of (page_of (cr3 s) + 4 * 1023) = page_of (cr3 s)" by (rule page_of_entry) simp
  then have "self_mapped ?s" using kt c m [of "page_of (cr3 s) + 4 * 1023"] by (simp add: ktables_def self_mapped_def)
  then show "ktables ?s" using kt unfolding ktables_def pde_present_def
    by (simp only: k c d simp_thms) (elim conjE, intro conjI)
  show "translate ?s v = (if page_of v = page_of va then if bit e 0 then Some (page_of e + (v AND 0xfff)) else None
       else translate s v)" if v: "kaddr v"
  proof -
    have p: "pte_addr ?s v = pte_addr s v" "pde_present ?s v" using kt v by (simp_all add: pte_addr_def d pde_present_def ktables_def)
    have "pte_addr s v = pte_addr s va \<longleftrightarrow> page_of v = page_of va"
    proof
      assume eq: "pte_addr s v = pte_addr s va"
      note e = entry_inj [OF eq [unfolded pte_addr_def] idx_1024(2) idx_1024(2)]
      then have "PDE_IDX v = PDE_IDX va" using kt v va unfolding ktables_def by blast
      then show "page_of v = page_of va" using e by (simp add: page_of_eq_iff)
    next
      assume "page_of v = page_of va"
      then show "pte_addr s v = pte_addr s va" by (simp add: page_of_eq_iff pte_addr_def pde_addr_def)
    qed
    moreover have "pmem ?s (pte_addr s v) = (if pte_addr s v = pte_addr s va then e else pmem s (pte_addr s v))"
      by (simp add: set_pte_def)
    moreover have "pde_present s v" using kt v by (simp add: ktables_def)
    ultimately show ?thesis using p(2) unfolding translate_def p(1) by simp
  qed
qed

lemma kernel_add:
  assumes "ktables s" and "kaddr va" and "translate s va = None"
  shows "page_table_add va pa s = Inr (set_pte va (pa OR PG_US_U OR PG_RW_W OR PG_P_1) s)"
proof -
  have "self_mapped s" "pde_present s va" using assms by (simp_all add: ktables_def)
  then show ?thesis using assms(3) by (intro add_to_table) (auto simp: translate_def split: if_splits)
qed

lemma kernel_remove:
  assumes "ktables s" and "kaddr va"
  defines "s' \<equiv> set_pte va (pmem s (pte_addr s va) AND NOT PG_P_1) s"
  shows "page_table_pte_remove va s = Inr (emit (Invlpg (esp s)) s')"
    "kaddr v \<Longrightarrow> translate s' v = (if page_of v = page_of va then None else translate s v)"
proof -
  have "self_mapped s" "pde_present s va" using assms by (simp_all add: ktables_def)
  then show "page_table_pte_remove va s = Inr (emit (Invlpg (esp s)) s')"
    by (simp add: page_table_pte_remove_def Let_def load_pte store_pte set_pte_def s'_def)
  show "kaddr v \<Longrightarrow> translate s' v = (if page_of v = page_of va then None else translate s v)"
    using set_pte_kernel(3) [OF assms(1,2)] by (simp add: s'_def PG_P_1_def bit_simps)
qed

section \<open>The kernel's address space as a map\<close>

abbreviation kvb :: "'a kernel_scheme \<Rightarrow> bitmap" where
  "kvb s \<equiv> vaddr_bitmap (kernel_vaddr s)"

abbreviation kpb :: "'a kernel_scheme \<Rightarrow> bitmap" where
  "kpb s \<equiv> pool_bitmap (kernel_pool s)"

definition kpage :: "'a kernel_scheme \<Rightarrow> nat \<Rightarrow> addr" where
  "kpage s i = vaddr_start (kernel_vaddr s) + of_nat i * PG_SIZE"

definition kframe :: "'a kernel_scheme \<Rightarrow> nat \<Rightarrow> addr" where
  "kframe s k = of_nat k * PG_SIZE + phy_addr_start (kernel_pool s)"

text \<open>The sizes: the heap lies in the kernel's part of the address space, its frames below the user pool.\<close>

definition kbounds :: "'a kernel_scheme \<Rightarrow> bool" where
  "kbounds s \<longleftrightarrow> bm_ok (kvb s) \<and> bm_ok (kpb s) \<and>
     page_of (vaddr_start (kernel_vaddr s)) = vaddr_start (kernel_vaddr s) \<and>
     0xc0000000 \<le> unat (vaddr_start (kernel_vaddr s)) \<and>
     unat (vaddr_start (kernel_vaddr s)) + 4096 * bm_size (kvb s) \<le> 0xffc00000 \<and>
     page_of (phy_addr_start (kernel_pool s)) = phy_addr_start (kernel_pool s) \<and>
     0x102000 \<le> unat (phy_addr_start (kernel_pool s)) \<and>
     unat (phy_addr_start (kernel_pool s)) + 4096 * bm_size (kpb s) \<le> unat (phy_addr_start (user_pool s))"

text \<open>The frame number that page number \<open>i\<close> of the heap is tied to.\<close>

definition kmap :: "'a kernel_scheme \<Rightarrow> nat \<rightharpoonup> nat" where
  "kmap s i = (if i < bm_size (kvb s)
     then map_option (\<lambda>pa. (unat pa - unat (phy_addr_start (kernel_pool s))) div 4096) (translate s (kpage s i))
     else None)"

text \<open>
  The tables map heap pages to frames of the pool that are marked as used, no two pages to the same
  one; no table of the kernel lies in a frame of the pool, and the directory in no free one.
\<close>

definition kcore :: "'a kernel_scheme \<Rightarrow> bool" where
  "kcore s \<longleftrightarrow> ktables s \<and> kbounds s \<and>
     (\<forall>i<bm_size (kvb s). \<forall>pa. translate s (kpage s i) = Some pa \<longrightarrow> (\<exists>k\<in>bm_used (kpb s). pa = kframe s k)) \<and>
     inj_on (kmap s) (dom (kmap s)) \<and>
     (\<forall>k<bm_size (kpb s). \<not> ktab s (kframe s k) \<and> (k \<notin> bm_used (kpb s) \<longrightarrow> kframe s k \<noteq> page_of (cr3 s)))"

definition kvm :: "'a kernel_scheme \<Rightarrow> bool" where
  "kvm s \<longleftrightarrow> kcore s \<and> dom (kmap s) = bm_used (kvb s)"

lemma page_of_eq_self_iff: "page_of w = w \<longleftrightarrow> 4096 dvd unat w"
  by (auto simp: word_unat_eq_iff unat_page_of) (metis dvd_triv_right)

lemma page_of_add_pages:
  assumes "page_of w = w" and "unat w + 4096 * n \<le> 2 ^ 32" and "i < n"
  shows "unat (w + of_nat i * 4096) = unat w + 4096 * i" "page_of (w + of_nat i * 4096) = w + of_nat i * 4096"
proof -
  have "unat (of_nat i * 4096 :: u32) = 4096 * i" using assms(2,3) by (subst unat_mult_lt) (simp_all add: unat_of_nat_lt)
  then show u: "unat (w + of_nat i * 4096) = unat w + 4096 * i" using assms(2,3) by (subst unat_add_lt) simp_all
  show "page_of (w + of_nat i * 4096) = w + of_nat i * 4096"
    using assms(1) unfolding page_of_eq_self_iff u by simp
qed

lemma kpage_props:
  assumes "kbounds s" and "i < bm_size (kvb s)"
  shows "unat (kpage s i) = unat (vaddr_start (kernel_vaddr s)) + 4096 * i" "page_of (kpage s i) = kpage s i"
    "kaddr (kpage s i)" "kpage s i \<noteq> NULL"
proof -
  have b: "unat (vaddr_start (kernel_vaddr s)) + 4096 * bm_size (kvb s) \<le> 2 ^ 32"
    "page_of (vaddr_start (kernel_vaddr s)) = vaddr_start (kernel_vaddr s)"
    using assms(1) by (simp_all add: kbounds_def)
  show u: "unat (kpage s i) = unat (vaddr_start (kernel_vaddr s)) + 4096 * i" and "page_of (kpage s i) = kpage s i"
    using page_of_add_pages [OF b(2,1) assms(2)] by (simp_all add: kpage_def)
  have "0xc0000000 \<le> unat (kpage s i)" "unat (kpage s i) < 0xffc00000"
    using assms unfolding u kbounds_def by linarith+
  then show "kaddr (kpage s i)" "kpage s i \<noteq> NULL" by (auto simp: kaddr_def unat_PDE_IDX)
qed

lemma kframe_props:
  assumes "kbounds s" and "k < bm_size (kpb s)"
  shows "unat (kframe s k) = unat (phy_addr_start (kernel_pool s)) + 4096 * k" "page_of (kframe s k) = kframe s k"
    "kframe s k \<noteq> NULL" "kframe s k < phy_addr_start (user_pool s)" "kframe s k \<ge> phy_addr_start (kernel_pool s)"
    "kframe s k \<ge> 0x102000"
proof -
  have b: "unat (phy_addr_start (kernel_pool s)) + 4096 * bm_size (kpb s) \<le> 2 ^ 32"
    "page_of (phy_addr_start (kernel_pool s)) = phy_addr_start (kernel_pool s)"
    using assms(1) unat_bound [of "phy_addr_start (user_pool s)"] by (auto simp: kbounds_def)
  show u: "unat (kframe s k) = unat (phy_addr_start (kernel_pool s)) + 4096 * k" and "page_of (kframe s k) = kframe s k"
    using page_of_add_pages [OF b(2,1) assms(2)] by (simp_all add: kframe_def add.commute)
  have "0x102000 \<le> unat (kframe s k)" "unat (kframe s k) < unat (phy_addr_start (user_pool s))"
    using assms unfolding u kbounds_def by linarith+
  then show "kframe s k \<noteq> NULL" "kframe s k < phy_addr_start (user_pool s)"
    "kframe s k \<ge> phy_addr_start (kernel_pool s)" "kframe s k \<ge> 0x102000"
    using u by (auto simp: word_less_nat_alt word_le_nat_alt)
qed

lemma kcoreD:
  assumes "kcore s"
  shows "ktables s" "kbounds s"
    "i < bm_size (kvb s) \<Longrightarrow> translate s (kpage s i) = Some pa \<Longrightarrow> \<exists>k\<in>bm_used (kpb s). pa = kframe s k"
    "inj_on (kmap s) (dom (kmap s))" "k < bm_size (kpb s) \<Longrightarrow> \<not> ktab s (kframe s k)"
    "k < bm_size (kpb s) \<Longrightarrow> k \<notin> bm_used (kpb s) \<Longrightarrow> kframe s k \<noteq> page_of (cr3 s)"
    "bm_ok (kpb s)" "bm_ok (kvb s)"
  using assms by (simp_all add: kcore_def kbounds_def)

lemma used_bound: "k \<in> bm_used b \<Longrightarrow> k < bm_size b"
  by (simp add: bm_used_def)

lemma kmap_frame:
  assumes "kbounds s" and "k < bm_size (kpb s)"
  shows "(unat (kframe s k) - unat (phy_addr_start (kernel_pool s))) div 4096 = k"
  using kframe_props(1) [OF assms] by simp

lemma kmap_Some_iff:
  assumes "kcore s"
  shows "kmap s i = Some k \<longleftrightarrow>
    i < bm_size (kvb s) \<and> k \<in> bm_used (kpb s) \<and> translate s (kpage s i) = Some (kframe s k)"
proof -
  have "\<exists>k'\<in>bm_used (kpb s). pa = kframe s k' \<and> (unat pa - unat (phy_addr_start (kernel_pool s))) div 4096 = k'"
    if "i < bm_size (kvb s)" "translate s (kpage s i) = Some pa" for pa
    using kcoreD(3) [OF assms that] kmap_frame [OF kcoreD(2) [OF assms]] used_bound by blast
  then show ?thesis using kmap_frame [OF kcoreD(2) [OF assms]] used_bound
    by (auto simp: kmap_def split: option.splits)
qed

lemma kmap_None_iff: "i < bm_size (kvb s) \<Longrightarrow> kmap s i = None \<longleftrightarrow> translate s (kpage s i) = None"
  by (simp add: kmap_def)

text \<open>A frame from the pool.\<close>

lemma palloc_fresh:
  assumes "bm_ok (pool_bitmap p)" and "bm_used (pool_bitmap p) \<noteq> {..<bm_size (pool_bitmap p)}"
  shows "\<exists>b k. palloc p = Inr (p\<lparr>pool_bitmap := b\<rparr>, of_nat k * PG_SIZE + phy_addr_start p) \<and>
    k < bm_size (pool_bitmap p) \<and> k \<notin> bm_used (pool_bitmap p) \<and>
    bm_used b = insert k (bm_used (pool_bitmap p)) \<and> bm_size b = bm_size (pool_bitmap p) \<and> bm_ok b"
proof -
  let ?b = "pool_bitmap p"
  obtain b k where a: "bm_alloc ?b = Inr (b, k)" "k \<in> {..<bm_size ?b} - bm_used ?b" "bm_used b = insert k (bm_used ?b)"
    "{..<bm_size b} = {..<bm_size ?b}" "bm_ok b"
    using bm.alloc_fresh [OF assms] by blast
  obtain i where i: "bitmap_scan ?b 1 = Inr (int i)"
    using scan_first_fit [OF assms(1)] assms(2) by (auto simp: bm_full_iff)
  then have "k = i" "bitmap_set ?b (of_nat i) 1 = Inr b" using a(1) by (auto simp: bm_alloc_def res_iff)
  then have "palloc p = Inr (p\<lparr>pool_bitmap := b\<rparr>, of_nat k * PG_SIZE + phy_addr_start p)"
    using i by (simp add: palloc_def)
  moreover have "bm_size b = bm_size ?b" using a(4) by (metis card_lessThan)
  ultimately show ?thesis using a by (intro exI [of _ b] exI [of _ k]) simp
qed

lemma palloc_full:
  assumes "bm_used (pool_bitmap p) = {..<bm_size (pool_bitmap p)}"
  shows "palloc p = Inl (Assert_failed ''idx_byte < btmp->btmp_bytes_len'')"
  using scan_full [of "pool_bitmap p" 1] assms by (simp add: palloc_def bm_full_iff)

text \<open>What a change of the pool's bitmap and of memory leaves alone.\<close>

lemma kparts_upd [simp]:
  "kpage (s\<lparr>pmem := m\<rparr>) = kpage s" "kframe (s\<lparr>pmem := m\<rparr>) = kframe s"
  "kpage (s\<lparr>kernel_pool := p\<rparr>) = kpage s"
  "kframe (s\<lparr>kernel_pool := (kernel_pool s)\<lparr>pool_bitmap := b\<rparr>\<rparr>) = kframe s"
  by (simp_all add: kpage_def kframe_def fun_eq_iff)

lemma translate_pool [simp]:
  "translate (s\<lparr>kernel_pool := p\<rparr>) v = translate s v" "ktables (s\<lparr>kernel_pool := p\<rparr>) = ktables s"
  "ktab (s\<lparr>kernel_pool := p\<rparr>) f = ktab s f"
proof -
  let ?s = "s\<lparr>kernel_pool := p\<rparr>"
  have d: "pde_addr ?s = pde_addr s" "pde_present ?s = pde_present s"
    by (simp_all add: pde_addr_def pde_present_def fun_eq_iff)
  show "translate ?s v = translate s v" by (rule translate_cong) simp_all
  show k: "ktab ?s f = ktab s f" for f by (simp add: ktab_def d)
  show "ktables ?s = ktables s" unfolding ktables_def k by (simp add: d self_mapped_def)
qed

text \<open>
  Tying page \<open>i\<close> to the free frame \<open>k\<close>: the state after \<^verbatim>\<open>palloc\<close> and \<^verbatim>\<open>page_table_add\<close>.
\<close>

definition kmapped :: "nat \<Rightarrow> nat \<Rightarrow> bitmap \<Rightarrow> 'a kernel_scheme \<Rightarrow> 'a kernel_scheme" where
  "kmapped i k b s = set_pte (kpage s i) (kframe s k OR PG_US_U OR PG_RW_W OR PG_P_1)
     (s\<lparr>kernel_pool := (kernel_pool s)\<lparr>pool_bitmap := b\<rparr>\<rparr>)"

lemma kmapped_simps [simp]:
  "kernel_vaddr (kmapped i k b s) = kernel_vaddr s" "kpb (kmapped i k b s) = b" "cr3 (kmapped i k b s) = cr3 s"
  "phy_addr_start (kernel_pool (kmapped i k b s)) = phy_addr_start (kernel_pool s)"
  "user_pool (kmapped i k b s) = user_pool s" "kpage (kmapped i k b s) = kpage s" "kframe (kmapped i k b s) = kframe s"
  by (simp_all add: kmapped_def set_pte_def kpage_def kframe_def fun_eq_iff)

lemma kmapped_translate:
  assumes s: "kcore s" and i: "i < bm_size (kvb s)" and k: "k < bm_size (kpb s)"
  shows "ktables (kmapped i k b s)" "ktab (kmapped i k b s) = ktab s"
    "kaddr v \<Longrightarrow> translate (kmapped i k b s) v =
      (if page_of v = kpage s i then Some (kframe s k + (v AND 0xfff)) else translate s v)"
proof -
  note B = kcoreD(2) [OF s]
  have kt: "ktables (s\<lparr>kernel_pool := (kernel_pool s)\<lparr>pool_bitmap := b\<rparr>\<rparr>)" using kcoreD(1) [OF s] by simp
  note sp = set_pte_kernel [OF kt kpage_props(3) [OF B i], where e = "kframe s k OR PG_US_U OR PG_RW_W OR PG_P_1"]
  show "ktables (kmapped i k b s)" "ktab (kmapped i k b s) = ktab s"
    using sp(1,2) by (simp_all add: kmapped_def fun_eq_iff)
  show "kaddr v \<Longrightarrow> translate (kmapped i k b s) v =
      (if page_of v = kpage s i then Some (kframe s k + (v AND 0xfff)) else translate s v)"
    using sp(3) [of v] entry_bits [OF kframe_props(2) [OF B k]] kpage_props(2) [OF B i] by (simp add: kmapped_def)
qed

lemma kpage_eq_iff:
  assumes "kbounds s" and "i < bm_size (kvb s)" and "j < bm_size (kvb s)"
  shows "kpage s i = kpage s j \<longleftrightarrow> i = j"
  using kpage_props(1) [OF assms(1,2)] kpage_props(1) [OF assms(1,3)] by (auto simp: word_unat_eq_iff)

lemma kpage_offset: "page_of w = w \<Longrightarrow> w AND 0xfff = 0"
  using unat_offset [of w] page_of_eq_self_iff [of w] by (simp add: unsigned_eq_0_iff)

lemma kmapped_core:
  assumes s: "kcore s" and i: "i < bm_size (kvb s)" "kmap s i = None"
    and k: "k < bm_size (kpb s)" "k \<notin> bm_used (kpb s)"
    and b: "bm_used b = insert k (bm_used (kpb s))" "bm_size b = bm_size (kpb s)" "bm_ok b"
  shows "kmap (kmapped i k b s) = (kmap s)(i \<mapsto> k)" "kcore (kmapped i k b s)"
proof -
  let ?s = "kmapped i k b s"
  note B = kcoreD(2) [OF s] and tr = kmapped_translate [OF s i(1) k(1), where b = b]
  have page: "translate ?s (kpage s j) = (if j = i then Some (kframe s k) else translate s (kpage s j))"
    if "j < bm_size (kvb s)" for j
    using tr(3) [OF kpage_props(3) [OF B that]] kpage_props(2) [OF B that] kpage_eq_iff [OF B that i(1)]
      kpage_offset [OF kpage_props(2) [OF B that]] by (cases "j = i") auto
  show m: "kmap ?s = (kmap s)(i \<mapsto> k)"
    using i(1) page kmap_frame [OF B k(1)] by (auto simp: kmap_def fun_eq_iff)
  have "kbounds ?s" using B b by (simp add: kbounds_def)
  moreover have "\<exists>k'\<in>insert k (bm_used (kpb s)). pa = kframe s k'"
    if "j < bm_size (kvb s)" "translate ?s (kpage s j) = Some pa" for j pa
    using page [OF that(1)] that kcoreD(3) [OF s that(1)] by (cases "j = i") auto
  moreover have "k \<notin> ran (kmap s)" using k(2) kmap_Some_iff [OF s] by (auto simp: ran_def)
  then have "inj_on (kmap ?s) (dom (kmap ?s))"
    using kcoreD(4) [OF s] i(2) unfolding m by (auto simp: inj_on_def ran_def dom_def)
  ultimately show "kcore ?s" using tr(1,2) b kcoreD(5,6) [OF s] by (simp add: kcore_def)
qed

lemma map_one:
  assumes s: "kcore s" and i: "i < bm_size (kvb s)" "kmap s i = None"
    and free: "bm_used (kpb s) \<noteq> {..<bm_size (kpb s)}"
  shows "\<exists>k b. palloc (kernel_pool s) = Inr ((kernel_pool s)\<lparr>pool_bitmap := b\<rparr>, kframe s k) \<and>
    page_table_add (kpage s i) (kframe s k) (s\<lparr>kernel_pool := (kernel_pool s)\<lparr>pool_bitmap := b\<rparr>\<rparr>) = Inr (kmapped i k b s) \<and>
    k < bm_size (kpb s) \<and> k \<notin> bm_used (kpb s) \<and> bm_used b = insert k (bm_used (kpb s)) \<and> bm_size b = bm_size (kpb s) \<and> bm_ok b"
proof -
  obtain b k where p: "palloc (kernel_pool s) = Inr ((kernel_pool s)\<lparr>pool_bitmap := b\<rparr>, kframe s k)"
    "k < bm_size (kpb s)" "k \<notin> bm_used (kpb s)" "bm_used b = insert k (bm_used (kpb s))" "bm_size b = bm_size (kpb s)" "bm_ok b"
    using palloc_fresh [OF kcoreD(7) [OF s] free] unfolding kframe_def by blast
  have "page_table_add (kpage s i) (kframe s k) (s\<lparr>kernel_pool := (kernel_pool s)\<lparr>pool_bitmap := b\<rparr>\<rparr>) = Inr (kmapped i k b s)"
    unfolding kmapped_def
    by (rule kernel_add) (use kcoreD(1,2) [OF s] kpage_props(3) i kmap_None_iff in auto)
  with p show ?thesis by blast
qed

text \<open>What page allocation changes: memory, the frames in use, and the log of what devices were told.\<close>

definition mem_upd :: "'a kernel_scheme \<Rightarrow> 'a kernel_scheme \<Rightarrow> bool" where
  "mem_upd s s' \<longleftrightarrow> (\<exists>m b l. s' = s\<lparr>kernel_pool := (kernel_pool s)\<lparr>pool_bitmap := b\<rparr>, pmem := m, io_log := l\<rparr>)"

lemma mem_upd_refl: "mem_upd s s"
  unfolding mem_upd_def by (intro exI [of _ "pmem s"] exI [of _ "kpb s"] exI [of _ "io_log s"]) simp

lemma mem_upd_trans: "mem_upd s s' \<Longrightarrow> mem_upd s' s'' \<Longrightarrow> mem_upd s s''"
  by (clarsimp simp: mem_upd_def) blast

lemma mem_upd_same:
  assumes "mem_upd s s'"
  shows "kernel_vaddr s' = kernel_vaddr s" "kpage s' = kpage s" "kframe s' = kframe s" "cr3 s' = cr3 s" "esp s' = esp s"
    "tasks s' = tasks s" "pool_lock (kernel_pool s') = pool_lock (kernel_pool s)" "user_pool s' = user_pool s"
    "phy_addr_start (kernel_pool s') = phy_addr_start (kernel_pool s)" "running_thread s' = running_thread s"
  using assms by (auto simp: mem_upd_def kpage_def kframe_def running_thread_def)

lemma kmapped_upd: "mem_upd s (kmapped i k b s)"
  unfolding mem_upd_def kmapped_def set_pte_def by (intro exI [of _ "io_log s"] exI) simp

lemma kpage_Suc: "kpage s i + 4096 = kpage s (Suc i)"
  by (simp add: kpage_def algebra_simps)

text \<open>The pages \<open>i\<close> to \<open>i + n\<close> of the map are tied to the frames \<open>fs\<close>.\<close>

definition kmaps :: "nat \<Rightarrow> nat list \<Rightarrow> (nat \<rightharpoonup> nat) \<Rightarrow> nat \<rightharpoonup> nat" where
  "kmaps i fs m j = (if i \<le> j \<and> j < i + length fs then Some (fs ! (j - i)) else m j)"

lemma kmaps_Cons: "kmaps (Suc i) fs (m(i \<mapsto> k)) = kmaps i (k # fs) m"
  by (auto simp: kmaps_def fun_eq_iff nth_Cons' Suc_diff_le le_less_Suc_eq)

definition in_pages :: "'a kernel_scheme \<Rightarrow> nat \<Rightarrow> nat \<Rightarrow> addr \<Rightarrow> bool" where
  "in_pages s i n v \<longleftrightarrow> (\<exists>j. i \<le> j \<and> j < i + n \<and> page_of v = kpage s j)"

lemma map_pages_kernel:
  assumes "kcore s" and "i + n \<le> bm_size (kvb s)" and "\<And>j. i \<le> j \<Longrightarrow> j < i + n \<Longrightarrow> kmap s j = None"
    and "n \<le> card ({..<bm_size (kpb s)} - bm_used (kpb s))"
  shows "\<exists>s' fs. map_pages PF_KERNEL n (kpage s i) s = Inr (s', True) \<and> kcore s' \<and> mem_upd s s' \<and>
    length fs = n \<and> distinct fs \<and> set fs \<subseteq> {..<bm_size (kpb s)} - bm_used (kpb s) \<and>
    bm_used (kpb s') = bm_used (kpb s) \<union> set fs \<and> bm_size (kpb s') = bm_size (kpb s) \<and> kmap s' = kmaps i fs (kmap s) \<and>
    ktab s' = ktab s \<and> (\<forall>v. kaddr v \<longrightarrow> \<not> in_pages s i n v \<longrightarrow> translate s' v = translate s v)"
  using assms
proof (induction n arbitrary: i s)
  case 0
  have "kmaps i [] (kmap s) = kmap s" by (auto simp: kmaps_def fun_eq_iff)
  then show ?case using 0 mem_upd_refl [of s] by (intro exI [of _ s] exI [of _ "[]"]) simp
next
  case (Suc n)
  have i: "i < bm_size (kvb s)" "kmap s i = None" using Suc.prems(2,3) by simp_all
  have "bm_used (kpb s) \<noteq> {..<bm_size (kpb s)}"
  proof
    assume e: "bm_used (kpb s) = {..<bm_size (kpb s)}"
    show False using Suc.prems(4) unfolding e by simp
  qed
  then obtain k b where p: "palloc (kernel_pool s) = Inr ((kernel_pool s)\<lparr>pool_bitmap := b\<rparr>, kframe s k)"
    "page_table_add (kpage s i) (kframe s k) (s\<lparr>kernel_pool := (kernel_pool s)\<lparr>pool_bitmap := b\<rparr>\<rparr>) = Inr (kmapped i k b s)"
    and k: "k < bm_size (kpb s)" "k \<notin> bm_used (kpb s)"
    and b: "bm_used b = insert k (bm_used (kpb s))" "bm_size b = bm_size (kpb s)" "bm_ok b"
    using map_one [OF Suc.prems(1) i] by blast
  let ?s = "kmapped i k b s"
  note core = kmapped_core [OF Suc.prems(1) i k b]
  have "{..<bm_size b} - bm_used b = {..<bm_size (kpb s)} - bm_used (kpb s) - {k}" using b by auto
  then have card: "n \<le> card ({..<bm_size (kpb ?s)} - bm_used (kpb ?s))"
    using Suc.prems(4) k by (simp add: card_Diff_singleton_if)
  have None: "kmap ?s j = None" if "Suc i \<le> j" "j < Suc i + n" for j
    using that Suc.prems(3) [of j] by (simp add: core(1))
  have sz: "Suc i + n \<le> bm_size (kvb ?s)" using Suc.prems(2) by simp
  obtain s' fs where IH: "map_pages PF_KERNEL n (kpage s (Suc i)) ?s = Inr (s', True)" "kcore s'" "mem_upd ?s s'"
    "length fs = n" "distinct fs" "set fs \<subseteq> {..<bm_size b} - bm_used b"
    "bm_used (kpb s') = bm_used b \<union> set fs" "bm_size (kpb s') = bm_size b" "kmap s' = kmaps (Suc i) fs (kmap ?s)"
    "ktab s' = ktab ?s" "\<And>v. kaddr v \<Longrightarrow> \<not> in_pages ?s (Suc i) n v \<Longrightarrow> translate s' v = translate ?s v"
    using Suc.IH [OF core(2) sz None card] unfolding kmapped_simps by blast
  have run: "map_pages PF_KERNEL (Suc n) (kpage s i) s = Inr (s', True)"
    using p IH(1) kframe_props(3) [OF kcoreD(2) [OF Suc.prems(1)] k(1)]
    by (simp add: pool_of_def set_pool_def kpage_Suc)
  have tr: "translate s' v = translate s v" if "kaddr v" "\<not> in_pages s i (Suc n) v" for v
  proof -
    have "page_of v \<noteq> kpage s i" "\<not> in_pages ?s (Suc i) n v" using that(2) by (auto simp: in_pages_def)
    then show ?thesis using IH(11) [OF that(1)] kmapped_translate(3) [OF Suc.prems(1) i(1) k(1) that(1), of b] by simp
  qed
  show ?case
  proof (intro exI [of _ s'] exI [of _ "k # fs"] conjI allI impI)
    show "mem_upd s s'" by (rule mem_upd_trans [OF kmapped_upd IH(3)])
    show "kmap s' = kmaps i (k # fs) (kmap s)" by (simp add: IH(9) core(1) kmaps_Cons)
    show "ktab s' = ktab s" using IH(10) kmapped_translate(2) [OF Suc.prems(1) i(1) k(1), of b] by simp
  qed (use run IH(2,4-8) b k tr in auto)
qed

section \<open>Allocating pages of the kernel\<close>

lemma set_bits_spec:
  assumes "bm_ok b" and "unat i + n \<le> bm_size b" and "v = 0 \<or> v = 1"
  shows "\<exists>b'. set_bits n i v b = Inr b' \<and> bm_size b' = bm_size b \<and> bm_ok b' \<and>
    bm_used b' = (if v = 1 then bm_used b \<union> {unat i..<unat i + n} else bm_used b - {unat i..<unat i + n})"
  using assms
proof (induction n arbitrary: i b)
  case (Suc n)
  obtain b1 where b1: "bitmap_set b i v = Inr b1" using bitmap_set_returns [OF Suc.prems(3)] by blast
  have i: "unat i < bm_size b" "unat (i + 1) = Suc (unat i)"
    using Suc.prems(1,2) by (simp_all add: bm_ok_def unat_add_lt)
  have "bm_ok b1" "unat (i + 1) + n \<le> bm_size b1"
    using Suc.prems(1,2) i(2) by (simp_all add: bm_ok_set [OF b1] bm_size_set [OF b1])
  from Suc.IH [OF this Suc.prems(3)] obtain b' where b': "set_bits n (i + 1) v b1 = Inr b'" "bm_size b' = bm_size b1"
    "bm_ok b'" "bm_used b' = (if v = 1 then bm_used b1 \<union> {Suc (unat i)..<Suc (unat i) + n}
      else bm_used b1 - {Suc (unat i)..<Suc (unat i) + n})"
    unfolding i(2) by blast
  have "{unat i..<unat i + Suc n} = insert (unat i) {Suc (unat i)..<Suc (unat i) + n}" by auto
  then show ?case using b1 b' bm_size_set [OF b1] bm_used_set [OF b1 Suc.prems(1) i(1)] by auto
qed simp

text \<open>
  The bitmap of virtual pages with the pages \<open>i\<close> to \<open>i + n\<close> marked changes no walk.
\<close>

lemma upd_kvaddr_simps [simp]:
  "kernel_pool (upd_kvaddr b s) = kernel_pool s" "user_pool (upd_kvaddr b s) = user_pool s"
  "vaddr_start (kernel_vaddr (upd_kvaddr b s)) = vaddr_start (kernel_vaddr s)" "kvb (upd_kvaddr b s) = b"
  "kpage (upd_kvaddr b s) = kpage s" "kframe (upd_kvaddr b s) = kframe s" "cr3 (upd_kvaddr b s) = cr3 s"
  "translate (upd_kvaddr b s) v = translate s v" "ktables (upd_kvaddr b s) = ktables s"
  "ktab (upd_kvaddr b s) f = ktab s f" "esp (upd_kvaddr b s) = esp s" "tasks (upd_kvaddr b s) = tasks s"
proof -
  let ?s = "upd_kvaddr b s"
  show "kernel_pool ?s = kernel_pool s" "user_pool ?s = user_pool s" "vaddr_start (kernel_vaddr ?s) = vaddr_start (kernel_vaddr s)"
    "kvb ?s = b" "kpage ?s = kpage s" "kframe ?s = kframe s" and c: "cr3 ?s = cr3 s"
    and "esp ?s = esp s" "tasks ?s = tasks s"
    by (simp_all add: upd_kvaddr_def kpage_def kframe_def fun_eq_iff)
  have m: "pmem ?s = pmem s" by (simp add: upd_kvaddr_def)
  have d: "pde_addr ?s = pde_addr s" "pde_present ?s = pde_present s"
    by (simp_all add: pde_addr_def pde_present_def fun_eq_iff c m)
  show "translate ?s v = translate s v" by (rule translate_cong) (simp_all add: c m)
  show k: "ktab ?s f = ktab s f" for f by (simp add: ktab_def d m)
  show "ktables ?s = ktables s" unfolding ktables_def k by (simp add: d self_mapped_def c m)
qed

lemma upd_kvaddr_core:
  assumes "kcore s" and "bm_size b = bm_size (kvb s)" and "bm_ok b"
  shows "kcore (upd_kvaddr b s)" "kmap (upd_kvaddr b s) = kmap s"
proof -
  show m: "kmap (upd_kvaddr b s) = kmap s" using assms(2) by (simp add: kmap_def fun_eq_iff)
  have "kbounds (upd_kvaddr b s)" using assms by (simp add: kcore_def kbounds_def)
  then show "kcore (upd_kvaddr b s)" using assms unfolding kcore_def m by simp
qed

lemma vaddr_get_kernel:
  assumes s: "kvm s" and n: "0 < n" "n < 3840" and scan: "bitmap_scan (kvb s) (of_nat n) = Inr (int i)"
    and fit: "i + n \<le> bm_size (kvb s)"
  shows "\<exists>vb. vaddr_get PF_KERNEL (of_nat n) s = Inr (upd_kvaddr vb s, kpage s i) \<and> bm_size vb = bm_size (kvb s) \<and>
    bm_ok vb \<and> bm_used vb = bm_used (kvb s) \<union> {i..<i + n} \<and> (\<forall>j. i \<le> j \<longrightarrow> j < i + n \<longrightarrow> kmap s j = None)"
proof -
  have core: "kcore s" "dom (kmap s) = bm_used (kvb s)" using s by (simp_all add: kvm_def)
  note vok = kcoreD(8) [OF core(1)]
  have un: "unat (of_nat n :: u32) = n" using n by (simp add: unat_of_nat_lt)
  have ui: "unat (of_nat i :: u32) = i" using fit vok by (simp add: bm_ok_def unat_of_nat_lt)
  have "(of_nat n :: u32) \<noteq> 0" using n un by (metis unat_0 less_irrefl)
  then have "run_free (kvb s) i n" using scan_result_free(1) [OF vok scan] un by simp
  then have none: "\<forall>j. i \<le> j \<longrightarrow> j < i + n \<longrightarrow> kmap s j = None"
    using fit core(2) by (auto simp: run_free_def bm_used_def dom_def)
  obtain vb where vb: "set_bits n (of_nat i) 1 (kvb s) = Inr vb" "bm_size vb = bm_size (kvb s)" "bm_ok vb"
    "bm_used vb = bm_used (kvb s) \<union> {i..<i + n}"
    using set_bits_spec [OF vok, of "of_nat i" n 1] fit ui by auto
  moreover have "vaddr_get PF_KERNEL (of_nat n) s = Inr (upd_kvaddr vb s, kpage s i)"
    using scan vb(1) un by (simp add: vaddr_get_def kpage_def)
  ultimately show ?thesis using none by blast
qed

lemma malloc_page_kernel:
  assumes s: "kvm s" and n: "0 < n" "n < 3840" and scan: "bitmap_scan (kvb s) (of_nat n) = Inr (int i)"
    and fit: "i + n \<le> bm_size (kvb s)" and free: "n \<le> card ({..<bm_size (kpb s)} - bm_used (kpb s))"
  shows "\<exists>s' fs vb. malloc_page PF_KERNEL (of_nat n) s = Inr (s', kpage s i) \<and> kvm s' \<and> mem_upd (upd_kvaddr vb s) s' \<and>
    length fs = n \<and> distinct fs \<and> set fs \<subseteq> {..<bm_size (kpb s)} - bm_used (kpb s) \<and>
    bm_used (kpb s') = bm_used (kpb s) \<union> set fs \<and> bm_size (kpb s') = bm_size (kpb s) \<and>
    bm_used (kvb s') = bm_used (kvb s) \<union> {i..<i + n} \<and> bm_size (kvb s') = bm_size (kvb s) \<and>
    kmap s' = kmaps i fs (kmap s) \<and> (\<forall>j. i \<le> j \<longrightarrow> j < i + n \<longrightarrow> kmap s j = None) \<and>
    ktab s' = ktab s \<and> (\<forall>v. kaddr v \<longrightarrow> \<not> in_pages s i n v \<longrightarrow> translate s' v = translate s v)"
proof -
  have core: "kcore s" "dom (kmap s) = bm_used (kvb s)" using s by (simp_all add: kvm_def)
  note B = kcoreD(2) [OF core(1)]
  have un: "unat (of_nat n :: u32) = n" using n by (simp add: unat_of_nat_lt)
  obtain vb where get: "vaddr_get PF_KERNEL (of_nat n) s = Inr (upd_kvaddr vb s, kpage s i)"
    and vb: "bm_size vb = bm_size (kvb s)" "bm_ok vb" "bm_used vb = bm_used (kvb s) \<union> {i..<i + n}"
    and none: "\<And>j. i \<le> j \<Longrightarrow> j < i + n \<Longrightarrow> kmap s j = None"
    using vaddr_get_kernel [OF s n scan fit] by blast
  let ?s = "upd_kvaddr vb s"
  note k = upd_kvaddr_core [OF core(1) vb(1,2)]
  have "i + n \<le> bm_size (kvb ?s)" "n \<le> card ({..<bm_size (kpb ?s)} - bm_used (kpb ?s))"
    "\<And>j. i \<le> j \<Longrightarrow> j < i + n \<Longrightarrow> kmap ?s j = None" using fit free vb(1) none k(2) by simp_all
  from map_pages_kernel [OF k(1) this(1,3,2)] obtain s' fs where m:
    "map_pages PF_KERNEL n (kpage s i) ?s = Inr (s', True)" "kcore s'" "mem_upd ?s s'" "length fs = n" "distinct fs"
    "set fs \<subseteq> {..<bm_size (kpb s)} - bm_used (kpb s)" "bm_used (kpb s') = bm_used (kpb s) \<union> set fs"
    "bm_size (kpb s') = bm_size (kpb s)" "kmap s' = kmaps i fs (kmap s)"
    "ktab s' = ktab ?s" "\<And>v. kaddr v \<Longrightarrow> \<not> in_pages ?s i n v \<Longrightarrow> translate s' v = translate s v"
    unfolding k(2) upd_kvaddr_simps by blast
  have "i < bm_size (kvb s)" using fit n by simp
  then have run: "malloc_page PF_KERNEL (of_nat n) s = Inr (s', kpage s i)"
    using get m(1) un n kpage_props(4) [OF B] by (simp add: malloc_page_def word_less_nat_alt)
  have "kvb s' = vb" using mem_upd_same(1) [OF m(3)] by simp
  moreover have "dom (kmap s') = bm_used vb"
    unfolding m(9) vb(3) core(2) [symmetric] using m(4) by (auto simp: kmaps_def dom_def split: if_splits)
  ultimately have "kvm s'" using m(2) by (simp add: kvm_def)
  then show ?thesis using run m vb none \<open>kvb s' = vb\<close>
    by (intro exI [of _ s'] exI [of _ fs] exI [of _ vb]) (auto simp: in_pages_def)
qed

section \<open>Releasing pages of the kernel\<close>

lemma v2p_mapped: "self_mapped s \<Longrightarrow> translate s va = Some pa \<Longrightarrow> addr_v2p va s = Inr pa"
  by (auto simp: addr_v2p_def load_pte translate_def page_of_def split: if_splits)

lemma pfree_kernel:
  assumes "kcore s" and "k \<in> bm_used (kpb s)"
  shows "\<exists>b. pfree (kframe s k) s = Inr (s\<lparr>kernel_pool := (kernel_pool s)\<lparr>pool_bitmap := b\<rparr>\<rparr>) \<and>
    bm_used b = bm_used (kpb s) - {k} \<and> bm_size b = bm_size (kpb s) \<and> bm_ok b"
proof -
  have k: "k < bm_size (kpb s)" using assms(2) by (rule used_bound)
  note B = kcoreD(2) [OF assms(1)] and F = kframe_props [OF kcoreD(2) [OF assms(1)] k]
  have "unat ((kframe s k - phy_addr_start (kernel_pool s)) div 4096) = k"
    using F(1,5) by (simp add: unat_div unat_sub_le word_le_nat_alt)
  then have idx: "(kframe s k - phy_addr_start (kernel_pool s)) div 4096 = of_nat k"
    by (metis of_nat_unat ucast_id)
  obtain b where b: "bm_free (kpb s) k = Inr b" "bm_used b = bm_used (kpb s) - {k}"
    "{..<bm_size b} = {..<bm_size (kpb s)}" "bm_ok b"
    using bm.free_live [OF kcoreD(7) [OF assms(1)] assms(2)] by blast
  have "bm_size b = bm_size (kpb s)" using b(3) by (metis card_lessThan)
  then show ?thesis
    using b F(4) idx by (auto simp: pfree_def pool_of_def set_pool_def bm_free_def Let_def)
qed

definition kunmapped :: "nat \<Rightarrow> bitmap \<Rightarrow> 'a kernel_scheme \<Rightarrow> 'a kernel_scheme" where
  "kunmapped i b s = emit (Invlpg (esp s)) (set_pte (kpage s i) (pmem s (pte_addr s (kpage s i)) AND NOT PG_P_1)
     (s\<lparr>kernel_pool := (kernel_pool s)\<lparr>pool_bitmap := b\<rparr>\<rparr>))"

lemma kunmapped_simps [simp]:
  "kernel_vaddr (kunmapped i b s) = kernel_vaddr s" "kpb (kunmapped i b s) = b" "cr3 (kunmapped i b s) = cr3 s"
  "phy_addr_start (kernel_pool (kunmapped i b s)) = phy_addr_start (kernel_pool s)"
  "user_pool (kunmapped i b s) = user_pool s" "kpage (kunmapped i b s) = kpage s" "kframe (kunmapped i b s) = kframe s"
  by (simp_all add: kunmapped_def set_pte_def kpage_def kframe_def emit_def fun_eq_iff)

lemma kunmapped_upd: "mem_upd s (kunmapped i b s)"
  unfolding mem_upd_def kunmapped_def set_pte_def emit_def by (intro exI) (rule refl)

lemma emit_walk [simp]:
  "translate (emit e s) v = translate s v" "ktables (emit e s) = ktables s" "ktab (emit e s) f = ktab s f"
    for s :: "'a kernel_scheme"
proof -
  have c: "cr3 (emit e s) = cr3 s" "pmem (emit e s) = pmem s" by (simp_all add: emit_def)
  have d: "pde_addr (emit e s) = pde_addr s" "pde_present (emit e s) = pde_present s"
    by (simp_all add: pde_addr_def pde_present_def fun_eq_iff c)
  show "translate (emit e s) v = translate s v" by (rule translate_cong) (simp_all add: c)
  show k: "ktab (emit e s) f = ktab s f" for f by (simp add: ktab_def d c)
  show "ktables (emit e s) = ktables s" unfolding ktables_def k by (simp add: d self_mapped_def c)
qed

lemma kunmapped_translate:
  assumes s: "kcore s" and i: "i < bm_size (kvb s)"
  shows "ktables (kunmapped i b s)" "ktab (kunmapped i b s) = ktab s"
    "kaddr v \<Longrightarrow> translate (kunmapped i b s) v = (if page_of v = kpage s i then None else translate s v)"
    "page_table_pte_remove (kpage s i) (s\<lparr>kernel_pool := (kernel_pool s)\<lparr>pool_bitmap := b\<rparr>\<rparr>) = Inr (kunmapped i b s)"
proof -
  note B = kcoreD(2) [OF s]
  let ?s = "s\<lparr>kernel_pool := (kernel_pool s)\<lparr>pool_bitmap := b\<rparr>\<rparr>"
  have kt: "ktables ?s" using kcoreD(1) [OF s] by simp
  have pte: "pte_addr ?s v = pte_addr s v" for v by (simp add: pte_addr_def pde_addr_def)
  note sp = set_pte_kernel [OF kt kpage_props(3) [OF B i], where e = "pmem s (pte_addr s (kpage s i)) AND NOT PG_P_1"]
  note rm = kernel_remove [OF kt kpage_props(3) [OF B i]]
  show "ktables (kunmapped i b s)" "ktab (kunmapped i b s) = ktab s"
    using sp(1,2) by (simp_all add: kunmapped_def fun_eq_iff)
  show "kaddr v \<Longrightarrow> translate (kunmapped i b s) v = (if page_of v = kpage s i then None else translate s v)"
    using rm(2) [of v] kpage_props(2) [OF B i] by (simp add: kunmapped_def pte)
  show "page_table_pte_remove (kpage s i) ?s = Inr (kunmapped i b s)"
    using rm(1) by (simp add: kunmapped_def pte)
qed

lemma kunmapped_core:
  assumes s: "kcore s" and i: "kmap s i = Some k" and c: "kframe s k \<noteq> page_of (cr3 s)"
    and b: "bm_used b = bm_used (kpb s) - {k}" "bm_size b = bm_size (kpb s)" "bm_ok b"
  shows "kmap (kunmapped i b s) = (kmap s)(i := None)" "kcore (kunmapped i b s)"
proof -
  let ?s = "kunmapped i b s"
  have ik: "i < bm_size (kvb s)" "k \<in> bm_used (kpb s)" "translate s (kpage s i) = Some (kframe s k)"
    using i kmap_Some_iff [OF s] by simp_all
  note B = kcoreD(2) [OF s] and tr = kunmapped_translate [OF s ik(1), where b = b]
  have page: "translate ?s (kpage s j) = (if j = i then None else translate s (kpage s j))" if "j < bm_size (kvb s)" for j
    using tr(3) [OF kpage_props(3) [OF B that]] kpage_props(2) [OF B that] kpage_eq_iff [OF B that ik(1)] by simp
  show m: "kmap ?s = (kmap s)(i := None)" using ik(1) page by (auto simp: kmap_def fun_eq_iff)
  have "kbounds ?s" using B b by (simp add: kbounds_def)
  moreover have "\<exists>k'\<in>bm_used (kpb s) - {k}. pa = kframe s k'"
    if j: "j < bm_size (kvb s)" "translate ?s (kpage s j) = Some pa" for j pa
  proof -
    have ji: "j \<noteq> i" "translate s (kpage s j) = Some pa" using page [OF j(1)] j(2) by (auto split: if_splits)
    then obtain k' where k': "k' \<in> bm_used (kpb s)" "pa = kframe s k'" using kcoreD(3) [OF s j(1)] by blast
    then have "kmap s j = Some k'" using kmap_Some_iff [OF s] ji j(1) by simp
    then have "k' \<noteq> k" using ji(1) i kcoreD(4) [OF s] by (auto simp: inj_on_def dom_def)
    then show ?thesis using k' by blast
  qed
  moreover have "inj_on (kmap ?s) (dom (kmap ?s))"
    using kcoreD(4) [OF s] unfolding m by (auto simp: inj_on_def dom_def)
  ultimately show "kcore ?s" using tr(1,2) b c kcoreD(5,6) [OF s] by (auto simp: kcore_def)
qed

lemma unmap_pages_kernel:
  assumes "kcore s" and "i + n \<le> bm_size (kvb s)" and "length fs = n" and "distinct fs"
    and "\<And>j. j < n \<Longrightarrow> kmap s (i + j) = Some (fs ! j)" and "\<And>k. k \<in> set fs \<Longrightarrow> kframe s k \<noteq> page_of (cr3 s)"
  shows "\<exists>s'. unmap_pages PF_KERNEL n (kpage s i - PG_SIZE) s = Inr s' \<and> kcore s' \<and> mem_upd s s' \<and>
    bm_used (kpb s') = bm_used (kpb s) - set fs \<and> bm_size (kpb s') = bm_size (kpb s) \<and>
    kmap s' = kmap s |` (- {i..<i + n}) \<and> ktab s' = ktab s \<and>
    (\<forall>v. kaddr v \<longrightarrow> \<not> in_pages s i n v \<longrightarrow> translate s' v = translate s v)"
  using assms
proof (induction n arbitrary: i s fs)
  case 0
  then show ?case using mem_upd_refl [of s] by (intro exI [of _ s]) (auto simp: restrict_map_def fun_eq_iff)
next
  case (Suc n)
  obtain k fs' where fs: "fs = k # fs'" "length fs' = n" using Suc.prems(3) by (cases fs) auto
  have i: "i < bm_size (kvb s)" "kmap s i = Some k" using Suc.prems(2) Suc.prems(5) [of 0] fs by simp_all
  then have tr: "k \<in> bm_used (kpb s)" "translate s (kpage s i) = Some (kframe s k)"
    using kmap_Some_iff [OF Suc.prems(1)] by simp_all
  note F = kframe_props [OF kcoreD(2) [OF Suc.prems(1)] used_bound [OF tr(1)]]
  have "kframe s k mod 4096 = 0"
    using F(2) unfolding page_of_eq_self_iff by (simp add: word_unat_eq_iff unat_mod dvd_eq_mod_eq_0)
  obtain b where p: "pfree (kframe s k) s = Inr (s\<lparr>kernel_pool := (kernel_pool s)\<lparr>pool_bitmap := b\<rparr>\<rparr>)"
    and b: "bm_used b = bm_used (kpb s) - {k}" "bm_size b = bm_size (kpb s)" "bm_ok b"
    using pfree_kernel [OF Suc.prems(1) tr(1)] by blast
  let ?s = "kunmapped i b s"
  have c: "kframe s k \<noteq> page_of (cr3 s)" using Suc.prems(6) fs(1) by simp
  note core = kunmapped_core [OF Suc.prems(1) i(2) c b]
  have step: "unmap_pages PF_KERNEL (Suc n) (kpage s i - PG_SIZE) s = unmap_pages PF_KERNEL n (kpage s (Suc i) - PG_SIZE) ?s"
    using v2p_mapped [OF _ tr(2)] kcoreD(1) [OF Suc.prems(1)] F(4,5) \<open>kframe s k mod 4096 = 0\<close> p
      kunmapped_translate(4) [OF Suc.prems(1) i(1)] by (simp add: ktables_def kpage_Suc [symmetric])
  have "Suc i + n \<le> bm_size (kvb ?s)" "distinct fs'" "\<And>j. j < n \<Longrightarrow> kmap ?s (Suc i + j) = Some (fs' ! j)"
    "\<And>k. k \<in> set fs' \<Longrightarrow> kframe ?s k \<noteq> page_of (cr3 ?s)"
    using Suc.prems(2,4) Suc.prems(5) [of "Suc _"] Suc.prems(6) fs core(1) by simp_all
  from Suc.IH [OF core(2) this(1) fs(2) this(2-4)] obtain s' where s':
    "unmap_pages PF_KERNEL n (kpage s (Suc i) - PG_SIZE) ?s = Inr s'" "kcore s'" "mem_upd ?s s'"
    "bm_used (kpb s') = bm_used b - set fs'" "bm_size (kpb s') = bm_size b"
    "kmap s' = kmap ?s |` (- {Suc i..<Suc i + n})" "ktab s' = ktab ?s"
    "\<And>v. kaddr v \<Longrightarrow> \<not> in_pages ?s (Suc i) n v \<Longrightarrow> translate s' v = translate ?s v"
    unfolding kunmapped_simps by blast
  have tr': "translate s' v = translate s v" if "kaddr v" "\<not> in_pages s i (Suc n) v" for v
  proof -
    have "page_of v \<noteq> kpage s i" "\<not> in_pages ?s (Suc i) n v" using that(2) by (auto simp: in_pages_def)
    then show ?thesis using s'(8) [OF that(1)] kunmapped_translate(3) [OF Suc.prems(1) i(1) that(1), of b] by simp
  qed
  show ?case
  proof (intro exI [of _ s'] conjI allI impI)
    show "mem_upd s s'" by (rule mem_upd_trans [OF kunmapped_upd s'(3)])
    show "kmap s' = kmap s |` (- {i..<i + Suc n})"
      unfolding s'(6) core(1) by (auto simp: restrict_map_def fun_eq_iff)
    show "ktab s' = ktab s" using s'(7) kunmapped_translate(2) [OF Suc.prems(1) i(1), of b] by simp
  qed (use step s'(1,2,4,5) b fs tr' in auto)
qed

lemma mfree_page_kernel:
  assumes s: "kvm s" and n: "0 < n" "i + n \<le> bm_size (kvb s)" and fs: "length fs = n" "distinct fs"
    "\<And>j. j < n \<Longrightarrow> kmap s (i + j) = Some (fs ! j)" "\<And>k. k \<in> set fs \<Longrightarrow> kframe s k \<noteq> page_of (cr3 s)"
  shows "\<exists>s'. mfree_page PF_KERNEL (kpage s i) (of_nat n) s = Inr s' \<and> kvm s' \<and> mem_upd s (upd_kvaddr (kvb s) s') \<and>
    bm_used (kpb s') = bm_used (kpb s) - set fs \<and> bm_used (kvb s') = bm_used (kvb s) - {i..<i + n} \<and>
    bm_size (kpb s') = bm_size (kpb s) \<and> bm_size (kvb s') = bm_size (kvb s) \<and>
    kmap s' = kmap s |` (- {i..<i + n}) \<and> ktab s' = ktab s \<and>
    (\<forall>v. kaddr v \<longrightarrow> \<not> in_pages s i n v \<longrightarrow> translate s' v = translate s v)"
proof -
  have core: "kcore s" "dom (kmap s) = bm_used (kvb s)" using s by (simp_all add: kvm_def)
  note B = kcoreD(2) [OF core(1)] and vok = kcoreD(8) [OF core(1)]
  have i: "i < bm_size (kvb s)" using n by simp
  have un: "unat (of_nat n :: u32) = n" and ui: "unat (of_nat i :: u32) = i"
    using n vok by (simp_all add: bm_ok_def unat_of_nat_lt)
  have "kmap s i = Some (fs ! 0)" using fs(3) [of 0] n(1) by simp
  then have tr: "fs ! 0 \<in> bm_used (kpb s)" "translate s (kpage s i) = Some (kframe s (fs ! 0))"
    using kmap_Some_iff [OF core(1)] by simp_all
  note F = kframe_props [OF B used_bound [OF tr(1)]] and P = kpage_props [OF B i]
  have mod: "kframe s (fs ! 0) mod 4096 = 0" "kpage s i mod 4096 = 0"
    using F(2) P(2) unfolding page_of_eq_self_iff by (simp_all add: word_unat_eq_iff unat_mod dvd_eq_mod_eq_0)
  obtain s1 where s1: "unmap_pages PF_KERNEL n (kpage s i - PG_SIZE) s = Inr s1" "kcore s1" "mem_upd s s1"
    "bm_used (kpb s1) = bm_used (kpb s) - set fs" "bm_size (kpb s1) = bm_size (kpb s)"
    "kmap s1 = kmap s |` (- {i..<i + n})" "ktab s1 = ktab s"
    "\<And>v. kaddr v \<Longrightarrow> \<not> in_pages s i n v \<Longrightarrow> translate s1 v = translate s v"
    using unmap_pages_kernel [OF core(1) n(2) fs] by blast
  have kv: "kernel_vaddr s1 = kernel_vaddr s" by (rule mem_upd_same(1) [OF s1(3)])
  have "unat ((kpage s i - vaddr_start (kernel_vaddr s)) div 4096) = i"
    using P(1) by (simp add: unat_div unat_sub_le)
  then have idx: "(kpage s i - vaddr_start (kernel_vaddr s)) div 4096 = of_nat i" by (metis of_nat_unat ucast_id)
  obtain vb where vb: "set_bits n (of_nat i) 0 (kvb s) = Inr vb" "bm_size vb = bm_size (kvb s)" "bm_ok vb"
    "bm_used vb = bm_used (kvb s) - {i..<i + n}"
    using set_bits_spec [OF vok, of "of_nat i" n 0] n ui by auto
  let ?s = "upd_kvaddr vb s1"
  note k = upd_kvaddr_core [OF s1(2), of vb] vb
  have "mfree_page PF_KERNEL (kpage s i) (of_nat n) s = Inr ?s"
    using n(1) un mod v2p_mapped [OF _ tr(2)] kcoreD(1) [OF core(1)] F(4,6) s1(1) vb(1) idx kv
    by (simp add: mfree_page_def ktables_def vaddr_remove_def Let_def word_le_nat_alt word_less_nat_alt not_le)
  moreover have "kvm ?s" using k vb(4) core(2) s1(6) kv by (auto simp: kvm_def)
  moreover have "upd_kvaddr (kvb s) ?s = s1" using kv by (simp add: upd_kvaddr_def)
  ultimately show ?thesis using s1 k kv by (intro exI [of _ ?s]) (auto simp: fun_eq_iff)
qed

text \<open>When the frames run out, the assertion of the bitmap stops the kernel.\<close>

lemma map_pages_exhausted:
  assumes "kcore s" and "i + n \<le> bm_size (kvb s)" and "\<And>j. i \<le> j \<Longrightarrow> j < i + n \<Longrightarrow> kmap s j = None"
    and "n > card ({..<bm_size (kpb s)} - bm_used (kpb s))"
  shows "map_pages PF_KERNEL n (kpage s i) s = Inl (Assert_failed ''idx_byte < btmp->btmp_bytes_len'')"
  using assms
proof (induction n arbitrary: i s)
  case (Suc n)
  show ?case
  proof (cases "bm_used (kpb s) = {..<bm_size (kpb s)}")
    case True
    then show ?thesis using palloc_full [of "kernel_pool s"] by (simp add: pool_of_def)
  next
    case False
    have i: "i < bm_size (kvb s)" "kmap s i = None" using Suc.prems(2,3) by simp_all
    obtain k b where p: "palloc (kernel_pool s) = Inr ((kernel_pool s)\<lparr>pool_bitmap := b\<rparr>, kframe s k)"
      "page_table_add (kpage s i) (kframe s k) (s\<lparr>kernel_pool := (kernel_pool s)\<lparr>pool_bitmap := b\<rparr>\<rparr>) = Inr (kmapped i k b s)"
      and k: "k < bm_size (kpb s)" "k \<notin> bm_used (kpb s)"
      and b: "bm_used b = insert k (bm_used (kpb s))" "bm_size b = bm_size (kpb s)" "bm_ok b"
      using map_one [OF Suc.prems(1) i False] by blast
    note core = kmapped_core [OF Suc.prems(1) i k b]
    have "{..<bm_size b} - bm_used b = {..<bm_size (kpb s)} - bm_used (kpb s) - {k}" using b by auto
    moreover have "card ({..<bm_size (kpb s)} - bm_used (kpb s)) > 0" using k by (auto simp: card_gt_0_iff)
    ultimately have "n > card ({..<bm_size (kpb (kmapped i k b s))} - bm_used (kpb (kmapped i k b s)))"
      using Suc.prems(4) k by (simp add: card_Diff_singleton_if)
    moreover have "kmap (kmapped i k b s) j = None" if "Suc i \<le> j" "j < Suc i + n" for j
      using that Suc.prems(3) [of j] by (simp add: core(1))
    ultimately have "map_pages PF_KERNEL n (kpage (kmapped i k b s) (Suc i)) (kmapped i k b s) =
        Inl (Assert_failed ''idx_byte < btmp->btmp_bytes_len'')"
      using Suc.prems(2) by (intro Suc.IH core(2)) simp_all
    then show ?thesis using p kframe_props(3) [OF kcoreD(2) [OF Suc.prems(1)] k(1)]
      by (simp add: pool_of_def set_pool_def kpage_Suc)
  qed
qed simp

section \<open>The state after initialisation\<close>

text \<open>
  What the loader leaves: the kernel's tables, all of them and the directory below 2 MB, and no page
  of the heap mapped.
\<close>

definition loader_ok :: "'a kernel_scheme \<Rightarrow> bool" where
  "loader_ok s \<longleftrightarrow> ktables s \<and> unat (page_of (cr3 s)) < 0x200000 \<and> (\<forall>f. ktab s f \<longrightarrow> unat f < 0x200000) \<and>
     (\<forall>v. kaddr v \<longrightarrow> 0xc0100000 \<le> unat v \<longrightarrow> translate s v = None)"

lemma bm_used_init [simp]: "bm_size (bitmap_init b) = bm_size b" "bm_used (bitmap_init b) = {}"
proof -
  show "bm_size (bitmap_init b) = bm_size b" by (simp add: bitmap_init_def bm_size_def)
  have "of_nat (i div 8) < btmp_bytes_len b" if "i < bm_size b" for i
    using that unat_bound [of "btmp_bytes_len b"] by (simp add: bm_size_def word_less_nat_alt unat_of_nat_lt)
  then show "bm_used (bitmap_init b) = {}" by (auto simp: bm_used_def bm_size_def bitmap_init_def bm_bit_def)
qed

lemma mem_pool_init_fields:
  fixes all_mem :: u32 and s :: "'a kernel_scheme"
  assumes "0x200000 \<le> all_mem"
  defines "a \<equiv> (unat all_mem - 0x200000) div 4096 mod 65536"
  defines "s' \<equiv> mem_pool_init all_mem s"
  shows "unat (phy_addr_start (kernel_pool s')) = 0x200000"
    "unat (phy_addr_start (user_pool s')) = 0x200000 + 4096 * (a div 2)"
    "bm_size (kpb s') = 8 * (a div 2 div 8)" "bm_size (kvb s') = 8 * (a div 2 div 8)"
    "bm_size (pool_bitmap (user_pool s')) = 8 * ((a - a div 2) div 8)"
    "bm_used (kpb s') = {}" "bm_used (kvb s') = {}" "bm_used (pool_bitmap (user_pool s')) = {}"
    "vaddr_start (kernel_vaddr s') = 0xc0100000" "cr3 s' = cr3 s" "pmem s' = pmem s"
    "pool_lock (kernel_pool s') = lock_init" "tasks s' = tasks s" "esp s' = esp s"
proof -
  let ?f = "ucast ((all_mem - 0x200000) div 4096) :: u16"
  have a: "unat ?f = a" using assms(1) by (simp add: a_def unat_ucast unat_div unat_sub_le word_le_nat_alt)
  then have k: "unat (?f div 2) = a div 2" "unat (?f - ?f div 2) = a - a div 2"
    by (simp_all add: unat_div unat_sub_le)
  have A: "a < 65536" by (simp add: a_def)
  have up: "unat (0x200000 + ucast (?f div 2) * 4096 :: u32) = 0x200000 + 4096 * (a div 2)"
  proof -
    have m: "unat (ucast (?f div 2) * 4096 :: u32) = 4096 * (a div 2)"
      using k(1) A by (subst unat_mult_lt) (simp_all add: unat_ucast_up)
    show ?thesis using A by (subst unat_add_lt) (simp_all add: m)
  qed
  note d = s'_def mem_pool_init_def Let_def put_str_def emit_def bm_size_def
  show "unat (phy_addr_start (kernel_pool s')) = 0x200000" "vaddr_start (kernel_vaddr s') = 0xc0100000" "cr3 s' = cr3 s"
    "pmem s' = pmem s" "pool_lock (kernel_pool s') = lock_init" "tasks s' = tasks s" "esp s' = esp s"
    by (simp_all add: d K_HEAP_START_def)
  show "unat (phy_addr_start (user_pool s')) = 0x200000 + 4096 * (a div 2)" using up by (simp add: d)
  show "bm_used (kpb s') = {}" "bm_used (kvb s') = {}" "bm_used (pool_bitmap (user_pool s')) = {}" by (simp_all add: d)
  show "bm_size (kpb s') = 8 * (a div 2 div 8)" "bm_size (kvb s') = 8 * (a div 2 div 8)"
    "bm_size (pool_bitmap (user_pool s')) = 8 * ((a - a div 2) div 8)"
    using k by (simp_all add: d bitmap_init_def unat_ucast_up unat_div)
qed

lemma translate_same: "cr3 s' = cr3 s \<Longrightarrow> pmem s' = pmem s \<Longrightarrow> translate s' v = translate s v"
  by (rule translate_cong) simp_all

lemma ktables_same:
  assumes "cr3 s' = cr3 s" and "pmem s' = pmem s"
  shows "ktables s' = ktables s" "ktab s' = ktab s"
proof -
  have d: "pde_addr s' = pde_addr s" "pde_present s' = pde_present s"
    by (simp_all add: pde_addr_def pde_present_def fun_eq_iff assms)
  show k: "ktab s' = ktab s" by (simp add: ktab_def d assms fun_eq_iff)
  show "ktables s' = ktables s" unfolding ktables_def k by (simp add: d self_mapped_def assms)
qed

lemma mem_pool_init_kvm:
  assumes L: "loader_ok s" and "0x200000 \<le> all_mem"
  shows "kvm (mem_pool_init all_mem s)"
proof -
  let ?s = "mem_pool_init all_mem s"
  let ?a = "(unat all_mem - 0x200000) div 4096 mod 65536"
  note f = mem_pool_init_fields [OF assms(2), of s]
  have a: "?a < 65536" "8 * (?a div 2 div 8) \<le> ?a div 2" by simp_all
  have p: "page_of (0xc0100000 :: u32) = 0xc0100000" by (simp add: page_of_def)
  have q: "page_of (phy_addr_start (kernel_pool ?s)) = phy_addr_start (kernel_pool ?s)"
    unfolding page_of_eq_self_iff f(1) by simp
  have B: "kbounds ?s" unfolding kbounds_def bm_ok_def f(1-4,9) using a p q by auto
  have T: "translate ?s v = translate s v" for v by (rule translate_same) (rule f)+
  note K = ktables_same [OF f(10,11)]
  have none: "translate ?s (kpage ?s i) = None" if "i < bm_size (kvb ?s)" for i
  proof -
    note P = kpage_props [OF B that]
    have "0xc0100000 \<le> unat (kpage ?s i)" using P(1) f(9) by simp
    then show ?thesis using L P(3) unfolding T loader_ok_def by blast
  qed
  have low: "\<not> ktab ?s (kframe ?s k) \<and> kframe ?s k \<noteq> page_of (cr3 ?s)" if "k < bm_size (kpb ?s)" for k
  proof -
    have "0x200000 \<le> unat (kframe ?s k)" using kframe_props(1) [OF B that] f(1) by simp
    then show ?thesis using L unfolding K f(10) loader_ok_def by (metis not_less)
  qed
  have "kmap ?s = Map.empty" using none by (auto simp: kmap_def fun_eq_iff)
  moreover from this have "kcore ?s" using B K(1) L none low by (simp add: kcore_def loader_ok_def)
  ultimately show ?thesis using f(7) by (simp add: kvm_def)
qed

text \<open>
  The directory and the tables of the loader, with the first page mapped, at 0 and at \<open>0xc0000000\<close>, and
  32 MB reported by the boot sector at \<open>0xb00\<close>.
\<close>

definition loader_example :: kernel where
  "loader_example = kernel_zero\<lparr>pmem := \<lambda>a. if 0x100c00 \<le> a \<and> a < 0x100ffc then (a - 0x100c00) * 1024 + 0x101007
     else if a = 0x100ffc then 0x100007 else if a = 0x100000 then 0x101007
     else if a = 0x101000 then 7 else if a = 0xb00 then 0x2000000 else 0\<rparr>"

lemma loader_pde:
  fixes v :: addr
  defines "e \<equiv> pmem loader_example (pde_addr loader_example v)"
  shows "kaddr v \<Longrightarrow> unat e = (unat (PDE_IDX v) - 768) * 4096 + 0x101007"
    "unat (PDE_IDX v) = 1023 \<Longrightarrow> e = 0x100007"
proof -
  have c: "cr3 loader_example = 0x100000" by (simp add: loader_example_def kernel_zero_def)
  have "unat (pde_addr loader_example v) = 0x100000 + 4 * unat (PDE_IDX v)"
    unfolding pde_addr_def c using unat_entry [OF idx_1024(1), of "0x100000" v] by simp
  moreover have "(a :: u32) = 0x100ffc \<longleftrightarrow> unat a = 0x100ffc" for a by (simp add: word_unat_eq_iff)
  ultimately show "unat (PDE_IDX v) = 1023 \<Longrightarrow> e = 0x100007"
    by (simp add: e_def loader_example_def word_less_nat_alt)
  let ?a = "pde_addr loader_example v"
  assume k: "kaddr v"
  have a: "unat ?a = 0x100000 + 4 * unat (PDE_IDX v)"
    unfolding pde_addr_def c using unat_entry [OF idx_1024(1), of "0x100000" v] by simp
  then have d: "unat (?a - 0x100c00) = 4 * (unat (PDE_IDX v) - 768)" using k by (simp add: unat_sub_le kaddr_def)
  have "unat ((?a - 0x100c00) * 1024) = 4096 * (unat (PDE_IDX v) - 768)"
    using d k by (subst unat_mult_lt) (auto simp: kaddr_def)
  then have "unat ((?a - 0x100c00) * 1024 + 0x101007) = (unat (PDE_IDX v) - 768) * 4096 + 0x101007"
    using k by (subst unat_add_lt) (auto simp: kaddr_def)
  moreover have "e = (?a - 0x100c00) * 1024 + 0x101007"
    using a k by (simp add: e_def loader_example_def kaddr_def word_less_nat_alt word_le_nat_alt)
  ultimately show "unat e = (unat (PDE_IDX v) - 768) * 4096 + 0x101007" by simp
qed

lemma loader_example_ok: "loader_ok loader_example"
proof -
  let ?s = loader_example
  have c: "cr3 ?s = 0x100000" "page_of (cr3 ?s) = 0x100000" by (simp_all add: loader_example_def kernel_zero_def page_of_def)
  have tab: "unat (page_of (pmem ?s (pde_addr ?s v))) = (unat (PDE_IDX v) - 768) * 4096 + 0x101000" if "kaddr v" for v
  proof -
    have "((unat (PDE_IDX v) - 768) * 4096 + 0x101007) div 4096 = unat (PDE_IDX v) - 768 + 0x101" by simp
    then show ?thesis unfolding unat_page_of loader_pde(1) [OF that] by simp
  qed
  have pres: "pde_present ?s v" if "kaddr v" for v
  proof -
    have "odd (unat (pmem ?s (pde_addr ?s v)))" unfolding loader_pde(1) [OF that] by simp
    then show ?thesis unfolding pde_present_def bit_0 [symmetric] by (simp only: bit_unsigned_iff)
  qed
  have kt: "ktab ?s f \<Longrightarrow> 0x101000 \<le> unat f \<and> unat f < 0x200000" for f
    using tab by (auto simp: ktab_def kaddr_def)
  have "self_mapped ?s"
  proof -
    have "page_of (cr3 ?s) + 4 * 1023 = 0x100ffc" unfolding c(2) by simp
    moreover have "pmem ?s 0x100ffc = 0x100007" by (simp add: loader_example_def)
    ultimately show ?thesis unfolding self_mapped_def c(2) by (simp add: page_of_def)
  qed
  moreover have "PDE_IDX v = PDE_IDX w"
    if "kaddr v" "kaddr w" "page_of (pmem ?s (pde_addr ?s v)) = page_of (pmem ?s (pde_addr ?s w))" for v w
    using tab [OF that(1)] tab [OF that(2)] that by (auto simp: kaddr_def word_unat_eq_iff)
  moreover have "\<not> ktab ?s (page_of (cr3 ?s))" using kt [of "0x100000"] c(2) by auto
  ultimately have "ktables ?s" using pres unfolding ktables_def by blast
  moreover have "translate ?s v = None" if v: "kaddr v" "0xc0100000 \<le> unat v" for v
  proof -
    have "unat (pte_addr ?s v) = (unat (PDE_IDX v) - 768) * 4096 + 0x101000 + 4 * unat (PTE_IDX v)"
      using tab [OF v(1)] unfolding pte_addr_def unat_page_of unat_entry [OF idx_1024(2)] by simp
    moreover have "0 < unat (PTE_IDX v) \<or> 768 < unat (PDE_IDX v)"
    proof (rule ccontr)
      assume "\<not> ?thesis"
      then have "unat v div 4096 mod 1024 = 0" "unat v div 4096 div 1024 \<le> 768"
        by (simp_all add: unat_PDE_IDX unat_PTE_IDX div_mult2_eq [symmetric])
      moreover have "0xc0100 \<le> unat v div 4096" using div_le_mono [OF v(2), of 4096] by simp
      ultimately show False
        using div_mult_mod_eq [of "unat v div 4096" 1024] mult_le_mono1 [of "unat v div 4096 div 1024" 768 1024] by linarith
    qed
    ultimately have "0x101000 < unat (pte_addr ?s v)" by auto
    then have "pmem ?s (pte_addr ?s v) = 0" by (auto simp: loader_example_def word_less_nat_alt word_le_nat_alt)
    then show ?thesis by (simp add: translate_def)
  qed
  ultimately show ?thesis using kt c(2) by (simp add: loader_ok_def)
qed

lemma halves_fit: "4096 * (a div 2) + 4096 * (8 * ((a - a div 2) div 8)) \<le> 4096 * a" "8 * (a div 2 div 8) \<le> a div 2"
  for a :: nat
proof -
  have "4096 * x + 4096 * y \<le> 4096 * a" if "x \<le> a" "y \<le> a - x" for x y :: nat using that by linarith
  then show "4096 * (a div 2) + 4096 * (8 * ((a - a div 2) div 8)) \<le> 4096 * a"
    by this (rule div_le_dividend, rule times_div_less_eq_dividend)
  show "8 * (a div 2 div 8) \<le> a div 2" by (rule times_div_less_eq_dividend)
qed

section \<open>Properties\<close>

text \<open>
  Initialisation. On the tables the loader builds and with at least 2 MB of memory,
  \<^verbatim>\<open>mem_pool_init\<close> establishes the invariant of the kernel's address space, with nothing in use; the
  frames of the kernel pool lie below those of the user pool, and both inside physical memory,
  although the number of pages is cut to 16 bits.
\<close>

theorem mem_pool_init_establishes:
  assumes "loader_ok s" and "0x200000 \<le> all_mem"
  shows "let s' = mem_pool_init all_mem s; k = kernel_pool s'; u = user_pool s' in
    kvm s' \<and> bm_used (pool_bitmap k) = {} \<and> bm_used (pool_bitmap u) = {} \<and> bm_used (kvb s') = {} \<and>
    0x200000 \<le> unat (phy_addr_start k) \<and>
    unat (phy_addr_start k) + 4096 * bm_size (pool_bitmap k) \<le> unat (phy_addr_start u) \<and>
    unat (phy_addr_start u) + 4096 * bm_size (pool_bitmap u) \<le> unat all_mem"
proof -
  let ?p = "(unat all_mem - 0x200000) div 4096" and ?a = "(unat all_mem - 0x200000) div 4096 mod 65536"
  note f = mem_pool_init_fields [OF assms(2), of s]
  have u: "0x200000 \<le> unat all_mem" using assms(2) by (simp add: word_le_nat_alt)
  have "4096 * ?p \<le> unat all_mem - 0x200000" by (rule times_div_less_eq_dividend)
  moreover have "4096 * ?a \<le> 4096 * ?p" by (rule mult_le_mono2) (rule mod_less_eq_dividend)
  ultimately have "4096 * (?a div 2) + 4096 * (8 * ((?a - ?a div 2) div 8)) \<le> unat all_mem - 0x200000"
    using halves_fit(1) [of ?a] by (meson order_trans)
  moreover have "c + x + y \<le> m" if "x + y \<le> m - c" "c \<le> m" for x y m c :: nat using that by linarith
  ultimately have "0x200000 + 4096 * (?a div 2) + 4096 * (8 * ((?a - ?a div 2) div 8)) \<le> unat all_mem" using u by blast
  then show ?thesis
    using mem_pool_init_kvm [OF assms] halves_fit(2) [of ?a] unfolding Let_def f by simp
qed

theorem mem_pool_init_establishes_witness:
  "kvm (mem_pool_init 0x2000000 loader_example) \<and> bm_used (kpb (mem_pool_init 0x2000000 loader_example)) = {}"
  using mem_pool_init_establishes [OF loader_example_ok, of "0x2000000"] by (simp add: Let_def)

text \<open>
  C3. \<^verbatim>\<open>malloc_page\<close> for the kernel refines the allocation of an abstract map from pages to frames. When
  the scan finds \<open>n\<close> pages inside the heap and the pool has \<open>n\<close> free frames, it returns the address of
  the first page, ties the \<open>n\<close> pages, none of which was mapped, to \<open>n\<close> different frames, none of
  which was in use, marks both in their bitmaps, leaves every other address of the kernel translated
  as it was, and keeps the invariant.
\<close>

theorem malloc_page_refines:
  assumes "kvm s" and "0 < n" and "n < 3840" and "bitmap_scan (kvb s) (of_nat n) = Inr (int i)"
    and "i + n \<le> bm_size (kvb s)" and "n \<le> card ({..<bm_size (kpb s)} - bm_used (kpb s))"
  shows "\<exists>s' fs. malloc_page PF_KERNEL (of_nat n) s = Inr (s', kpage s i) \<and> kvm s' \<and>
    length fs = n \<and> distinct fs \<and> set fs \<inter> bm_used (kpb s) = {} \<and> (\<forall>j. i \<le> j \<longrightarrow> j < i + n \<longrightarrow> kmap s j = None) \<and>
    kmap s' = kmaps i fs (kmap s) \<and> bm_used (kpb s') = bm_used (kpb s) \<union> set fs \<and>
    bm_used (kvb s') = bm_used (kvb s) \<union> {i..<i + n} \<and>
    (\<forall>v. kaddr v \<longrightarrow> \<not> in_pages s i n v \<longrightarrow> translate s' v = translate s v)"
proof -
  obtain s' fs vb where m: "malloc_page PF_KERNEL (of_nat n) s = Inr (s', kpage s i)" "kvm s'"
    "length fs = n" "distinct fs" "set fs \<subseteq> {..<bm_size (kpb s)} - bm_used (kpb s)"
    "bm_used (kpb s') = bm_used (kpb s) \<union> set fs" "bm_used (kvb s') = bm_used (kvb s) \<union> {i..<i + n}"
    "kmap s' = kmaps i fs (kmap s)" "\<forall>j. i \<le> j \<longrightarrow> j < i + n \<longrightarrow> kmap s j = None"
    "\<forall>v. kaddr v \<longrightarrow> \<not> in_pages s i n v \<longrightarrow> translate s' v = translate s v"
    using malloc_page_kernel [OF assms] by blast
  moreover from m(5) have "set fs \<inter> bm_used (kpb s) = {}" by blast
  ultimately show ?thesis by blast
qed

definition mem_example :: kernel where
  "mem_example = mem_pool_init 0x2000000 loader_example"

lemma mem_example_facts:
  "kvm mem_example" "bm_size (kvb mem_example) = 3840" "bm_size (kpb mem_example) = 3840" "bm_used (kpb mem_example) = {}"
  "bitmap_scan (kvb mem_example) (of_nat 1) = Inr (int 0)" "unat (page_of (cr3 mem_example)) < 0x200000"
proof -
  have m: "0x200000 \<le> (0x2000000 :: u32)" by simp
  note f = mem_pool_init_fields [OF m, of loader_example]
  show kvm: "kvm mem_example" unfolding mem_example_def by (rule mem_pool_init_kvm [OF loader_example_ok m])
  show v: "bm_size (kvb mem_example) = 3840" and "bm_size (kpb mem_example) = 3840" "bm_used (kpb mem_example) = {}"
    using f by (simp_all add: mem_example_def)
  have used: "bm_used (kvb mem_example) = {}" using f by (simp add: mem_example_def)
  then have "\<not> bm_full (kvb mem_example)" by (simp add: bm_full_iff v eq_commute [of "{}"] lessThan_empty_iff)
  then obtain i where i: "i < 3840" "bitmap_scan (kvb mem_example) 1 = Inr (int i)" "\<forall>j<i. bm_bit (kvb mem_example) j"
    using scan_first_fit [of "kvb mem_example"] kvm v by (auto simp: kvm_def kcore_def kbounds_def)
  have "i = 0" using i(1,3) used v by (cases i) (auto simp: bm_used_def)
  with i show "bitmap_scan (kvb mem_example) (of_nat 1) = Inr (int 0)" by simp
  show "unat (page_of (cr3 mem_example)) < 0x200000"
    using f(10) loader_example_ok by (simp add: mem_example_def loader_ok_def)
qed

theorem malloc_page_refines_witness:
  "\<exists>s' k. malloc_page PF_KERNEL (of_nat 1) mem_example = Inr (s', kpage mem_example 0) \<and> kvm s' \<and>
     kmap s' 0 = Some k \<and> bm_used (kpb s') = {k}"
proof -
  obtain s' fs where m: "malloc_page PF_KERNEL (of_nat 1) mem_example = Inr (s', kpage mem_example 0)" "kvm s'"
    "length fs = 1" "kmap s' = kmaps 0 fs (kmap mem_example)" "bm_used (kpb s') = {} \<union> set fs"
    using malloc_page_refines [OF mem_example_facts(1), of 1 0] mem_example_facts(2-5) by auto
  then obtain k where "fs = [k]" by (auto simp: length_Suc_conv)
  with m show ?thesis by (auto simp: kmaps_def)
qed

text \<open>
  C21. \<^verbatim>\<open>mfree_page\<close> undoes \<^verbatim>\<open>malloc_page\<close>: released right away, the pages are unmapped, their frames
  and their virtual addresses are free again, and every address of the kernel translates as before
  the allocation.
\<close>

theorem malloc_mfree_roundtrip:
  assumes "kvm s" and "0 < n" and "n < 3840" and "bitmap_scan (kvb s) (of_nat n) = Inr (int i)"
    and "i + n \<le> bm_size (kvb s)" and "n \<le> card ({..<bm_size (kpb s)} - bm_used (kpb s))"
  shows "\<exists>s' s''. malloc_page PF_KERNEL (of_nat n) s = Inr (s', kpage s i) \<and>
    mfree_page PF_KERNEL (kpage s i) (of_nat n) s' = Inr s'' \<and> kvm s'' \<and> kmap s'' = kmap s \<and>
    bm_used (kpb s'') = bm_used (kpb s) \<and> bm_used (kvb s'') = bm_used (kvb s) \<and>
    (\<forall>v. kaddr v \<longrightarrow> \<not> in_pages s i n v \<longrightarrow> translate s'' v = translate s v)"
proof -
  obtain s' fs vb where m: "malloc_page PF_KERNEL (of_nat n) s = Inr (s', kpage s i)" "kvm s'" "mem_upd (upd_kvaddr vb s) s'"
    "length fs = n" "distinct fs" "set fs \<subseteq> {..<bm_size (kpb s)} - bm_used (kpb s)"
    "bm_used (kpb s') = bm_used (kpb s) \<union> set fs" "bm_used (kvb s') = bm_used (kvb s) \<union> {i..<i + n}"
    "bm_size (kvb s') = bm_size (kvb s)" "kmap s' = kmaps i fs (kmap s)" "\<forall>j. i \<le> j \<longrightarrow> j < i + n \<longrightarrow> kmap s j = None"
    "\<forall>v. kaddr v \<longrightarrow> \<not> in_pages s i n v \<longrightarrow> translate s' v = translate s v"
    using malloc_page_kernel [OF assms] by blast
  note same = mem_upd_same [OF m(3)]
  have core: "kcore s" "dom (kmap s) = bm_used (kvb s)" using assms(1) by (simp_all add: kvm_def)
  have ps: "kpage s' = kpage s" "kframe s' = kframe s" "cr3 s' = cr3 s" using same by simp_all
  have "kframe s' k \<noteq> page_of (cr3 s')" if "k \<in> set fs" for k
    using kcoreD(6) [OF core(1), of k] that m(6) ps by auto
  moreover have "kmap s' (i + j) = Some (fs ! j)" if "j < n" for j using that m(4,10) by (simp add: kmaps_def)
  moreover have "i + n \<le> bm_size (kvb s')" using assms(5) m(9) by simp
  ultimately obtain s'' where f: "mfree_page PF_KERNEL (kpage s i) (of_nat n) s' = Inr s''" "kvm s''"
    "bm_used (kpb s'') = bm_used (kpb s') - set fs" "bm_used (kvb s'') = bm_used (kvb s') - {i..<i + n}"
    "kmap s'' = kmap s' |` (- {i..<i + n})" "\<forall>v. kaddr v \<longrightarrow> \<not> in_pages s' i n v \<longrightarrow> translate s'' v = translate s' v"
    using mfree_page_kernel [OF m(2) assms(2) _ m(4,5)] unfolding ps by blast
  have "{i..<i + n} \<inter> bm_used (kvb s) = {}" using m(11) unfolding core(2) [symmetric] by (auto simp: dom_def)
  then have "bm_used (kvb s'') = bm_used (kvb s)" "bm_used (kpb s'') = bm_used (kpb s)" using f(3,4) m(6,7,8) by auto
  moreover have "kmap s'' = kmap s"
    unfolding f(5) m(10) using m(4,11) by (auto simp: restrict_map_def kmaps_def fun_eq_iff)
  moreover have "translate s'' v = translate s v" if "kaddr v" "\<not> in_pages s i n v" for v
    using that f(6) m(12) ps(1) by (simp add: in_pages_def)
  ultimately show ?thesis using m(1) f(1,2) by blast
qed

theorem malloc_mfree_roundtrip_witness:
  "\<exists>s' s''. malloc_page PF_KERNEL (of_nat 1) mem_example = Inr (s', kpage mem_example 0) \<and>
     mfree_page PF_KERNEL (kpage mem_example 0) (of_nat 1) s' = Inr s'' \<and> kvm s'' \<and> bm_used (kpb s'') = {}"
  using malloc_mfree_roundtrip [OF mem_example_facts(1), of 1 0] mem_example_facts(2-5) by auto

text \<open>
  Running out of frames. When the scan finds the virtual pages but the pool has fewer frames than
  pages, \<^verbatim>\<open>malloc_page\<close> does not return \<^verbatim>\<open>NULL\<close>, as its comment says: the assertion in
  \<^verbatim>\<open>bitmap_scan\<close> stops the kernel.
\<close>

theorem malloc_page_out_of_frames:
  assumes "kvm s" and "0 < n" and "n < 3840" and "bitmap_scan (kvb s) (of_nat n) = Inr (int i)"
    and "i + n \<le> bm_size (kvb s)" and "card ({..<bm_size (kpb s)} - bm_used (kpb s)) < n"
  shows "malloc_page PF_KERNEL (of_nat n) s = Inl (Assert_failed ''idx_byte < btmp->btmp_bytes_len'')"
proof -
  have core: "kcore s" "dom (kmap s) = bm_used (kvb s)" using assms(1) by (simp_all add: kvm_def)
  obtain vb where vb: "vaddr_get PF_KERNEL (of_nat n) s = Inr (upd_kvaddr vb s, kpage s i)"
    "bm_size vb = bm_size (kvb s)" "bm_ok vb" "\<And>j. i \<le> j \<Longrightarrow> j < i + n \<Longrightarrow> kmap s j = None"
    using vaddr_get_kernel [OF assms(1-5)] by blast
  note k = upd_kvaddr_core [OF core(1) vb(2,3)]
  have "map_pages PF_KERNEL n (kpage (upd_kvaddr vb s) i) (upd_kvaddr vb s) =
      Inl (Assert_failed ''idx_byte < btmp->btmp_bytes_len'')"
    by (rule map_pages_exhausted [OF k(1)]) (use assms(5,6) vb k(2) in simp_all)
  moreover have "kpage s i \<noteq> NULL" using kpage_props(4) [OF kcoreD(2) [OF core(1)], of i] assms(2,5) by simp
  moreover have "unat (of_nat n :: u32) = n" using assms(3) by (simp add: unat_of_nat_lt)
  ultimately show ?thesis using vb(1) assms(2,3) by (simp add: malloc_page_def word_less_nat_alt)
qed

text \<open>A pool in which every frame is in use, for instance by the directories of processes.\<close>

lemma kvm_more_used:
  assumes "kvm s" and "bm_size b = bm_size (kpb s)" and "bm_used (kpb s) \<subseteq> bm_used b"
  shows "kvm (s\<lparr>kernel_pool := (kernel_pool s)\<lparr>pool_bitmap := b\<rparr>\<rparr>)" (is "kvm ?s")
proof -
  have core: "kcore s" using assms(1) by (simp add: kvm_def)
  have m: "kmap ?s = kmap s" by (simp add: kmap_def fun_eq_iff)
  have "kbounds ?s" using kcoreD(2) [OF core] assms(2) by (simp add: kbounds_def bm_ok_def)
  moreover have "\<exists>k\<in>bm_used b. pa = kframe s k" if "i < bm_size (kvb s)" "translate s (kpage s i) = Some pa" for i pa
    using kcoreD(3) [OF core that] assms(3) by blast
  moreover have "k \<notin> bm_used b \<Longrightarrow> kframe s k \<noteq> page_of (cr3 s)" if "k < bm_size (kpb s)" for k
    using kcoreD(6) [OF core that] assms(3) by blast
  ultimately have "kcore ?s"
    using kcoreD(1,4,5) [OF core] assms(2) unfolding kcore_def m by simp
  then show ?thesis using assms(1) unfolding kvm_def m by simp
qed

theorem malloc_page_out_of_frames_witness:
  "\<exists>s :: kernel. kvm s \<and> malloc_page PF_KERNEL (of_nat 1) s = Inl (Assert_failed ''idx_byte < btmp->btmp_bytes_len'')"
proof -
  let ?b = "\<lparr>btmp_bytes_len = 480, bits = \<lambda>_. 0xff\<rparr>"
  let ?s = "mem_example\<lparr>kernel_pool := (kernel_pool mem_example)\<lparr>pool_bitmap := ?b\<rparr>\<rparr>"
  note M = mem_example_facts
  have size: "bm_size ?b = bm_size (kpb mem_example)" by (simp add: bm_size_def [of ?b] M)
  have "bit (0xff :: u8) (x mod 8)" for x using byte_ff [of "0xff"] by simp
  then have used: "bm_used ?b = {..<bm_size ?b}" by (auto simp: bm_used_def bm_bit_def)
  have kvm: "kvm ?s" using size used M(4) by (intro kvm_more_used [OF M(1)]) simp_all
  have "malloc_page PF_KERNEL (of_nat 1) ?s = Inl (Assert_failed ''idx_byte < btmp->btmp_bytes_len'')"
    by (rule malloc_page_out_of_frames [OF kvm, of 1 0]) (use M(2,5) used in simp_all)
  then show ?thesis using kvm by blast
qed

end
