(* ===== verification/Malloc.thy ===== *)
theory Malloc
  imports VMem
begin

text \<open>
  The kernel's heap (\<^verbatim>\<open>sys_malloc\<close>, \<^verbatim>\<open>sys_free\<close> and \<^verbatim>\<open>block_desc_init\<close> of \<^verbatim>\<open>kernel/memory.c\<close>). A page
  that serves small requests is an arena: its first twelve bytes name a descriptor and count the
  free blocks, the rest is divided into blocks of the descriptor's size. The header of an arena is
  kept in a map from physical addresses and is read and written through the page tables; the free
  blocks of a descriptor are the sequence of their addresses.

  The invariant ties the free lists, the headers and the page tables together. The theorems show
  that an allocation hands out a block that no one has, large enough and inside its page, that
  releasing it makes it free again, and what happens to its arena.
\<close>

definition load_arena :: "addr \<Rightarrow> 'a kernel_scheme \<Rightarrow> arena res" where
  "load_arena a s = (case translate s a of None \<Rightarrow> Inl (Bad_access ''page fault'') | Some pa \<Rightarrow> Inr (arenas s pa))"

definition store_arena :: "addr \<Rightarrow> arena \<Rightarrow> 'a kernel_scheme \<Rightarrow> 'a kernel_scheme res" where
  "store_arena a r s = (case translate s a of None \<Rightarrow> Inl (Bad_access ''page fault'')
     | Some pa \<Rightarrow> Inr (s\<lparr>arenas := (arenas s)(pa := r)\<rparr>))"

definition descs_at :: "desc_ref \<Rightarrow> 'a kernel_scheme \<Rightarrow> mem_block_desc list" where
  "descs_at d s = (case d of K_desc i \<Rightarrow> k_block_descs s | U_desc t i \<Rightarrow> u_block_desc (tasks s t))"

definition desc_index :: "desc_ref \<Rightarrow> nat" where
  "desc_index d = (case d of K_desc i \<Rightarrow> i | U_desc t i \<Rightarrow> i)"

definition load_desc :: "desc_ref option \<Rightarrow> 'a kernel_scheme \<Rightarrow> mem_block_desc res" where
  "load_desc d s = (case d of None \<Rightarrow> Inl (Bad_access ''null descriptor'')
     | Some r \<Rightarrow> if desc_index r < length (descs_at r s) then Inr (descs_at r s ! desc_index r)
                 else Inl (Bad_access ''descriptor index''))"

definition store_desc :: "desc_ref option \<Rightarrow> mem_block_desc \<Rightarrow> 'a kernel_scheme \<Rightarrow> 'a kernel_scheme res" where
  "store_desc d v s = bindR (load_desc d s) (\<lambda>_. case d of
       Some (K_desc i) \<Rightarrow> Inr (s\<lparr>k_block_descs := (k_block_descs s)[i := v]\<rparr>)
     | Some (U_desc t i) \<Rightarrow> Inr (upd_task t (\<lambda>p. p\<lparr>u_block_desc := (u_block_desc p)[i := v]\<rparr>) s)
     | None \<Rightarrow> Inl (Bad_access ''null descriptor''))"

text \<open>\<^verbatim>\<open>sizeof(struct arena)\<close>: a pointer, a counter and a \<^verbatim>\<open>bool\<close>, which is an \<^verbatim>\<open>int\<close>.\<close>

definition ARENA_SIZE :: u32 where
  "ARENA_SIZE = 12"

definition arena2block :: "addr \<Rightarrow> u32 \<Rightarrow> 'a kernel_scheme \<Rightarrow> addr res" where
  "arena2block a idx s = bindR (load_arena a s) (\<lambda>r. bindR (load_desc (arena_desc r) s) (\<lambda>d.
     Inr (a + ARENA_SIZE + idx * block_size d)))"

definition block2arena :: "addr \<Rightarrow> addr" where
  "block2arena b = b AND 0xfffff000"

text \<open>The loop that picks the descriptor: the first whose blocks are large enough.\<close>

fun find_desc :: "u32 \<Rightarrow> mem_block_desc list \<Rightarrow> nat" where
  "find_desc sz [] = 0"
| "find_desc sz (d # ds) = (if sz \<le> block_size d then 0 else Suc (find_desc sz ds))"

text \<open>The loop that divides a new arena into blocks.\<close>

fun split_arena :: "nat \<Rightarrow> u32 \<Rightarrow> addr \<Rightarrow> 'a kernel_scheme \<Rightarrow> 'a kernel_scheme res" where
  "split_arena 0 block_idx a s = Inr s"
| "split_arena (Suc n) block_idx a s =
     bindR (arena2block a block_idx s) (\<lambda>b.
     bindR (load_arena a s) (\<lambda>r. bindR (load_desc (arena_desc r) s) (\<lambda>d.
     bindR (kassert (b \<notin> set (free_list d)) ''!elem_find(&a->desc->free_list, &b->free_elem)'') (\<lambda>_.
     bindR (store_desc (arena_desc r) (d\<lparr>free_list := free_list d @ [b]\<rparr>) s) (split_arena n (block_idx + 1) a)))))"

definition take_block :: "desc_ref \<Rightarrow> 'a kernel_scheme \<Rightarrow> ('a kernel_scheme \<times> addr) res" where
  "take_block dr s =
     bindR (load_desc (Some dr) s) (\<lambda>d.
     case free_list d of [] \<Rightarrow> Inl (Bad_access ''pop of an empty list'')
     | b # bs \<Rightarrow>
       bindR (store_desc (Some dr) (d\<lparr>free_list := bs\<rparr>) s) (\<lambda>s1.
       bindR (memzero b (block_size d) s1) (\<lambda>s2.
       bindR (load_arena (block2arena b) s2) (\<lambda>r.
       bindR (store_arena (block2arena b) (r\<lparr>arena_cnt := arena_cnt r - 1\<rparr>) s2) (\<lambda>s3. Inr (s3, b))))))"

definition new_arena :: "pool_flags \<Rightarrow> desc_ref \<Rightarrow> 'a kernel_scheme \<Rightarrow> ('a kernel_scheme \<times> addr) res" where
  "new_arena PF dr s =
     bindR (malloc_page PF 1 s) (\<lambda>(s1, a).
     if a = NULL then Inr (s1, NULL)
     else
       bindR (memzero a PG_SIZE s1) (\<lambda>s2.
       bindR (load_desc (Some dr) s2) (\<lambda>d.
       bindR (store_arena a \<lparr>arena_desc = Some dr, arena_cnt = blocks_per_arena d, arena_large = 0\<rparr> s2) (\<lambda>s3.
       let (s4, old_status) = intr_disable s3 in
       bindR (split_arena (unat (blocks_per_arena d)) 0 a s4) (\<lambda>s5.
       Inr (fst (intr_set_status old_status s5), a))))))"

definition sys_malloc :: "u32 \<Rightarrow> 'a kernel_scheme \<Rightarrow> ('a kernel_scheme \<times> addr) res" where
  "sys_malloc sz s =
     (let cur_thread = running_thread s;
          kthread = (pgdir (tasks s cur_thread) = NULL);
          PF = (if kthread then PF_KERNEL else PF_USER);
          dref = (if kthread then K_desc else U_desc cur_thread) in
      if \<not> (sz > 0 \<and> sz < pool_size (pool_of PF s)) then Inr (s, NULL)
      else
        bindR (pool_acquire PF s) (\<lambda>s1.
        if sz > 1024 then
          let page_cnt = DIV_ROUND_UP (sz + ARENA_SIZE) PG_SIZE in
          bindR (malloc_page PF page_cnt s1) (\<lambda>(s2, a).
          if a \<noteq> NULL then
            bindR (memzero a (page_cnt * PG_SIZE) s2) (\<lambda>s3.
            bindR (store_arena a \<lparr>arena_desc = None, arena_cnt = page_cnt, arena_large = 1\<rparr> s3) (\<lambda>s4.
            bindR (pool_release PF s4) (\<lambda>s5. Inr (s5, a + ARENA_SIZE))))
          else bindR (pool_release PF s2) (\<lambda>s3. Inr (s3, NULL)))
        else
          let desc_idx = find_desc sz (descs_at (dref 0) s1) in
          bindR (load_desc (Some (dref desc_idx)) s1) (\<lambda>d.
          bindR (if free_list d = [] then new_arena PF (dref desc_idx) s1 else Inr (s1, 1)) (\<lambda>(s2, a).
          if a = NULL then bindR (pool_release PF s2) (\<lambda>s3. Inr (s3, NULL))
          else
            bindR (take_block (dref desc_idx) s2) (\<lambda>(s3, b).
            bindR (pool_release PF s3) (\<lambda>s4. Inr (s4, b)))))))"

text \<open>The loop that takes the blocks of an arena off the free list again.\<close>

fun join_arena :: "nat \<Rightarrow> u32 \<Rightarrow> addr \<Rightarrow> 'a kernel_scheme \<Rightarrow> 'a kernel_scheme res" where
  "join_arena 0 block_idx a s = Inr s"
| "join_arena (Suc n) block_idx a s =
     bindR (arena2block a block_idx s) (\<lambda>b.
     bindR (load_arena a s) (\<lambda>r. bindR (load_desc (arena_desc r) s) (\<lambda>d.
     bindR (kassert (b \<in> set (free_list d)) ''elem_find(&a->desc->free_list, &b->free_elem)'') (\<lambda>_.
     bindR (store_desc (arena_desc r) (d\<lparr>free_list := remove1 b (free_list d)\<rparr>) s) (join_arena n (block_idx + 1) a)))))"

definition give_block :: "pool_flags \<Rightarrow> addr \<Rightarrow> 'a kernel_scheme \<Rightarrow> 'a kernel_scheme res" where
  "give_block PF b s =
     (let a = block2arena b in
      bindR (load_arena a s) (\<lambda>r. bindR (load_desc (arena_desc r) s) (\<lambda>d.
      bindR (store_desc (arena_desc r) (d\<lparr>free_list := free_list d @ [b]\<rparr>) s) (\<lambda>s1.
      bindR (store_arena a (r\<lparr>arena_cnt := arena_cnt r + 1\<rparr>) s1) (\<lambda>s2.
      if arena_cnt r + 1 = blocks_per_arena d then
        bindR (join_arena (unat (blocks_per_arena d)) 0 a s2) (mfree_page PF a 1)
      else Inr s2)))))"

definition sys_free :: "addr \<Rightarrow> 'a kernel_scheme \<Rightarrow> 'a kernel_scheme res" where
  "sys_free ptr s =
     bindR (kassert (ptr \<noteq> NULL) ''ptr != NULL'') (\<lambda>_.
     let kthread = (pgdir (tasks s (running_thread s)) = NULL);
         PF = (if kthread then PF_KERNEL else PF_USER) in
     bindR (if kthread then kassert (ptr \<ge> K_HEAP_START) ''(uint32_t)ptr >= K_HEAP_START'' else Inr ()) (\<lambda>_.
     bindR (pool_acquire PF s) (\<lambda>s1.
     bindR (load_arena (block2arena ptr) s1) (\<lambda>r.
     bindR (kassert (arena_large r = 0 \<or> arena_large r = 1) ''a->large == 0 || a->large == 1'') (\<lambda>_.
     bindR (if arena_desc r = None \<and> arena_large r = 1 then mfree_page PF (block2arena ptr) (arena_cnt r) s1
            else give_block PF ptr s1) (pool_release PF))))))"

section \<open>Descriptors\<close>

text \<open>\<^verbatim>\<open>block_desc_init\<close>: the sizes double from 16, in a 16-bit variable.\<close>

fun desc_init_loop :: "u16 \<Rightarrow> mem_block_desc list \<Rightarrow> mem_block_desc list" where
  "desc_init_loop bs [] = []"
| "desc_init_loop bs (d # ds) =
     d\<lparr>block_size := ucast bs, blocks_per_arena := (PG_SIZE - ARENA_SIZE) div ucast bs, free_list := []\<rparr>
       # desc_init_loop (bs * 2) ds"

definition block_desc_init :: "mem_block_desc list \<Rightarrow> mem_block_desc list" where
  "block_desc_init desc_array = desc_init_loop 16 desc_array"

definition mem_init :: "'a kernel_scheme \<Rightarrow> 'a kernel_scheme res" where
  "mem_init s =
     (let s1 = put_str (''mem_init start'' @ NL) s in
      bindR (load_dw 0xb00 s1) (\<lambda>mem_bytes_total.
      let s2 = mem_pool_init mem_bytes_total s1;
          s3 = s2\<lparr>k_block_descs := block_desc_init (k_block_descs s2)\<rparr>
      in Inr (put_str (''mem_init done'' @ NL) s3)))"

section \<open>Sizes\<close>

definition bsz :: "nat \<Rightarrow> nat" where
  "bsz i = 16 * 2 ^ i"

definition nbl :: "nat \<Rightarrow> nat" where
  "nbl i = 4084 div bsz i"

lemma bsz_bounds:
  assumes "i < 7"
  shows "16 \<le> bsz i" "bsz i \<le> 1024" "0 < nbl i" "nbl i \<le> 255" "nbl i * bsz i \<le> 4084" "4 dvd bsz i"
proof -
  have "(2::nat) ^ i \<le> 2 ^ 6" using assms by (intro power_increasing) simp_all
  then show b: "bsz i \<le> 1024" and a: "16 \<le> bsz i" by (simp_all add: bsz_def)
  show "nbl i * bsz i \<le> 4084" by (simp add: nbl_def)
  have "4084 div bsz i \<le> 4084 div 16" using a by (intro div_le_mono2) simp_all
  then show "nbl i \<le> 255" by (simp add: nbl_def)
  show "0 < nbl i" using b a by (simp add: nbl_def div_greater_zero_iff)
  show "4 dvd bsz i" by (simp add: bsz_def)
qed

lemma desc_init_loop_nth:
  assumes "bs = of_nat (16 * 2 ^ k)" and "k + length ds \<le> 7" and "i < length ds"
  shows "desc_init_loop bs ds ! i = \<lparr>block_size = of_nat (bsz (k + i)), blocks_per_arena = of_nat (nbl (k + i)), free_list = []\<rparr>"
  using assms
proof (induction ds arbitrary: bs k i)
  case (Cons d ds)
  show ?case
  proof (cases i)
    case 0
    have k: "k < 7" using Cons.prems by simp
    have "unat bs = bsz k" using bsz_bounds(2) [OF k] unfolding Cons.prems(1) bsz_def by (intro unat_of_nat_lt) simp
    then have u: "unat (ucast bs :: u32) = bsz k" by (simp add: unat_ucast_up)
    then have s: "ucast bs = (of_nat (bsz k) :: u32)" by (metis of_nat_unat ucast_id)
    have "unat ((4096 - ARENA_SIZE) div ucast bs :: u32) = nbl k" by (simp add: unat_div u nbl_def ARENA_SIZE_def)
    then have "(4096 - ARENA_SIZE) div ucast bs = (of_nat (nbl k) :: u32)" by (metis of_nat_unat ucast_id)
    then show ?thesis using 0 s by simp
  next
    case (Suc j)
    have "bs * 2 = of_nat (16 * 2 ^ Suc k)" by (simp add: Cons.prems(1))
    then show ?thesis using Cons.IH [of "bs * 2" "Suc k" j] Cons.prems Suc by simp
  qed
qed simp

lemma desc_init_loop_length [simp]: "length (desc_init_loop bs ds) = length ds"
  by (induction ds arbitrary: bs) simp_all

lemma block_desc_init_nth:
  assumes "length ds = 7" and "i < 7"
  shows "block_desc_init ds ! i = \<lparr>block_size = of_nat (bsz i), blocks_per_arena = of_nat (nbl i), free_list = []\<rparr>"
  using desc_init_loop_nth [of 16 0 ds i] assms by (simp add: block_desc_init_def)

section \<open>The lock of the pool\<close>

abbreviation with_lock :: "lock \<Rightarrow> 'a kernel_scheme \<Rightarrow> 'a kernel_scheme" where
  "with_lock l s \<equiv> s\<lparr>kernel_pool := (kernel_pool s)\<lparr>pool_lock := l\<rparr>\<rparr>"

lemma pool_acquire_free:
  assumes "pool_lock (kernel_pool s) = lock_init" and "running_thread s \<noteq> NULL"
  shows "pool_acquire PF_KERNEL s = Inr (with_lock (held_by (running_thread s)) s)"
  using assms by (simp add: lock_acquire_free pool_acquire_def pool_of_def set_pool_def)

lemma pool_release_held:
  assumes "pool_lock (kernel_pool s) = held_by (running_thread s)"
  shows "pool_release PF_KERNEL s = Inr (with_lock lock_init s)"
  using assms by (simp add: lock_release_held pool_release_def pool_of_def set_pool_def)

lemma with_lock_simps [simp]:
  "kpage (with_lock l s) = kpage s" "kframe (with_lock l s) = kframe s" "running_thread (with_lock l s) = running_thread s"
  "kmap (with_lock l s) = kmap s" "kvm (with_lock l s) = kvm s"
proof -
  show p: "kpage (with_lock l s) = kpage s" "kframe (with_lock l s) = kframe s" "running_thread (with_lock l s) = running_thread s"
    by (simp_all add: kpage_def kframe_def running_thread_def fun_eq_iff)
  show m: "kmap (with_lock l s) = kmap s" by (simp add: kmap_def p fun_eq_iff)
  have "kcore (with_lock l s) = kcore s" unfolding kcore_def m p kbounds_def by simp
  then show "kvm (with_lock l s) = kvm s" unfolding kvm_def m by simp
qed

section \<open>Clearing mapped memory\<close>

text \<open>
  Clearing dwords that lie in pages of the heap, none of them a table or the directory: memory
  changes outside the tables only, so every address of the kernel translates as before.
\<close>

definition data_at :: "'a kernel_scheme \<Rightarrow> addr \<Rightarrow> bool" where
  "data_at s va \<longleftrightarrow> kaddr va \<and> (\<exists>pa. translate s va = Some pa \<and> \<not> ktab s (page_of pa) \<and> page_of pa \<noteq> page_of (cr3 s))"

definition same_tables :: "'a kernel_scheme \<Rightarrow> (addr \<Rightarrow> u32) \<Rightarrow> bool" where
  "same_tables s m \<longleftrightarrow> (\<forall>a. page_of a = page_of (cr3 s) \<or> ktab s (page_of a) \<longrightarrow> m a = pmem s a)"

lemma same_tables_walk:
  assumes "ktables s" and "same_tables s m"
  shows "ktables (s\<lparr>pmem := m\<rparr>)" "ktab (s\<lparr>pmem := m\<rparr>) = ktab s" "kaddr v \<Longrightarrow> translate (s\<lparr>pmem := m\<rparr>) v = translate s v"
    "data_at (s\<lparr>pmem := m\<rparr>) v = data_at s v"
proof -
  note f = ktables_frame [OF assms(1), of "s\<lparr>pmem := m\<rparr>"]
  show "ktables (s\<lparr>pmem := m\<rparr>)" and k: "ktab (s\<lparr>pmem := m\<rparr>) = ktab s" and
    t: "\<And>v. kaddr v \<Longrightarrow> translate (s\<lparr>pmem := m\<rparr>) v = translate s v"
    using assms(2) by (auto intro!: f simp: same_tables_def)
  show "data_at (s\<lparr>pmem := m\<rparr>) v = data_at s v" unfolding data_at_def k using t [of v] by (cases "kaddr v") simp_all
qed

lemma clear_data:
  assumes "ktables s" and "\<And>j. j < n \<Longrightarrow> data_at s (va + 4 * of_nat j)"
  shows "\<exists>m. clear_page_from n va s = Inr (s\<lparr>pmem := m\<rparr>) \<and> same_tables s m"
  using assms
proof (induction n arbitrary: va s)
  case 0
  then show ?case by (intro exI [of _ "pmem s"]) (simp add: same_tables_def)
next
  case (Suc n)
  obtain pa where pa: "translate s va = Some pa" "\<not> ktab s (page_of pa)" "page_of pa \<noteq> page_of (cr3 s)"
    using Suc.prems(2) [of 0] by (auto simp: data_at_def)
  let ?m = "(pmem s)(pa := 0)"
  have st: "same_tables s ?m" using pa by (auto simp: same_tables_def)
  note w = same_tables_walk [OF Suc.prems(1) st]
  have "data_at (s\<lparr>pmem := ?m\<rparr>) (va + 4 + 4 * of_nat j)" if "j < n" for j
    using Suc.prems(2) [of "Suc j"] that unfolding w(4) by (simp add: algebra_simps)
  from Suc.IH [OF w(1) this] obtain m where m: "clear_page_from n (va + 4) (s\<lparr>pmem := ?m\<rparr>) = Inr (s\<lparr>pmem := m\<rparr>)"
    "same_tables (s\<lparr>pmem := ?m\<rparr>) m" by auto
  have "same_tables s m" using m(2) st unfolding same_tables_def w(2) by simp
  then show ?case using m(1) pa(1) by (auto simp: store_dw_def)
qed

lemma same_tables_kvm:
  assumes "kvm s" and "same_tables s m"
  shows "kvm (s\<lparr>pmem := m\<rparr>)" "kmap (s\<lparr>pmem := m\<rparr>) = kmap s"
proof -
  have core: "kcore s" using assms(1) by (simp add: kvm_def)
  note w = same_tables_walk [OF kcoreD(1) [OF core] assms(2)]
  note B = kcoreD(2) [OF core]
  have t: "translate (s\<lparr>pmem := m\<rparr>) (kpage s i) = translate s (kpage s i)" if "i < bm_size (kvb s)" for i
    by (rule w(3)) (rule kpage_props(3) [OF B that])
  show k: "kmap (s\<lparr>pmem := m\<rparr>) = kmap s" using t by (auto simp: kmap_def fun_eq_iff)
  have "kcore (s\<lparr>pmem := m\<rparr>)"
    using core w(1,2) t unfolding kcore_def k kbounds_def by simp
  then show "kvm (s\<lparr>pmem := m\<rparr>)" using assms(1) unfolding kvm_def k by simp
qed

text \<open>Memory inside a page of the heap.\<close>

lemma page_data:
  assumes s: "kcore s" and p: "kmap s p = Some k" "kframe s k \<noteq> page_of (cr3 s)" and o: "off < 4096"
  shows "data_at s (kpage s p + of_nat off)" "page_of (kpage s p + of_nat off) = kpage s p"
    "unat (kpage s p + of_nat off) = unat (kpage s p) + off"
proof -
  note B = kcoreD(2) [OF s]
  have pk: "p < bm_size (kvb s)" "k \<in> bm_used (kpb s)" "translate s (kpage s p) = Some (kframe s k)"
    using p(1) kmap_Some_iff [OF s] by simp_all
  note P = kpage_props [OF B pk(1)] and F = kframe_props [OF B used_bound [OF pk(2)]]
  have al: "4096 dvd unat (kpage s p)" "4096 dvd unat (kframe s k)" using P(2) F(2) by (simp_all add: page_of_eq_self_iff)
  have add: "unat (w + of_nat off) = unat w + off" "page_of (w + of_nat off) = w" if d: "4096 dvd unat w" for w :: u32
  proof -
    have uo: "unat (of_nat off :: u32) = off" using o by (simp add: unat_of_nat_lt)
    obtain q where q: "unat w = 4096 * q" using d by blast
    have "unat w < 2 ^ 32" using unat_bound [of w] by simp
    then have "q < 2 ^ 20" using q by simp
    then have "unat w + off < 2 ^ 32" using q o by simp
    then show u: "unat (w + of_nat off) = unat w + off" using uo by (subst unat_add_lt) simp_all
    have "(4096 * q + off) div 4096 = q" using o by simp
    then show "page_of (w + of_nat off) = w" unfolding word_unat_eq_iff unat_page_of u using q by simp
  qed
  show u: "unat (kpage s p + of_nat off) = unat (kpage s p) + off" and pg: "page_of (kpage s p + of_nat off) = kpage s p"
    using add [OF al(1)] by simp_all
  have pe: "PDE_IDX (kpage s p + of_nat off) = PDE_IDX (kpage s p)" "PTE_IDX (kpage s p + of_nat off) = PTE_IDX (kpage s p)"
    using pg P(2) by (metis page_of_eq_iff)+
  then have ka: "kaddr (kpage s p + of_nat off)" using P(3) by (simp add: kaddr_def)
  have off0: "kpage s p AND 0xfff = 0" by (rule kpage_offset [OF P(2)])
  have offs: "(kpage s p + of_nat off) AND 0xfff = of_nat off"
    using al(1) o unfolding word_unat_eq_iff unat_offset u by (auto simp: unat_of_nat_lt)
  have "translate s (kpage s p + of_nat off) = Some (kframe s k + of_nat off)"
    using pk(3) offs off0 unfolding translate_def pde_present_def pte_addr_def pde_addr_def pe
    by (auto split: if_splits)
  then show "data_at s (kpage s p + of_nat off)"
    using ka add(2) [OF al(2)] p(2) kcoreD(5) [OF s used_bound [OF pk(2)]] by (simp add: data_at_def)
qed

section \<open>The invariant of the heap\<close>

text \<open>Everything above depends on five fields of the kernel only.\<close>

definition same_vm :: "'a kernel_scheme \<Rightarrow> 'a kernel_scheme \<Rightarrow> bool" where
  "same_vm s s' \<longleftrightarrow> cr3 s' = cr3 s \<and> pmem s' = pmem s \<and> kernel_vaddr s' = kernel_vaddr s \<and>
     kernel_pool s' = kernel_pool s \<and> user_pool s' = user_pool s"

lemma same_vm_cong:
  assumes "same_vm s s'"
  shows "kpage s' = kpage s" "kframe s' = kframe s" "translate s' v = translate s v" "kmap s' = kmap s" "kvm s' = kvm s"
    "ktables s' = ktables s" "data_at s' v = data_at s v"
proof -
  have c: "cr3 s' = cr3 s" "pmem s' = pmem s" "kernel_vaddr s' = kernel_vaddr s" "kernel_pool s' = kernel_pool s"
    "user_pool s' = user_pool s" using assms by (simp_all add: same_vm_def)
  show p: "kpage s' = kpage s" "kframe s' = kframe s" by (simp_all add: kpage_def kframe_def fun_eq_iff c)
  show t: "translate s' v = translate s v" for v by (rule translate_same) (rule c)+
  show m: "kmap s' = kmap s" by (simp add: kmap_def p t c fun_eq_iff)
  have "kcore s' = kcore s" unfolding kcore_def ktables_same [OF c(1,2)] kbounds_def m p t c ..
  then show "kvm s' = kvm s" unfolding kvm_def m c by simp
  show "ktables s' = ktables s" by (rule ktables_same(1) [OF c(1,2)])
  show "data_at s' v = data_at s v" unfolding data_at_def ktables_same(2) [OF c(1,2)] t c ..
qed

definition blk :: "'a kernel_scheme \<Rightarrow> nat \<Rightarrow> nat \<Rightarrow> nat \<Rightarrow> addr" where
  "blk s i p j = kpage s p + of_nat (12 + j * bsz i)"

abbreviation fl :: "'a kernel_scheme \<Rightarrow> nat \<Rightarrow> addr list" where
  "fl s i \<equiv> free_list (k_block_descs s ! i)"

definition free_js :: "'a kernel_scheme \<Rightarrow> nat \<Rightarrow> nat \<Rightarrow> nat set" where
  "free_js s i p = {j. j < nbl i \<and> blk s i p j \<in> set (fl s i)}"

definition descs_ok :: "'a kernel_scheme \<Rightarrow> bool" where
  "descs_ok s \<longleftrightarrow> length (k_block_descs s) = 7 \<and> (\<forall>i<7. block_size (k_block_descs s ! i) = of_nat (bsz i) \<and>
     blocks_per_arena (k_block_descs s ! i) = of_nat (nbl i))"

definition arena_ok :: "'a kernel_scheme \<Rightarrow> nat \<Rightarrow> nat \<Rightarrow> bool" where
  "arena_ok s p i \<longleftrightarrow> i < 7 \<and> (\<exists>k. kmap s p = Some k \<and> kframe s k \<noteq> page_of (cr3 s) \<and>
     arenas s (kframe s k) = \<lparr>arena_desc = Some (K_desc i), arena_cnt = of_nat (card (free_js s i p)), arena_large = 0\<rparr>)"

text \<open>\<open>A\<close> says which pages are arenas for small blocks, and of which descriptor.\<close>

definition kheap :: "(nat \<rightharpoonup> nat) \<Rightarrow> 'a kernel_scheme \<Rightarrow> bool" where
  "kheap A s \<longleftrightarrow> kvm s \<and> descs_ok s \<and> (\<forall>p i. A p = Some i \<longrightarrow> arena_ok s p i) \<and>
     (\<forall>i<7. distinct (fl s i) \<and> (\<forall>b\<in>set (fl s i). \<exists>p j. A p = Some i \<and> j < nbl i \<and> b = blk s i p j))"

text \<open>The blocks that have been handed out, by page and place.\<close>

definition taken :: "(nat \<rightharpoonup> nat) \<Rightarrow> 'a kernel_scheme \<Rightarrow> (nat \<times> nat) set" where
  "taken A s = {(p, j). \<exists>i. A p = Some i \<and> j < nbl i \<and> blk s i p j \<notin> set (fl s i)}"

lemma kheapD:
  assumes "kheap A s"
  shows "kvm s" "kcore s" "length (k_block_descs s) = 7" "i < 7 \<Longrightarrow> block_size (k_block_descs s ! i) = of_nat (bsz i)"
    "i < 7 \<Longrightarrow> blocks_per_arena (k_block_descs s ! i) = of_nat (nbl i)" "A p = Some i \<Longrightarrow> arena_ok s p i"
    "A p = Some i \<Longrightarrow> i < 7" "i < 7 \<Longrightarrow> distinct (fl s i)"
    "i < 7 \<Longrightarrow> b \<in> set (fl s i) \<Longrightarrow> \<exists>p j. A p = Some i \<and> j < nbl i \<and> b = blk s i p j"
  using assms unfolding kheap_def kvm_def descs_ok_def by (simp_all add: arena_ok_def)

lemma arena_page:
  assumes "kheap A s" and "A p = Some i"
  shows "\<exists>k. kmap s p = Some k \<and> kframe s k \<noteq> page_of (cr3 s) \<and> p < bm_size (kvb s) \<and> k < bm_size (kpb s) \<and>
    translate s (kpage s p) = Some (kframe s k) \<and>
    arenas s (kframe s k) = \<lparr>arena_desc = Some (K_desc i), arena_cnt = of_nat (card (free_js s i p)), arena_large = 0\<rparr>"
proof -
  obtain k where k: "kmap s p = Some k" "kframe s k \<noteq> page_of (cr3 s)"
    "arenas s (kframe s k) = \<lparr>arena_desc = Some (K_desc i), arena_cnt = of_nat (card (free_js s i p)), arena_large = 0\<rparr>"
    using kheapD(6) [OF assms] by (auto simp: arena_ok_def)
  then show ?thesis using kmap_Some_iff [OF kheapD(2) [OF assms(1)], of p k] used_bound by blast
qed

lemma block_fits: "i < 7 \<Longrightarrow> j < nbl i \<Longrightarrow> 12 + j * bsz i + bsz i \<le> 4096"
proof -
  assume "i < 7" "j < nbl i"
  then have "Suc j * bsz i \<le> nbl i * bsz i" by (intro mult_le_mono1) simp
  then show ?thesis using bsz_bounds(5) [OF \<open>i < 7\<close>] by simp
qed

lemma blk_props:
  assumes s: "kheap A s" and A: "A p = Some i" and j: "j < nbl i"
  shows "unat (blk s i p j) = unat (kpage s p) + 12 + j * bsz i" "page_of (blk s i p j) = kpage s p"
    "d < bsz i \<Longrightarrow> data_at s (blk s i p j + of_nat d)"
proof -
  obtain k where k: "kmap s p = Some k" "kframe s k \<noteq> page_of (cr3 s)" using arena_page [OF s A] by blast
  note fit = block_fits [OF kheapD(7) [OF s A] j]
  have b: "12 + j * bsz i < 4096" using fit bsz_bounds(1) [OF kheapD(7) [OF s A]] by linarith
  note pd = page_data [OF kheapD(2) [OF s] k]
  show "unat (blk s i p j) = unat (kpage s p) + 12 + j * bsz i" "page_of (blk s i p j) = kpage s p"
    using pd(2,3) [OF b] by (simp_all add: blk_def)
  assume "d < bsz i"
  then have "12 + j * bsz i + d < 4096" using fit by linarith
  then show "data_at s (blk s i p j + of_nat d)" using pd(1) [of "12 + j * bsz i + d"] by (simp add: blk_def add.assoc)
qed

lemma blk_inj:
  assumes s: "kheap A s" and p: "A p = Some i" "j < nbl i" and q: "A q = Some i" "j' < nbl i"
    and eq: "blk s i p j = blk s i q j'"
  shows "p = q" "j = j'"
proof -
  have "kpage s p = kpage s q" using eq blk_props(2) [OF s p] blk_props(2) [OF s q] by simp
  moreover have "p < bm_size (kvb s)" "q < bm_size (kvb s)" using arena_page [OF s] p(1) q(1) by blast+
  ultimately show pq: "p = q" using kpage_eq_iff [OF kcoreD(2) [OF kheapD(2) [OF s]]] by blast
  have "j * bsz i = j' * bsz i" using eq blk_props(1) [OF s p] blk_props(1) [OF s q] pq by auto
  then show "j = j'" using bsz_bounds(1) [OF kheapD(7) [OF s p(1)]] by simp
qed

text \<open>One descriptor's list and the header of one of its arenas change.\<close>

definition upd_heap :: "nat \<Rightarrow> addr list \<Rightarrow> addr \<Rightarrow> u32 \<Rightarrow> (addr \<Rightarrow> u32) \<Rightarrow> 'a kernel_scheme \<Rightarrow> 'a kernel_scheme" where
  "upd_heap i L pa c m s = s\<lparr>k_block_descs := (k_block_descs s)[i := (k_block_descs s ! i)\<lparr>free_list := L\<rparr>],
     pmem := m, arenas := (arenas s)(pa := \<lparr>arena_desc = Some (K_desc i), arena_cnt = c, arena_large = 0\<rparr>)\<rparr>"

lemma upd_heap_vm:
  assumes "kvm s" and "same_tables s m"
  shows "kvm (upd_heap i L pa c m s)" "kmap (upd_heap i L pa c m s) = kmap s" "kpage (upd_heap i L pa c m s) = kpage s"
    "kframe (upd_heap i L pa c m s) = kframe s" "cr3 (upd_heap i L pa c m s) = cr3 s"
    "blk (upd_heap i L pa c m s) = blk s" "kaddr v \<Longrightarrow> translate (upd_heap i L pa c m s) v = translate s v"
proof -
  let ?s = "upd_heap i L pa c m s"
  have v: "same_vm (s\<lparr>pmem := m\<rparr>) ?s" by (simp add: same_vm_def upd_heap_def)
  note a = same_vm_cong [OF v] and b = same_tables_kvm [OF assms]
  show "kvm ?s" "kmap ?s = kmap s" using a b by simp_all
  show p: "kpage ?s = kpage s" "kframe ?s = kframe s" "cr3 ?s = cr3 s" using a by (simp_all add: upd_heap_def)
  show "blk ?s = blk s" by (simp add: blk_def p fun_eq_iff)
  have "ktables s" using assms(1) by (simp add: kvm_def kcore_def)
  then show "kaddr v \<Longrightarrow> translate ?s v = translate s v" using a(3) same_tables_walk(3) [OF _ assms(2)] by simp
qed

lemma upd_heap_fl:
  assumes "length (k_block_descs s) = 7" and "i < 7"
  shows "fl (upd_heap i L pa c m s) i' = (if i' = i then L else fl s i')"
  using assms by (simp add: upd_heap_def nth_list_update)

lemma upd_heap_kheap:
  assumes s: "kheap A s" and m: "same_tables s m" and A: "A p = Some i" and k: "kmap s p = Some k"
    and L: "distinct L" "\<And>b. b \<in> set L \<Longrightarrow> \<exists>q j. A q = Some i \<and> j < nbl i \<and> b = blk s i q j"
    and c: "c = of_nat (card {j. j < nbl i \<and> blk s i p j \<in> set L})"
    and other: "\<And>q j. A q = Some i \<Longrightarrow> q \<noteq> p \<Longrightarrow> j < nbl i \<Longrightarrow> blk s i q j \<in> set L \<longleftrightarrow> blk s i q j \<in> set (fl s i)"
  shows "kheap A (upd_heap i L (kframe s k) c m s)"
proof -
  let ?s = "upd_heap i L (kframe s k) c m s"
  note v = upd_heap_vm [OF kheapD(1) [OF s] m, where i = i and L = L and pa = "kframe s k" and c = c]
  have i: "i < 7" by (rule kheapD(7) [OF s A])
  note f = upd_heap_fl [OF kheapD(3) [OF s] i]
  have "descs_ok ?s" using kheapD(3-5) [OF s] i by (simp add: descs_ok_def upd_heap_def nth_list_update)
  moreover have "arena_ok ?s q i'" if q: "A q = Some i'" for q i'
  proof -
    obtain k' where k': "kmap s q = Some k'" "kframe s k' \<noteq> page_of (cr3 s)" "k' < bm_size (kpb s)"
      "arenas s (kframe s k') = \<lparr>arena_desc = Some (K_desc i'), arena_cnt = of_nat (card (free_js s i' q)), arena_large = 0\<rparr>"
      using arena_page [OF s q] by blast
    have "kframe s k' = kframe s k \<longleftrightarrow> q = p"
    proof
      assume "kframe s k' = kframe s k"
      moreover have "k < bm_size (kpb s)" using k kmap_Some_iff [OF kheapD(2) [OF s]] used_bound by blast
      ultimately have "k' = k"
        using kframe_props(1) [OF kcoreD(2) [OF kheapD(2) [OF s]]] k'(3) by (metis kmap_frame kcoreD(2) kheapD(2) s)
      then show "q = p" using kcoreD(4) [OF kheapD(2) [OF s]] k k'(1) by (auto simp: inj_on_def dom_def)
    qed (use k k' in simp)
    moreover have "free_js ?s i' q = (if q = p then {j. j < nbl i \<and> blk s i p j \<in> set L} else free_js s i' q)"
      using other [of q] q A by (auto simp: free_js_def v f)
    moreover have "i' < 7" by (rule kheapD(7) [OF s q])
    ultimately show ?thesis using k' c q A unfolding arena_ok_def v by (auto simp: upd_heap_def)
  qed
  moreover have "distinct (fl ?s i') \<and> (\<forall>b\<in>set (fl ?s i'). \<exists>q j. A q = Some i' \<and> j < nbl i' \<and> b = blk ?s i' q j)" if "i' < 7" for i'
    using L kheapD(8,9) [OF s that] unfolding v f by auto
  ultimately show ?thesis using v(1) by (simp add: kheap_def)
qed

lemma upd_heap_taken:
  assumes s: "kheap A s" and m: "same_tables s m" and i: "i < 7"
  shows "taken A (upd_heap i L pa c m s) =
    {(q, j). \<exists>i'. A q = Some i' \<and> j < nbl i' \<and> blk s i' q j \<notin> (if i' = i then set L else set (fl s i'))}"
  unfolding taken_def upd_heap_vm(6) [OF kheapD(1) [OF s] m] upd_heap_fl [OF kheapD(3) [OF s] i] by auto

section \<open>Taking and giving back a block\<close>

lemma load_kdesc: "length (k_block_descs s) = 7 \<Longrightarrow> i < 7 \<Longrightarrow> load_desc (Some (K_desc i)) s = Inr (k_block_descs s ! i)"
  by (simp add: load_desc_def descs_at_def desc_index_def)

lemma store_kdesc: "length (k_block_descs s) = 7 \<Longrightarrow> i < 7 \<Longrightarrow>
    store_desc (Some (K_desc i)) d s = Inr (s\<lparr>k_block_descs := (k_block_descs s)[i := d]\<rparr>)"
  by (simp add: store_desc_def load_kdesc)

lemma clear_block:
  assumes s: "kheap A s" and A: "A p = Some i" "j < nbl i" and v: "same_vm s s1"
  shows "\<exists>m. memzero (blk s i p j) (of_nat (bsz i)) s1 = Inr (s1\<lparr>pmem := m\<rparr>) \<and> same_tables s m"
proof -
  have i: "i < 7" by (rule kheapD(7) [OF s A(1)])
  have u: "unat (of_nat (bsz i) :: u32) = bsz i" using bsz_bounds(2) [OF i] by (simp add: unat_of_nat_lt)
  have kt: "ktables s1" using same_vm_cong(6) [OF v] kcoreD(1) [OF kheapD(2) [OF s]] by simp
  have "data_at s1 (blk s i p j + 4 * of_nat d)" if "d < bsz i div 4" for d
  proof -
    have "4 * d < bsz i" using that by linarith
    then show ?thesis using blk_props(3) [OF s A, of "4 * d"] same_vm_cong(7) [OF v] by simp
  qed
  from clear_data [OF kt this] obtain m where m: "memzero (blk s i p j) (of_nat (bsz i)) s1 = Inr (s1\<lparr>pmem := m\<rparr>)" "same_tables s1 m"
    unfolding memzero_def u by blast
  have "cr3 s1 = cr3 s" "pmem s1 = pmem s" using v by (simp_all add: same_vm_def)
  then have "same_tables s m" using m(2) ktables_same(2) [of s1 s] by (simp add: same_tables_def)
  then show ?thesis using m(1) by blast
qed

lemma of_nat_card_pred: "finite X \<Longrightarrow> x \<in> X \<Longrightarrow> of_nat (card X) - 1 = (of_nat (card (X - {x})) :: 'a::ring_1)"
proof -
  assume "finite X" "x \<in> X"
  then have "card X = Suc (card (X - {x}))" by (rule card.remove)
  then show ?thesis by simp
qed

lemma take_block_spec:
  assumes s: "kheap A s" and i: "i < 7" and hd: "fl s i = b # bs"
  shows "\<exists>s' p j k c m. take_block (K_desc i) s = Inr (s', b) \<and> s' = upd_heap i bs (kframe s k) c m s \<and>
    same_tables s m \<and> kheap A s' \<and> A p = Some i \<and> j < nbl i \<and> b = blk s i p j \<and>
    (p, j) \<notin> taken A s \<and> taken A s' = insert (p, j) (taken A s)"
proof -
  obtain p j where pj: "A p = Some i" "j < nbl i" "b = blk s i p j" using kheapD(9) [OF s i, of b] hd by auto
  obtain k where k: "kmap s p = Some k" "translate s (kpage s p) = Some (kframe s k)" "p < bm_size (kvb s)"
    "arenas s (kframe s k) = \<lparr>arena_desc = Some (K_desc i), arena_cnt = of_nat (card (free_js s i p)), arena_large = 0\<rparr>"
    using arena_page [OF s pj(1)] by blast
  let ?s1 = "s\<lparr>k_block_descs := (k_block_descs s)[i := (k_block_descs s ! i)\<lparr>free_list := bs\<rparr>]\<rparr>"
  have v1: "same_vm s ?s1" by (simp add: same_vm_def)
  obtain m where m: "memzero b (of_nat (bsz i)) ?s1 = Inr (?s1\<lparr>pmem := m\<rparr>)" "same_tables s m"
    using clear_block [OF s pj(1,2) v1] pj(3) by blast
  have "kaddr (kpage s p)" by (rule kpage_props(3) [OF kcoreD(2) [OF kheapD(2) [OF s]] k(3)])
  then have "translate (s\<lparr>pmem := m\<rparr>) (kpage s p) = Some (kframe s k)"
    using same_tables_walk(3) [OF kcoreD(1) [OF kheapD(2) [OF s]] m(2)] k(2) by simp
  moreover have v2: "same_vm (s\<lparr>pmem := m\<rparr>) (?s1\<lparr>pmem := m\<rparr>)" by (simp add: same_vm_def)
  ultimately have t2: "translate (?s1\<lparr>pmem := m\<rparr>) (kpage s p) = Some (kframe s k)"
    using same_vm_cong(3) [OF v2, of "kpage s p"] by simp
  have page: "block2arena b = kpage s p" using blk_props(2) [OF s pj(1,2)] pj(3) by (simp add: block2arena_def page_of_def)
  let ?c = "of_nat (card (free_js s i p)) - 1 :: u32"
  let ?s' = "upd_heap i bs (kframe s k) ?c m s"
  have take: "take_block (K_desc i) s = Inr (?s', b)"
    using load_kdesc [OF kheapD(3) [OF s] i] hd store_kdesc [OF kheapD(3) [OF s] i] kheapD(4) [OF s i] m(1) t2 k(4)
    by (simp add: take_block_def page load_arena_def store_arena_def upd_heap_def)
  have dist: "distinct (b # bs)" using kheapD(8) [OF s i] hd by simp
  have eq: "blk s i q j' = b \<longleftrightarrow> q = p \<and> j' = j" if "A q = Some i" "j' < nbl i" for q j'
    using blk_inj [OF s that pj(1,2)] pj(3) by blast
  have sub: "{j'. j' < nbl i \<and> blk s i p j' \<in> set bs} = free_js s i p - {j}"
    using dist eq [OF pj(1)] unfolding free_js_def hd by auto
  have "j \<in> free_js s i p" "finite (free_js s i p)" using pj hd by (simp_all add: free_js_def)
  then have c: "?c = of_nat (card {j'. j' < nbl i \<and> blk s i p j' \<in> set bs})" unfolding sub by (intro of_nat_card_pred)
  have "kheap A ?s'"
  proof (rule upd_heap_kheap [OF s m(2) pj(1) k(1) _ _ c])
    show "\<exists>q j. A q = Some i \<and> j < nbl i \<and> b' = blk s i q j" if "b' \<in> set bs" for b'
      using kheapD(9) [OF s i, of b'] hd that by simp
    show "blk s i q j' \<in> set bs \<longleftrightarrow> blk s i q j' \<in> set (fl s i)" if "A q = Some i" "q \<noteq> p" "j' < nbl i" for q j'
      using eq [OF that(1,3)] that(2) hd by simp
  qed (use dist in simp)
  moreover have "(p, j) \<notin> taken A s" using pj hd by (auto simp: taken_def)
  moreover have "taken A ?s' = insert (p, j) (taken A s)"
    using pj dist eq unfolding upd_heap_taken [OF s m(2) i] unfolding taken_def by (auto simp: hd split: if_splits)
  ultimately show ?thesis using take m(2) pj by blast
qed

section \<open>A new arena\<close>

lemma blk_page:
  assumes "kcore s" and "kmap s p = Some k" and "kframe s k \<noteq> page_of (cr3 s)" and "i < 7" and "j < nbl i"
  shows "unat (blk s i p j) = unat (kpage s p) + 12 + j * bsz i" "page_of (blk s i p j) = kpage s p"
proof -
  have b: "12 + j * bsz i < 4096" using block_fits [OF assms(4,5)] bsz_bounds(1) [OF assms(4)] by linarith
  show "unat (blk s i p j) = unat (kpage s p) + 12 + j * bsz i" "page_of (blk s i p j) = kpage s p"
    using page_data(2,3) [OF assms(1-3) b] by (simp_all add: blk_def)
qed

lemma split_arena_spec:
  assumes "translate s a = Some pa" and "arena_desc (arenas s pa) = Some (K_desc i)"
    and "length (k_block_descs s) = 7" and "i < 7" and "block_size (k_block_descs s ! i) = of_nat (bsz i)"
    and "distinct (fl s i @ map (\<lambda>j. a + of_nat (12 + j * bsz i)) [x..<x + n])"
  shows "split_arena n (of_nat x) a s = Inr (s\<lparr>k_block_descs := (k_block_descs s)[i := (k_block_descs s ! i)
    \<lparr>free_list := fl s i @ map (\<lambda>j. a + of_nat (12 + j * bsz i)) [x..<x + n]\<rparr>]\<rparr>)"
  using assms
proof (induction n arbitrary: x s)
  case (Suc n)
  let ?B = "\<lambda>j. a + of_nat (12 + j * bsz i)"
  let ?s = "s\<lparr>k_block_descs := (k_block_descs s)[i := (k_block_descs s ! i)\<lparr>free_list := fl s i @ [?B x]\<rparr>]\<rparr>"
  have up: "[x..<x + Suc n] = x # [Suc x..<Suc x + n]" by (simp add: upt_conv_Cons)
  have b: "arena2block a (of_nat x) s = Inr (?B x)"
    using Suc.prems(1-5) by (simp add: arena2block_def load_arena_def load_kdesc ARENA_SIZE_def add.assoc)
  have step: "split_arena (Suc n) (of_nat x) a s = split_arena n (of_nat (Suc x)) a ?s"
    using b Suc.prems unfolding up by (simp add: load_arena_def load_kdesc store_kdesc add.commute)
  have v: "same_vm s ?s" by (simp add: same_vm_def)
  have t: "translate ?s a = Some pa" using same_vm_cong(3) [OF v, of a] Suc.prems(1) by simp
  have fs: "fl ?s i = fl s i @ [?B x]" "length (k_block_descs ?s) = 7" "arenas ?s = arenas s"
    "block_size (k_block_descs ?s ! i) = of_nat (bsz i)" using Suc.prems(3-5) by simp_all
  have "distinct (fl ?s i @ map ?B [Suc x..<Suc x + n])" using Suc.prems(6) unfolding up fs(1) by simp
  from Suc.IH [OF t _ fs(2) Suc.prems(4) fs(4) this] show ?case
    using Suc.prems(2,3,4) unfolding step up by (simp add: fs)
qed simp

text \<open>The state in which page \<open>q\<close>, tied to frame \<open>k\<close>, has become an arena of descriptor \<open>i\<close>, all its blocks free.\<close>

definition arena_added :: "nat \<Rightarrow> nat \<Rightarrow> nat \<Rightarrow> (addr \<Rightarrow> u32) \<Rightarrow> 'a kernel_scheme \<Rightarrow> 'a kernel_scheme" where
  "arena_added i q k m s = s\<lparr>pmem := m,
     arenas := (arenas s)(kframe s k := \<lparr>arena_desc = Some (K_desc i), arena_cnt = of_nat (nbl i), arena_large = 0\<rparr>),
     k_block_descs := (k_block_descs s)[i := (k_block_descs s ! i)\<lparr>free_list := map (blk s i q) [0..<nbl i]\<rparr>]\<rparr>"

lemma new_blocks_distinct:
  assumes "kcore s" and "kmap s p = Some k" and "kframe s k \<noteq> page_of (cr3 s)" and "i < 7"
  shows "distinct (map (blk s i p) [0..<nbl i])"
proof -
  have "inj_on (blk s i p) {0..<nbl i}"
  proof (rule inj_onI)
    fix j j' assume j: "j \<in> {0..<nbl i}" "j' \<in> {0..<nbl i}" "blk s i p j = blk s i p j'"
    then have "unat (kpage s p) + 12 + j * bsz i = unat (kpage s p) + 12 + j' * bsz i"
      using blk_page(1) [OF assms, of j] blk_page(1) [OF assms, of j'] by auto
    then show "j = j'" using bsz_bounds(1) [OF assms(4)] by auto
  qed
  then show ?thesis by (simp add: distinct_map)
qed

lemma carve_arena:
  assumes s: "kvm s" and q: "kmap s q = Some k" "kframe s k \<noteq> page_of (cr3 s)" and i: "i < 7" "fl s i = []" "descs_ok s"
  shows "\<exists>m. bindR (memzero (kpage s q) PG_SIZE s) (\<lambda>s2. bindR (load_desc (Some (K_desc i)) s2) (\<lambda>d.
       bindR (store_arena (kpage s q) \<lparr>arena_desc = Some (K_desc i), arena_cnt = blocks_per_arena d, arena_large = 0\<rparr> s2) (\<lambda>s3.
       let (s4, old_status) = intr_disable s3 in
       bindR (split_arena (unat (blocks_per_arena d)) 0 (kpage s q) s4) (\<lambda>s5.
       Inr (fst (intr_set_status old_status s5), kpage s q))))) = Inr (arena_added i q k m s, kpage s q) \<and> same_tables s m"
proof -
  have core: "kcore s" using s by (simp add: kvm_def)
  have D: "length (k_block_descs s) = 7" "block_size (k_block_descs s ! i) = of_nat (bsz i)"
    "blocks_per_arena (k_block_descs s ! i) = of_nat (nbl i)" using i by (simp_all add: descs_ok_def)
  have un: "unat (of_nat (nbl i) :: u32) = nbl i" using bsz_bounds(4) [OF i(1)] by (simp add: unat_of_nat_lt)
  have qk: "q < bm_size (kvb s)" "translate s (kpage s q) = Some (kframe s k)"
    using q(1) kmap_Some_iff [OF core] by simp_all
  have "data_at s (kpage s q + 4 * of_nat d)" if "d < 1024" for d
    using page_data(1) [OF core q, of "4 * d"] that by simp
  from clear_data [OF kcoreD(1) [OF core] this] obtain m where m: "memzero (kpage s q) PG_SIZE s = Inr (s\<lparr>pmem := m\<rparr>)"
    "same_tables s m" by (auto simp: memzero_def)
  let ?r = "\<lparr>arena_desc = Some (K_desc i), arena_cnt = of_nat (nbl i), arena_large = 0\<rparr>"
  let ?s3 = "s\<lparr>pmem := m, arenas := (arenas s)(kframe s k := ?r)\<rparr>"
  let ?s4 = "fst (intr_disable ?s3)"
  have t2: "translate (s\<lparr>pmem := m\<rparr>) (kpage s q) = Some (kframe s k)"
    using same_tables_walk(3) [OF kcoreD(1) [OF core] m(2) kpage_props(3) [OF kcoreD(2) [OF core] qk(1)]] qk(2) by simp
  have f4: "cr3 ?s4 = cr3 s" "pmem ?s4 = m" "arenas ?s4 = (arenas s)(kframe s k := ?r)" "k_block_descs ?s4 = k_block_descs s"
    by (simp_all add: intr_disable_def cli_def)
  have t4: "translate ?s4 (kpage s q) = Some (kframe s k)" using t2 translate_same [of ?s4 "s\<lparr>pmem := m\<rparr>"] f4 by simp
  let ?f = "\<lambda>t :: 'a kernel_scheme. t\<lparr>k_block_descs := (k_block_descs s)[i := (k_block_descs s ! i)\<lparr>free_list := map (blk s i q) [0..<nbl i]\<rparr>]\<rparr>"
  have B: "(\<lambda>j. kpage s q + of_nat (12 + j * bsz i)) = blk s i q" by (simp add: blk_def fun_eq_iff)
  have split: "split_arena (nbl i) 0 (kpage s q) ?s4 = Inr (?f ?s4)"
    using split_arena_spec [OF t4, of i 0 "nbl i"] new_blocks_distinct [OF core q i(1)] D i unfolding f4 B by simp
  have "fst (intr_set_status (intr_get_status ?s3) (?f ?s4)) = ?f ?s3"
    by (rule critical_commute) (simp_all add: sti_def)
  then have "fst (intr_set_status (intr_get_status ?s3) (?f ?s4)) = arena_added i q k m s"
    by (simp add: arena_added_def)
  then show ?thesis using m t2 split D i(1) un
    by (intro exI [of _ m]) (simp add: load_kdesc store_arena_def split_def)
qed

lemma arena_added_kheap:
  assumes s: "kheap A s" and i: "i < 7" "fl s i = []"
    and s1: "kvm s1" "kmap s1 = (kmap s)(q \<mapsto> k)" "kmap s q = None" "k \<notin> bm_used (kpb s)" "k < bm_size (kpb s)"
    "kpage s1 = kpage s" "kframe s1 = kframe s" "cr3 s1 = cr3 s" "k_block_descs s1 = k_block_descs s" "arenas s1 = arenas s"
    and m: "same_tables s1 m"
  shows "kheap (A(q \<mapsto> i)) (arena_added i q k m s1)" "taken (A(q \<mapsto> i)) (arena_added i q k m s1) = taken A s"
proof -
  let ?s = "arena_added i q k m s1" and ?A = "A(q \<mapsto> i)"
  have core: "kcore s" "kcore s1" using kheapD(2) [OF s] s1(1) by (simp_all add: kvm_def)
  have v: "same_vm (s1\<lparr>pmem := m\<rparr>) ?s" by (simp add: same_vm_def arena_added_def)
  note c = same_vm_cong [OF v] and k1 = same_tables_kvm [OF s1(1) m]
  have kv: "kvm ?s" "kmap ?s = (kmap s)(q \<mapsto> k)" "kpage ?s = kpage s" "kframe ?s = kframe s" "cr3 ?s = cr3 s"
    using c k1 s1(2,6,7,8) by (simp_all add: arena_added_def)
  have blk: "blk ?s = blk s" "blk s1 = blk s" using kv(3) s1(6) by (simp_all add: blk_def fun_eq_iff)
  have qk: "kmap s1 q = Some k" "kframe s1 k \<noteq> page_of (cr3 s1)"
    using s1(2,7,8) kcoreD(6) [OF core(1) s1(5,4)] by simp_all
  have fl: "fl ?s i' = (if i' = i then map (blk s i q) [0..<nbl i] else fl s i')" for i'
    using i kheapD(3) [OF s] s1(9) blk(2) by (simp add: arena_added_def nth_list_update)
  have pq: "p \<noteq> q" if "A p = Some i'" for p i' using arena_page [OF s that] s1(3) by auto
  have notin: "blk s i p j \<notin> set (map (blk s i q) [0..<nbl i])" if p: "A p = Some i" "j < nbl i" for p j
  proof
    assume "blk s i p j \<in> set (map (blk s i q) [0..<nbl i])"
    then obtain j' where j': "j' < nbl i" "blk s i p j = blk s i q j'" by auto
    have "page_of (blk s i q j') = kpage s q" using blk_page(2) [OF core(2) qk i(1) j'(1)] blk(2) s1(6) by simp
    moreover have "page_of (blk s i p j) = kpage s p" by (rule blk_props(2) [OF s p])
    moreover have "kmap ?s q = Some k" using kv(2) by simp
    then have "q < bm_size (kvb ?s)" by (auto simp: kmap_def split: if_splits)
    moreover have "p < bm_size (kvb s)" using arena_page [OF s p(1)] by blast
    moreover have "kcore ?s" using kv(1) by (simp add: kvm_def)
    moreover have "kmap ?s p = kmap s p" using kv(2) pq [OF p(1)] by simp
    then have "p < bm_size (kvb ?s)" using arena_page [OF s p(1)] by (auto simp: kmap_def split: if_splits)
    ultimately show False using kpage_eq_iff [OF kcoreD(2), of ?s p q] kv(3) pq [OF p(1)] j'(2) by simp
  qed
  have js: "free_js ?s i' p = (if p = q \<and> i' = i then {..<nbl i} else free_js s i' p)" if "?A p = Some i'" for p i'
    using that notin i pq by (auto simp: free_js_def fl blk split: if_splits)
  have "arena_ok ?s p i'" if p: "?A p = Some i'" for p i'
  proof (cases "p = q")
    case True
    then have "i' = i" using p by simp
    then show ?thesis using True i(1) js [OF p] kv qk s1(7,8) by (simp add: arena_ok_def arena_added_def)
  next
    case False
    then have Ap: "A p = Some i'" using p by simp
    obtain k' where k': "kmap s p = Some k'" "kframe s k' \<noteq> page_of (cr3 s)"
      "arenas s (kframe s k') = \<lparr>arena_desc = Some (K_desc i'), arena_cnt = of_nat (card (free_js s i' p)), arena_large = 0\<rparr>"
      using arena_page [OF s Ap] by blast
    have "k' \<in> bm_used (kpb s)" using k'(1) kmap_Some_iff [OF core(1)] by simp
    then have "kframe s k' \<noteq> kframe s k"
      using kmap_frame [OF kcoreD(2) [OF core(1)] s1(5)] kmap_frame [OF kcoreD(2) [OF core(1)] used_bound, of k'] s1(4) by metis
    then show ?thesis using k' js [OF p] False kv kheapD(7) [OF s Ap] s1(7,10)
      by (auto simp: arena_ok_def arena_added_def)
  qed
  moreover have "distinct (fl ?s i') \<and> (\<forall>b\<in>set (fl ?s i'). \<exists>p j. ?A p = Some i' \<and> j < nbl i' \<and> b = blk ?s i' p j)" if "i' < 7" for i'
  proof (cases "i' = i")
    case True
    have "\<exists>p j. ?A p = Some i \<and> j < nbl i \<and> b = blk s i p j" if "b \<in> set (map (blk s i q) [0..<nbl i])" for b
      using that by - (rule exI [of _ q], auto)
    then show ?thesis using True new_blocks_distinct [OF core(2) qk i(1)] unfolding fl blk by simp
  next
    case False
    have "\<exists>p j. ?A p = Some i' \<and> j < nbl i' \<and> b = blk s i' p j" if b: "b \<in> set (fl s i')" for b
    proof -
      obtain p j where p: "A p = Some i'" "j < nbl i'" "b = blk s i' p j" using kheapD(9) [OF s \<open>i' < 7\<close> b] by blast
      then have "?A p = Some i'" using pq by simp
      then show ?thesis using p by blast
    qed
    then show ?thesis using False kheapD(8) [OF s that] unfolding fl blk by simp
  qed
  moreover have "descs_ok ?s" using kheapD(3-5) [OF s] i(1) s1(9) by (simp add: descs_ok_def arena_added_def nth_list_update)
  ultimately show "kheap ?A ?s" using kv(1) by (simp add: kheap_def)
  have "(p, j) \<in> taken ?A ?s \<longleftrightarrow> (p, j) \<in> taken A s" for p j
  proof (cases "p = q")
    case True
    moreover have "A q = None" using pq by (cases "A q") auto
    ultimately show ?thesis by (simp add: taken_def fl blk)
  next
    case False
    then show ?thesis using notin [of p j] i(2) by (cases "A p") (auto simp: taken_def fl blk)
  qed
  then show "taken ?A ?s = taken A s" by auto
qed

section \<open>Small requests\<close>

lemma find_desc_spec:
  assumes "d \<in> set ds" and "sz \<le> block_size d"
  shows "find_desc sz ds < length ds \<and> sz \<le> block_size (ds ! find_desc sz ds) \<and>
    (\<forall>j<find_desc sz ds. \<not> sz \<le> block_size (ds ! j))"
  using assms by (induction ds) (auto simp: nth_Cons' less_Suc_eq_0_disj)

definition size_class :: "nat \<Rightarrow> nat \<Rightarrow> bool" where
  "size_class n i \<longleftrightarrow> i < 7 \<and> n \<le> bsz i \<and> (\<forall>i'<i. bsz i' < n)"

lemma find_desc_class:
  assumes "descs_ok s" and "sz \<le> 1024"
  shows "size_class (unat sz) (find_desc sz (k_block_descs s))"
proof -
  have D: "length (k_block_descs s) = 7" "\<And>i. i < 7 \<Longrightarrow> block_size (k_block_descs s ! i) = of_nat (bsz i)"
    using assms(1) by (simp_all add: descs_ok_def)
  have u: "sz \<le> of_nat (bsz i) \<longleftrightarrow> unat sz \<le> bsz i" if "i < 7" for i
    using bsz_bounds(2) [OF that] by (simp add: word_le_nat_alt unat_of_nat_lt)
  have in6: "k_block_descs s ! 6 \<in> set (k_block_descs s)" "sz \<le> block_size (k_block_descs s ! 6)"
    using D(1) assms(2) D(2) [of 6] by (simp_all add: bsz_def)
  have f: "find_desc sz (k_block_descs s) < 7" "sz \<le> block_size (k_block_descs s ! find_desc sz (k_block_descs s))"
    "\<forall>j<find_desc sz (k_block_descs s). \<not> sz \<le> block_size (k_block_descs s ! j)"
    using find_desc_spec [OF in6] D(1) by simp_all
  then show ?thesis using u D(2) by (auto simp: size_class_def not_le [symmetric])
qed

definition kthread :: "'a kernel_scheme \<Rightarrow> bool" where
  "kthread s \<longleftrightarrow> running_thread s \<noteq> NULL \<and> pgdir (tasks s (running_thread s)) = NULL"

lemma with_lock_kheap [simp]:
  "kheap A (with_lock l s) = kheap A s" "taken A (with_lock l s) = taken A s" "blk (with_lock l s) = blk s"
proof -
  show b: "blk (with_lock l s) = blk s" by (simp add: blk_def fun_eq_iff)
  have "arena_ok (with_lock l s) p i = arena_ok s p i" for p i
    unfolding arena_ok_def free_js_def b with_lock_simps by simp
  then show "kheap A (with_lock l s) = kheap A s" unfolding kheap_def descs_ok_def b by simp
  show "taken A (with_lock l s) = taken A s" unfolding taken_def b by simp
qed

lemma new_arena_spec:
  assumes s: "kheap A s" and i: "i < 7" "fl s i = []"
    and room: "bm_used (kvb s) \<noteq> {..<bm_size (kvb s)}" "bm_used (kpb s) \<noteq> {..<bm_size (kpb s)}"
  shows "\<exists>s' q. new_arena PF_KERNEL (K_desc i) s = Inr (s', kpage s q) \<and> kpage s q \<noteq> NULL \<and> kheap (A(q \<mapsto> i)) s' \<and>
    taken (A(q \<mapsto> i)) s' = taken A s \<and> A q = None \<and> fl s' i = map (blk s i q) [0..<nbl i] \<and> blk s' = blk s \<and>
    pool_lock (kernel_pool s') = pool_lock (kernel_pool s) \<and> running_thread s' = running_thread s \<and> tasks s' = tasks s"
proof -
  note core = kheapD(2) [OF s]
  obtain q where q: "q < bm_size (kvb s)" "bitmap_scan (kvb s) 1 = Inr (int q)"
    using scan_first_fit [OF kcoreD(8) [OF core]] room(1) by (auto simp: bm_full_iff)
  have "finite ({..<bm_size (kpb s)} - bm_used (kpb s))" "{..<bm_size (kpb s)} - bm_used (kpb s) \<noteq> {}"
    using room(2) by (auto simp: bm_used_def)
  then have card: "1 \<le> card ({..<bm_size (kpb s)} - bm_used (kpb s))"
    by (simp add: Suc_leI card_gt_0_iff)
  obtain s1 fs vb where m: "malloc_page PF_KERNEL (of_nat 1) s = Inr (s1, kpage s q)" "kvm s1" "mem_upd (upd_kvaddr vb s) s1"
    "length fs = 1" "set fs \<subseteq> {..<bm_size (kpb s)} - bm_used (kpb s)" "kmap s1 = kmaps q fs (kmap s)"
    "\<forall>j. q \<le> j \<longrightarrow> j < q + 1 \<longrightarrow> kmap s j = None"
    using malloc_page_kernel [OF kheapD(1) [OF s], of 1 q] q card by auto
  obtain k where k: "fs = [k]" using m(4) by (auto simp: length_Suc_conv)
  have km: "kmap s1 = (kmap s)(q \<mapsto> k)" using m(6) k by (auto simp: kmaps_def fun_eq_iff)
  have kq: "kmap s q = None" "k \<notin> bm_used (kpb s)" "k < bm_size (kpb s)" using m(5,7) k by auto
  have same1: "k_block_descs s1 = k_block_descs s" "arenas s1 = arenas s" using m(3) by (auto simp: mem_upd_def upd_kvaddr_def)
  have same2: "kpage s1 = kpage s" "kframe s1 = kframe s" "cr3 s1 = cr3 s"
    "pool_lock (kernel_pool s1) = pool_lock (kernel_pool s)" "esp s1 = esp s" "tasks s1 = tasks s"
    using mem_upd_same [OF m(3)] by simp_all
  note same = same1 same2
  have D: "descs_ok s1" "fl s1 i = []" using s i(2) same(1) by (simp_all add: kheap_def descs_ok_def)
  have q1: "kmap s1 q = Some k" "kframe s1 k \<noteq> page_of (cr3 s1)" using km kcoreD(6) [OF core kq(3,2)] same by simp_all
  obtain mm where mm: "new_arena PF_KERNEL (K_desc i) s = Inr (arena_added i q k mm s1, kpage s q)" "same_tables s1 mm"
    using carve_arena [OF m(2) q1 i(1) D(2,1)] m(1) kpage_props(4) [OF kcoreD(2) [OF core] q(1)] same(3)
    by (auto simp: new_arena_def)
  note h = arena_added_kheap [OF s i m(2) km kq same(3,4,5,1,2) mm(2)]
  have b: "blk s1 = blk s" "blk (arena_added i q k mm s1) = blk s"
    using same(3) by (simp_all add: blk_def arena_added_def kpage_def fun_eq_iff)
  have "fl (arena_added i q k mm s1) i = map (blk s i q) [0..<nbl i]"
    using i(1) D(1) b(1) by (simp add: arena_added_def descs_ok_def)
  moreover have "A q = None" using arena_page [OF s, of q] kq(1) by (cases "A q") auto
  moreover have "pool_lock (kernel_pool (arena_added i q k mm s1)) = pool_lock (kernel_pool s)"
    "running_thread (arena_added i q k mm s1) = running_thread s" "tasks (arena_added i q k mm s1) = tasks s"
    using same by (simp_all add: arena_added_def running_thread_def)
  ultimately show ?thesis using mm(1) h b kpage_props(4) [OF kcoreD(2) [OF core] q(1)] by blast
qed

lemma upd_heap_rest [simp]:
  "pool_lock (kernel_pool (upd_heap i L pa c m s)) = pool_lock (kernel_pool s)" "kpb (upd_heap i L pa c m s) = kpb s"
  "running_thread (upd_heap i L pa c m s) = running_thread s" "tasks (upd_heap i L pa c m s) = tasks s"
  by (simp_all add: upd_heap_def running_thread_def)

lemma sys_malloc_small:
  assumes s: "kheap A s" and t: "kthread s" "pool_lock (kernel_pool s) = lock_init"
    and sz: "0 < sz" "sz \<le> 1024" "sz < pool_size (kernel_pool s)"
    and room: "fl s (find_desc sz (k_block_descs s)) \<noteq> [] \<or>
      (bm_used (kvb s) \<noteq> {..<bm_size (kvb s)} \<and> bm_used (kpb s) \<noteq> {..<bm_size (kpb s)})"
  shows "\<exists>s' A' p j i. sys_malloc sz s = Inr (s', blk s i p j) \<and> kheap A' s' \<and> kthread s' \<and>
    pool_lock (kernel_pool s') = lock_init \<and> A \<subseteq>\<^sub>m A' \<and> A' p = Some i \<and> j < nbl i \<and> size_class (unat sz) i \<and> blk s' = blk s \<and>
    (p, j) \<notin> taken A s \<and> taken A' s' = insert (p, j) (taken A s)"
proof -
  let ?L = "held_by (running_thread s)"
  let ?s1 = "with_lock ?L s"
  let ?i = "find_desc sz (k_block_descs s)"
  have cls: "size_class (unat sz) ?i" using s sz(2) by (intro find_desc_class) (simp_all add: kheap_def)
  then have i: "?i < 7" by (simp add: size_class_def)
  have acq: "pool_acquire PF_KERNEL s = Inr ?s1" using t by (intro pool_acquire_free) (simp_all add: kthread_def)
  have h1: "kheap A ?s1" using s by simp
  have ld: "load_desc (Some (K_desc ?i)) ?s1 = Inr (k_block_descs s ! ?i)" using kheapD(3) [OF s] i by (simp add: load_kdesc)
  have "\<exists>s2 a A'. (if fl s ?i = [] then new_arena PF_KERNEL (K_desc ?i) ?s1 else Inr (?s1, 1)) = Inr (s2, a) \<and> a \<noteq> NULL \<and>
      kheap A' s2 \<and> taken A' s2 = taken A s \<and> A \<subseteq>\<^sub>m A' \<and> fl s2 ?i \<noteq> [] \<and> blk s2 = blk s \<and>
      pool_lock (kernel_pool s2) = ?L \<and> running_thread s2 = running_thread s \<and> tasks s2 = tasks s"
  proof (cases "fl s ?i = []")
    case True
    then have r: "bm_used (kvb ?s1) \<noteq> {..<bm_size (kvb ?s1)}" "bm_used (kpb ?s1) \<noteq> {..<bm_size (kpb ?s1)}" "fl ?s1 ?i = []"
      using room by simp_all
    obtain s2 q where n: "new_arena PF_KERNEL (K_desc ?i) ?s1 = Inr (s2, kpage s q)" "kpage s q \<noteq> NULL" "kheap (A(q \<mapsto> ?i)) s2"
      "taken (A(q \<mapsto> ?i)) s2 = taken A s" "A q = None" "fl s2 ?i = map (blk s ?i q) [0..<nbl ?i]" "blk s2 = blk s"
      "pool_lock (kernel_pool s2) = ?L" "running_thread s2 = running_thread s" "tasks s2 = tasks s"
      using new_arena_spec [OF h1 i r(3,1,2)] by auto
    have "A \<subseteq>\<^sub>m A(q \<mapsto> ?i)" using n(5) by (auto simp: map_le_def)
    moreover have "fl s2 ?i \<noteq> []" using n(6) bsz_bounds(3) [OF i] by simp
    ultimately show ?thesis using True n by auto
  next
    case False
    then show ?thesis using h1 by (intro exI [of _ ?s1] exI [of _ 1] exI [of _ A]) simp
  qed
  then obtain s2 a A' where s2: "(if fl s ?i = [] then new_arena PF_KERNEL (K_desc ?i) ?s1 else Inr (?s1, 1)) = Inr (s2, a)" "a \<noteq> NULL"
    "kheap A' s2" "taken A' s2 = taken A s" "A \<subseteq>\<^sub>m A'" "fl s2 ?i \<noteq> []" "blk s2 = blk s" "pool_lock (kernel_pool s2) = ?L"
    "running_thread s2 = running_thread s" "tasks s2 = tasks s" by blast
  obtain b bs where "fl s2 ?i = b # bs" using s2(6) by (cases "fl s2 ?i") auto
  from take_block_spec [OF s2(3) i this] obtain s3 p j k c m where s3: "take_block (K_desc ?i) s2 = Inr (s3, b)"
    "s3 = upd_heap ?i bs (kframe s2 k) c m s2" "same_tables s2 m" "kheap A' s3" "A' p = Some ?i" "j < nbl ?i" "b = blk s ?i p j"
    "(p, j) \<notin> taken A s" "taken A' s3 = insert (p, j) (taken A s)" unfolding s2(4,7) by blast
  have l3: "pool_lock (kernel_pool s3) = ?L" "running_thread s3 = running_thread s" "tasks s3 = tasks s" "blk s3 = blk s"
    using s2(7-10) s3(2) upd_heap_vm(6) [OF kheapD(1) [OF s2(3)] s3(3)] by simp_all
  have rel: "pool_release PF_KERNEL s3 = Inr (with_lock lock_init s3)" using l3 by (intro pool_release_held) simp
  have "sys_malloc sz s = Inr (with_lock lock_init s3, b)"
    using t(1) sz(1,3) leD [OF sz(2)] acq ld s2(1,2) s3(1) rel
    by (cases "fl s ?i = []") (auto simp: sys_malloc_def Let_def kthread_def pool_of_def descs_at_def)
  moreover have "kthread (with_lock lock_init s3)" using t(1) l3 by (simp add: kthread_def)
  ultimately show ?thesis using s3 s2(5) cls l3(4) by (intro exI [of _ "with_lock lock_init s3"] exI [of _ A']) auto
qed

section \<open>Releasing blocks\<close>

lemma distinct_remove1_filter:
  "distinct xs \<Longrightarrow> filter (\<lambda>y. y \<notin> set ys) (remove1 x xs) = filter (\<lambda>y. y \<notin> set (x # ys)) xs"
  by (simp add: distinct_remove1_removeAll removeAll_filter_not_eq) (metis (no_types, lifting))

lemma remove1_subset: "distinct xs \<Longrightarrow> set (y # ys) \<subseteq> set xs \<Longrightarrow> distinct (y # ys) \<Longrightarrow> set ys \<subseteq> set (remove1 y xs)"
  by auto

lemma join_arena_spec:
  assumes "translate s a = Some pa" and "arena_desc (arenas s pa) = Some (K_desc i)"
    and "length (k_block_descs s) = 7" and "i < 7" and "block_size (k_block_descs s ! i) = of_nat (bsz i)"
    and "distinct (fl s i)" and "set (map (\<lambda>j. a + of_nat (12 + j * bsz i)) [x..<x + n]) \<subseteq> set (fl s i)"
    and "distinct (map (\<lambda>j. a + of_nat (12 + j * bsz i)) [x..<x + n])"
  shows "join_arena n (of_nat x) a s = Inr (s\<lparr>k_block_descs := (k_block_descs s)[i := (k_block_descs s ! i)
    \<lparr>free_list := filter (\<lambda>b. b \<notin> set (map (\<lambda>j. a + of_nat (12 + j * bsz i)) [x..<x + n])) (fl s i)\<rparr>]\<rparr>)"
  using assms
proof (induction n arbitrary: x s)
  case (Suc n)
  let ?B = "\<lambda>j. a + of_nat (12 + j * bsz i)"
  let ?s = "s\<lparr>k_block_descs := (k_block_descs s)[i := (k_block_descs s ! i)\<lparr>free_list := remove1 (?B x) (fl s i)\<rparr>]\<rparr>"
  have up: "[x..<x + Suc n] = x # [Suc x..<Suc x + n]" by (simp add: upt_conv_Cons)
  have b: "arena2block a (of_nat x) s = Inr (?B x)"
    using Suc.prems(1-5) by (simp add: arena2block_def load_arena_def load_kdesc ARENA_SIZE_def add.assoc)
  have step: "join_arena (Suc n) (of_nat x) a s = join_arena n (of_nat (Suc x)) a ?s"
    using b Suc.prems unfolding up by (simp add: load_arena_def load_kdesc store_kdesc add.commute)
  have v: "same_vm s ?s" by (simp add: same_vm_def)
  have t: "translate ?s a = Some pa" using same_vm_cong(3) [OF v, of a] Suc.prems(1) by simp
  have fs: "fl ?s i = remove1 (?B x) (fl s i)" "length (k_block_descs ?s) = 7" "arenas ?s = arenas s"
    "block_size (k_block_descs ?s ! i) = of_nat (bsz i)" using Suc.prems(3-5) by simp_all
  have "distinct (fl ?s i)" "distinct (map ?B [Suc x..<Suc x + n])" using Suc.prems(6,8) unfolding up fs(1) by simp_all
  moreover have "set (map ?B [Suc x..<Suc x + n]) \<subseteq> set (fl ?s i)"
    using Suc.prems(7,8) unfolding up fs(1) list.map by (rule remove1_subset [OF Suc.prems(6)])
  ultimately have "join_arena n (of_nat (Suc x)) a ?s = Inr (?s\<lparr>k_block_descs := (k_block_descs ?s)[i := (k_block_descs ?s ! i)
    \<lparr>free_list := filter (\<lambda>b. b \<notin> set (map ?B [Suc x..<Suc x + n])) (fl ?s i)\<rparr>]\<rparr>)"
    using Suc.prems(2) by (intro Suc.IH [OF t _ fs(2) Suc.prems(4) fs(4)]) simp_all
  then show ?case
    using Suc.prems(3,4) distinct_remove1_filter [OF Suc.prems(6), of "map ?B [Suc x..<Suc x + n]" "?B x"]
    unfolding step up fs(1) by simp
qed simp

text \<open>Forgetting an arena whose blocks are all free, when its blocks leave the free list.\<close>

lemma drop_arena:
  assumes s: "kheap A s" and p: "A p = Some i" and free: "free_js s i p = {..<nbl i}"
  defines "s' \<equiv> s\<lparr>k_block_descs := (k_block_descs s)[i := (k_block_descs s ! i)
    \<lparr>free_list := filter (\<lambda>b. b \<notin> set (map (blk s i p) [0..<nbl i])) (fl s i)\<rparr>]\<rparr>"
  shows "kheap (A(p := None)) s'" "taken (A(p := None)) s' = taken A s" "kmap s' = kmap s" "kpage s' = kpage s"
    "kframe s' = kframe s" "blk s' = blk s"
proof -
  let ?A = "A(p := None)"
  have v: "same_vm s s'" by (simp add: same_vm_def s'_def)
  note c = same_vm_cong [OF v]
  show k: "kmap s' = kmap s" "kpage s' = kpage s" "kframe s' = kframe s" using c by simp_all
  show blk: "blk s' = blk s" by (simp add: blk_def k fun_eq_iff)
  have i: "i < 7" by (rule kheapD(7) [OF s p])
  have fl: "fl s' i' = (if i' = i then filter (\<lambda>b. b \<notin> set (map (blk s i p) [0..<nbl i])) (fl s i) else fl s i')" for i'
    using i kheapD(3) [OF s] by (simp add: s'_def nth_list_update)
  have other: "blk s i q j \<notin> set (map (blk s i p) [0..<nbl i])" if "A q = Some i" "q \<noteq> p" "j < nbl i" for q j
  proof
    assume "blk s i q j \<in> set (map (blk s i p) [0..<nbl i])"
    then obtain j' where "j' < nbl i" "blk s i q j = blk s i p j'" by auto
    then show False using blk_inj(1) [OF s that(1,3) p] that(2) by blast
  qed
  have js: "free_js s' i' q = free_js s i' q" if "?A q = Some i'" for q i'
    using that other [of q] by (auto simp: free_js_def fl blk split: if_splits)
  have "arena_ok s' q i'" if q: "?A q = Some i'" for q i'
  proof -
    have "A q = Some i'" using q by (auto split: if_splits)
    then have "arena_ok s q i'" by (rule kheapD(6) [OF s])
    then show ?thesis unfolding arena_ok_def js [OF q] k by (simp add: s'_def)
  qed
  moreover have "distinct (fl s' i') \<and> (\<forall>b\<in>set (fl s' i'). \<exists>q j. ?A q = Some i' \<and> j < nbl i' \<and> b = blk s' i' q j)" if i': "i' < 7" for i'
  proof -
    have "\<exists>q j. ?A q = Some i' \<and> j < nbl i' \<and> b = blk s i' q j" if b: "b \<in> set (fl s' i')" for b
    proof -
      have "b \<in> set (fl s i')" using b by (auto simp: fl split: if_splits)
      then obtain q j where q: "A q = Some i'" "j < nbl i'" "b = blk s i' q j" using kheapD(9) [OF s i'] by blast
      have "q \<noteq> p"
      proof
        assume "q = p"
        then have "i' = i" using q(1) p by simp
        then show False using b q \<open>q = p\<close> by (auto simp: fl)
      qed
      then have "?A q = Some i'" using q(1) by simp
      then show ?thesis using q by blast
    qed
    moreover have "distinct (fl s' i')" using kheapD(8) [OF s i'] by (auto simp: fl)
    ultimately show ?thesis unfolding blk by blast
  qed
  moreover have "descs_ok s'" using kheapD(3-5) [OF s] i by (simp add: descs_ok_def s'_def nth_list_update)
  ultimately show "kheap ?A s'" using c(5) kheapD(1) [OF s] by (simp add: kheap_def)
  have "(q, j) \<in> taken ?A s' \<longleftrightarrow> (q, j) \<in> taken A s" for q j
  proof (cases "q = p")
    case True
    then show ?thesis using free p by (auto simp: taken_def free_js_def)
  next
    case False
    then show ?thesis using other [of q j] by (cases "A q") (auto simp: taken_def fl blk)
  qed
  then show "taken ?A s' = taken A s" by auto
qed

lemma kheap_mfree:
  assumes s: "kheap A s" and p: "A p = None" "kmap s p = Some k" "kframe s k \<noteq> page_of (cr3 s)"
  shows "\<exists>s'. mfree_page PF_KERNEL (kpage s p) 1 s = Inr s' \<and> kheap A s' \<and> taken A s' = taken A s \<and> blk s' = blk s \<and>
    kmap s' = (kmap s)(p := None) \<and> bm_used (kpb s') = bm_used (kpb s) - {k} \<and>
    pool_lock (kernel_pool s') = pool_lock (kernel_pool s) \<and> running_thread s' = running_thread s \<and> tasks s' = tasks s"
proof -
  have "p < bm_size (kvb s)" using p(2) kmap_Some_iff [OF kheapD(2) [OF s]] by blast
  then obtain s' where f: "mfree_page PF_KERNEL (kpage s p) (of_nat 1) s = Inr s'" "kvm s'" "mem_upd s (upd_kvaddr (kvb s) s')"
    "kmap s' = kmap s |` (- {p..<p + 1})" "bm_used (kpb s') = bm_used (kpb s) - set [k]"
    using mfree_page_kernel [OF kheapD(1) [OF s], of 1 p "[k]"] p by auto
  have km: "kmap s' = (kmap s)(p := None)" using f(4) by (auto simp: restrict_map_def fun_eq_iff)
  have same: "kpage s' = kpage s" "kframe s' = kframe s" "cr3 s' = cr3 s" "pool_lock (kernel_pool s') = pool_lock (kernel_pool s)"
    "running_thread s' = running_thread s" "tasks s' = tasks s"
    using mem_upd_same [OF f(3)] by (simp_all add: running_thread_def)
  have ds: "k_block_descs (upd_kvaddr (kvb s) s') = k_block_descs s" "arenas (upd_kvaddr (kvb s) s') = arenas s"
    using f(3) by (auto simp: mem_upd_def)
  then have ds: "k_block_descs s' = k_block_descs s" "arenas s' = arenas s" by (simp_all add: upd_kvaddr_def)
  have blk: "blk s' = blk s" by (simp add: blk_def same fun_eq_iff)
  have "arena_ok s' q i" if "A q = Some i" for q i
  proof -
    have "arena_ok s q i" "q \<noteq> p" using kheapD(6) [OF s that] that p(1) by auto
    then show ?thesis unfolding arena_ok_def free_js_def blk same km ds by simp
  qed
  then have "kheap A s'" using s f(2) unfolding kheap_def descs_ok_def blk ds by simp
  moreover have "taken A s' = taken A s" by (simp add: taken_def blk ds)
  ultimately show ?thesis using f(1,5) km same blk by auto
qed

definition page_busy :: "(nat \<rightharpoonup> nat) \<Rightarrow> 'a kernel_scheme \<Rightarrow> nat \<Rightarrow> nat \<Rightarrow> bool" where
  "page_busy A s p j \<longleftrightarrow> (\<exists>j'. j' \<noteq> j \<and> (p, j') \<in> taken A s)"

lemma give_back:
  assumes s: "kheap A s" and p: "A p = Some i" "(p, j) \<in> taken A s" and k: "kmap s p = Some k"
  defines "L \<equiv> fl s i @ [blk s i p j]"
  defines "s' \<equiv> upd_heap i L (kframe s k) (of_nat (card (free_js s i p)) + 1) (pmem s) s"
  shows "kheap A s'" "taken A s' = taken A s - {(p, j)}" "blk s' = blk s" "kmap s' = kmap s" "fl s' i = L"
    "free_js s' i p = insert j (free_js s i p)" "page_busy A s p j \<longleftrightarrow> free_js s' i p \<noteq> {..<nbl i}"
proof -
  have i: "i < 7" by (rule kheapD(7) [OF s p(1)])
  have j: "j < nbl i" "blk s i p j \<notin> set (fl s i)" using p by (auto simp: taken_def)
  have st: "same_tables s (pmem s)" by (simp add: same_tables_def)
  have eq: "blk s i q j' = blk s i p j \<longleftrightarrow> q = p \<and> j' = j" if "A q = Some i" "j' < nbl i" for q j'
    using blk_inj [OF s that p(1) j(1)] by blast
  have js: "{j'. j' < nbl i \<and> blk s i p j' \<in> set L} = insert j (free_js s i p)"
    using eq [OF p(1)] j(1) by (auto simp: L_def free_js_def)
  have nj: "j \<notin> free_js s i p" "finite (free_js s i p)" using j(2) by (simp_all add: free_js_def)
  have c: "of_nat (card (free_js s i p)) + 1 = (of_nat (card {j'. j' < nbl i \<and> blk s i p j' \<in> set L}) :: u32)"
    unfolding js using nj by (simp add: add.commute)
  show "kheap A s'" unfolding s'_def
  proof (rule upd_heap_kheap [OF s st p(1) k _ _ c])
    show "distinct L" using kheapD(8) [OF s i] j(2) by (simp add: L_def)
    show "\<exists>q j. A q = Some i \<and> j < nbl i \<and> b = blk s i q j" if "b \<in> set L" for b
      using that kheapD(9) [OF s i, of b] p(1) j(1) by (auto simp: L_def)
    show "blk s i q j' \<in> set L \<longleftrightarrow> blk s i q j' \<in> set (fl s i)" if "A q = Some i" "q \<noteq> p" "j' < nbl i" for q j'
      using eq [OF that(1,3)] that(2) by (simp add: L_def)
  qed
  show b: "blk s' = blk s" "kmap s' = kmap s" unfolding s'_def by (rule upd_heap_vm [OF kheapD(1) [OF s] st])+
  show fl: "fl s' i = L" unfolding s'_def upd_heap_fl [OF kheapD(3) [OF s] i] by simp
  show f': "free_js s' i p = insert j (free_js s i p)" unfolding free_js_def b fl using js by (simp add: free_js_def)
  have set_L: "set L = insert (blk s i p j) (set (fl s i))" by (simp add: L_def)
  have "(q, j') \<in> taken A s' \<longleftrightarrow> (q, j') \<in> taken A s - {(p, j)}" for q j'
    using eq [of q j'] p(1) unfolding s'_def upd_heap_taken [OF s st i] set_L unfolding taken_def
    by (cases "A q") auto
  then show "taken A s' = taken A s - {(p, j)}" by (intro set_eqI) (simp add: split_paired_all)
  have "page_busy A s p j \<longleftrightarrow> (\<exists>j'<nbl i. j' \<noteq> j \<and> j' \<notin> free_js s i p)"
    using p(1) by (auto simp: page_busy_def taken_def free_js_def)
  moreover have "insert j (free_js s i p) \<subseteq> {..<nbl i}" using j(1) by (auto simp: free_js_def)
  ultimately show "page_busy A s p j \<longleftrightarrow> free_js s' i p \<noteq> {..<nbl i}" unfolding f' by blast
qed

lemma same_vm_kpage: "blk s' = blk s \<Longrightarrow> kpage s' = kpage s"
  by (auto simp: blk_def fun_eq_iff dest: spec [of _ 0])

lemma release_arena:
  assumes s: "kheap A s" and p: "A p = Some i" and all: "free_js s i p = {..<nbl i}"
  shows "\<exists>s'. bindR (join_arena (unat (of_nat (nbl i) :: u32)) 0 (kpage s p) s) (mfree_page PF_KERNEL (kpage s p) 1) = Inr s' \<and>
    kheap (A(p := None)) s' \<and> taken (A(p := None)) s' = taken A s \<and> blk s' = blk s \<and> kmap s' = (kmap s)(p := None) \<and>
    bm_used (kpb s') = bm_used (kpb s) - {the (kmap s p)} \<and>
    pool_lock (kernel_pool s') = pool_lock (kernel_pool s) \<and> running_thread s' = running_thread s \<and> tasks s' = tasks s"
proof -
  have i: "i < 7" by (rule kheapD(7) [OF s p])
  obtain k where k: "kmap s p = Some k" "kframe s k \<noteq> page_of (cr3 s)" "translate s (kpage s p) = Some (kframe s k)"
    "arenas s (kframe s k) = \<lparr>arena_desc = Some (K_desc i), arena_cnt = of_nat (card (free_js s i p)), arena_large = 0\<rparr>"
    using arena_page [OF s p] by blast
  have u: "unat (of_nat (nbl i) :: u32) = nbl i" using bsz_bounds(4) [OF i] by (simp add: unat_of_nat_lt)
  have B: "(\<lambda>j. kpage s p + of_nat (12 + j * bsz i)) = blk s i p" by (simp add: blk_def fun_eq_iff)
  have in_fl: "set (map (blk s i p) [0..<nbl i]) \<subseteq> set (fl s i)"
  proof
    fix b assume "b \<in> set (map (blk s i p) [0..<nbl i])"
    then obtain j where j: "b = blk s i p j" "j < nbl i" by auto
    then have "j \<in> free_js s i p" unfolding all by simp
    then show "b \<in> set (fl s i)" using j(1) by (simp add: free_js_def)
  qed
  have dist: "distinct (map (blk s i p) [0..<nbl i])"
    using blk_inj(2) [OF s p _ p] by (simp add: distinct_map inj_on_def)
  let ?s = "s\<lparr>k_block_descs := (k_block_descs s)[i := (k_block_descs s ! i)
    \<lparr>free_list := filter (\<lambda>b. b \<notin> set (map (blk s i p) [0..<nbl i])) (fl s i)\<rparr>]\<rparr>"
  have "join_arena (nbl i) (of_nat 0) (kpage s p) s = Inr ?s"
    using join_arena_spec [OF k(3) _ kheapD(3) [OF s] i kheapD(4) [OF s i] kheapD(8) [OF s i], of 0 "nbl i"] in_fl dist k(4)
    unfolding B by simp
  then have join: "join_arena (nbl i) 0 (kpage s p) s = Inr ?s" by simp
  note d = drop_arena [OF s p all]
  have k': "(A(p := None)) p = None" "kmap ?s p = Some k" "kframe ?s k \<noteq> page_of (cr3 ?s)" using k d(3,5) by simp_all
  obtain s' where m: "mfree_page PF_KERNEL (kpage s p) 1 ?s = Inr s'" "kheap (A(p := None)) s'" "taken (A(p := None)) s' = taken A s"
    "blk s' = blk s" "kmap s' = (kmap s)(p := None)" "pool_lock (kernel_pool s') = pool_lock (kernel_pool ?s)"
    "running_thread s' = running_thread ?s" "tasks s' = tasks ?s" "bm_used (kpb s') = bm_used (kpb ?s) - {k}"
    using kheap_mfree [OF d(1) k'] unfolding d(2-6) by blast
  show ?thesis unfolding u join using m k(1) by (intro exI [of _ s']) (simp add: running_thread_def)
qed

lemma give_block_spec:
  assumes s: "kheap A s" and p: "A p = Some i" "(p, j) \<in> taken A s"
  defines "A' \<equiv> if page_busy A s p j then A else A(p := None)"
  shows "\<exists>s'. give_block PF_KERNEL (blk s i p j) s = Inr s' \<and> kheap A' s' \<and> taken A' s' = taken A s - {(p, j)} \<and> blk s' = blk s \<and>
    kmap s' = (if page_busy A s p j then kmap s else (kmap s)(p := None)) \<and>
    bm_used (kpb s') = (if page_busy A s p j then bm_used (kpb s) else bm_used (kpb s) - {the (kmap s p)}) \<and>
    pool_lock (kernel_pool s') = pool_lock (kernel_pool s) \<and> running_thread s' = running_thread s \<and> tasks s' = tasks s"
proof -
  let ?b = "blk s i p j" and ?c = "of_nat (card (free_js s i p)) + 1 :: u32"
  have i: "i < 7" and j: "j < nbl i" using kheapD(7) [OF s p(1)] p by (auto simp: taken_def)
  obtain k where k: "kmap s p = Some k" "kframe s k \<noteq> page_of (cr3 s)" "translate s (kpage s p) = Some (kframe s k)" "p < bm_size (kvb s)"
    "arenas s (kframe s k) = \<lparr>arena_desc = Some (K_desc i), arena_cnt = of_nat (card (free_js s i p)), arena_large = 0\<rparr>"
    using arena_page [OF s p(1)] by blast
  define s2 where "s2 = upd_heap i (fl s i @ [?b]) (kframe s k) ?c (pmem s) s"
  note g = give_back [OF s p k(1), folded s2_def]
  have page: "block2arena ?b = kpage s p" using blk_props(2) [OF s p(1) j] by (simp add: block2arena_def page_of_def)
  have "translate (s\<lparr>k_block_descs := ds\<rparr>) a = translate s a" for ds a by (rule same_vm_cong(3)) (simp add: same_vm_def)
  then have give: "give_block PF_KERNEL ?b s = (if ?c = of_nat (nbl i)
      then bindR (join_arena (unat (of_nat (nbl i) :: u32)) 0 (kpage s p) s2) (mfree_page PF_KERNEL (kpage s p) 1) else Inr s2)"
    using k(3,5) load_kdesc [OF kheapD(3) [OF s] i] store_kdesc [OF kheapD(3) [OF s] i] kheapD(5) [OF s i]
    by (simp add: give_block_def Let_def page load_arena_def store_arena_def s2_def upd_heap_def)
  have rest: "pool_lock (kernel_pool s2) = pool_lock (kernel_pool s)" "kpb s2 = kpb s" "running_thread s2 = running_thread s" "tasks s2 = tasks s"
    by (simp_all add: s2_def)
  have nb: "nbl i < 2 ^ 32" using bsz_bounds(4) [OF i] by simp
  have f': "free_js s2 i p \<subseteq> {..<nbl i}" "card (free_js s2 i p) = Suc (card (free_js s i p))"
    using g(6) p by (auto simp: free_js_def taken_def)
  then have "card (free_js s2 i p) \<le> nbl i" using card_mono [OF _ f'(1)] by simp
  moreover have c: "?c = of_nat (card (free_js s2 i p))" using f'(2) by simp
  ultimately have "?c = of_nat (nbl i) \<longleftrightarrow> card (free_js s2 i p) = nbl i"
    using nb unfolding c by (simp add: word_unat_eq_iff unat_of_nat_lt)
  also have "\<dots> \<longleftrightarrow> free_js s2 i p = {..<nbl i}" by (metis card_lessThan card_subset_eq f'(1) finite_lessThan)
  finally have full: "?c = of_nat (nbl i) \<longleftrightarrow> \<not> page_busy A s p j" using g(7) by simp
  show ?thesis
  proof (cases "page_busy A s p j")
    case True
    then show ?thesis using give full g(1-4) rest unfolding A'_def by auto
  next
    case False
    then have all: "free_js s2 i p = {..<nbl i}" using g(7) by simp
    have kp: "kpage s2 = kpage s" using same_vm_kpage [OF g(3)] by simp
    obtain s' where r: "bindR (join_arena (unat (of_nat (nbl i) :: u32)) 0 (kpage s p) s2) (mfree_page PF_KERNEL (kpage s p) 1) = Inr s'"
      "kheap (A(p := None)) s'" "taken (A(p := None)) s' = taken A s2" "blk s' = blk s2" "kmap s' = (kmap s2)(p := None)"
      "pool_lock (kernel_pool s') = pool_lock (kernel_pool s2)" "running_thread s' = running_thread s2" "tasks s' = tasks s2"
      "bm_used (kpb s') = bm_used (kpb s2) - {the (kmap s2 p)}"
      using release_arena [OF g(1) p(1) all] unfolding kp by blast
    have "give_block PF_KERNEL ?b s = Inr s'" using give full False r(1) by simp
    then show ?thesis using r(2-9) g(2-4) rest False unfolding A'_def by simp
  qed
qed

lemma sys_free_small:
  assumes s: "kheap A s" and t: "kthread s" "pool_lock (kernel_pool s) = lock_init"
    and p: "A p = Some i" "(p, j) \<in> taken A s" and heap: "K_HEAP_START \<le> blk s i p j"
  defines "A' \<equiv> if page_busy A s p j then A else A(p := None)"
  shows "\<exists>s'. sys_free (blk s i p j) s = Inr s' \<and> kheap A' s' \<and> kthread s' \<and> pool_lock (kernel_pool s') = lock_init \<and>
    taken A' s' = taken A s - {(p, j)} \<and> blk s' = blk s \<and>
    kmap s' = (if page_busy A s p j then kmap s else (kmap s)(p := None)) \<and>
    bm_used (kpb s') = (if page_busy A s p j then bm_used (kpb s) else bm_used (kpb s) - {the (kmap s p)})"
proof -
  let ?b = "blk s i p j" and ?s1 = "with_lock (held_by (running_thread s)) s"
  have j: "j < nbl i" using p by (auto simp: taken_def)
  have acq: "pool_acquire PF_KERNEL s = Inr ?s1" using t by (intro pool_acquire_free) (simp_all add: kthread_def)
  have h1: "kheap A ?s1" "(p, j) \<in> taken A ?s1" "page_busy A ?s1 p j = page_busy A s p j" using s p(2) by (simp_all add: page_busy_def)
  obtain s2 where g: "give_block PF_KERNEL ?b ?s1 = Inr s2" "kheap A' s2" "taken A' s2 = taken A s - {(p, j)}" "blk s2 = blk s"
    "kmap s2 = (if page_busy A s p j then kmap s else (kmap s)(p := None))"
    "pool_lock (kernel_pool s2) = held_by (running_thread s)" "running_thread s2 = running_thread s" "tasks s2 = tasks s"
    "bm_used (kpb s2) = (if page_busy A s p j then bm_used (kpb s) else bm_used (kpb s) - {the (kmap s p)})"
    using give_block_spec [OF h1(1) p(1) h1(2)] unfolding A'_def h1(3) by auto
  obtain k where k: "translate ?s1 (kpage s p) = Some (kframe s k)"
    "arenas ?s1 (kframe s k) = \<lparr>arena_desc = Some (K_desc i), arena_cnt = of_nat (card (free_js ?s1 i p)), arena_large = 0\<rparr>"
    using arena_page [OF h1(1) p(1)] by auto
  have page: "block2arena ?b = kpage s p" using blk_props(2) [OF s p(1) j] by (simp add: block2arena_def page_of_def)
  have "?b \<noteq> NULL" using heap by (auto simp: K_HEAP_START_def)
  moreover have "pool_release PF_KERNEL s2 = Inr (with_lock lock_init s2)" using g by (intro pool_release_held) simp
  ultimately have "sys_free ?b s = Inr (with_lock lock_init s2)"
    using t(1) heap acq g(1) k by (simp add: sys_free_def kthread_def Let_def page load_arena_def)
  moreover have "kthread (with_lock lock_init s2)" using t(1) g(7,8) by (simp add: kthread_def)
  ultimately show ?thesis using g by (intro exI [of _ "with_lock lock_init s2"]) simp
qed

lemma mem_init_kheap:
  assumes L: "loader_ok s" and m: "load_dw 0xb00 s = Inr m" "0x200000 \<le> m" and d: "length (k_block_descs s) = 7"
  shows "\<exists>s'. mem_init s = Inr s' \<and> kheap Map.empty s' \<and> pool_lock (kernel_pool s') = lock_init \<and> bm_used (kvb s') = {} \<and>
    bm_used (kpb s') = {} \<and> bm_size (kpb s') = 8 * ((unat m - 0x200000) div 4096 mod 65536 div 2 div 8) \<and>
    bm_size (kvb s') = bm_size (kpb s') \<and>
    vaddr_start (kernel_vaddr s') = K_HEAP_START \<and> tasks s' = tasks s \<and> esp s' = esp s"
proof -
  let ?s1 = "put_str (''mem_init start'' @ NL) s"
  let ?s2 = "mem_pool_init m ?s1"
  let ?s4 = "put_str (''mem_init done'' @ NL) (?s2\<lparr>k_block_descs := block_desc_init (k_block_descs ?s2)\<rparr>)"
  have c: "cr3 ?s1 = cr3 s" "pmem ?s1 = pmem s" by (simp_all add: put_str_def emit_def)
  then have t: "translate ?s1 v = translate s v" for v by (rule translate_same)
  have L1: "loader_ok ?s1" using L unfolding loader_ok_def ktables_same [OF c] t c .
  note f = mem_pool_init_fields [OF m(2), of ?s1]
  have v: "same_vm ?s2 ?s4" by (simp add: same_vm_def put_str_def emit_def)
  have ds: "k_block_descs ?s4 = block_desc_init (k_block_descs s)"
    by (simp add: put_str_def emit_def mem_pool_init_def Let_def)
  have "descs_ok ?s4" unfolding descs_ok_def ds using d by (simp add: block_desc_init_nth) (simp add: block_desc_init_def)
  moreover have "fl ?s4 i = []" if "i < 7" for i unfolding ds using that d by (simp add: block_desc_init_nth)
  ultimately have "kheap Map.empty ?s4"
    using same_vm_cong(5) [OF v] mem_pool_init_kvm [OF L1 m(2)] unfolding kheap_def by auto
  moreover have "load_dw 0xb00 ?s1 = Inr m" using m(1) unfolding load_dw_def t c .
  then have "mem_init s = Inr ?s4" by (simp add: mem_init_def Let_def)
  moreover have g: "kernel_pool ?s4 = kernel_pool ?s2" "kernel_vaddr ?s4 = kernel_vaddr ?s2" "tasks ?s4 = tasks ?s2" "esp ?s4 = esp ?s2"
    "tasks ?s1 = tasks s" "esp ?s1 = esp s" by (simp_all add: put_str_def emit_def)
  ultimately show ?thesis by (intro exI [of _ ?s4]) (simp only: g f K_HEAP_START_def simp_thms)
qed

lemma blocks_disjoint:
  assumes s: "kheap A s" and p: "A p = Some i" "j < nbl i" and q: "A q = Some i'" "j' < nbl i'" and ne: "(p, j) \<noteq> (q, j')"
  shows "{unat (blk s i p j)..<unat (blk s i p j) + bsz i} \<inter> {unat (blk s i' q j')..<unat (blk s i' q j') + bsz i'} = {}"
proof -
  have fit: "12 + j * bsz i + bsz i \<le> 4096" "12 + j' * bsz i' + bsz i' \<le> 4096"
    using block_fits kheapD(7) [OF s] p q by blast+
  have b: "p < bm_size (kvb s)" "q < bm_size (kvb s)" using arena_page [OF s] p(1) q(1) by blast+
  note kp = kpage_props(1) [OF kcoreD(2) [OF kheapD(2) [OF s]]]
  note u = blk_props(1) [OF s p] blk_props(1) [OF s q] kp [OF b(1)] kp [OF b(2)]
  consider "p < q" | "q < p" | "p = q" "i = i'" "j < j'" | "p = q" "i = i'" "j' < j"
    using ne p(1) q(1) by (cases "p = q") (auto simp: neq_iff)
  then show ?thesis
  proof cases
    case 3
    then have "Suc j * bsz i \<le> j' * bsz i" by (intro mult_le_mono1) simp
    then show ?thesis unfolding u using 3 by auto
  next
    case 4
    then have "Suc j' * bsz i \<le> j * bsz i" by (intro mult_le_mono1) simp
    then show ?thesis unfolding u using 4 by auto
  next
    case 1
    then have "4096 * p + 4096 \<le> 4096 * q" by simp
    then show ?thesis unfolding u using fit by auto
  next
    case 2
    then have "4096 * q + 4096 \<le> 4096 * p" by simp
    then show ?thesis unfolding u using fit by auto
  qed
qed

section \<open>Properties\<close>

text \<open>
  C22. \<^verbatim>\<open>mem_init\<close>, on the tables of the loader and a memory size of at least 2 MB at \<open>0xb00\<close>, establishes the
  invariant of the kernel heap, with no arena and no block handed out.
\<close>

theorem mem_init_establishes:
  assumes "loader_ok s" and "load_dw 0xb00 s = Inr m" and "0x200000 \<le> m" and "length (k_block_descs s) = 7"
  shows "\<exists>s'. mem_init s = Inr s' \<and> kheap Map.empty s' \<and> pool_lock (kernel_pool s') = lock_init \<and>
    bm_used (kvb s') = {} \<and> bm_used (kpb s') = {}"
  using mem_init_kheap [OF assms] by blast

lemma loader_example_size: "load_dw 0xb00 loader_example = Inr 0x2000000" "length (k_block_descs loader_example) = 7"
proof -
  have c: "cr3 loader_example = 0x100000" by (simp add: loader_example_def kernel_zero_def)
  have d: "pde_addr loader_example 0xb00 = 0x100000" by (simp add: pde_addr_def c page_of_def PDE_IDX_def)
  then have "pte_addr loader_example 0xb00 = 0x101000" unfolding pte_addr_def d
    by (simp add: loader_example_def page_of_def PTE_IDX_def)
  then have "translate loader_example 0xb00 = Some 0xb00"
    by (simp add: translate_def pde_present_def d) (simp add: loader_example_def page_of_def)
  then show "load_dw 0xb00 loader_example = Inr 0x2000000" by (simp add: load_dw_def) (simp add: loader_example_def)
  show "length (k_block_descs loader_example) = 7" by (simp add: loader_example_def kernel_zero_def DESC_CNT_def)
qed

theorem mem_init_establishes_witness: "\<exists>s'. mem_init loader_example = Inr s' \<and> kheap Map.empty s'"
  using mem_init_establishes [OF loader_example_ok loader_example_size(1) _ loader_example_size(2)] by auto

definition heap_example :: kernel where
  "heap_example = projr (mem_init loader_example)"

lemma heap_example_facts:
  "kheap Map.empty heap_example" "pool_lock (kernel_pool heap_example) = lock_init" "bm_used (kvb heap_example) = {}"
  "bm_used (kpb heap_example) = {}" "bm_size (kpb heap_example) = 3840" "bm_size (kvb heap_example) = 3840"
  "vaddr_start (kernel_vaddr heap_example) = K_HEAP_START" "kthread heap_example"
proof -
  have m: "(0x200000 :: u32) \<le> 0x2000000" by simp
  obtain s' where s': "mem_init loader_example = Inr s'" "kheap Map.empty s'" "pool_lock (kernel_pool s') = lock_init"
    "bm_used (kvb s') = {}" "bm_used (kpb s') = {}" "bm_size (kpb s') = 3840" "bm_size (kvb s') = bm_size (kpb s')"
    "vaddr_start (kernel_vaddr s') = K_HEAP_START" "tasks s' = tasks loader_example" "esp s' = esp loader_example"
    using mem_init_kheap [OF loader_example_ok loader_example_size(1) m loader_example_size(2)] by auto
  have "heap_example = s'" using s'(1) by (simp add: heap_example_def)
  then show "kheap Map.empty heap_example" "pool_lock (kernel_pool heap_example) = lock_init" "bm_used (kvb heap_example) = {}"
    "bm_used (kpb heap_example) = {}" "bm_size (kpb heap_example) = 3840" "bm_size (kvb heap_example) = 3840"
    "vaddr_start (kernel_vaddr heap_example) = K_HEAP_START" "kthread heap_example"
    using s' by (simp_all add: kthread_def running_thread_def loader_example_def kernel_zero_def task_zero_def)
qed

lemma heap_example_size: "unat (pool_size (kernel_pool heap_example)) = 0xf00000"
proof -
  let ?s1 = "put_str (''mem_init start'' @ NL) loader_example"
  have c: "cr3 ?s1 = cr3 loader_example" "pmem ?s1 = pmem loader_example" by (simp_all add: put_str_def emit_def)
  have "load_dw 0xb00 ?s1 = Inr 0x2000000"
    using loader_example_size(1) unfolding load_dw_def translate_same [OF c] c .
  then have "kernel_pool heap_example = kernel_pool (mem_pool_init 0x2000000 ?s1)"
    by (simp add: heap_example_def mem_init_def Let_def put_str_def emit_def)
  then show ?thesis by (simp add: mem_pool_init_def Let_def put_str_def emit_def)
qed

lemma blk_heap:
  assumes "kheap A s" and "K_HEAP_START \<le> vaddr_start (kernel_vaddr s)" and "A p = Some i" and "j < nbl i"
  shows "K_HEAP_START \<le> blk s i p j"
proof -
  have "p < bm_size (kvb s)" using arena_page [OF assms(1,3)] by blast
  then show ?thesis
    using assms(2) blk_props(1) [OF assms(1,3,4)] kpage_props(1) [OF kcoreD(2) [OF kheapD(2) [OF assms(1)]]]
    by (simp add: word_le_nat_alt)
qed

text \<open>The bytes of the block at a place of an arena.\<close>

definition block_bytes :: "(nat \<rightharpoonup> nat) \<Rightarrow> 'a kernel_scheme \<Rightarrow> nat \<times> nat \<Rightarrow> nat set" where
  "block_bytes A s = (\<lambda>(p, j). let b = unat (blk s (the (A p)) p j) in {b..<b + bsz (the (A p))})"

text \<open>
  C4. \<^verbatim>\<open>sys_malloc\<close> of a kernel thread, for 1 to 1024 bytes, when its size class has a free block or the
  pools have a free page and a free frame: it returns a block that was not handed out, of the least
  size class that fits, whose bytes are disjoint from those of every block handed out before; exactly
  this block is handed out in addition, the pool's lock is free again, and the invariant of the heap holds.
\<close>

theorem sys_malloc_fresh:
  assumes "kheap A s" and "kthread s" and "pool_lock (kernel_pool s) = lock_init"
    and "0 < sz" and "sz \<le> 1024" and "sz < pool_size (kernel_pool s)"
    and "fl s (find_desc sz (k_block_descs s)) \<noteq> [] \<or>
      (bm_used (kvb s) \<noteq> {..<bm_size (kvb s)} \<and> bm_used (kpb s) \<noteq> {..<bm_size (kpb s)})"
  shows "\<exists>s' A' p j i. sys_malloc sz s = Inr (s', blk s i p j) \<and> kheap A' s' \<and> pool_lock (kernel_pool s') = lock_init \<and>
    A \<subseteq>\<^sub>m A' \<and> A' p = Some i \<and> j < nbl i \<and> size_class (unat sz) i \<and>
    (p, j) \<notin> taken A s \<and> taken A' s' = insert (p, j) (taken A s) \<and>
    (\<forall>b\<in>taken A s. block_bytes A' s' (p, j) \<inter> block_bytes A' s' b = {})"
proof -
  obtain s' A' p j i where m: "sys_malloc sz s = Inr (s', blk s i p j)" "kheap A' s'" "pool_lock (kernel_pool s') = lock_init"
    "A \<subseteq>\<^sub>m A'" "A' p = Some i" "j < nbl i" "size_class (unat sz) i"
    "(p, j) \<notin> taken A s" "taken A' s' = insert (p, j) (taken A s)"
    using sys_malloc_small [OF assms] by blast
  have "block_bytes A' s' (p, j) \<inter> block_bytes A' s' (q, j') = {}" if b: "(q, j') \<in> taken A s" for q j'
  proof -
    obtain i' where q: "A' q = Some i'" "j' < nbl i'"
      using b m(4) by (auto simp: taken_def map_le_def dom_def)
    have "(p, j) \<noteq> (q, j')" using b m(8) by blast
    from blocks_disjoint [OF m(2,5,6) q this] show ?thesis using m(5) q(1) by (simp add: block_bytes_def Let_def)
  qed
  then have "\<forall>b\<in>taken A s. block_bytes A' s' (p, j) \<inter> block_bytes A' s' b = {}" by (simp add: split_paired_all)
  with m show ?thesis by blast
qed

lemma heap_example_room:
  "fl heap_example (find_desc 100 (k_block_descs heap_example)) \<noteq> [] \<or>
    (bm_used (kvb heap_example) \<noteq> {..<bm_size (kvb heap_example)} \<and> bm_used (kpb heap_example) \<noteq> {..<bm_size (kpb heap_example)})"
  "100 < pool_size (kernel_pool heap_example)" "(0 :: u32) < 100" "(100 :: u32) \<le> 1024"
proof -
  have "{} \<noteq> {..<3840 :: nat}" using lessThan_empty_iff [of 3840] by force
  then show "fl heap_example (find_desc 100 (k_block_descs heap_example)) \<noteq> [] \<or>
    (bm_used (kvb heap_example) \<noteq> {..<bm_size (kvb heap_example)} \<and> bm_used (kpb heap_example) \<noteq> {..<bm_size (kpb heap_example)})"
    unfolding heap_example_facts(3-6) by blast
  show "100 < pool_size (kernel_pool heap_example)" using heap_example_size by (simp add: word_less_nat_alt)
qed simp_all

theorem sys_malloc_fresh_witness:
  "\<exists>s' A' p j i. sys_malloc 100 heap_example = Inr (s', blk heap_example i p j) \<and> taken A' s' = {(p, j)} \<and> size_class 100 i"
proof -
  obtain s' A' p j i where "sys_malloc 100 heap_example = Inr (s', blk heap_example i p j)" "size_class (unat (100 :: u32)) i"
    "taken A' s' = insert (p, j) (taken Map.empty heap_example)"
    using sys_malloc_fresh [OF heap_example_facts(1,8,2) heap_example_room(3,4,2,1)] by blast
  then show ?thesis by (auto simp: taken_def)
qed

text \<open>
  C7. \<^verbatim>\<open>sys_free\<close> of a kernel thread on a block that is handed out: it succeeds, exactly this block is no
  longer handed out, the lock of the pool is free again and the invariant of the heap holds; the page
  of the block goes back exactly when no other block of its arena is handed out: then the page is no longer
  mapped, its frame is no longer marked as used in the pool of the kernel, nor its address among the virtual ones.
\<close>

theorem sys_free_releases:
  assumes "kheap A s" and "kthread s" and "pool_lock (kernel_pool s) = lock_init" and "A p = Some i" and "(p, j) \<in> taken A s"
    and "K_HEAP_START \<le> vaddr_start (kernel_vaddr s)"
  shows "\<exists>s' k. sys_free (blk s i p j) s = Inr s' \<and> kheap (if page_busy A s p j then A else A(p := None)) s' \<and>
    pool_lock (kernel_pool s') = lock_init \<and>
    taken (if page_busy A s p j then A else A(p := None)) s' = taken A s - {(p, j)} \<and>
    kmap s p = Some k \<and> k \<in> bm_used (kpb s) \<and>
    kmap s' = (if page_busy A s p j then kmap s else (kmap s)(p := None)) \<and>
    bm_used (kpb s') = (if page_busy A s p j then bm_used (kpb s) else bm_used (kpb s) - {k}) \<and>
    bm_used (kvb s') = (if page_busy A s p j then bm_used (kvb s) else bm_used (kvb s) - {p})"
proof -
  have "j < nbl i" using assms(4,5) by (auto simp: taken_def)
  from sys_free_small [OF assms(1-5) blk_heap [OF assms(1,6,4) this]] obtain s' where
    f: "sys_free (blk s i p j) s = Inr s'" "kheap (if page_busy A s p j then A else A(p := None)) s'"
    "pool_lock (kernel_pool s') = lock_init"
    "taken (if page_busy A s p j then A else A(p := None)) s' = taken A s - {(p, j)}"
    "kmap s' = (if page_busy A s p j then kmap s else (kmap s)(p := None))"
    "bm_used (kpb s') = (if page_busy A s p j then bm_used (kpb s) else bm_used (kpb s) - {the (kmap s p)})" by blast
  obtain k where k: "kmap s p = Some k" using arena_page [OF assms(1,4)] by blast
  then have "k \<in> bm_used (kpb s)" using kmap_Some_iff [OF kheapD(2) [OF assms(1)]] by blast
  moreover have "bm_used (kvb s) = dom (kmap s)" "bm_used (kvb s') = dom (kmap s')"
    using kheapD(1) [OF assms(1)] kheapD(1) [OF f(2)] by (simp_all add: kvm_def)
  then have "bm_used (kvb s') = (if page_busy A s p j then bm_used (kvb s) else bm_used (kvb s) - {p})"
    using f(5) by simp
  ultimately show ?thesis using f k by (intro exI [of _ s'] exI [of _ k]) simp
qed

theorem sys_free_releases_witness:
  "\<exists>s' b s''. sys_malloc 100 heap_example = Inr (s', b) \<and> sys_free b s' = Inr s'' \<and> pool_lock (kernel_pool s'') = lock_init"
proof -
  obtain s' A' p j i where m: "sys_malloc 100 heap_example = Inr (s', blk heap_example i p j)" "kheap A' s'" "kthread s'"
    "pool_lock (kernel_pool s') = lock_init" "A' p = Some i" "blk s' = blk heap_example"
    "taken A' s' = insert (p, j) (taken Map.empty heap_example)"
    using sys_malloc_small [OF heap_example_facts(1,8,2) heap_example_room(3,4,2,1)] by blast
  have "kpage s' 0 = kpage heap_example 0" using same_vm_kpage [OF m(6)] by simp
  then have "K_HEAP_START \<le> vaddr_start (kernel_vaddr s')" using heap_example_facts(7) by (simp add: kpage_def)
  from sys_free_releases [OF m(2-5) _ this, of j] obtain s'' where "sys_free (blk s' i p j) s' = Inr s''"
    "pool_lock (kernel_pool s'') = lock_init" using m(7) by auto
  then show ?thesis using m(1,6) by auto
qed

end
