(* ===== verification/Pipe.thy ===== *)
theory Pipe
  imports File Malloc
begin

text \<open>
  Pipes (\<^verbatim>\<open>shell/pipe.c\<close>, and \<^verbatim>\<open>fd_local2global\<close> of \<^verbatim>\<open>fs/fs.c\<close>). A pipe is an entry of the file table whose flag
  is \<^verbatim>\<open>PIPE_FLAG\<close> and whose inode pointer is the page that holds a ring buffer. A call that has to wait ends
  with \<open>Suspended\<close>. The bytes go through the operations of \<open>IOQueue\<close>, where they are shown to form a queue.
\<close>

definition fd_local2global :: "u32 \<Rightarrow> u32 fsm" where
  "fd_local2global local_fd =
     bindM (getM (\<lambda>s. fd_table (cur_task s))) (\<lambda>fds.
     if unat local_fd < length fds then
       let global_fd = fds ! unat local_fd in
       bindM (assertM (sint global_fd \<ge> 0 \<and> sint global_fd < int MAX_FILE_OPEN) ''global_fd >= 0 && global_fd < MAX_FILE_OPEN'') (\<lambda>_.
       returnM global_fd)
     else failM (Bad_access ''cur->fd_table[local_fd]''))"

definition is_pipe :: "u32 \<Rightarrow> bool fsm" where
  "is_pipe local_fd =
     bindM (fd_local2global local_fd) (\<lambda>global_fd.
     getM (\<lambda>s. fd_flag (file_table s ! unat global_fd) = PIPE_FLAG))"

definition get_kernel_pagesM :: "u32 \<Rightarrow> addr fsm" where
  "get_kernel_pagesM n s = bindR (get_kernel_pages n s) (\<lambda>(s', a). Inr (a, s'))"

definition sys_pipe :: "(u32 \<times> u32 \<times> u32) fsm" where
  "sys_pipe =
     bindM get_free_slot_in_global (\<lambda>global_fd.
     if global_fd = -1 then failM (Bad_access ''file_table[-1]'')
     else
     bindM (get_kernel_pagesM 1) (\<lambda>a.
     bindM (upd_file (unat global_fd) (\<lambda>f. f\<lparr>fd_inode := unat a\<rparr>)) (\<lambda>_.
     if a = NULL then failM (Bad_access ''ioqueue_init(NULL)'')
     else
     bindM (modM (\<lambda>s. s\<lparr>pipes := (pipes s)(unat a := ioqueue_init (pipes s (unat a)))\<rparr>)) (\<lambda>_.
     bindM (upd_file (unat global_fd) (\<lambda>f. f\<lparr>fd_flag := PIPE_FLAG, fd_pos := 2\<rparr>)) (\<lambda>_.
     bindM (pcb_fd_install global_fd) (\<lambda>fd0.
     bindM (pcb_fd_install global_fd) (\<lambda>fd1. returnM (0, fd0, fd1))))))))"

text \<open>A queue of the state and the kernel around it.\<close>

definition with_pipe :: "ptr \<Rightarrow> (ioqueue \<times> fs \<Rightarrow> ((ioqueue \<times> fs) \<times> 'b) res) \<Rightarrow> 'b fsm" where
  "with_pipe p f s = bindR (f (pipes s p, s)) (\<lambda>((q, s'), x). Inr (x, s'\<lparr>pipes := (pipes s')(p := q)\<rparr>))"

text \<open>The second component of the result is what the call has put into \<^verbatim>\<open>buf\<close>.\<close>

definition pipe_read :: "u32 \<Rightarrow> u32 \<Rightarrow> (u32 \<times> u8 list) fsm" where
  "pipe_read fd count =
     bindM (fd_local2global fd) (\<lambda>global_fd.
     bindM (getM (\<lambda>s. fd_inode (file_table s ! unat global_fd))) (\<lambda>p.
     bindM (getM (\<lambda>s. ioq_length (pipes s p))) (\<lambda>ioq_len.
     let size' = (if ioq_len > count then count else ioq_len) in
     bindM (with_pipe p (get_all ioq_get (unat size'))) (\<lambda>bs. returnM (size', bs)))))"

definition pipe_write :: "u32 \<Rightarrow> u8 list \<Rightarrow> u32 \<Rightarrow> u32 fsm" where
  "pipe_write fd buf count =
     bindM (fd_local2global fd) (\<lambda>global_fd.
     bindM (getM (\<lambda>s. fd_inode (file_table s ! unat global_fd))) (\<lambda>p.
     bindM (getM (\<lambda>s. of_int bufsize - ioq_length (pipes s p))) (\<lambda>ioq_left.
     let size' = (if ioq_left > count then count else ioq_left) in
     bindM (liftM (buf_read 0 (unat size') buf)) (\<lambda>bs.
     bindM (with_pipe p (\<lambda>c. bindR (put_all ioq_put bs c) (\<lambda>c'. Inr (c', ())))) (\<lambda>_. returnM size')))))"

definition set_fd :: "u32 \<Rightarrow> u32 \<Rightarrow> unit fsm" where
  "set_fd fd v =
     bindM (getM (\<lambda>s. length (fd_table (cur_task s)))) (\<lambda>n.
     if unat fd < n then modM (\<lambda>s. upd_task (running_thread s) (\<lambda>t. t\<lparr>fd_table := (fd_table t)[unat fd := v]\<rparr>) s)
     else failM (Bad_access ''cur->fd_table[fd]''))"

definition sys_fd_redirect :: "u32 \<Rightarrow> u32 \<Rightarrow> unit fsm" where
  "sys_fd_redirect old_local_fd new_local_fd =
     (if new_local_fd < 3 then set_fd old_local_fd new_local_fd
      else
        bindM (getM (\<lambda>s. fd_table (cur_task s))) (\<lambda>fds.
        if unat new_local_fd < length fds then set_fd old_local_fd (fds ! unat new_local_fd)
        else failM (Bad_access ''cur->fd_table[new_local_fd]'')))"

end
