(* ===== verification/Fs.thy ===== *)
theory Fs
  imports Path Pipe
begin

text \<open>
  The system calls on files and directories (\<^verbatim>\<open>fs/fs.c\<close>). A number that the code declares signed is a word
  read with its sign where the code compares it. A string argument is the list of its bytes, and a call that
  fills a buffer of its caller returns the bytes as part of the result. The lock of the console is not part of
  the state: the text is put out as one event.
\<close>

definition console_put_strM :: "string \<Rightarrow> unit fsm" where
  "console_put_strM msg = modM (put_str msg)"

text \<open>The part of a path after its last slash, \<^verbatim>\<open>strrchr(path, '/') + 1\<close>.\<close>

definition last_name :: "u8 list \<Rightarrow> u8 list" where
  "last_name path = rev (takeWhile (\<lambda>c. c \<noteq> 47) (rev path))"

section \<open>Opening and closing\<close>

definition sys_open :: "u8 list \<Rightarrow> u32 \<Rightarrow> u32 fsm" where
  "sys_open pathname flags =
     (if pathname = [] then failM (Bad_access ''pathname[-1]'')
      else if last pathname = 47 then
        bindM (printkM (''can`t open a directory '' @ text_of pathname @ NL)) (\<lambda>_. returnM (-1))
      else
      bindM (assertM (flags \<le> 7) ''flags <= 7'') (\<lambda>_.
      bindM (path_depth_cnt pathname) (\<lambda>pathname_depth.
      bindM (search_file pathname record_zero) (\<lambda>(inode_no, r).
      let found = (inode_no \<noteq> -1) in
      if file_type r = FT_DIRECTORY then
        bindM (printkM (''can`t open a direcotry with open(), use opendir() to instead'' @ NL)) (\<lambda>_.
        bindM (dir_close (parent_dir r)) (\<lambda>_. returnM (-1)))
      else
      bindM (path_depth_cnt (searched_path r)) (\<lambda>path_searched_depth.
      if pathname_depth \<noteq> path_searched_depth then
        bindM (printkM (''cannot access '' @ text_of pathname @ '': Not a directory, subpath '' @
          text_of (searched_path r) @ '' is`t exist'' @ NL)) (\<lambda>_.
        bindM (dir_close (parent_dir r)) (\<lambda>_. returnM (-1)))
      else if \<not> found \<and> flags AND O_CREAT = 0 then
        bindM (printkM (''in path '' @ text_of (searched_path r) @ '', file '' @ text_of (last_name (searched_path r)) @
          '' is`t exist'' @ NL)) (\<lambda>_.
        bindM (dir_close (parent_dir r)) (\<lambda>_. returnM (-1)))
      else if found \<and> flags AND O_CREAT \<noteq> 0 then
        bindM (printkM (text_of pathname @ '' has already exist!'' @ NL)) (\<lambda>_.
        bindM (dir_close (parent_dir r)) (\<lambda>_. returnM (-1)))
      else if flags AND O_CREAT = O_CREAT then
        bindM (printkM (''creating file'' @ NL)) (\<lambda>_.
        bindM (file_create (parent_dir r) (last_name pathname) flags) (\<lambda>fd.
        bindM (dir_close (parent_dir r)) (\<lambda>_. returnM fd)))
      else file_open inode_no flags)))))"

definition sys_close :: "u32 \<Rightarrow> u32 fsm" where
  "sys_close fd =
     (if sint fd > 2 then
        bindM (fd_local2global fd) (\<lambda>global_fd.
        bindM (is_pipe fd) (\<lambda>pipe.
        bindM (if pipe then
            bindM (upd_file (unat global_fd) (\<lambda>f. f\<lparr>fd_pos := fd_pos f - 1\<rparr>)) (\<lambda>_.
            bindM (getM (\<lambda>s. file_table s ! unat global_fd)) (\<lambda>f.
            if fd_pos f = 0 then
              bindM (\<lambda>s. bindR (mfree_page PF_KERNEL (of_nat (fd_inode f)) 1 s) (\<lambda>s'. Inr ((), s'))) (\<lambda>_.
              bindM (upd_file (unat global_fd) (\<lambda>f. f\<lparr>fd_inode := 0\<rparr>)) (\<lambda>_. returnM 0))
            else returnM 0))
          else file_close (unat global_fd)) (\<lambda>ret.
        bindM (set_fd fd (-1)) (\<lambda>_. returnM ret))))
      else returnM (-1))"

section \<open>Reading and writing\<close>

text \<open>Writing to the screen goes through an array of 1024 bytes, printed up to its first zero.\<close>

definition write_stdout :: "u8 list \<Rightarrow> u32 \<Rightarrow> u32 fsm" where
  "write_stdout buf count =
     bindM (liftM (buf_read 0 (unat count) buf)) (\<lambda>bs.
     bindM (liftM (buf_write 0 bs (replicate 1024 0))) (\<lambda>tmp_buf.
     bindM (liftM (buf_cstr 0 tmp_buf)) (\<lambda>str.
     bindM (console_put_strM (text_of str)) (\<lambda>_. returnM count))))"

definition sys_write :: "u32 \<Rightarrow> u8 list \<Rightarrow> u32 \<Rightarrow> u32 fsm" where
  "sys_write fd buf count =
     (if sint fd < 0 then bindM (printkM (''sys_write: fd error'' @ NL)) (\<lambda>_. returnM (-1))
      else
      bindM (is_pipe fd) (\<lambda>pipe.
      if pipe then pipe_write fd buf count
      else if fd = 1 then write_stdout buf count
      else
        bindM (fd_local2global fd) (\<lambda>g.
        bindM (getM (\<lambda>s. fd_flag (file_table s ! unat g))) (\<lambda>flag.
        if flag AND O_WRONLY \<noteq> 0 \<or> flag AND O_RDWR \<noteq> 0 then file_write (unat g) buf count
        else
          bindM (console_put_strM (''sys_write: not allowed to write file without flag O_RDWR or O_WRONLY'' @ NL)) (\<lambda>_.
          returnM (-1))))))"

definition read_stdin :: "u32 \<Rightarrow> (u32 \<times> u8 list) fsm" where
  "read_stdin count s =
     bindR (get_all ioq_get (unat count) (kbd_buf s, s)) (\<lambda>((q, s'), bs).
     Inr ((if count = 0 then -1 else count, bs), s'\<lparr>kbd_buf := q\<rparr>))"

definition sys_read :: "u32 \<Rightarrow> u32 \<Rightarrow> (u32 \<times> u8 list) fsm" where
  "sys_read fd count =
     (if sint fd < 0 \<or> fd = 1 \<or> fd = 2 then bindM (printkM (''sys_read: fd error'' @ NL)) (\<lambda>_. returnM (-1, []))
      else
      bindM (is_pipe fd) (\<lambda>pipe.
      if pipe then pipe_read fd count
      else if fd = 0 then read_stdin count
      else bindM (fd_local2global fd) (\<lambda>global_fd. file_read (unat global_fd) count)))"

text \<open>The sums are taken in 32 bits, as the code is compiled.\<close>

definition sys_lseek :: "u32 \<Rightarrow> u32 \<Rightarrow> u8 \<Rightarrow> u32 fsm" where
  "sys_lseek fd offset whence =
     (if sint fd < 0 then bindM (printkM (''sys_lseek: fd error'' @ NL)) (\<lambda>_. returnM (-1))
      else
      bindM (assertM (whence > 0 \<and> whence < 4) ''whence > 0 && whence < 4'') (\<lambda>_.
      bindM (fd_local2global fd) (\<lambda>g.
      bindM (getM (\<lambda>s. file_table s ! unat g)) (\<lambda>pf.
      bindM (getM (\<lambda>s. i_size (inodes s (fd_inode pf)))) (\<lambda>file_size.
      let new_pos = (if whence = 1 then offset else if whence = 2 then fd_pos pf + offset else file_size + offset) in
      if sint new_pos < 0 \<or> sint new_pos > sint (file_size - 1) then returnM (-1)
      else bindM (upd_file (unat g) (\<lambda>f. f\<lparr>fd_pos := new_pos\<rparr>)) (\<lambda>_. returnM new_pos))))))"

section \<open>Removing a file\<close>

fun in_use :: "(ptr \<Rightarrow> inode) \<Rightarrow> u32 \<Rightarrow> open_file list \<Rightarrow> bool" where
  "in_use ino inode_no [] = False"
| "in_use ino inode_no (f # fs) = ((fd_inode f \<noteq> 0 \<and> inode_no = i_no (ino (fd_inode f))) \<or> in_use ino inode_no fs)"

definition sys_unlink :: "u8 list \<Rightarrow> u32 fsm" where
  "sys_unlink pathname =
     bindM (assertM (length pathname < MAX_PATH_LEN) ''strlen(pathname) < MAX_PATH_LEN'') (\<lambda>_.
     bindM (search_file pathname record_zero) (\<lambda>(inode_no, r).
     bindM (assertM (inode_no \<noteq> 0) ''inode_no != 0'') (\<lambda>_.
     if inode_no = -1 then
       bindM (printkM (''file '' @ text_of pathname @ '' not found!'' @ NL)) (\<lambda>_.
       bindM (dir_close (parent_dir r)) (\<lambda>_. returnM (-1)))
     else if file_type r = FT_DIRECTORY then
       bindM (printkM (''can`t delete a direcotry with unlink(), use rmdir() to instead'' @ NL)) (\<lambda>_.
       bindM (dir_close (parent_dir r)) (\<lambda>_. returnM (-1)))
     else
     bindM (getM (\<lambda>s. in_use (inodes s) inode_no (file_table s))) (\<lambda>used.
     if used then
       bindM (dir_close (parent_dir r)) (\<lambda>_.
       bindM (printkM (''file '' @ text_of pathname @ '' is in use, not allow to delete!'' @ NL)) (\<lambda>_. returnM (-1)))
     else
     bindM (sys_malloc_fs 1024) (\<lambda>io_buf.
     if io_buf = 0 then
       bindM (dir_close (parent_dir r)) (\<lambda>_.
       bindM (printkM (''sys_unlink: malloc for io_buf failed'' @ NL)) (\<lambda>_. returnM (-1)))
     else
     bindM (delete_dir_entry (parent_dir r) inode_no 1024) (\<lambda>_.
     bindM (inode_release inode_no) (\<lambda>_.
     bindM (sys_free_fs io_buf) (\<lambda>_.
     bindM (dir_close (parent_dir r)) (\<lambda>_. returnM 0)))))))))"

end
