(* ===== verification/FsDir.thy ===== *)
theory FsDir
  imports Fs
begin

text \<open>
  The system calls on directories (\<^verbatim>\<open>fs/fs.c\<close>): creating and removing a directory, reading it, the working
  directory, and the attributes of a file. In \<^verbatim>\<open>sys_getcwd\<close> every round of the loop to the root appends
  to an array of 512 bytes, so the loop ends after fewer than 512 rounds, if only because the array is full;
  the fuel of \<open>getcwd_loop\<close> is 512.
\<close>

section \<open>Creating a directory\<close>

text \<open>The sector with the two first entries of a new directory; 46 is a dot.\<close>

definition dot_entries :: "u32 \<Rightarrow> u32 \<Rightarrow> u8 list" where
  "dot_entries self parent =
     enc_dir_entry \<lparr>filename = 46 # replicate 15 0, de_i_no = self, f_type = FT_DIRECTORY\<rparr> @
     enc_dir_entry \<lparr>filename = 46 # 46 # replicate 14 0, de_i_no = parent, f_type = FT_DIRECTORY\<rparr> @ replicate 976 0"

definition mkdir_rollback :: "nat \<Rightarrow> u32 \<Rightarrow> ptr \<Rightarrow> ptr \<Rightarrow> u32 fsm" where
  "mkdir_rollback rollback_step inode_no d io_buf =
     bindM (whenM (rollback_step = 2) (inode_bitmap_set inode_no 0)) (\<lambda>_.
     bindM (dir_close d) (\<lambda>_.
     bindM (sys_free_fs io_buf) (\<lambda>_. returnM (-1))))"

definition sys_mkdir :: "u8 list \<Rightarrow> u32 fsm" where
  "sys_mkdir pathname =
     bindM (sys_malloc_fs 1024) (\<lambda>io_buf.
     if io_buf = 0 then bindM (printkM (''sys_mkdir: sys_malloc for io_buf failed'' @ NL)) (\<lambda>_. returnM (-1))
     else
     bindM (search_file pathname record_zero) (\<lambda>(found, r).
     if found \<noteq> -1 then
       bindM (printkM (''sys_mkdir: file or directory '' @ text_of pathname @ '' exist!'' @ NL)) (\<lambda>_.
       mkdir_rollback 1 found (parent_dir r) io_buf)
     else
     bindM (path_depth_cnt pathname) (\<lambda>pathname_depth.
     bindM (path_depth_cnt (searched_path r)) (\<lambda>path_searched_depth.
     if pathname_depth \<noteq> path_searched_depth then
       bindM (printkM (''sys_mkdir: can`t access '' @ text_of pathname @ '', subpath '' @ text_of (searched_path r) @
         '' is`t exist'' @ NL)) (\<lambda>_.
       mkdir_rollback 1 found (parent_dir r) io_buf)
     else
     let dirname = last_name (searched_path r) in
     bindM inode_bitmap_alloc (\<lambda>inode_no.
     if inode_no = -1 then
       bindM (printkM (''sys_mkdir: allocate inode failed'' @ NL)) (\<lambda>_. mkdir_rollback 1 inode_no (parent_dir r) io_buf)
     else
     bindM block_bitmap_alloc (\<lambda>block_lba.
     if block_lba = -1 then
       bindM (printkM (''sys_mkdir: block_bitmap_alloc for create directory failed'' @ NL)) (\<lambda>_.
       mkdir_rollback 2 inode_no (parent_dir r) io_buf)
     else
     bindM (getM (\<lambda>s. block_lba - sb_data_start_lba (sb s))) (\<lambda>block_bitmap_idx.
     bindM (assertM (block_bitmap_idx \<noteq> 0) ''block_bitmap_idx != 0'') (\<lambda>_.
     bindM (bitmap_sync block_bitmap_idx BLOCK_BITMAP) (\<lambda>_.
     bindM (getM (\<lambda>s. i_no (inode_of s (parent_dir r)))) (\<lambda>pno.
     bindM (disk_write block_lba (dot_entries inode_no pno) 1) (\<lambda>_.
     bindM (getM (\<lambda>s. 2 * sb_dir_entry_size (sb s))) (\<lambda>size'.
     let new_dir_inode = \<lparr>i_no = inode_no, i_size = size', i_open_cnts = 0, write_deny = False,
           i_sectors = (replicate 13 0)[0 := block_lba]\<rparr> in
     bindM (create_dir_entry dirname inode_no FT_DIRECTORY dir_entry_zero) (\<lambda>new_dir_entry.
     bindM (sync_dir_entry (parent_dir r) new_dir_entry) (\<lambda>ok.
     if \<not> ok then
       bindM (printkM (''sys_mkdir: sync_dir_entry to disk failed!'' @ NL)) (\<lambda>_.
       mkdir_rollback 2 inode_no (parent_dir r) io_buf)
     else
     bindM (getM (\<lambda>s. inode_of s (parent_dir r))) (\<lambda>pi.
     bindM (inode_sync pi 1024) (\<lambda>_.
     bindM (inode_sync new_dir_inode 1024) (\<lambda>_.
     bindM (bitmap_sync inode_no INODE_BITMAP) (\<lambda>_.
     bindM (sys_free_fs io_buf) (\<lambda>_.
     bindM (dir_close (parent_dir r)) (\<lambda>_. returnM 0))))))))))))))))))))"

section \<open>Open directories\<close>

text \<open>The second comparison is of the first byte again, which is a slash.\<close>

definition sys_opendir :: "u8 list \<Rightarrow> ptr fsm" where
  "sys_opendir nm =
     bindM (assertM (length nm < MAX_PATH_LEN) ''strlen(name) < MAX_PATH_LEN'') (\<lambda>_.
     if nm \<noteq> [] \<and> nm ! 0 = 47 \<and> (length nm = 1 \<or> nm ! 0 = 46) then returnM ROOT_DIR
     else
     bindM (search_file nm record_zero) (\<lambda>(inode_no, r).
     bindM (if inode_no = -1 then
         bindM (printkM (''In '' @ text_of nm @ '', sub path '' @ text_of (searched_path r) @ '' not exist'' @ NL)) (\<lambda>_. returnM 0)
       else if file_type r = FT_REGULAR then
         bindM (printkM (text_of nm @ '' is regular file!'' @ NL)) (\<lambda>_. returnM 0)
       else if file_type r = FT_DIRECTORY then dir_open inode_no
       else returnM 0) (\<lambda>ret.
     bindM (dir_close (parent_dir r)) (\<lambda>_. returnM ret))))"

definition sys_closedir :: "ptr \<Rightarrow> u32 fsm" where
  "sys_closedir d = (if d \<noteq> 0 then bindM (dir_close d) (\<lambda>_. returnM 0) else returnM (-1))"

definition sys_readdir :: "ptr \<Rightarrow> dir_entry option fsm" where
  "sys_readdir d = bindM (assertM (d \<noteq> 0) ''dir != NULL'') (\<lambda>_. dir_read d)"

definition sys_rewinddir :: "ptr \<Rightarrow> unit fsm" where
  "sys_rewinddir d = modM (\<lambda>s. s\<lparr>dirs := (dirs s)(d := (dirs s d)\<lparr>dir_pos := 0\<rparr>)\<rparr>)"

definition sys_rmdir :: "u8 list \<Rightarrow> u32 fsm" where
  "sys_rmdir pathname =
     bindM (search_file pathname record_zero) (\<lambda>(inode_no, r).
     bindM (assertM (inode_no \<noteq> 0) ''inode_no != 0'') (\<lambda>_.
     bindM (if inode_no = -1 then
         bindM (printkM (''In '' @ text_of pathname @ '', sub path '' @ text_of (searched_path r) @ '' not exist'' @ NL)) (\<lambda>_.
         returnM (-1))
       else if file_type r = FT_REGULAR then
         bindM (printkM (text_of pathname @ '' is regular file!'' @ NL)) (\<lambda>_. returnM (-1))
       else
         bindM (dir_open inode_no) (\<lambda>d.
         bindM (dir_is_empty d) (\<lambda>empty.
         bindM (if \<not> empty then
             bindM (printkM (''dir '' @ text_of pathname @ '' is not empty, it is not allowed to delete a nonempty directory!'' @ NL))
               (\<lambda>_. returnM (-1))
           else
             bindM (dir_remove (parent_dir r) d) (\<lambda>ret. returnM (if ret = 0 then 0 else -1))) (\<lambda>retval.
         bindM (dir_close d) (\<lambda>_. returnM retval))))) (\<lambda>retval.
     bindM (dir_close (parent_dir r)) (\<lambda>_. returnM retval))))"

section \<open>The working directory\<close>

definition get_parent_dir_inode_nr :: "u32 \<Rightarrow> u32 fsm" where
  "get_parent_dir_inode_nr child_inode_nr =
     bindM (inode_open child_inode_nr) (\<lambda>p.
     bindM (getM (\<lambda>s. i_sectors (inodes s p) ! 0)) (\<lambda>block_lba.
     bindM (getM (\<lambda>s. sb_data_start_lba (sb s))) (\<lambda>start.
     bindM (assertM (block_lba \<ge> start) ''block_lba >= cur_part->sb->data_start_lba'') (\<lambda>_.
     bindM (inode_close p) (\<lambda>_.
     bindM (disk_read block_lba 1) (\<lambda>io_buf.
     bindM (assertM (ino_at DIR_ENTRY_SIZE io_buf < 4096 \<and> type_at DIR_ENTRY_SIZE io_buf = FT_DIRECTORY)
       ''dir_e[1].i_no < 4096 && dir_e[1].f_type == FT_DIRECTORY'') (\<lambda>_.
     returnM (ino_at DIR_ENTRY_SIZE io_buf))))))))"

fun child_in_sector :: "nat \<Rightarrow> nat \<Rightarrow> u32 \<Rightarrow> u8 list \<Rightarrow> nat option" where
  "child_in_sector 0 off no buf = None"
| "child_in_sector (Suc n) off no buf = (if ino_at off buf = no then Some off else child_in_sector n (off + DIR_ENTRY_SIZE) no buf)"

fun child_in_blocks :: "u32 list \<Rightarrow> nat \<Rightarrow> u32 \<Rightarrow> u8 list option fsm" where
  "child_in_blocks [] cnt no = returnM None"
| "child_in_blocks (b # bs) cnt no =
     (if b \<noteq> 0 then
        bindM (disk_read b 1) (\<lambda>io_buf.
        case child_in_sector cnt 0 no io_buf of
          Some off \<Rightarrow> bindM (liftM (buf_cstr off io_buf)) (\<lambda>nm. returnM (Some nm))
        | None \<Rightarrow> child_in_blocks bs cnt no)
      else child_in_blocks bs cnt no)"

text \<open>The result is the return value and the new content of \<^verbatim>\<open>path\<close>.\<close>

definition get_child_dir_name :: "u32 \<Rightarrow> u32 \<Rightarrow> u8 list \<Rightarrow> (u32 \<times> u8 list) fsm" where
  "get_child_dir_name p_inode_nr c_inode_nr path =
     bindM (inode_open p_inode_nr) (\<lambda>p.
     bindM (getM (\<lambda>s. inodes s p)) (\<lambda>i.
     bindM (all_blocks_of i) (\<lambda>all_blocks.
     let block_cnt = (if i_sectors i ! 12 \<noteq> 0 then 140 else 12) in
     bindM (inode_close p) (\<lambda>_.
     bindM entrys_per_sec (\<lambda>dir_entrys_per_sec.
     bindM (child_in_blocks (take block_cnt all_blocks) (unat dir_entrys_per_sec) c_inode_nr) (\<lambda>r.
     case r of
       None \<Rightarrow> returnM (-1, path)
     | Some nm \<Rightarrow>
         bindM (liftM (path_cat path [47])) (\<lambda>path1.
         bindM (liftM (path_cat path1 nm)) (\<lambda>path2. returnM (0, path2)))))))))"

text \<open>From the working directory to the root; \<open>None\<close> is the return on failure.\<close>

fun getcwd_loop :: "nat \<Rightarrow> u32 \<Rightarrow> u8 list \<Rightarrow> u8 list option fsm" where
  "getcwd_loop 0 child_inode_nr path = failM Never_returns"
| "getcwd_loop (Suc n) child_inode_nr path =
     (if child_inode_nr = 0 then returnM (Some path)
      else
        bindM (get_parent_dir_inode_nr child_inode_nr) (\<lambda>parent_inode_nr.
        bindM (get_child_dir_name parent_inode_nr child_inode_nr path) (\<lambda>(ret, path').
        if ret = -1 then returnM None else getcwd_loop n parent_inode_nr path')))"

text \<open>The loop that takes the part from the last slash on, until there is no slash.\<close>

function unreverse :: "u8 list \<Rightarrow> u8 list" where
  "unreverse path =
     (if 47 \<in> set path then 47 # last_name path @ unreverse (take (length path - length (last_name path) - 1) path) else [])"
  by pat_completeness auto
termination
  by (relation "measure length") (auto intro!: diff_less dest: length_pos_if_in_set)

declare unreverse.simps [simp del]

definition sys_getcwd :: "u32 \<Rightarrow> u8 list option fsm" where
  "sys_getcwd size' =
     bindM (sys_malloc_fs 512) (\<lambda>io_buf.
     if io_buf = 0 then returnM None
     else
     bindM (getM (\<lambda>s. cwd_inode_nr (cur_task s))) (\<lambda>child_inode_nr.
     bindM (assertM (sint child_inode_nr \<ge> 0 \<and> sint child_inode_nr < 4096) ''child_inode_nr >= 0 && child_inode_nr < 4096'') (\<lambda>_.
     if child_inode_nr = 0 then bindM (sys_free_fs io_buf) (\<lambda>_. returnM (Some [47]))
     else
     bindM (getcwd_loop 512 child_inode_nr []) (\<lambda>r.
     case r of
       None \<Rightarrow> bindM (sys_free_fs io_buf) (\<lambda>_. returnM None)
     | Some full_path_reverse \<Rightarrow>
         bindM (assertM (length full_path_reverse \<le> unat size') ''strlen(full_path_reverse) <= size'') (\<lambda>_.
         if length full_path_reverse = unat size' then failM (Bad_access ''strcpy past buf'')
         else bindM (sys_free_fs io_buf) (\<lambda>_. returnM (Some (unreverse full_path_reverse))))))))"

definition sys_chdir :: "u8 list \<Rightarrow> u32 fsm" where
  "sys_chdir path =
     bindM (search_file path record_zero) (\<lambda>(inode_no, r).
     bindM (if inode_no \<noteq> -1 then
         if file_type r = FT_DIRECTORY then
           bindM (modM (\<lambda>s. upd_task (running_thread s) (\<lambda>t. t\<lparr>cwd_inode_nr := inode_no\<rparr>) s)) (\<lambda>_. returnM 0)
         else bindM (printkM (''sys_chdir: '' @ text_of path @ '' is regular file or other!'' @ NL)) (\<lambda>_. returnM (-1))
       else returnM (-1)) (\<lambda>ret.
     bindM (dir_close (parent_dir r)) (\<lambda>_. returnM ret)))"

record stat =
  st_ino :: u32
  st_size :: u32
  st_filetype :: u32

definition sys_stat :: "u8 list \<Rightarrow> stat \<Rightarrow> (u32 \<times> stat) fsm" where
  "sys_stat path buf =
     (if path = [47] \<or> path = [47, 46] \<or> path = [47, 46, 46] then
        bindM (getM (\<lambda>s. i_size (inode_of s ROOT_DIR))) (\<lambda>size'.
        returnM (0, \<lparr>st_ino = 0, st_size = size', st_filetype = FT_DIRECTORY\<rparr>))
      else
      bindM (search_file path record_zero) (\<lambda>(inode_no, r).
      bindM (if inode_no \<noteq> -1 then
          bindM (inode_open inode_no) (\<lambda>p.
          bindM (getM (\<lambda>s. i_size (inodes s p))) (\<lambda>size'.
          bindM (inode_close p) (\<lambda>_.
          returnM (0, \<lparr>st_ino = inode_no, st_size = size', st_filetype = file_type r\<rparr>))))
        else bindM (printkM (''sys_stat: '' @ text_of path @ '' not found'' @ NL)) (\<lambda>_. returnM (-1, buf))) (\<lambda>ret.
      bindM (dir_close (parent_dir r)) (\<lambda>_. returnM ret))))"

definition sys_putchar :: "u8 \<Rightarrow> unit fsm" where
  "sys_putchar char_asci = modM (emit (Put_char (char_of (unat char_asci))))"

definition sys_help :: "unit fsm" where
  "sys_help = printkM ('' buildin commands:'' @ NL @
     ''       ls: show directory or file information'' @ NL @
     ''       cd: change current work directory'' @ NL @
     ''       mkdir: create a directory'' @ NL @
     ''       rmdir: remove a empty directory'' @ NL @
     ''       rm: remove a regular file'' @ NL @
     ''       pwd: show current work directory'' @ NL @
     ''       ps: show process information'' @ NL @
     ''       clear: clear screen'' @ NL @
     '' shortcut key:'' @ NL @
     ''       ctrl+l: clear screen'' @ NL @
     ''       ctrl+u: clear input'' @ NL @ NL)"

end
