(* ===== verification/Interrupt.thy ===== *)
theory Interrupt
  imports Machine
begin

text \<open>
  The interrupt descriptor table, the handler table and the interrupt controller
  (\<^verbatim>\<open>kernel/interrupt.c\<close>). The entry points of \<^verbatim>\<open>kernel/kernel.S\<close>, the address of
  \<^verbatim>\<open>syscall_handler\<close>, of \<^verbatim>\<open>general_intr_handler\<close> and of the array \<^verbatim>\<open>idt\<close> itself are fixed by
  the linker, and are arguments of the definitions. \<^verbatim>\<open>kernel.S\<close> makes a table of \<open>0x30\<close> entry points, which the code
  declares with \<open>0x81\<close> and reads to the end: what it reads behind the table are the dwords that the linker has
  put there, the argument \<open>behind\<close>. The lemmas decode the table that \<^verbatim>\<open>idt_init\<close> builds the way the processor reads it.
\<close>

definition IDT_DESC_CNT :: nat where
  "IDT_DESC_CNT = 0x81"

definition SELECTOR_K_CODE :: u16 where
  "SELECTOR_K_CODE = push_bit 3 1 + push_bit 2 0 + 0"

definition IDT_DESC_ATTR_DPL0 :: u8 where
  "IDT_DESC_ATTR_DPL0 = push_bit 7 1 + push_bit 5 0 + 0xE"

definition IDT_DESC_ATTR_DPL3 :: u8 where
  "IDT_DESC_ATTR_DPL3 = push_bit 7 1 + push_bit 5 3 + 0xE"

record gate_desc =
  func_offset_low_word :: u16
  selector :: u16
  dcount :: u8
  attribute :: u8
  func_offset_high_word :: u16

record intr_ctl = machine +
  idt :: "gate_desc list"
  intr_name :: "string list"
  idt_table :: "addr list"

definition pic_init :: "'a machine_scheme \<Rightarrow> 'a machine_scheme" where
  "pic_init m = put_str (''   pic_init done'' @ NL)
    (fold (\<lambda>(port, data). outb port data)
     [(0x20, 0x11), (0x21, 0x20), (0x21, 0x04), (0x21, 0x01),
      (0xa0, 0x11), (0xa1, 0x28), (0xa1, 0x02), (0xa1, 0x01),
      (0x21, 0xf8), (0xa1, 0xbf)] m)"

definition make_idt_desc :: "u8 \<Rightarrow> addr \<Rightarrow> gate_desc" where
  "make_idt_desc attr function =
     \<lparr>func_offset_low_word = ucast (function AND 0x0000FFFF),
      selector = SELECTOR_K_CODE,
      dcount = 0,
      attribute = attr,
      func_offset_high_word = ucast (drop_bit 16 (function AND 0xFFFF0000))\<rparr>"

text \<open>\<^verbatim>\<open>intr_entry_table[i]\<close>.\<close>

definition entry_point :: "addr list \<Rightarrow> (nat \<Rightarrow> addr) \<Rightarrow> nat \<Rightarrow> addr" where
  "entry_point intr_entry_table behind i =
     (if i < length intr_entry_table then intr_entry_table ! i else behind (i - length intr_entry_table))"

definition idt_desc_init :: "addr list \<Rightarrow> (nat \<Rightarrow> addr) \<Rightarrow> addr \<Rightarrow> 'a intr_ctl_scheme \<Rightarrow> 'a intr_ctl_scheme" where
  "idt_desc_init intr_entry_table behind syscall_handler m =
     (let lastindex = IDT_DESC_CNT - 1;
          tbl = fold (\<lambda>i t. t[i := make_idt_desc IDT_DESC_ATTR_DPL0 (entry_point intr_entry_table behind i)])
                  [0..<IDT_DESC_CNT] (idt m);
          tbl' = tbl[lastindex := make_idt_desc IDT_DESC_ATTR_DPL3 syscall_handler]
      in put_str (''   idt_desc_init done'' @ NL) (m\<lparr>idt := tbl'\<rparr>))"

definition general_intr_handler ::
  "u8 \<Rightarrow> 'a intr_ctl_scheme \<Rightarrow> ('a intr_ctl_scheme \<times> handler_end) res" where
  "general_intr_handler vec_nr m =
     (if vec_nr = 0x27 \<or> vec_nr = 0x2f then Inr (m, Returned)
      else
        let m1 = emit (Set_cursor 0) m;
            m2 = ((emit (Put_char CHR '' '')) ^^ 320) m1;
            m3 = emit (Set_cursor 88)
                   (put_str (''!!!!!!!      excetion message begin  !!!!!!!!'' @ NL) (emit (Set_cursor 0) m2))
        in bindR (if unat vec_nr < length (intr_name m3) then Inr (intr_name m3 ! unat vec_nr)
                  else Inl (Bad_access ''intr_name'')) (\<lambda>name.
           let m4 = put_str name m3;
               m5 = (if vec_nr = 14
                     then emit (Put_int (cr2 m4)) (put_str (NL @ ''page fault addr is 0x'') m4)
                     else m4)
           in Inr (put_str (NL @ ''!!!!!!!      excetion message end    !!!!!!!!'' @ NL) m5, Hung)))"

definition exception_names :: "(nat \<times> string) list" where
  "exception_names =
     [(0, ''#DE Divide Error''), (1, ''#DB Debug Exception''), (2, ''NMI Interrupt''),
      (3, ''#BP Breakpoint Exception''), (4, ''#OF Overflow Exception''),
      (5, ''#BR BOUND Range Exceeded Exception''), (6, ''#UD Invalid Opcode Exception''),
      (7, ''#NM Device Not Available Exception''), (8, ''#DF Double Fault Exception''),
      (9, ''Coprocessor Segment Overrun''), (10, ''#TS Invalid TSS Exception''),
      (11, ''#NP Segment Not Present''), (12, ''#SS Stack Fault Exception''),
      (13, ''#GP General Protection Exception''), (14, ''#PF Page-Fault Exception''),
      (16, ''#MF x87 FPU Floating-Point Error''), (17, ''#AC Alignment Check Exception''),
      (18, ''#MC Machine-Check Exception''), (19, ''#XF SIMD Floating-Point Exception'')]"

definition exception_init :: "addr \<Rightarrow> 'a intr_ctl_scheme \<Rightarrow> 'a intr_ctl_scheme" where
  "exception_init general_handler m =
     (let m1 = fold (\<lambda>i m. m\<lparr>idt_table := (idt_table m)[i := general_handler],
                             intr_name := (intr_name m)[i := ''unknown'']\<rparr>) [0..<IDT_DESC_CNT] m
      in m1\<lparr>intr_name := fold (\<lambda>(i, s) ns. ns[i := s]) exception_names (intr_name m1)\<rparr>)"

definition register_handler ::
  "u8 \<Rightarrow> addr \<Rightarrow> 'a intr_ctl_scheme \<Rightarrow> 'a intr_ctl_scheme res" where
  "register_handler vector_no function m =
     (if unat vector_no < length (idt_table m)
      then Inr (m\<lparr>idt_table := (idt_table m)[unat vector_no := function]\<rparr>)
      else Inl (Bad_access ''idt_table''))"

definition idt_init ::
  "addr list \<Rightarrow> (nat \<Rightarrow> addr) \<Rightarrow> addr \<Rightarrow> addr \<Rightarrow> addr \<Rightarrow> 'a intr_ctl_scheme \<Rightarrow> 'a intr_ctl_scheme" where
  "idt_init intr_entry_table behind syscall_handler general_handler idt_addr m =
     (let m1 = put_str (''idt_init start'' @ NL) m;
          m2 = idt_desc_init intr_entry_table behind syscall_handler m1;
          m3 = exception_init general_handler m2;
          m4 = pic_init m3;
          idt_operand = ((8 * of_nat IDT_DESC_CNT - 1) OR push_bit 16 (ucast idt_addr)) :: u64
      in put_str (''idt_init done'' @ NL) (emit (Lidt idt_operand) m4))"

section \<open>Reading a gate as the processor does\<close>

definition gate_offset :: "gate_desc \<Rightarrow> addr" where
  "gate_offset g = push_bit 16 (ucast (func_offset_high_word g)) OR ucast (func_offset_low_word g)"

definition gate_dpl :: "gate_desc \<Rightarrow> u8" where
  "gate_dpl g = drop_bit 5 (attribute g) AND 3"

definition gate_present :: "gate_desc \<Rightarrow> bool" where
  "gate_present g \<longleftrightarrow> bit (attribute g) 7"

definition gate_type :: "gate_desc \<Rightarrow> u8" where
  "gate_type g = attribute g AND 0x1f"

lemmas gate_defs = gate_offset_def gate_dpl_def gate_present_def gate_type_def make_idt_desc_def

lemma halves_mask: "(0x0000FFFF :: u32) = mask 16" "(0xFFFF0000 :: u32) = NOT (mask 16)"
  by (simp_all add: mask_eq_exp_minus_1)

lemma gate_roundtrip [simp]: "gate_offset (make_idt_desc attr f) = f"
  unfolding gate_offset_def make_idt_desc_def gate_desc.simps halves_mask
  by (auto simp: word_bits_iff bit_simps)

lemma make_idt_desc_fields [simp]:
  "selector (make_idt_desc attr f) = SELECTOR_K_CODE"
  "attribute (make_idt_desc attr f) = attr"
  by (simp_all add: make_idt_desc_def)

definition entry_gate :: "(nat \<Rightarrow> addr) \<Rightarrow> addr \<Rightarrow> nat \<Rightarrow> gate_desc" where
  "entry_gate entries sys v = (if v = 0x80 then make_idt_desc IDT_DESC_ATTR_DPL3 sys
     else make_idt_desc IDT_DESC_ATTR_DPL0 (entries v))"

definition tables_sized :: "'a intr_ctl_scheme \<Rightarrow> bool" where
  "tables_sized m \<longleftrightarrow> length (idt m) = IDT_DESC_CNT \<and> length (intr_name m) = IDT_DESC_CNT
     \<and> length (idt_table m) = IDT_DESC_CNT"

lemma io_fields [simp]:
  "idt (emit e m) = idt m" "intr_name (emit e m) = intr_name m" "idt_table (emit e m) = idt_table m"
  "idt (put_str s m) = idt m" "intr_name (put_str s m) = intr_name m"
  "idt_table (put_str s m) = idt_table m"
  "idt (outb p d m) = idt m" "intr_name (outb p d m) = intr_name m"
  "idt_table (outb p d m) = idt_table m"
  by (simp_all add: emit_def put_str_def outb_def)

lemma pic_init_fields [simp]:
  "idt (pic_init m) = idt m" "intr_name (pic_init m) = intr_name m"
  "idt_table (pic_init m) = idt_table m"
  by (simp_all add: pic_init_def)

lemma idt_desc_init_tables:
  assumes "tables_sized m"
  shows "idt (idt_desc_init tbl behind sys m) = map (entry_gate (entry_point tbl behind) sys) [0..<IDT_DESC_CNT]"
proof -
  have "idt (idt_desc_init tbl behind sys m) =
    (map (\<lambda>i. make_idt_desc IDT_DESC_ATTR_DPL0 (entry_point tbl behind i)) [0..<IDT_DESC_CNT])
      [IDT_DESC_CNT - 1 := make_idt_desc IDT_DESC_ATTR_DPL3 sys]"
    using assms by (simp add: idt_desc_init_def fold_update_upt tables_sized_def Let_def)
  also have "\<dots> = map (entry_gate (entry_point tbl behind) sys) [0..<IDT_DESC_CNT]"
    by (rule nth_equalityI) (auto simp: nth_list_update entry_gate_def IDT_DESC_CNT_def)
  finally show ?thesis .
qed

lemma tables_sized_steps [simp]:
  "tables_sized (put_str s m) = tables_sized m"
  "tables_sized m \<Longrightarrow> tables_sized (idt_desc_init tbl behind sys m)"
  using idt_desc_init_tables [of m tbl behind sys]
  by (simp_all add: tables_sized_def) (simp add: idt_desc_init_def Let_def)

lemma exception_init_loop:
  "n \<le> length (idt_table m) \<Longrightarrow>
   fold (\<lambda>i m. m\<lparr>idt_table := (idt_table m)[i := g], intr_name := (intr_name m)[i := s]\<rparr>) [0..<n] m =
   m\<lparr>idt_table := fold (\<lambda>i t. t[i := g]) [0..<n] (idt_table m),
     intr_name := fold (\<lambda>i t. t[i := s]) [0..<n] (intr_name m)\<rparr>"
  by (induction n) simp_all

lemma exception_init_tables:
  assumes "tables_sized m"
  shows "idt_table (exception_init g m) = replicate IDT_DESC_CNT g"
    and "idt (exception_init g m) = idt m"
    and "length (intr_name (exception_init g m)) = IDT_DESC_CNT"
proof -
  have len: "length (fold (\<lambda>(i, s) ns. ns[i := s]) ps ns) = length ns"
    for ps :: "(nat \<times> string) list" and ns by (induction ps arbitrary: ns) auto
  show "idt_table (exception_init g m) = replicate IDT_DESC_CNT g"
    "idt (exception_init g m) = idt m"
    "length (intr_name (exception_init g m)) = IDT_DESC_CNT"
    using assms by (simp_all add: exception_init_def exception_init_loop fold_update_upt
        tables_sized_def Let_def len map_replicate_const)
qed

section \<open>Properties\<close>

text \<open>
  C29. The table that \<^verbatim>\<open>idt_init\<close> builds, read as the processor reads it: every gate is a
  present 32-bit interrupt gate into the kernel code segment, and \<open>0x80\<close> is the only vector a program of
  privilege level 3 may raise. The gates of the vectors below \<open>0x30\<close>, for which \<^verbatim>\<open>kernel.S\<close> has an entry, lead to
  their entry points and gate \<open>0x80\<close> leads to \<^verbatim>\<open>syscall_handler\<close>. The gates from \<open>0x30\<close> to \<open>0x7f\<close> are present as well,
  but their targets are the dwords that happen to lie behind the table of entry points.
\<close>

theorem idt_init_gates:
  assumes "tables_sized m" and "length tbl = 0x30" and "v < IDT_DESC_CNT"
  shows "let g = idt (idt_init tbl behind sys gen ia m) ! v in
    gate_offset g = (if v = 0x80 then sys else if v < 0x30 then tbl ! v else behind (v - 0x30)) \<and>
    selector g = SELECTOR_K_CODE \<and> gate_present g \<and> gate_type g = 0xE \<and> (gate_dpl g = 3 \<longleftrightarrow> v = 0x80) \<and> gate_dpl g \<in> {0, 3}"
proof -
  have "idt (idt_init tbl behind sys gen ia m) ! v = entry_gate (entry_point tbl behind) sys v"
    using assms by (simp add: idt_init_def Let_def exception_init_tables idt_desc_init_tables)
  then show ?thesis
    using assms(2) by (simp add: Let_def entry_gate_def entry_point_def gate_dpl_def gate_present_def gate_type_def
        IDT_DESC_ATTR_DPL0_def IDT_DESC_ATTR_DPL3_def drop_bit_eq_div)
qed

definition intr_ctl_zero :: intr_ctl where
  "intr_ctl_zero = \<lparr>eflags = 2, cr2 = 0, cr3 = 0, io_log = [],
     idt = replicate IDT_DESC_CNT \<lparr>func_offset_low_word = 0, selector = 0, dcount = 0,
       attribute = 0, func_offset_high_word = 0\<rparr>,
     intr_name = replicate IDT_DESC_CNT [], idt_table = replicate IDT_DESC_CNT 0\<rparr>"

theorem idt_init_gates_witness:
  "gate_dpl (idt (idt_init (map (\<lambda>v. 0xc0001500 + 0x20 * of_nat v) [0..<0x30]) (\<lambda>_. 0) 0xc0002000 0xc0003000 0xc0009000
     intr_ctl_zero) ! 0x80) = 3"
  using idt_init_gates [where m = intr_ctl_zero and v = "0x80"
      and tbl = "map (\<lambda>v. 0xc0001500 + 0x20 * of_nat v) [0..<0x30]"]
  by (simp add: Let_def tables_sized_def intr_ctl_zero_def IDT_DESC_CNT_def)

text \<open>
  The default handler: it returns exactly for the two spurious interrupts; for every other
  vector of the table it prints and stays in its loop.
\<close>

theorem general_intr_handler_ends:
  assumes "tables_sized m" and "unat v < IDT_DESC_CNT"
  shows "\<exists>m'. general_intr_handler v m = Inr (m', if v = 0x27 \<or> v = 0x2f then Returned else Hung)
    \<and> (v = 0x27 \<or> v = 0x2f \<longrightarrow> m' = m)"
proof -
  have [simp]: "intr_name ((emit e ^^ n) m') = intr_name m'" for e n and m' :: "'a intr_ctl_scheme"
    by (induction n) simp_all
  show ?thesis using assms by (auto simp: general_intr_handler_def tables_sized_def Let_def)
qed

theorem general_intr_handler_ends_witness:
  "\<exists>m'. general_intr_handler 14 intr_ctl_zero = Inr (m', Hung)"
  using general_intr_handler_ends [of intr_ctl_zero 14]
  by (auto simp: tables_sized_def intr_ctl_zero_def IDT_DESC_CNT_def)

end
