(* ===== verification/Bytes.thy ===== *)
theory Bytes
  imports Prelude
begin

text \<open>
  Byte-addressed memory, and the results of routines whose loops need not end. A routine that
  walks memory until it meets a terminator may panic, may run for ever, or may return: its result
  is a value of \<open>'a run\<close>, where \<open>None\<close> is a run that does not end and \<open>Some\<close> holds the result type
  of the prelude. The lemmas on \<open>region\<close>, \<open>put_bytes\<close> and \<open>get_bytes\<close> are the frame and read-back
  facts that the proofs about the string routines share.
\<close>

type_synonym mem = "addr \<Rightarrow> u8"

type_synonym 'a run = "'a res option"

definition bindX :: "'a run \<Rightarrow> ('a \<Rightarrow> 'b run) \<Rightarrow> 'b run" where
  "bindX m f = (case m of None \<Rightarrow> None | Some (Inl e) \<Rightarrow> Some (Inl e) | Some (Inr x) \<Rightarrow> f x)"

abbreviation returnX :: "'a \<Rightarrow> 'a run" where
  "returnX x \<equiv> Some (Inr x)"

lemma bindX_simps [simp]:
  "bindX None f = None" "bindX (Some (Inl e)) f = Some (Inl e)" "bindX (returnX x) f = f x"
  by (simp_all add: bindX_def)

lemma bindX_Inr_iff [res_iff]: "bindX m f = returnX y \<longleftrightarrow> (\<exists>x. m = returnX x \<and> f x = returnX y)"
  by (auto simp: bindX_def split: option.splits sum.splits)

lemma bindX_bind: "bindX m g = Option.bind m (\<lambda>r. case r of Inl e \<Rightarrow> Some (Inl e) | Inr x \<Rightarrow> g x)"
  by (simp add: bindX_def split: option.splits sum.splits)

lemma bindX_mono [partial_function_mono]:
  assumes "mono_option B" and "\<And>y. mono_option (C y)"
  shows "mono_option (\<lambda>f. bindX (B f) (\<lambda>y. C y f))"
  unfolding bindX_bind
proof (rule bind_mono [OF assms(1)])
  fix r :: "panic + 'c"
  show "mono_option (\<lambda>f. case r of Inl e \<Rightarrow> Some (Inl e) | Inr x \<Rightarrow> C x f)"
    by (cases r) (simp_all add: assms(2) option.const_mono)
qed

section \<open>Regions\<close>

definition region :: "addr \<Rightarrow> nat \<Rightarrow> addr set" where
  "region a n = (\<lambda>k. a + of_nat k) ` {..<n}"

lemma region_0 [simp]: "region a 0 = {}"
  by (simp add: region_def)

lemma region_Suc: "region a (Suc n) = insert a (region (a + 1) n)"
  by (force simp: region_def image_iff lessThan_Suc_eq_insert_0 ac_simps)

lemma region_add: "region a (n + k) = region a n \<union> region (a + of_nat n) k"
  by (induction n arbitrary: a) (auto simp: region_Suc ac_simps)

lemma region_mono: "n \<le> k \<Longrightarrow> region a n \<subseteq> region a k"
  by (auto simp: region_def)

lemma of_nat_inj_lt:
  assumes "(of_nat i :: u32) = of_nat j" and "i < 2 ^ 32" and "j < 2 ^ 32"
  shows "i = j"
proof -
  have l: "LENGTH(32) = 32" by simp
  have "take_bit 32 i = take_bit 32 j" using assms(1) unfolding word_of_nat_eq_iff l .
  then show ?thesis using assms(2,3) by (simp only: take_bit_nat_eq_self)
qed

lemma of_nat_mod: "(of_nat (n mod 2 ^ 32) :: u32) = of_nat n"
  by (simp only: word_of_nat_eq_iff take_bit_eq_mod) simp

lemma region_disjoint:
  assumes "n + k \<le> 2 ^ 32"
  shows "region a n \<inter> region (a + of_nat n) k = {}"
proof -
  have "(of_nat i :: u32) \<noteq> of_nat (n + j)" if "i < n" "j < k" for i j
  proof
    assume "(of_nat i :: u32) = of_nat (n + j)"
    then have "i = n + j" by (rule of_nat_inj_lt) (use that assms in linarith)+
    with that show False by simp
  qed
  then show ?thesis by (auto simp: region_def add.assoc)
qed

lemma region_fresh: "n < 2 ^ 32 \<Longrightarrow> a \<notin> region (a + 1) n"
proof
  assume n: "n < 2 ^ 32" and "a \<in> region (a + 1) n"
  then obtain k where k: "k < n" "a = a + 1 + of_nat k" by (auto simp: region_def)
  then have "(of_nat (Suc k) :: u32) = of_nat 0" by (simp add: algebra_simps)
  moreover have "Suc k < 2 ^ 32" "(0 :: nat) < 2 ^ 32" using k(1) n by linarith+
  ultimately have "Suc k = 0" by (rule of_nat_inj_lt)
  then show False by simp
qed

section \<open>Reading and writing sequences of bytes\<close>

fun put_bytes :: "addr \<Rightarrow> u8 list \<Rightarrow> mem \<Rightarrow> mem" where
  "put_bytes a [] m = m"
| "put_bytes a (x # xs) m = put_bytes (a + 1) xs (m(a := x))"

definition get_bytes :: "mem \<Rightarrow> addr \<Rightarrow> nat \<Rightarrow> u8 list" where
  "get_bytes m a n = map (\<lambda>k. m (a + of_nat k)) [0..<n]"

lemma get_bytes_0 [simp]: "get_bytes m a 0 = []"
  by (simp add: get_bytes_def)

lemma get_bytes_Suc [simp]: "get_bytes m a (Suc n) = m a # get_bytes m (a + 1) n"
  by (simp add: get_bytes_def upt_conv_Cons map_Suc_upt [symmetric] ac_simps del: upt_Suc)

lemma put_bytes_frame: "x \<notin> region a (length bs) \<Longrightarrow> put_bytes a bs m x = m x"
  by (induction bs arbitrary: a m) (auto simp: region_Suc)

lemma put_bytes_append: "put_bytes a (xs @ ys) m = put_bytes (a + of_nat (length xs)) ys (put_bytes a xs m)"
  by (induction xs arbitrary: a m) (auto simp: ac_simps)

lemma get_bytes_cong:
  "(\<And>x. x \<in> region a n \<Longrightarrow> m x = m' x) \<Longrightarrow> get_bytes m a n = get_bytes m' a n"
  by (auto simp: get_bytes_def region_def)

lemma get_put_bytes:
  "length bs \<le> 2 ^ 32 \<Longrightarrow> get_bytes (put_bytes a bs m) a (length bs) = bs"
proof (induction bs arbitrary: a m)
  case (Cons x xs)
  then have "put_bytes (a + 1) xs (m(a := x)) a = x"
    using region_fresh [of "length xs" a] by (simp add: put_bytes_frame)
  with Cons show ?case by simp
qed simp

lemma upd_fold: "(\<lambda>a. if a = x then v else m a) = m(x := v)"
  by (rule ext) simp

section \<open>Strings that end in a zero byte\<close>

fun cstr :: "mem \<Rightarrow> addr \<Rightarrow> u8 list \<Rightarrow> bool" where
  "cstr m a [] \<longleftrightarrow> m a = 0"
| "cstr m a (x # xs) \<longleftrightarrow> m a = x \<and> x \<noteq> 0 \<and> cstr m (a + 1) xs"

lemma cstr_iff: "cstr m a s \<longleftrightarrow> get_bytes m a (Suc (length s)) = s @ [0] \<and> 0 \<notin> set s"
  by (induction s arbitrary: a) auto

lemma cstr_unique: "cstr m a s \<Longrightarrow> cstr m a t \<Longrightarrow> s = t"
  by (induction s arbitrary: a t; case_tac t) auto

lemma cstr_cong:
  "(\<And>x. x \<in> region a (Suc (length s)) \<Longrightarrow> m x = m' x) \<Longrightarrow> cstr m a s = cstr m' a s"
  using get_bytes_cong [of a "Suc (length s)" m m'] by (simp add: cstr_iff)

text \<open>The whole memory cannot be one string: there is a place for the zero.\<close>

lemma cstr_length: "cstr m a s \<Longrightarrow> length s < 2 ^ 32"
proof (rule ccontr)
  assume c: "cstr m a s" and n: "\<not> length s < 2 ^ 32"
  have nth: "m (a + of_nat k) \<noteq> 0" if "k < length s" for k
    using c that
  proof (induction s arbitrary: a k)
    case (Cons x xs)
    then show ?case using Cons.IH [of "a + 1" "k - 1"] by (cases k) (auto simp: ac_simps)
  qed simp
  have "m (a + of_nat (length s)) = 0"
    using c
  proof (induction s arbitrary: a)
    case (Cons x xs)
    then show ?case using Cons.IH [of "a + 1"] by (auto simp: ac_simps)
  qed simp
  then have "m (a + of_nat (length s mod 2 ^ 32)) = 0" by (simp only: of_nat_mod)
  moreover have "length s mod 2 ^ 32 < length s"
    using n by (intro less_le_trans [OF mod_less_divisor]) simp_all
  ultimately show False using nth by blast
qed

lemma cstr_append:
  "cstr m a d \<Longrightarrow> (\<And>x. x \<in> region a (length d) \<Longrightarrow> m' x = m x) \<Longrightarrow>
   cstr m' (a + of_nat (length d)) s \<Longrightarrow> cstr m' a (d @ s)"
proof (induction d arbitrary: a)
  case (Cons x xs)
  then show ?case using Cons.IH [of "a + 1"] by (auto simp: region_Suc ac_simps)
qed simp

end
