(* ===== verification/Strings.thy ===== *)
theory Strings
  imports Bytes
begin

text \<open>
  The memory and string routines of \<^verbatim>\<open>kernel/string.c\<close>, over byte-addressed memory. Plain
  \<^verbatim>\<open>char\<close> is signed for the compiler the Makefile calls, so a \<^verbatim>\<open>char\<close> compared with another
  value is its signed reading, while a \<^verbatim>\<open>uint8_t\<close> is promoted to its unsigned reading. The
  routines that run to a terminator are partial; on a string that ends (\<open>cstr\<close>) they are shown to
  return, and their results are related to the list of the bytes of the string.
\<close>

fun memset_loop :: "nat \<Rightarrow> addr \<Rightarrow> u8 \<Rightarrow> mem \<Rightarrow> mem" where
  "memset_loop 0 dst v m = m"
| "memset_loop (Suc n) dst v m = memset_loop n (dst + 1) v (m(dst := v))"

definition memset :: "addr \<Rightarrow> u8 \<Rightarrow> u32 \<Rightarrow> mem \<Rightarrow> mem res" where
  "memset dst v sz m = bindR (kassert (dst \<noteq> NULL) ''dst_ != NULL'') (\<lambda>_.
     Inr (memset_loop (unat sz) dst v m))"

fun memcpy_loop :: "nat \<Rightarrow> addr \<Rightarrow> addr \<Rightarrow> mem \<Rightarrow> mem" where
  "memcpy_loop 0 dst src m = m"
| "memcpy_loop (Suc n) dst src m = memcpy_loop n (dst + 1) (src + 1) (m(dst := m src))"

definition memcpy :: "addr \<Rightarrow> addr \<Rightarrow> u32 \<Rightarrow> mem \<Rightarrow> mem res" where
  "memcpy dst src sz m =
     bindR (kassert (dst \<noteq> NULL \<and> src \<noteq> NULL) ''dst_ != NULL && src_ != NULL'') (\<lambda>_.
     Inr (memcpy_loop (unat sz) dst src m))"

fun memcmp_loop :: "nat \<Rightarrow> mem \<Rightarrow> addr \<Rightarrow> addr \<Rightarrow> int" where
  "memcmp_loop 0 m a b = 0"
| "memcmp_loop (Suc n) m a b =
     (if sint (m a) \<noteq> sint (m b) then if sint (m a) > sint (m b) then 1 else -1
      else memcmp_loop n m (a + 1) (b + 1))"

definition memcmp :: "mem \<Rightarrow> addr \<Rightarrow> addr \<Rightarrow> u32 \<Rightarrow> int res" where
  "memcmp m a b sz =
     bindR (kassert (a \<noteq> NULL \<or> b \<noteq> NULL) ''a != NULL || b != NULL'') (\<lambda>_.
     Inr (memcmp_loop (unat sz) m a b))"

partial_function (option) strcpy_loop :: "addr \<Rightarrow> addr \<Rightarrow> mem \<Rightarrow> mem option" where
  "strcpy_loop dst src m =
     (let c = m src; m' = m(dst := c)
      in if c \<noteq> 0 then strcpy_loop (dst + 1) (src + 1) m' else Some m')"

definition strcpy :: "addr \<Rightarrow> addr \<Rightarrow> mem \<Rightarrow> (mem \<times> addr) run" where
  "strcpy dst src m =
     bindX (Some (kassert (dst \<noteq> NULL \<and> src \<noteq> NULL) ''dst_ != NULL && src_ != NULL'')) (\<lambda>_.
     bindX (map_option Inr (strcpy_loop dst src m)) (\<lambda>m'. returnX (m', dst)))"

text \<open>\<^verbatim>\<open>while(*p++);\<close>: the value of \<^verbatim>\<open>p\<close> after the loop.\<close>

partial_function (option) skip_string :: "mem \<Rightarrow> addr \<Rightarrow> addr option" where
  "skip_string m p = (if m p \<noteq> 0 then skip_string m (p + 1) else Some (p + 1))"

definition strlen :: "mem \<Rightarrow> addr \<Rightarrow> u32 run" where
  "strlen m str = bindX (Some (kassert (str \<noteq> NULL) ''str != NULL'')) (\<lambda>_.
     bindX (map_option Inr (skip_string m str)) (\<lambda>p. returnX (p - str - 1)))"

partial_function (option) strcmp_loop :: "mem \<Rightarrow> addr \<Rightarrow> addr \<Rightarrow> (addr \<times> addr) option" where
  "strcmp_loop m a b =
     (if m a \<noteq> 0 \<and> m a = m b then strcmp_loop m (a + 1) (b + 1) else Some (a, b))"

definition strcmp :: "mem \<Rightarrow> addr \<Rightarrow> addr \<Rightarrow> int run" where
  "strcmp m a b = bindX (Some (kassert (a \<noteq> NULL \<and> b \<noteq> NULL) ''a != NULL && b != NULL'')) (\<lambda>_.
     bindX (map_option Inr (strcmp_loop m a b)) (\<lambda>(a, b).
     returnX (if sint (m a) < sint (m b) then -1 else if sint (m a) > sint (m b) then 1 else 0)))"

text \<open>\<^verbatim>\<open>*str == ch\<close> with a signed \<^verbatim>\<open>char\<close> on the left and a \<^verbatim>\<open>uint8_t\<close> on the right.\<close>

definition char_eq :: "u8 \<Rightarrow> u8 \<Rightarrow> bool" where
  "char_eq c ch \<longleftrightarrow> sint c = uint ch"

partial_function (option) strchr_loop :: "mem \<Rightarrow> u8 \<Rightarrow> addr \<Rightarrow> addr option" where
  "strchr_loop m ch str =
     (if m str \<noteq> 0 then if char_eq (m str) ch then Some str else strchr_loop m ch (str + 1)
      else Some NULL)"

definition strchr :: "mem \<Rightarrow> addr \<Rightarrow> u8 \<Rightarrow> addr run" where
  "strchr m str ch = bindX (Some (kassert (str \<noteq> NULL) ''str != NULL'')) (\<lambda>_.
     map_option Inr (strchr_loop m ch str))"

partial_function (option) strrchr_loop :: "mem \<Rightarrow> u8 \<Rightarrow> addr \<Rightarrow> addr \<Rightarrow> addr option" where
  "strrchr_loop m ch str last_char =
     (if m str \<noteq> 0
      then strrchr_loop m ch (str + 1) (if char_eq (m str) ch then str else last_char)
      else Some last_char)"

definition strrchr :: "mem \<Rightarrow> addr \<Rightarrow> u8 \<Rightarrow> addr run" where
  "strrchr m str ch = bindX (Some (kassert (str \<noteq> NULL) ''str != NULL'')) (\<lambda>_.
     map_option Inr (strrchr_loop m ch str NULL))"

definition strcat :: "addr \<Rightarrow> addr \<Rightarrow> mem \<Rightarrow> (mem \<times> addr) run" where
  "strcat dst src m =
     bindX (Some (kassert (dst \<noteq> NULL \<and> src \<noteq> NULL) ''dst_ != NULL && src_ != NULL'')) (\<lambda>_.
     bindX (map_option Inr (skip_string m dst)) (\<lambda>str.
     bindX (map_option Inr (strcpy_loop (str - 1) src m)) (\<lambda>m'. returnX (m', dst))))"

partial_function (option) strchrs_loop :: "mem \<Rightarrow> u8 \<Rightarrow> addr \<Rightarrow> u32 \<Rightarrow> u32 option" where
  "strchrs_loop m ch p ch_cnt =
     (if m p \<noteq> 0 then strchrs_loop m ch (p + 1) (if char_eq (m p) ch then ch_cnt + 1 else ch_cnt)
      else Some ch_cnt)"

definition strchrs :: "mem \<Rightarrow> addr \<Rightarrow> u8 \<Rightarrow> u32 run" where
  "strchrs m str ch = bindX (Some (kassert (str \<noteq> NULL) ''str != NULL'')) (\<lambda>_.
     map_option Inr (strchrs_loop m ch str 0))"

section \<open>Blocks of memory\<close>

lemma memset_loop_put: "memset_loop n dst v m = put_bytes dst (replicate n v) m"
  by (induction n arbitrary: dst m) simp_all

lemma memcpy_loop_put:
  assumes "region dst n \<inter> region src n = {}"
  shows "memcpy_loop n dst src m = put_bytes dst (get_bytes m src n) m"
  using assms
proof (induction n arbitrary: dst src m)
  case (Suc n)
  have "get_bytes (m(dst := m src)) (src + 1) n = get_bytes m (src + 1) n"
    using Suc.prems by (intro get_bytes_cong) (auto simp: region_Suc)
  with Suc show ?case by (auto simp: region_Suc upd_fold)
qed simp

lemma sint_eq_iff: "sint x = sint y \<longleftrightarrow> x = y" for x y :: u8
  using word_eq_iff_signed by blast

lemma memcmp_loop_zero: "memcmp_loop n m a b = 0 \<longleftrightarrow> get_bytes m a n = get_bytes m b n"
  by (induction n m a b rule: memcmp_loop.induct) (auto simp: sint_eq_iff)

section \<open>Strings\<close>

lemma skip_string_cstr: "cstr m a s \<Longrightarrow> skip_string m a = Some (a + of_nat (length s) + 1)"
proof (induction s arbitrary: a)
  case Nil
  then show ?case by (simp add: skip_string.simps)
next
  case (Cons x xs)
  then show ?case using Cons.IH [of "a + 1"] by (subst skip_string.simps) (auto simp: ac_simps)
qed

lemma strlen_cstr: "cstr m a s \<Longrightarrow> a \<noteq> NULL \<Longrightarrow> strlen m a = returnX (of_nat (length s))"
  by (simp add: strlen_def kassert_def skip_string_cstr)

lemma strcpy_loop_cstr:
  assumes "cstr m src s" and "region dst (Suc (length s)) \<inter> region src (Suc (length s)) = {}"
  shows "strcpy_loop dst src m = Some (put_bytes dst (s @ [0]) m)"
  using assms
proof (induction s arbitrary: dst src m)
  case Nil
  then show ?case by (simp add: strcpy_loop.simps upd_fold)
next
  case (Cons x xs)
  have "cstr (m(dst := x)) (src + 1) xs = cstr m (src + 1) xs"
    using Cons.prems(2) by (intro cstr_cong) (auto simp: region_Suc)
  moreover have "region (dst + 1) (Suc (length xs)) \<inter> region (src + 1) (Suc (length xs)) = {}"
    using Cons.prems(2) by (auto simp: region_Suc)
  ultimately show ?case
    using Cons.IH [of "m(dst := x)" "src + 1" "dst + 1"] Cons.prems(1)
    by (subst strcpy_loop.simps) (simp add: Let_def upd_fold)
qed

lemma cstr_put: "0 \<notin> set s \<Longrightarrow> length s < 2 ^ 32 \<Longrightarrow> cstr (put_bytes a (s @ [0]) m) a s"
  using get_put_bytes [of "s @ [0]" a m] by (simp add: cstr_iff)

lemma cstr_nonzero: "cstr m a s \<Longrightarrow> 0 \<notin> set s"
  by (simp add: cstr_iff)

lemma strcmp_loop_cstr:
  "cstr m a s \<Longrightarrow> cstr m b t \<Longrightarrow> \<exists>n \<le> min (length s) (length t).
     strcmp_loop m a b = Some (a + of_nat n, b + of_nat n) \<and> take n s = take n t \<and>
     m (a + of_nat n) = (s @ [0]) ! n \<and> m (b + of_nat n) = (t @ [0]) ! n \<and>
     (n < length s \<longrightarrow> (s @ [0]) ! n \<noteq> (t @ [0]) ! n)"
proof (induction s arbitrary: a b t)
  case Nil
  then show ?case by (subst strcmp_loop.simps) (cases t; auto)
next
  case (Cons x xs)
  show ?case
  proof (cases "t \<noteq> [] \<and> hd t = x")
    case True
    then obtain ys where t: "t = x # ys" by (cases t) auto
    obtain n where "n \<le> min (length xs) (length ys)"
      "strcmp_loop m (a + 1) (b + 1) = Some (a + 1 + of_nat n, b + 1 + of_nat n)"
      "take n xs = take n ys" "m (a + 1 + of_nat n) = (xs @ [0]) ! n"
      "m (b + 1 + of_nat n) = (ys @ [0]) ! n" "n < length xs \<longrightarrow> (xs @ [0]) ! n \<noteq> (ys @ [0]) ! n"
      using Cons.IH [of "a + 1" "b + 1" ys] Cons.prems t by auto
    then show ?thesis
      using Cons.prems t by (intro exI [of _ "Suc n"]) (subst strcmp_loop.simps, auto simp: ac_simps)
  next
    case False
    with Cons.prems show ?thesis
      by (intro exI [of _ 0]) (subst strcmp_loop.simps, cases t, auto)
  qed
qed

lemma strchr_loop_cstr:
  "cstr m a s \<Longrightarrow> strchr_loop m ch a =
     Some (case List.find (\<lambda>k. char_eq (s ! k) ch) [0..<length s] of None \<Rightarrow> NULL | Some k \<Rightarrow> a + of_nat k)"
proof (induction s arbitrary: a)
  case Nil
  then show ?case by (simp add: strchr_loop.simps)
next
  case (Cons x xs)
  have "List.find (\<lambda>k. char_eq ((x # xs) ! k) ch) (map Suc ks) =
      map_option Suc (List.find (\<lambda>k. char_eq (xs ! k) ch) ks)" for ks by (induction ks) auto
  moreover have "[0..<length (x # xs)] = 0 # map Suc [0..<length xs]"
    by (simp add: map_Suc_upt upt_conv_Cons del: upt_Suc)
  ultimately show ?case using Cons.prems Cons.IH [of "a + 1"]
    by (subst strchr_loop.simps) (auto simp: ac_simps split: option.splits)
qed

lemma strchrs_loop_cstr:
  "cstr m a s \<Longrightarrow> strchrs_loop m ch a n = Some (n + of_nat (length (filter (\<lambda>c. char_eq c ch) s)))"
proof (induction s arbitrary: a n)
  case Nil
  then show ?case by (simp add: strchrs_loop.simps)
next
  case (Cons x xs)
  then show ?case using Cons.IH [of "a + 1"] by (subst strchrs_loop.simps) (auto simp: ac_simps)
qed

text \<open>A \<^verbatim>\<open>char\<close> equals a \<^verbatim>\<open>uint8_t\<close> only below 128.\<close>

lemma sint_eq_uint_low: "uint c < 128 \<Longrightarrow> sint c = uint c" for c :: u8
  by (simp add: sint_uint signed_take_bit_int_eq_self order_trans [OF _ uint_ge_0])

lemma char_eq_iff: "char_eq c ch \<longleftrightarrow> c = ch \<and> uint ch < 128"
proof
  assume eq: "char_eq c ch"
  then have "uint ch < 128" using sint_lt [of c] by (simp add: char_eq_def)
  then have "sint ch = sint c" using eq by (simp add: char_eq_def sint_eq_uint_low)
  with \<open>uint ch < 128\<close> show "c = ch \<and> uint ch < 128" by (simp add: sint_eq_iff)
qed (simp add: char_eq_def sint_eq_uint_low)

lemma strrchr_loop_cstr:
  "cstr m a s \<Longrightarrow> strrchr_loop m ch a l =
     Some (case List.find (\<lambda>k. char_eq (s ! k) ch) (rev [0..<length s]) of None \<Rightarrow> l | Some k \<Rightarrow> a + of_nat k)"
proof (induction s arbitrary: a l)
  case Nil
  then show ?case by (simp add: strrchr_loop.simps)
next
  case (Cons x xs)
  have "List.find (\<lambda>k. char_eq ((x # xs) ! k) ch) (map Suc ks @ [0]) =
      (case List.find (\<lambda>k. char_eq (xs ! k) ch) ks of None \<Rightarrow> if char_eq x ch then Some 0 else None
       | Some k \<Rightarrow> Some (Suc k))" for ks by (induction ks) auto
  moreover have "rev [0..<length (x # xs)] = map Suc (rev [0..<length xs]) @ [0]"
    by (simp add: map_Suc_upt upt_conv_Cons rev_map [symmetric] del: upt_Suc)
  ultimately show ?case using Cons.prems Cons.IH [of "a + 1"]
    by (subst strrchr_loop.simps) (auto simp: ac_simps split: option.splits)
qed

lemma strcmp_cases:
  assumes "cstr m a s" and "cstr m b t" and "a \<noteq> NULL" and "b \<noteq> NULL"
  shows "\<exists>n. n \<le> length s \<and> n \<le> length t \<and> take n s = take n t \<and>
    (n < length s \<longrightarrow> (s @ [0]) ! n \<noteq> (t @ [0]) ! n) \<and>
    strcmp m a b = returnX (if sint ((s @ [0]) ! n) < sint ((t @ [0]) ! n) then -1
       else if sint ((s @ [0]) ! n) > sint ((t @ [0]) ! n) then 1 else 0)"
proof -
  obtain n where n: "n \<le> min (length s) (length t)" "take n s = take n t"
    "strcmp_loop m a b = Some (a + of_nat n, b + of_nat n)"
    "m (a + of_nat n) = (s @ [0]) ! n" "m (b + of_nat n) = (t @ [0]) ! n"
    "n < length s \<longrightarrow> (s @ [0]) ! n \<noteq> (t @ [0]) ! n"
    using strcmp_loop_cstr [OF assms(1,2)] by blast
  then show ?thesis using assms(3,4)
    by (intro exI [of _ n]) (simp add: strcmp_def kassert_def)
qed

lemma strcmp_zero:
  assumes "cstr m a s" and "cstr m b t" and "a \<noteq> NULL" and "b \<noteq> NULL"
  shows "strcmp m a b = returnX 0 \<longleftrightarrow> s = t"
proof -
  obtain n where n: "n \<le> length s" "n \<le> length t" "take n s = take n t"
    "n < length s \<longrightarrow> (s @ [0]) ! n \<noteq> (t @ [0]) ! n"
    and r: "strcmp m a b = returnX (if sint ((s @ [0]) ! n) < sint ((t @ [0]) ! n) then -1
       else if sint ((s @ [0]) ! n) > sint ((t @ [0]) ! n) then 1 else 0)"
    using strcmp_cases [OF assms] by blast
  have "strcmp m a b = returnX 0 \<longleftrightarrow> (s @ [0]) ! n = (t @ [0]) ! n"
    by (auto simp: r sint_eq_iff [symmetric])
  also have "\<dots> \<longleftrightarrow> s = t"
  proof
    assume eq: "(s @ [0]) ! n = (t @ [0]) ! n"
    then have ns: "n = length s" using n(1,4) by fastforce
    have "n = length t"
    proof (rule ccontr)
      assume "n \<noteq> length t"
      then have "t ! n = 0" "n < length t" using eq ns n(2) by (auto simp: nth_append)
      then show False using cstr_nonzero [OF assms(2)] nth_mem by metis
    qed
    with ns n(3) show "s = t" by (metis order_refl take_all)
  qed simp
  finally show ?thesis .
qed

section \<open>Properties\<close>

text \<open>
  C39. Copying a block: between disjoint regions \<^verbatim>\<open>memcpy\<close> changes exactly the destination, and a
  comparison of the two regions with \<^verbatim>\<open>memcmp\<close> then finds them equal.
\<close>

theorem memcpy_then_memcmp:
  assumes "dst \<noteq> NULL" and "src \<noteq> NULL" and "region dst (unat n) \<inter> region src (unat n) = {}"
  shows "\<exists>m'. memcpy dst src n m = Inr m' \<and> get_bytes m' dst (unat n) = get_bytes m src (unat n) \<and>
    (\<forall>x. x \<notin> region dst (unat n) \<longrightarrow> m' x = m x) \<and> memcmp m' dst src n = Inr 0"
proof -
  let ?bs = "get_bytes m src (unat n)"
  let ?m = "put_bytes dst ?bs m"
  have len: "length ?bs = unat n" "unat n \<le> 2 ^ 32"
    using unat_bound [of n] by (simp_all add: get_bytes_def)
  have frame: "?m x = m x" if "x \<notin> region dst (unat n)" for x
    using that len put_bytes_frame [of x dst ?bs m] by simp
  have new: "get_bytes ?m dst (unat n) = ?bs" using get_put_bytes [of ?bs dst m] len by simp
  moreover have "get_bytes ?m src (unat n) = ?bs"
    using assms(3) by (intro get_bytes_cong frame) auto
  ultimately have "memcmp ?m dst src n = Inr 0"
    using assms by (simp add: memcmp_def kassert_def memcmp_loop_zero)
  then show ?thesis
    using assms new frame by (simp add: memcpy_def kassert_def memcpy_loop_put)
qed

theorem memcpy_then_memcmp_witness:
  "\<exists>m'. memcpy 0x100 0x200 3 (\<lambda>a. ucast a) = Inr m' \<and> memcmp m' 0x100 0x200 3 = Inr 0"
proof -
  have "unat (3 :: u32) = Suc (Suc (Suc 0))" by simp
  then have "region 0x100 (unat (3 :: u32)) \<inter> region 0x200 (unat (3 :: u32)) = {}"
    by (simp only: region_Suc region_0) simp
  from memcpy_then_memcmp [OF _ _ this, of "\<lambda>a. ucast a"] show ?thesis by auto
qed

text \<open>
  Concatenation: when the destination has room that does not meet the source, \<^verbatim>\<open>strcat\<close>
  returns, the destination holds the two strings one after the other, and nothing outside the
  appended bytes changes.
\<close>

theorem strcat_correct:
  assumes "cstr m dst d" and "cstr m src s" and "dst \<noteq> NULL" and "src \<noteq> NULL"
    and "region (dst + of_nat (length d)) (Suc (length s)) \<inter>
      (region dst (length d) \<union> region src (Suc (length s))) = {}"
  shows "\<exists>m'. strcat dst src m = returnX (m', dst) \<and> cstr m' dst (d @ s) \<and>
    (\<forall>x. x \<notin> region (dst + of_nat (length d)) (Suc (length s)) \<longrightarrow> m' x = m x)"
proof -
  let ?e = "dst + of_nat (length d)" and ?m = "put_bytes (dst + of_nat (length d)) (s @ [0]) m"
  have cpy: "strcpy_loop ?e src m = Some ?m"
    using strcpy_loop_cstr [OF assms(2), of ?e] assms(5) by blast
  have frame: "?m x = m x" if "x \<notin> region ?e (Suc (length s))" for x
    using that put_bytes_frame [of x ?e "s @ [0]" m] by simp
  have tail: "cstr ?m ?e s" using cstr_put cstr_nonzero cstr_length assms(2) by blast
  have "cstr ?m dst (d @ s)"
    using assms(5) frame by (intro cstr_append [OF assms(1) _ tail]) blast
  then show ?thesis using assms(1,3,4) cpy frame
    by (auto simp: strcat_def kassert_def skip_string_cstr)
qed

definition mem_of :: "addr \<Rightarrow> u8 list \<Rightarrow> mem" where
  "mem_of a bs = put_bytes a bs (\<lambda>_. 0)"

theorem strcat_correct_witness:
  "\<exists>m'. strcat 0x100 0x200 (put_bytes 0x200 [66] (mem_of 0x100 [65])) = returnX (m', 0x100) \<and>
     cstr m' 0x100 [65, 66]"
proof -
  let ?m = "put_bytes 0x200 [66] (mem_of 0x100 [65])"
  have "cstr ?m 0x100 [65]" "cstr ?m 0x200 [66]" by (simp_all add: mem_of_def)
  from strcat_correct [OF this] show ?thesis by (simp add: region_Suc) blast
qed

text \<open>
  Comparison: on two strings that end, \<^verbatim>\<open>strcmp\<close> returns, its result is 0 exactly when the
  strings are equal, and for 7-bit characters it is \<open>-1\<close> exactly when the first string is the
  smaller one in the lexicographic order.
\<close>

theorem strcmp_correct:
  assumes "cstr m a s" and "cstr m b t" and "a \<noteq> NULL" and "b \<noteq> NULL"
  shows "\<exists>r. strcmp m a b = returnX r \<and> (r = 0 \<longleftrightarrow> s = t) \<and>
    ((\<forall>c\<in>set s \<union> set t. uint c < 128) \<longrightarrow> (r = -1 \<longleftrightarrow> (s, t) \<in> lexord {(x, y). x < y}))"
proof -
  obtain n where n: "n \<le> length s" "n \<le> length t" "take n s = take n t"
    "n < length s \<longrightarrow> (s @ [0]) ! n \<noteq> (t @ [0]) ! n"
    and r: "strcmp m a b = returnX (if sint ((s @ [0]) ! n) < sint ((t @ [0]) ! n) then -1
       else if sint ((s @ [0]) ! n) > sint ((t @ [0]) ! n) then 1 else 0)"
    using strcmp_cases [OF assms] by blast
  have "sint ((s @ [0]) ! n) < sint ((t @ [0]) ! n) \<longleftrightarrow> (s, t) \<in> lexord {(x, y). x < y}"
    if low: "\<forall>c\<in>set s \<union> set t. uint c < 128"
  proof -
    have s0: "sint ((s @ [0]) ! n) = uint ((s @ [0]) ! n)" "sint ((t @ [0]) ! n) = uint ((t @ [0]) ! n)"
      using n(1,2) low by (auto intro!: sint_eq_uint_low simp: nth_append)
    have lex: "(s, t) \<in> lexord {(x, y). x < y} \<longleftrightarrow> (drop n s, drop n t) \<in> lexord {(x, y). x < y}"
      using lexord_same_pref_iff [of "take n s" "drop n s" "drop n t" "{(x, y). x < y}"] n(3)
        append_take_drop_id [of n s] append_take_drop_id [of n t] by auto
    have pos: "0 < t ! n" if "n < length t"
      using that cstr_nonzero [OF assms(2)] nth_mem [OF that] by (metis word_gt_0)
    show ?thesis unfolding s0 lex word_less_def [symmetric]
      using n pos
      by (cases "n < length s"; cases "n < length t") (auto simp: nth_append Cons_nth_drop_Suc [symmetric])
  qed
  then show ?thesis using r strcmp_zero [OF assms] by auto
qed

theorem strcmp_correct_witness:
  "\<exists>r. strcmp (put_bytes 0x200 [66] (mem_of 0x100 [65])) 0x100 0x200 = returnX r \<and> r \<noteq> 0"
proof -
  let ?m = "put_bytes 0x200 [66] (mem_of 0x100 [65])"
  have "cstr ?m 0x100 [65]" "cstr ?m 0x200 [66]" by (simp_all add: mem_of_def)
  from strcmp_correct [OF this] show ?thesis by auto
qed

text \<open>
  The searches for a character. They return on a string that ends; for a 7-bit character
  \<^verbatim>\<open>strchr\<close> gives the first position, \<^verbatim>\<open>strrchr\<close> the last and \<^verbatim>\<open>strchrs\<close> the number of
  occurrences. For a character of 128 or more they find nothing, whatever the string holds: the
  string is read as signed characters and the argument is unsigned.
\<close>

theorem string_searches:
  assumes "cstr m a s" and "a \<noteq> NULL"
  shows "strchr m a ch = returnX (case List.find (\<lambda>k. s ! k = ch \<and> uint ch < 128) [0..<length s] of
        None \<Rightarrow> NULL | Some k \<Rightarrow> a + of_nat k) \<and>
    strrchr m a ch = returnX (case List.find (\<lambda>k. s ! k = ch \<and> uint ch < 128) (rev [0..<length s]) of
        None \<Rightarrow> NULL | Some k \<Rightarrow> a + of_nat k) \<and>
    strchrs m a ch = returnX (if uint ch < 128 then of_nat (count_list s ch) else 0)"
proof -
  have "length (filter (\<lambda>c. char_eq c ch) s) = (if uint ch < 128 then count_list s ch else 0)"
    by (induction s) (auto simp: char_eq_iff)
  then show ?thesis using assms
    by (simp add: strchr_def strrchr_def strchrs_def kassert_def strchr_loop_cstr
        strrchr_loop_cstr strchrs_loop_cstr char_eq_iff)
qed

theorem string_searches_witness:
  "strchr (mem_of 0x100 [65, 47, 66, 47]) 0x100 47 = returnX 0x101 \<and>
   strrchr (mem_of 0x100 [65, 47, 66, 47]) 0x100 47 = returnX 0x103 \<and>
   strchrs (mem_of 0x100 [65, 47, 66, 47]) 0x100 47 = returnX 2 \<and>
   strchr (mem_of 0x100 [0xff]) 0x100 0xff = returnX NULL"
proof -
  have "cstr (mem_of 0x100 [65, 47, 66, 47]) 0x100 [65, 47, 66, 47]" "cstr (mem_of 0x100 [0xff]) 0x100 [0xff]"
    by (simp_all add: mem_of_def)
  from string_searches [OF this(1), of 47] string_searches [OF this(2), of "0xff"]
  show ?thesis by (simp add: upt_rec)
qed

end
