(* ===== verification/Stdio.thy ===== *)
theory Stdio
  imports Strings
begin

text \<open>
  Formatted output (\<^verbatim>\<open>kernel/stdio.c\<close>, \<^verbatim>\<open>kernel/stdio-kernel.c\<close>): \<^verbatim>\<open>itoa\<close> and the loop of
  \<^verbatim>\<open>vsprintf\<close> over byte-addressed memory, the variable arguments being the dwords above the last
  fixed argument. A pure reference, \<open>render\<close>, says what text a format and its arguments stand for;
  the loop is shown to return and to write that text, when the buffer does not meet the memory the
  loop reads. \<^verbatim>\<open>vsprintf\<close> writes no terminator of its own, so the string it leaves is the
  rendered text only if the byte after it was zero.
\<close>

definition load32 :: "mem \<Rightarrow> addr \<Rightarrow> u32" where
  "load32 m a = ucast (m a) OR push_bit 8 (ucast (m (a + 1))) OR push_bit 16 (ucast (m (a + 2)))
     OR push_bit 24 (ucast (m (a + 3)))"

text \<open>The division by a zero \<^verbatim>\<open>base\<close> is the processor's divide error.\<close>

partial_function (option) itoa :: "u32 \<Rightarrow> u8 \<Rightarrow> mem \<times> addr \<Rightarrow> (mem \<times> addr) run" where
  "itoa v base st =
     (if base = 0 then Some (kpanic ''#DE Divide Error'')
      else
        let md = v mod ucast base; i = v div ucast base in
        bindX (if i \<noteq> 0 then itoa i base st else returnX st) (\<lambda>(m, buf_ptr).
        if md < 10 then returnX (m(buf_ptr := ucast (md + 48)), buf_ptr + 1)
        else returnX (m(buf_ptr := ucast (md - 10 + 65)), buf_ptr + 1)))"

text \<open>
  The loop of \<^verbatim>\<open>vsprintf\<close>. The characters of the directives are 37 (\<open>%\<close>), 115 (\<open>s\<close>),
  99 (\<open>c\<close>), 100 (\<open>d\<close>), 120 (\<open>x\<close>), and 45 is the minus sign. A \<^verbatim>\<open>switch\<close> without a matching
  case leaves \<^verbatim>\<open>index_char\<close> at the character after the percent sign.
\<close>

partial_function (option) vsprintf_loop :: "addr \<Rightarrow> u8 \<Rightarrow> addr \<Rightarrow> addr \<Rightarrow> mem \<Rightarrow> mem run" where
  "vsprintf_loop index_ptr index_char buf_ptr ap m =
     (if index_char = 0 then returnX m
      else if index_char \<noteq> 37 then
        let m' = m(buf_ptr := index_char); ip = index_ptr + 1
        in vsprintf_loop ip (m' ip) (buf_ptr + 1) ap m'
      else
        let ip = index_ptr + 1; ic = m ip in
        if ic = 115 then
          let ap' = ap + 4; arg_str = load32 m ap' in
          bindX (strcpy buf_ptr arg_str m) (\<lambda>(m', _).
          bindX (strlen m' arg_str) (\<lambda>n.
          vsprintf_loop (ip + 1) (m' (ip + 1)) (buf_ptr + n) ap' m'))
        else if ic = 99 then
          let ap' = ap + 4; m' = m(buf_ptr := m ap')
          in vsprintf_loop (ip + 1) (m' (ip + 1)) (buf_ptr + 1) ap' m'
        else if ic = 100 then
          let ap' = ap + 4; arg_int = load32 m ap';
              (arg, m1, b1) = (if sint arg_int < 0 then (0 - arg_int, m(buf_ptr := 45), buf_ptr + 1)
                               else (arg_int, m, buf_ptr)) in
          bindX (itoa arg 10 (m1, b1)) (\<lambda>(m', b').
          vsprintf_loop (ip + 1) (m' (ip + 1)) b' ap' m')
        else if ic = 120 then
          let ap' = ap + 4; arg_int = load32 m ap' in
          bindX (itoa arg_int 16 (m, buf_ptr)) (\<lambda>(m', b').
          vsprintf_loop (ip + 1) (m' (ip + 1)) b' ap' m')
        else vsprintf_loop ip ic buf_ptr ap m)"

definition vsprintf :: "addr \<Rightarrow> addr \<Rightarrow> addr \<Rightarrow> mem \<Rightarrow> (mem \<times> u32) run" where
  "vsprintf str format ap m =
     bindX (vsprintf_loop format (m format) str ap m) (\<lambda>m'.
     bindX (strlen m' str) (\<lambda>n. returnX (m', n)))"

text \<open>
  \<^verbatim>\<open>sprintf\<close> and \<^verbatim>\<open>printf\<close> take the address of their last fixed argument for the list of the
  variable ones. The local array of \<^verbatim>\<open>printf\<close> is at \<open>buf\<close>, and \<open>write\<close> is the system call.
\<close>

definition sprintf :: "addr \<Rightarrow> addr \<Rightarrow> addr \<Rightarrow> mem \<Rightarrow> (mem \<times> u32) run" where
  "sprintf buf format format_addr m = vsprintf buf format format_addr m"

definition printf ::
  "(u32 \<Rightarrow> addr \<Rightarrow> u32 \<Rightarrow> mem \<Rightarrow> (mem \<times> u32) run) \<Rightarrow> addr \<Rightarrow> addr \<Rightarrow> addr \<Rightarrow> mem \<Rightarrow> (mem \<times> u32) run" where
  "printf write buf format format_addr m =
     (let m1 = put_bytes buf (replicate 1024 0) m in
      bindX (vsprintf buf format format_addr m1) (\<lambda>(m2, _).
      bindX (strlen m2 buf) (\<lambda>n. write 1 buf n m2)))"

definition printk ::
  "(addr \<Rightarrow> mem \<Rightarrow> mem run) \<Rightarrow> addr \<Rightarrow> addr \<Rightarrow> addr \<Rightarrow> mem \<Rightarrow> mem run" where
  "printk console_put_str buf format format_addr m =
     (let m1 = put_bytes buf (replicate 1024 0) m in
      bindX (vsprintf buf format format_addr m1) (\<lambda>(m2, _). console_put_str buf m2))"

section \<open>Numbers\<close>

definition digit :: "nat \<Rightarrow> u8" where
  "digit d = (if d < 10 then of_nat (d + 48) else of_nat (d - 10 + 65))"

fun num_bytes :: "nat \<Rightarrow> nat \<Rightarrow> u8 list" where
  "num_bytes b v = (if b < 2 \<or> v < b then [digit v] else num_bytes b (v div b) @ [digit (v mod b)])"

declare num_bytes.simps [simp del]

definition digit_value :: "u8 \<Rightarrow> nat" where
  "digit_value c = (if unat c < 65 then unat c - 48 else unat c - 65 + 10)"

definition num_value :: "nat \<Rightarrow> u8 list \<Rightarrow> nat" where
  "num_value b ds = foldl (\<lambda>v c. v * b + digit_value c) 0 ds"

lemma unat_digit: "d < 36 \<Longrightarrow> unat (digit d) = (if d < 10 then d + 48 else d - 10 + 65)"
  unfolding digit_def by (cases "d < 10") (simp_all only: if_True if_False, (rule unat_of_nat_lt, simp)+)

lemma digit_value_digit: "d < 36 \<Longrightarrow> digit_value (digit d) = d"
  by (simp add: digit_value_def unat_digit)

lemma num_roundtrip: "2 \<le> b \<Longrightarrow> b \<le> 36 \<Longrightarrow> num_value b (num_bytes b v) = v"
proof (induction b v rule: num_bytes.induct)
  case (1 b v)
  show ?case
  proof (cases "v < b")
    case True
    with 1 show ?thesis by (subst num_bytes.simps) (simp add: num_value_def digit_value_digit)
  next
    case False
    have "v mod b < 36" using 1(2,3) mod_less_divisor [of b v] by linarith
    with 1 False show ?thesis
      by (subst num_bytes.simps) (simp add: num_value_def digit_value_digit)
  qed
qed

lemma num_bytes_length: "length (num_bytes b v) \<le> Suc v"
proof (induction b v rule: num_bytes.induct)
  case (1 b v)
  then show ?case by (subst num_bytes.simps) (use div_less_dividend [of b v] in fastforce)
qed

lemma num_bytes_nonempty: "num_bytes b v \<noteq> []"
  by (subst num_bytes.simps) simp

lemma num_bytes_first: "2 \<le> b \<Longrightarrow> b \<le> 36 \<Longrightarrow> v \<noteq> 0 \<Longrightarrow> hd (num_bytes b v) \<noteq> 48"
proof (induction b v rule: num_bytes.induct)
  case (1 b v)
  show ?case
  proof (cases "v < b")
    case True
    with 1 show ?thesis using unat_digit [of v] by (subst num_bytes.simps) (auto split: if_splits)
  next
    case False
    with 1 have "hd (num_bytes b (v div b)) \<noteq> 48" by (simp add: div_eq_0_iff)
    with False 1(2) show ?thesis by (subst num_bytes.simps) (simp add: num_bytes_nonempty)
  qed
qed

lemma digit_word:
  fixes w :: u32
  assumes "unat w < 36"
  shows "(if w < 10 then ucast (w + 48) else ucast (w - 10 + 65)) = digit (unat w)" (is "?l = ?r")
proof -
  have "unat (ucast (w + 48) :: u8) = unat w + 48" if "unat w < 10"
  proof -
    have "unat (w + 48) = unat w + 48" using that by (subst unat_add_lt) simp_all
    then show ?thesis using that by (simp add: unat_ucast)
  qed
  moreover have "unat (ucast (w - 10 + 65) :: u8) = unat w - 10 + 65" if "\<not> unat w < 10"
  proof -
    have "unat (w - 10) = unat w - 10" using that by (subst unat_sub_le) simp_all
    then have "unat (w - 10 + 65) = unat w - 10 + 65" using assms by (subst unat_add_lt) simp_all
    then show ?thesis using assms by (simp add: unat_ucast)
  qed
  ultimately have "unat ?l = unat ?r"
    using unat_digit [OF assms] by (simp add: word_less_nat_alt)
  then show ?thesis by (simp add: word_unat_eq_iff)
qed

lemma itoa_correct:
  assumes "2 \<le> unat base" and "unat base \<le> 36"
  shows "itoa v base (m, buf) =
    returnX (put_bytes buf (num_bytes (unat base) (unat v)) m,
             buf + of_nat (length (num_bytes (unat base) (unat v))))"
proof (induction "unat v" arbitrary: v rule: less_induct)
  case less
  let ?b = "unat base"
  have b: "unat (ucast base :: u32) = ?b" by (simp add: unat_ucast_up)
  have d: "unat (v div ucast base) = unat v div ?b" "unat (v mod ucast base) = unat v mod ?b"
    using b by (simp_all add: unat_div_word unat_mod_word)
  have small: "unat v mod ?b < 36" using assms mod_less_divisor [of ?b "unat v"] by linarith
  have base: "base \<noteq> 0" using assms by auto
  have i0: "v div ucast base = 0 \<longleftrightarrow> unat v < ?b"
    using d(1) assms by (simp add: word_eq_unat_iff div_eq_0_iff)
  note dig = digit_word [of "v mod ucast base", unfolded d, OF small]
  show ?case
  proof (cases "unat v < ?b")
    case True
    then have n: "num_bytes ?b (unat v) = [digit (unat v mod ?b)]" by (subst num_bytes.simps) simp
    show ?thesis using True base i0 dig
      by (subst itoa.simps) (auto simp: Let_def n)
  next
    case False
    have "unat (v div ucast base) < unat v"
      using False assms(1) unfolding d by (intro div_less_dividend) auto
    note IH = less [OF this, unfolded d]
    have n: "num_bytes ?b (unat v) = num_bytes ?b (unat v div ?b) @ [digit (unat v mod ?b)]"
      using False assms by (subst num_bytes.simps) simp
    show ?thesis using False base i0 dig IH
      by (subst itoa.simps) (auto simp: Let_def n put_bytes_append ac_simps)
  qed
qed

section \<open>What a format stands for\<close>

datatype farg = AStr "u8 list" | AChr u8 | AInt u32

definition int_bytes :: "u32 \<Rightarrow> u8 list" where
  "int_bytes w = (if sint w < 0 then 45 # num_bytes 10 (unat (- w)) else num_bytes 10 (unat w))"

fun directive :: "u8 \<Rightarrow> farg \<Rightarrow> u8 list option" where
  "directive d (AStr s) = (if d = 115 then Some s else None)"
| "directive d (AChr c) = (if d = 99 then Some [c] else None)"
| "directive d (AInt w) =
     (if d = 100 then Some (int_bytes w) else if d = 120 then Some (num_bytes 16 (unat w)) else None)"

fun render :: "u8 list \<Rightarrow> farg list \<Rightarrow> u8 list option" where
  "render [] args = Some []"
| "render (c # cs) args =
     (if c \<noteq> 37 then map_option ((#) c) (render cs args)
      else case cs of [] \<Rightarrow> Some [] | d # ds \<Rightarrow>
        if d = 115 \<or> d = 99 \<or> d = 100 \<or> d = 120 then
          (case args of [] \<Rightarrow> None | x # xs \<Rightarrow>
            (case directive d x of None \<Rightarrow> None | Some s \<Rightarrow> map_option ((@) s) (render ds xs)))
        else render cs args)"

text \<open>The arguments above \<open>ap\<close>, and the addresses that reading them touches.\<close>

fun arg_at :: "mem \<Rightarrow> addr \<Rightarrow> farg \<Rightarrow> bool" where
  "arg_at m a (AStr s) \<longleftrightarrow> load32 m a \<noteq> NULL \<and> cstr m (load32 m a) s"
| "arg_at m a (AChr c) \<longleftrightarrow> m a = c"
| "arg_at m a (AInt w) \<longleftrightarrow> load32 m a = w"

fun arg_reads :: "mem \<Rightarrow> addr \<Rightarrow> farg \<Rightarrow> addr set" where
  "arg_reads m a (AStr s) = region a 4 \<union> region (load32 m a) (Suc (length s))"
| "arg_reads m a _ = region a 4"

fun args_at :: "mem \<Rightarrow> addr \<Rightarrow> farg list \<Rightarrow> bool" where
  "args_at m ap [] \<longleftrightarrow> True"
| "args_at m ap (x # xs) \<longleftrightarrow> arg_at m (ap + 4) x \<and> args_at m (ap + 4) xs"

fun args_reads :: "mem \<Rightarrow> addr \<Rightarrow> farg list \<Rightarrow> addr set" where
  "args_reads m ap [] = {}"
| "args_reads m ap (x # xs) = arg_reads m (ap + 4) x \<union> args_reads m (ap + 4) xs"

lemma region_4: "region a 4 = {a, a + 1, a + 2, a + 3}"
  by (simp add: region_Suc eval_nat_numeral add.assoc)

lemma load32_cong: "(\<And>x. x \<in> region a 4 \<Longrightarrow> m' x = m x) \<Longrightarrow> load32 m' a = load32 m a"
  by (simp add: load32_def region_4)

lemma args_cong:
  assumes "\<And>x. x \<in> args_reads m ap xs \<Longrightarrow> m' x = m x"
  shows "args_reads m' ap xs = args_reads m ap xs \<and> args_at m' ap xs = args_at m ap xs"
  using assms
proof (induction xs arbitrary: ap)
  case (Cons x xs)
  have "arg_reads m' a x = arg_reads m a x \<and> arg_at m' a x = arg_at m a x"
    if a: "\<And>y. y \<in> arg_reads m a x \<Longrightarrow> m' y = m y" for a
  proof -
    have l: "load32 m' a = load32 m a" using a by (cases x) (auto intro!: load32_cong)
    moreover have "m' a = m a" using a by (cases x) (auto simp: region_4)
    moreover have "cstr m' p s = cstr m p s" if "x = AStr s" "p = load32 m a" for p s
      using a that by (intro cstr_cong) auto
    ultimately show ?thesis by (cases x) auto
  qed
  with Cons show ?case by auto
qed simp

section \<open>The loop writes what the format stands for\<close>

definition written :: "addr \<Rightarrow> u8 list \<Rightarrow> mem \<Rightarrow> mem \<Rightarrow> bool" where
  "written buf out m m' \<longleftrightarrow> (\<forall>x. x \<notin> region buf (Suc (length out)) \<longrightarrow> m' x = m x) \<and>
     get_bytes m' buf (length out) = out \<and>
     (m (buf + of_nat (length out)) = 0 \<longrightarrow> m' (buf + of_nat (length out)) = 0)"

lemma get_bytes_append:
  "get_bytes m a (n + k) = get_bytes m a n @ get_bytes m (a + of_nat n) k"
  by (induction n arbitrary: a) (auto simp: ac_simps)

lemma written_compose:
  assumes "written buf s m m1" and "written (buf + of_nat (length s)) out m1 m2"
    and "length (s @ out) < 2 ^ 32"
  shows "written buf (s @ out) m m2"
proof -
  let ?b = "buf + of_nat (length s)"
  let ?e = "?b + of_nat (length out)"
  have sub: "region buf (Suc (length s)) \<subseteq> region buf (Suc (length (s @ out)))"
    by (rule region_mono) simp
  have add: "region buf (Suc (length (s @ out))) = region buf (length s) \<union> region ?b (Suc (length out))"
    using region_add [of buf "length s" "Suc (length out)"] by simp
  have "region buf (length s) \<inter> region ?b (Suc (length out)) = {}"
    by (rule region_disjoint) (use assms(3) in simp)
  then have "get_bytes m2 buf (length s) = get_bytes m1 buf (length s)"
    using assms(2) by (intro get_bytes_cong) (auto simp: written_def)
  moreover have "m1 ?e = 0" if "m ?e = 0"
  proof (cases "length out")
    case 0
    then show ?thesis using that assms(1) by (simp add: written_def)
  next
    case (Suc n)
    have "region buf (Suc (length s)) \<inter> region (buf + of_nat (Suc (length s))) (length out) = {}"
      by (rule region_disjoint) (use assms(3) in simp)
    moreover have "?e \<in> region (buf + of_nat (Suc (length s))) (length out)"
      using Suc by (auto simp: region_def ac_simps intro!: image_eqI [of _ _ n])
    ultimately have "?e \<notin> region buf (Suc (length s))" by blast
    with that show ?thesis using assms(1) by (simp add: written_def)
  qed
  moreover have "m2 x = m x" if "x \<notin> region buf (Suc (length (s @ out)))" for x
  proof -
    have "x \<notin> region buf (Suc (length s))" "x \<notin> region ?b (Suc (length out))"
      using that sub add by blast+
    then show ?thesis using assms(1,2) by (simp add: written_def)
  qed
  ultimately show ?thesis
    using assms(1,2) unfolding written_def length_append get_bytes_append
    by (simp add: add.assoc)
qed

lemma written_put: "length s < 2 ^ 32 \<Longrightarrow> written buf s m (put_bytes buf s m)"
proof -
  assume len: "length s < 2 ^ 32"
  have "region buf (length s) \<inter> region (buf + of_nat (length s)) 1 = {}"
    by (rule region_disjoint) (use len in simp)
  then have "buf + of_nat (length s) \<notin> region buf (length s)" by (auto simp: region_Suc)
  then show ?thesis
    using len region_mono [of "length s" "Suc (length s)" buf] put_bytes_frame [of _ buf s m]
    by (auto simp: written_def get_put_bytes)
qed

lemma written_put_0: "length s < 2 ^ 32 \<Longrightarrow> written buf s m (put_bytes buf (s @ [0]) m)"
  using get_put_bytes [of "s @ [0]" buf m] put_bytes_frame [of _ buf "s @ [0]" m]
    get_bytes_append [of "put_bytes buf (s @ [0]) m" buf "length s" 1]
  by (auto simp: written_def)

definition loop_writes :: "u8 list \<Rightarrow> farg list \<Rightarrow> u8 list \<Rightarrow> bool" where
  "loop_writes fmt args out \<longleftrightarrow> (\<forall>m ip buf ap.
     cstr m ip fmt \<longrightarrow> args_at m ap args \<longrightarrow>
     region buf (Suc (length out)) \<inter> ({NULL} \<union> region ip (Suc (length fmt)) \<union> args_reads m ap args) = {} \<longrightarrow>
     (\<exists>m'. vsprintf_loop ip (m ip) buf ap m = returnX m' \<and> written buf out m m'))"

text \<open>One step of the loop that writes \<open>s\<close>, and then the rest.\<close>

lemma loop_step:
  assumes rest: "loop_writes fmt args out"
    and step: "vsprintf_loop ip0 c buf ap0 m = vsprintf_loop ip (m1 ip) (buf + of_nat (length s)) ap m1"
    and w: "written buf s m m1" and len: "length (s @ out) < 2 ^ 32"
    and fmt: "cstr m ip fmt" and args: "args_at m ap args"
    and disj: "region buf (Suc (length (s @ out))) \<inter>
      ({NULL} \<union> region ip (Suc (length fmt)) \<union> args_reads m ap args) = {}"
  shows "\<exists>m'. vsprintf_loop ip0 c buf ap0 m = returnX m' \<and> written buf (s @ out) m m'"
proof -
  let ?b = "buf + of_nat (length s)"
  have "region buf (Suc (length s)) \<subseteq> region buf (Suc (length (s @ out)))"
    by (rule region_mono) simp
  then have same: "m1 x = m x" if "x \<in> {NULL} \<union> region ip (Suc (length fmt)) \<union> args_reads m ap args" for x
    using that disj w unfolding written_def by blast
  have "cstr m1 ip fmt" using fmt same cstr_cong [of ip fmt m1 m] by blast
  moreover have a: "args_reads m1 ap args = args_reads m ap args" "args_at m1 ap args"
    using args args_cong [of m ap args m1] same by blast+
  moreover have "region ?b (Suc (length out)) \<subseteq> region buf (Suc (length (s @ out)))"
    using region_add [of buf "length s" "Suc (length out)"] by simp
  then have "region ?b (Suc (length out)) \<inter>
      ({NULL} \<union> region ip (Suc (length fmt)) \<union> args_reads m1 ap args) = {}"
    using disj unfolding a(1) by blast
  ultimately obtain m' where "vsprintf_loop ip (m1 ip) ?b ap m1 = returnX m'" "written ?b out m1 m'"
    using rest unfolding loop_writes_def by blast
  then show ?thesis using step written_compose [OF w _ len] by auto
qed

lemma step_literal:
  assumes "c \<noteq> 0" and "c \<noteq> 37"
  shows "vsprintf_loop ip c buf ap m =
    vsprintf_loop (ip + 1) (put_bytes buf [c] m (ip + 1)) (buf + of_nat (length [c])) ap (put_bytes buf [c] m)"
  using assms by (subst vsprintf_loop.simps) (simp add: Let_def)

lemma step_directive:
  assumes "directive d x = Some s" and "m (ip + 1) = d" and "arg_at m (ap + 4) x"
    and "region buf (Suc (length s)) \<inter> ({NULL} \<union> arg_reads m (ap + 4) x) = {}" and "length s < 2 ^ 32"
  shows "\<exists>m1. written buf s m m1 \<and> vsprintf_loop ip 37 buf ap m =
    vsprintf_loop (ip + 2) (m1 (ip + 2)) (buf + of_nat (length s)) (ap + 4) m1"
proof (cases x)
  case (AStr t)
  let ?p = "load32 m (ap + 4)" and ?m = "put_bytes buf (s @ [0]) m"
  have d: "d = 115" "t = s" using AStr assms(1) by (auto split: if_splits)
  have p: "?p \<noteq> NULL" "cstr m ?p s" and buf: "buf \<noteq> NULL"
    and r: "region buf (Suc (length s)) \<inter> region ?p (Suc (length s)) = {}"
    using AStr assms(3,4) d by (auto simp: region_Suc)
  have "cstr ?m ?p s"
    using p(2) r put_bytes_frame [of _ buf "s @ [0]" m] cstr_cong [of ?p s ?m m] by auto
  then have "strlen ?m ?p = returnX (of_nat (length s))" using p(1) by (rule strlen_cstr)
  moreover have "strcpy buf ?p m = returnX (?m, buf)"
    using p buf r by (simp add: strcpy_def kassert_def strcpy_loop_cstr)
  ultimately show ?thesis using d assms(2,5) written_put_0 [of s buf m]
    by (intro exI [of _ ?m], subst vsprintf_loop.simps) (simp add: Let_def add.assoc)
next
  case (AChr c)
  then show ?thesis using assms written_put [of s buf m]
    by (intro exI [of _ "put_bytes buf s m"], subst vsprintf_loop.simps)
      (auto simp: Let_def add.assoc split: if_splits)
next
  case (AInt w)
  have b: "unat (10 :: u8) = 10" "unat (16 :: u8) = 16" by simp_all
  note it = itoa_correct [of 10, unfolded b, simplified] itoa_correct [of 16, unfolded b, simplified]
  show ?thesis using AInt assms written_put [of s buf m] it
    by (intro exI [of _ "put_bytes buf s m"], subst vsprintf_loop.simps)
      (auto simp: Let_def add.assoc int_bytes_def split: if_splits)
qed

lemma render_cons:
  assumes "render (c # cs) args = Some out"
  obtains (literal) out' where "c \<noteq> 37" "render cs args = Some out'" "out = [c] @ out'"
  | (percent) "c = 37" "cs = []" "out = []"
  | (directive) d ds x xs s out' where "c = 37" "cs = d # ds" "args = x # xs" "directive d x = Some s"
      "render ds xs = Some out'" "out = s @ out'"
  | (other) d ds where "c = 37" "cs = d # ds" "d \<noteq> 115" "d \<noteq> 99" "d \<noteq> 100" "d \<noteq> 120"
      "render cs args = Some out"
  using assms
  by (cases cs; cases args) (auto split: if_splits option.splits)

lemma loop_writes_render:
  "render fmt args = Some out \<Longrightarrow> length out < 2 ^ 32 \<Longrightarrow> loop_writes fmt args out"
proof (induction "length fmt" arbitrary: fmt args out rule: less_induct)
  case less
  show ?case unfolding loop_writes_def
  proof (intro allI impI)
    fix m ip buf ap
    assume fmt: "cstr m ip fmt" and args: "args_at m ap args"
      and disj: "region buf (Suc (length out)) \<inter>
        ({NULL} \<union> region ip (Suc (length fmt)) \<union> args_reads m ap args) = {}"
    show "\<exists>m'. vsprintf_loop ip (m ip) buf ap m = returnX m' \<and> written buf out m m'"
    proof (cases fmt)
      case Nil
      then show ?thesis using less.prems fmt by (subst vsprintf_loop.simps) (simp add: written_def)
    next
      case (Cons c cs)
      from less.prems(1) [unfolded Cons] show ?thesis
      proof (cases rule: render_cons)
        case (literal out')
        have mc: "m ip = c" using Cons fmt by simp
        show ?thesis unfolding literal(3) mc
          by (rule loop_step [OF less.hyps [of cs args out'] step_literal [of c]])
            (use Cons literal less.prems fmt args disj written_put [of "[c]" buf m] in
              \<open>auto simp: region_Suc upd_fold\<close>)
      next
        case percent
        then have "m ip = 37" "m (ip + 1) = 0" using Cons fmt by auto
        then show ?thesis unfolding percent
          by (subst vsprintf_loop.simps, subst vsprintf_loop.simps) (simp add: written_def)
      next
        case (directive d ds x xs s out')
        have m: "m ip = 37" "m (ip + 1) = d" "cstr m (ip + 2) ds" using Cons directive fmt by (auto simp: ac_simps)
        have a: "arg_at m (ap + 4) x" "args_at m (ap + 4) xs" using directive args by auto
        have r: "region buf (Suc (length s)) \<subseteq> region buf (Suc (length out))"
          unfolding directive(6) by (rule region_mono) simp
        have "region buf (Suc (length s)) \<inter> ({NULL} \<union> arg_reads m (ap + 4) x) = {}"
          using r disj directive by auto
        then obtain m1 where m1: "written buf s m m1" "vsprintf_loop ip 37 buf ap m =
            vsprintf_loop (ip + 2) (m1 (ip + 2)) (buf + of_nat (length s)) (ap + 4) m1"
          using step_directive [OF directive(4) m(2) a(1)] less.prems(2) directive by auto
        show ?thesis unfolding directive(6) m(1)
          by (rule loop_step [OF less.hyps m1(2,1) _ m(3) a(2)])
            (use Cons directive less.prems disj in \<open>auto simp: region_Suc ac_simps\<close>)
      next
        case (other d ds)
        then have m: "m ip = 37" "m (ip + 1) = d" "cstr m (ip + 1) cs" using Cons fmt by auto
        have "vsprintf_loop ip 37 buf ap m = vsprintf_loop (ip + 1) (m (ip + 1)) (buf + of_nat (length [])) ap m"
          using other m by (subst vsprintf_loop.simps) (simp add: Let_def)
        from loop_step [OF less.hyps this _ _ m(3) args, of out] show ?thesis
          using other Cons m less.prems disj by (auto simp: region_Suc written_def)
      qed
    qed
  qed
qed

section \<open>Properties\<close>

text \<open>
  C38. Formatting. If the buffer does not meet the memory the call reads and the byte after the
  text is zero, as in the buffers that \<^verbatim>\<open>printf\<close> and \<^verbatim>\<open>printk\<close> clear, then \<^verbatim>\<open>vsprintf\<close> returns
  the length of the text its format stands for, the buffer holds that text as a string, and
  nothing outside the buffer changes.
\<close>

theorem vsprintf_renders:
  assumes "render fmt args = Some out" and "0 \<notin> set out" and "length out < 2 ^ 32"
    and "cstr m format fmt" and "args_at m ap args" and "m (str + of_nat (length out)) = 0"
    and "region str (Suc (length out)) \<inter>
      ({NULL} \<union> region format (Suc (length fmt)) \<union> args_reads m ap args) = {}"
  shows "\<exists>m'. vsprintf str format ap m = returnX (m', of_nat (length out)) \<and> cstr m' str out \<and>
    (\<forall>x. x \<notin> region str (Suc (length out)) \<longrightarrow> m' x = m x)"
proof -
  obtain m' where m': "vsprintf_loop format (m format) str ap m = returnX m'" "written str out m m'"
    using loop_writes_render [OF assms(1,3)] assms(4,5,7) unfolding loop_writes_def by blast
  then have "get_bytes m' str (Suc (length out)) = out @ [0]"
    using assms(6) get_bytes_append [of m' str "length out" 1] by (simp add: written_def)
  then have c: "cstr m' str out" using assms(2) by (simp add: cstr_iff)
  have "str \<noteq> NULL" using assms(7) by (auto simp: region_Suc)
  then show ?thesis using m' c by (auto simp: vsprintf_def strlen_cstr written_def)
qed

text \<open>The format \<^verbatim>\<open>a%d\<close> at \<open>0x100\<close> with the argument 7 above \<open>0x200\<close>, into a buffer at \<open>0x300\<close>.\<close>

definition fmt_mem :: mem where
  "fmt_mem = put_bytes 0x204 [7, 0, 0, 0] (mem_of 0x100 [97, 37, 100])"

theorem vsprintf_renders_witness:
  "\<exists>m'. vsprintf 0x300 0x100 0x200 fmt_mem = returnX (m', 2) \<and> cstr m' 0x300 [97, 55]"
proof -
  have s7: "sint (7 :: u32) = 7" by simp
  have n: "num_bytes 10 7 = [55]" by (simp add: num_bytes.simps digit_def)
  have r: "render [97, 37, 100] [AInt 7] = Some [97, 55]" by (simp add: int_bytes_def n s7)
  have l: "load32 fmt_mem 0x204 = 7" by (simp add: load32_def fmt_mem_def mem_of_def)
  have f: "cstr fmt_mem 0x100 [97, 37, 100]" "fmt_mem 0x302 = 0" by (simp_all add: fmt_mem_def mem_of_def)
  from vsprintf_renders [OF r _ _ f(1), of "0x200" "0x300"] show ?thesis
    using l f(2) by (simp add: region_Suc region_4) blast
qed

text \<open>
  Printing a number and reading it back: for every base from 2 to 36, the digits that
  \<^verbatim>\<open>itoa\<close> leaves in the buffer denote the number it was given, the first of them is not the digit
  zero unless the number is, and the buffer pointer ends after the last digit.
\<close>

theorem itoa_roundtrip:
  assumes "2 \<le> unat base" and "unat base \<le> 36"
  shows "\<exists>m' n. itoa v base (m, buf) = returnX (m', buf + of_nat n) \<and> 0 < n \<and>
    num_value (unat base) (get_bytes m' buf n) = unat v \<and> (unat v \<noteq> 0 \<longrightarrow> m' buf \<noteq> 48)"
proof -
  let ?ds = "num_bytes (unat base) (unat v)"
  let ?m = "put_bytes buf ?ds m"
  have "length ?ds \<le> 2 ^ 32"
    using num_bytes_length [of "unat base" "unat v"] unat_bound [of v] by simp
  then have g: "get_bytes ?m buf (length ?ds) = ?ds" by (rule get_put_bytes)
  have "length ?ds \<noteq> 0" by (simp add: num_bytes_nonempty)
  then have "?m buf = hd ?ds" using g by (cases ?ds) auto
  then show ?thesis
    using assms g num_roundtrip num_bytes_first num_bytes_nonempty
    by (intro exI [of _ ?m] exI [of _ "length ?ds"]) (simp add: itoa_correct)
qed

theorem itoa_roundtrip_witness:
  "\<exists>m' n. itoa 255 16 ((\<lambda>_. 0), 0x100) = returnX (m', 0x100 + of_nat n) \<and> 0 < n \<and>
    num_value 16 (get_bytes m' 0x100 n) = 255"
  using itoa_roundtrip [of 16 255 "\<lambda>_. 0" "0x100"] by auto

text \<open>
  The terminator is missing. Into a buffer that held other text, \<^verbatim>\<open>vsprintf\<close> leaves the
  rendered text followed by what was there: the format \<^verbatim>\<open>a\<close> gives a string of length 2.
\<close>

theorem vsprintf_unterminated:
  "\<exists>m m'. cstr m 0x100 [97] \<and> vsprintf 0x300 0x100 0x200 m = returnX (m', 2) \<and> cstr m' 0x300 [97, 66]"
proof -
  let ?m = "put_bytes 0x300 [66, 66] (mem_of 0x100 [97])"
  let ?m' = "?m(0x300 := 97)"
  have "vsprintf_loop 0x100 97 0x300 0x200 ?m = returnX ?m'"
    by (subst vsprintf_loop.simps, subst vsprintf_loop.simps) (simp add: mem_of_def upd_fold)
  moreover have "cstr ?m' 0x300 [97, 66]" by (simp add: mem_of_def)
  moreover from this have "strlen ?m' 0x300 = returnX 2"
    using strlen_cstr [of ?m' "0x300" "[97, 66]"] by simp
  moreover have "?m 0x100 = 97" "cstr ?m 0x100 [97]" by (simp_all add: mem_of_def)
  ultimately show ?thesis by (intro exI [of _ ?m] exI [of _ ?m']) (simp only: vsprintf_def bindX_simps simp_thms)
qed

end
