(* ===== verification/Ide.thy ===== *)
theory Ide
  imports DiskView Interrupt Stdio
begin

text \<open>
  The disk driver (\<^verbatim>\<open>device/ide.c\<close>, \<^verbatim>\<open>lib/ide.h\<close>, the port routines of \<^verbatim>\<open>lib/io.h\<close>). The drive is hardware: it
  is a parameter, a record of what its ports do to its state \<open>'d\<close>. A task that waits for the drive sleeps in
  \<^verbatim>\<open>sema_down\<close>; the driver holds the lock of the channel then, so nothing else touches the channel until the
  interrupt comes, and the wait is one step here: the handler runs and the semaphore is taken. The interrupt may
  also come earlier, as soon as the drive has been given its command; the field \<open>early\<close> of the state decides
  this, and the results hold for every choice.

  The semaphore \<^verbatim>\<open>disk_done\<close> is its value and the lock of the channel is a flag: the handler, which runs with
  interrupts off, adds one to the value, and a task that finds the lock taken is suspended (\<open>chan_acquire\<close>). The
  lists of waiters of \<^verbatim>\<open>thread/sync.c\<close>, and the task that \<^verbatim>\<open>sema_up\<close> wakes, are the subject of the theory
  \<open>Sync\<close>.

  The lemmas show that the driver, over a drive that behaves as its documentation says, reads and writes
  exactly the sector it was asked for, and so provides the contract that the file system relies on
  (\<open>disk_read\<close>, \<open>disk_write\<close>) for requests of one sector, the only ones for which one command, one interrupt
  and one block of data are what the drive does. For several sectors the drive hands over one block at a time,
  each with an interrupt of its own, and the driver moves all of them after the first: nothing is shown of
  those requests.
\<close>

unbundle bit_operations_syntax

section \<open>Structures\<close>

record 'd ata =
  dev_out :: "u16 \<Rightarrow> u8 \<Rightarrow> 'd \<Rightarrow> 'd"
  dev_in :: "u16 \<Rightarrow> 'd \<Rightarrow> u8 \<times> 'd"
  dev_insw :: "u16 \<Rightarrow> nat \<Rightarrow> 'd \<Rightarrow> u8 list \<times> 'd"
  dev_outsw :: "u16 \<Rightarrow> u8 list \<Rightarrow> 'd \<Rightarrow> 'd"
  dev_intr :: "u8 \<Rightarrow> 'd \<Rightarrow> bool"
  dev_sleep :: "nat \<Rightarrow> 'd \<Rightarrow> 'd"

record partition =
  start_lba :: u32
  sec_cnt :: u32
  my_disk :: nat
  part_name :: string

record disk =
  hd_name :: string
  my_channel :: nat
  dev_no :: u8
  prim_parts :: "partition list"
  logic_parts :: "partition list"

record ide_channel =
  ch_name :: string
  port_base :: u16
  irq_no :: u8
  ch_locked :: bool
  expecting_intr :: bool
  disk_done :: u8

text \<open>An element of \<^verbatim>\<open>partition_list\<close>: the place of a partition in its disk.\<close>

datatype part_ref = Prim nat nat | Logic nat nat

text \<open>The disks of channel \<open>c\<close> are number \<open>2 * c\<close> and \<open>2 * c + 1\<close>.\<close>

record 'd ide = intr_ctl +
  hw :: 'd
  channels :: "ide_channel list"
  disks :: "disk list"
  channel_cnt :: u8
  ext_lba_base :: u32
  p_no :: u8
  l_no :: u8
  partition_list :: "part_ref list"
  early :: "nat \<Rightarrow> bool"
  commands :: nat

type_synonym ('d, 'a) idm = "('d ide, 'a) stm"

text \<open>A number as \<^verbatim>\<open>%d\<close> and \<^verbatim>\<open>%x\<close> print it.\<close>

definition num :: "u32 \<Rightarrow> string" where
  "num w = text_of (int_bytes w)"

definition hex :: "u32 \<Rightarrow> string" where
  "hex w = text_of (num_bytes 16 (unat w))"

section \<open>Ports\<close>

definition outI :: "'d ata \<Rightarrow> u16 \<Rightarrow> u8 \<Rightarrow> ('d, unit) idm" where
  "outI ops port data = modM (\<lambda>s. s\<lparr>hw := dev_out ops port data (hw s)\<rparr>)"

definition inI :: "'d ata \<Rightarrow> u16 \<Rightarrow> ('d, u8) idm" where
  "inI ops port s = (let (data, d) = dev_in ops port (hw s) in Inr (data, s\<lparr>hw := d\<rparr>))"

definition insw :: "'d ata \<Rightarrow> u16 \<Rightarrow> nat \<Rightarrow> ('d, u8 list) idm" where
  "insw ops port word_cnt s = (let (bs, d) = dev_insw ops port word_cnt (hw s) in Inr (bs, s\<lparr>hw := d\<rparr>))"

definition outsw :: "'d ata \<Rightarrow> u16 \<Rightarrow> u8 list \<Rightarrow> ('d, unit) idm" where
  "outsw ops port bs = modM (\<lambda>s. s\<lparr>hw := dev_outsw ops port bs (hw s)\<rparr>)"

abbreviation (input) reg_data :: "ide_channel \<Rightarrow> u16" where "reg_data c \<equiv> port_base c"
abbreviation (input) reg_sect_cnt :: "ide_channel \<Rightarrow> u16" where "reg_sect_cnt c \<equiv> port_base c + 2"
abbreviation (input) reg_lba_l :: "ide_channel \<Rightarrow> u16" where "reg_lba_l c \<equiv> port_base c + 3"
abbreviation (input) reg_lba_m :: "ide_channel \<Rightarrow> u16" where "reg_lba_m c \<equiv> port_base c + 4"
abbreviation (input) reg_lba_h :: "ide_channel \<Rightarrow> u16" where "reg_lba_h c \<equiv> port_base c + 5"
abbreviation (input) reg_dev :: "ide_channel \<Rightarrow> u16" where "reg_dev c \<equiv> port_base c + 6"
abbreviation (input) reg_status :: "ide_channel \<Rightarrow> u16" where "reg_status c \<equiv> port_base c + 7"
abbreviation (input) reg_cmd :: "ide_channel \<Rightarrow> u16" where "reg_cmd c \<equiv> port_base c + 7"

abbreviation (input) BIT_STAT_BSY :: u8 where "BIT_STAT_BSY \<equiv> 0x80"
abbreviation (input) BIT_STAT_DRQ :: u8 where "BIT_STAT_DRQ \<equiv> 0x8"
abbreviation (input) BIT_DEV_MBS :: u8 where "BIT_DEV_MBS \<equiv> 0xa0"
abbreviation (input) BIT_DEV_LBA :: u8 where "BIT_DEV_LBA \<equiv> 0x40"
abbreviation (input) BIT_DEV_DEV :: u8 where "BIT_DEV_DEV \<equiv> 0x10"
abbreviation (input) CMD_IDENTIFY :: u8 where "CMD_IDENTIFY \<equiv> 0xec"
abbreviation (input) CMD_READ_SECTOR :: u8 where "CMD_READ_SECTOR \<equiv> 0x20"
abbreviation (input) CMD_WRITE_SECTOR :: u8 where "CMD_WRITE_SECTOR \<equiv> 0x30"

section \<open>The registers of a channel\<close>

definition chan :: "nat \<Rightarrow> 'd ide \<Rightarrow> ide_channel" where
  "chan hd' s = channels s ! my_channel (disks s ! hd')"

definition upd_chan :: "nat \<Rightarrow> (ide_channel \<Rightarrow> ide_channel) \<Rightarrow> ('d, unit) idm" where
  "upd_chan c f = modM (\<lambda>s. s\<lparr>channels := (channels s)[c := f (channels s ! c)]\<rparr>)"

definition select_disk :: "'d ata \<Rightarrow> nat \<Rightarrow> ('d, unit) idm" where
  "select_disk ops hd' =
     bindM (getM (\<lambda>s. (chan hd' s, dev_no (disks s ! hd')))) (\<lambda>(channel, dev).
     let reg_device = BIT_DEV_MBS OR BIT_DEV_LBA;
         reg_device' = (if dev = 1 then reg_device OR BIT_DEV_DEV else reg_device) in
     outI ops (reg_dev channel) reg_device')"

definition select_sector :: "'d ata \<Rightarrow> nat \<Rightarrow> u32 \<Rightarrow> u8 \<Rightarrow> ('d, unit) idm" where
  "select_sector ops hd' lba sec_cnt' =
     bindM (assertM (lba \<le> max_lba) ''lba <= max_lba'') (\<lambda>_.
     bindM (getM (\<lambda>s. (chan hd' s, dev_no (disks s ! hd')))) (\<lambda>(channel, dev).
     bindM (outI ops (reg_sect_cnt channel) sec_cnt') (\<lambda>_.
     bindM (outI ops (reg_lba_l channel) (ucast lba)) (\<lambda>_.
     bindM (outI ops (reg_lba_m channel) (ucast (drop_bit 8 lba))) (\<lambda>_.
     bindM (outI ops (reg_lba_h channel) (ucast (drop_bit 16 lba))) (\<lambda>_.
     outI ops (reg_dev channel)
       (ucast (0xe0 OR (if dev = 1 then 0x10 else 0) OR drop_bit 24 lba))))))))"

definition cmd_out :: "'d ata \<Rightarrow> nat \<Rightarrow> u8 \<Rightarrow> ('d, unit) idm" where
  "cmd_out ops c cmd =
     bindM (upd_chan c (\<lambda>ch. ch\<lparr>expecting_intr := True\<rparr>)) (\<lambda>_.
     bindM (getM (\<lambda>s. channels s ! c)) (\<lambda>channel. outI ops (reg_cmd channel) cmd))"

definition read_from_sector :: "'d ata \<Rightarrow> nat \<Rightarrow> u8 \<Rightarrow> ('d, u8 list) idm" where
  "read_from_sector ops hd' sec_cnt' =
     (let size_in_byte = (if sec_cnt' = 0 then 256 * 512 else unat sec_cnt' * 512) in
      bindM (getM (chan hd')) (\<lambda>channel. insw ops (reg_data channel) (size_in_byte div 2)))"

text \<open>\<open>bs\<close> is what lies in memory from the address that is passed on.\<close>

definition write2sector :: "'d ata \<Rightarrow> nat \<Rightarrow> u8 list \<Rightarrow> u8 \<Rightarrow> ('d, unit) idm" where
  "write2sector ops hd' bs sec_cnt' =
     (let size_in_byte = (if sec_cnt' = 0 then 256 * 512 else unat sec_cnt' * 512) in
      if length bs < size_in_byte then failM (Bad_access ''write of more than the buffer'')
      else bindM (getM (chan hd')) (\<lambda>channel. outsw ops (reg_data channel) (take (2 * (size_in_byte div 2)) bs)))"

text \<open>
  \<^verbatim>\<open>time_limit -= 10 >= 0\<close> subtracts the truth value of the comparison, 1, and the loop ends when the result
  is 0.
\<close>

fun busy_loop :: "'d ata \<Rightarrow> u16 \<Rightarrow> nat \<Rightarrow> ('d, bool) idm" where
  "busy_loop ops port 0 = returnM False"
| "busy_loop ops port (Suc time_limit) =
     (if time_limit = 0 then returnM False
      else bindM (inI ops port) (\<lambda>st.
        if st AND BIT_STAT_BSY = 0 then bindM (inI ops port) (\<lambda>st'. returnM (st' AND BIT_STAT_DRQ \<noteq> 0))
        else bindM (modM (\<lambda>s. s\<lparr>hw := dev_sleep ops 10 (hw s)\<rparr>)) (\<lambda>_. busy_loop ops port time_limit)))"

definition busy_wait :: "'d ata \<Rightarrow> nat \<Rightarrow> ('d, bool) idm" where
  "busy_wait ops hd' = bindM (getM (chan hd')) (\<lambda>channel. busy_loop ops (reg_status channel) (30 * 1000))"

section \<open>Interrupts\<close>

definition intr_hd_handler :: "'d ata \<Rightarrow> u8 \<Rightarrow> ('d, unit) idm" where
  "intr_hd_handler ops irq =
     bindM (assertM (irq = 0x2e \<or> irq = 0x2f) ''irq_no == 0x2e || irq_no == 0x2f'') (\<lambda>_.
     let ch_no = unat (irq - 0x2e) in
     bindM (getM (\<lambda>s. channels s ! ch_no)) (\<lambda>channel.
     bindM (assertM (irq_no channel = irq) ''channel->irq_no == irq_no'') (\<lambda>_.
     if expecting_intr channel then
       bindM (upd_chan ch_no (\<lambda>ch. ch\<lparr>expecting_intr := False\<rparr>)) (\<lambda>_.
       bindM (upd_chan ch_no (\<lambda>ch. ch\<lparr>disk_done := disk_done ch + 1\<rparr>)) (\<lambda>_.
       bindM (inI ops (reg_status channel)) (\<lambda>_. returnM ())))
     else returnM ())))"

text \<open>A point where the interrupt of the drive may come.\<close>

definition intr_point :: "'d ata \<Rightarrow> nat \<Rightarrow> ('d, unit) idm" where
  "intr_point ops c =
     bindM (getM (\<lambda>s. early s (commands s) \<and> dev_intr ops (irq_no (channels s ! c)) (hw s))) (\<lambda>now.
     bindM (modM (\<lambda>s. s\<lparr>commands := commands s + 1\<rparr>)) (\<lambda>_.
     bindM (getM (\<lambda>s. irq_no (channels s ! c))) (\<lambda>irq.
     if now then intr_hd_handler ops irq else returnM ())))"

text \<open>\<^verbatim>\<open>sema_down(&channel->disk_done)\<close>: the task goes on at once, or when the interrupt has come.\<close>

definition disk_wait :: "'d ata \<Rightarrow> nat \<Rightarrow> ('d, unit) idm" where
  "disk_wait ops c =
     bindM (getM (\<lambda>s. channels s ! c)) (\<lambda>channel.
     bindM (if disk_done channel = 0 then
         bindM (getM (\<lambda>s. dev_intr ops (irq_no channel) (hw s))) (\<lambda>comes.
         if comes then intr_hd_handler ops (irq_no channel) else failM Suspended)
       else returnM ()) (\<lambda>_.
     bindM (getM (\<lambda>s. disk_done (channels s ! c))) (\<lambda>v.
     if v = 0 then failM Suspended else upd_chan c (\<lambda>ch. ch\<lparr>disk_done := disk_done ch - 1\<rparr>))))"

definition chan_acquire :: "nat \<Rightarrow> ('d, unit) idm" where
  "chan_acquire c = bindM (getM (\<lambda>s. ch_locked (channels s ! c))) (\<lambda>taken.
     if taken then failM Suspended else upd_chan c (\<lambda>ch. ch\<lparr>ch_locked := True\<rparr>))"

definition chan_release :: "nat \<Rightarrow> ('d, unit) idm" where
  "chan_release c = upd_chan c (\<lambda>ch. ch\<lparr>ch_locked := False\<rparr>)"

section \<open>Reading and writing\<close>

text \<open>
  The number of sectors is a natural number: with a \<^verbatim>\<open>uint32_t\<close> near its limit the loop would stop at the
  assertion of \<open>select_sector\<close> long before the variable wraps.
\<close>

definition secs_op :: "nat \<Rightarrow> nat \<Rightarrow> nat" where
  "secs_op secs_done sec_cnt' = (if secs_done + 256 \<le> sec_cnt' then 256 else sec_cnt' - secs_done)"

function ide_read_loop :: "'d ata \<Rightarrow> nat \<Rightarrow> u32 \<Rightarrow> nat \<Rightarrow> nat \<Rightarrow> u8 list \<Rightarrow> ('d, u8 list) idm" where
  "ide_read_loop ops hd' lba sec_cnt' secs_done buf =
     (if secs_done < sec_cnt' then
        let op = secs_op secs_done sec_cnt' in
        bindM (getM (\<lambda>s. my_channel (disks s ! hd'))) (\<lambda>c.
        bindM (select_sector ops hd' (lba + of_nat secs_done) (of_nat op)) (\<lambda>_.
        bindM (cmd_out ops c CMD_READ_SECTOR) (\<lambda>_.
        bindM (intr_point ops c) (\<lambda>_.
        bindM (disk_wait ops c) (\<lambda>_.
        bindM (busy_wait ops hd') (\<lambda>ready.
        if \<not> ready then bindM (getM (\<lambda>s. hd_name (disks s ! hd'))) (\<lambda>n. failM (Panicked (n @ '' read sector '' @ num lba @ '' failed!!!!!!'' @ NL)))
        else
        bindM (read_from_sector ops hd' (of_nat op)) (\<lambda>bs.
        ide_read_loop ops hd' lba sec_cnt' (secs_done + op) (buf @ bs))))))))
      else returnM buf)"
  by pat_completeness auto
termination
  by (relation "measure (\<lambda>(ops, hd', lba, sec_cnt', secs_done, buf). sec_cnt' - secs_done)") (auto simp: secs_op_def)

definition ide_read :: "'d ata \<Rightarrow> nat \<Rightarrow> u32 \<Rightarrow> nat \<Rightarrow> ('d, u8 list) idm" where
  "ide_read ops hd' lba sec_cnt' =
     bindM (assertM (lba \<le> max_lba) ''lba <= max_lba'') (\<lambda>_.
     bindM (assertM (sec_cnt' > 0) ''sec_cnt > 0'') (\<lambda>_.
     bindM (getM (\<lambda>s. my_channel (disks s ! hd'))) (\<lambda>c.
     bindM (chan_acquire c) (\<lambda>_.
     bindM (select_disk ops hd') (\<lambda>_.
     bindM (ide_read_loop ops hd' lba sec_cnt' 0 []) (\<lambda>buf.
     bindM (chan_release c) (\<lambda>_. returnM buf)))))))"

function ide_write_loop :: "'d ata \<Rightarrow> nat \<Rightarrow> u32 \<Rightarrow> u8 list \<Rightarrow> nat \<Rightarrow> nat \<Rightarrow> ('d, unit) idm" where
  "ide_write_loop ops hd' lba buf sec_cnt' secs_done =
     (if secs_done < sec_cnt' then
        let op = secs_op secs_done sec_cnt' in
        bindM (getM (\<lambda>s. my_channel (disks s ! hd'))) (\<lambda>c.
        bindM (select_sector ops hd' (lba + of_nat secs_done) (of_nat op)) (\<lambda>_.
        bindM (cmd_out ops c CMD_WRITE_SECTOR) (\<lambda>_.
        bindM (busy_wait ops hd') (\<lambda>ready.
        if \<not> ready then bindM (getM (\<lambda>s. hd_name (disks s ! hd'))) (\<lambda>n. failM (Panicked (n @ '' write sector '' @ num lba @ '' failed!!!!!!'' @ NL)))
        else
        bindM (write2sector ops hd' (drop (secs_done * 512) buf) (of_nat op)) (\<lambda>_.
        bindM (intr_point ops c) (\<lambda>_.
        bindM (disk_wait ops c) (\<lambda>_.
        ide_write_loop ops hd' lba buf sec_cnt' (secs_done + op))))))))
      else returnM ())"
  by pat_completeness auto
termination
  by (relation "measure (\<lambda>(ops, hd', lba, buf, sec_cnt', secs_done). sec_cnt' - secs_done)") (auto simp: secs_op_def)

definition ide_write :: "'d ata \<Rightarrow> nat \<Rightarrow> u32 \<Rightarrow> u8 list \<Rightarrow> nat \<Rightarrow> ('d, unit) idm" where
  "ide_write ops hd' lba buf sec_cnt' =
     bindM (assertM (lba \<le> max_lba) ''lba <= max_lba'') (\<lambda>_.
     bindM (assertM (sec_cnt' > 0) ''sec_cnt > 0'') (\<lambda>_.
     bindM (getM (\<lambda>s. my_channel (disks s ! hd'))) (\<lambda>c.
     bindM (chan_acquire c) (\<lambda>_.
     bindM (select_disk ops hd') (\<lambda>_.
     bindM (ide_write_loop ops hd' lba buf sec_cnt' 0) (\<lambda>_.
     chan_release c))))))"

declare ide_read_loop.simps [simp del] ide_write_loop.simps [simp del]

section \<open>Identifying a disk\<close>

fun swap_pairs :: "u8 list \<Rightarrow> u8 list" where
  "swap_pairs (a # b # bs) = b # a # swap_pairs bs"
| "swap_pairs bs = bs"

text \<open>\<open>len\<close> is even at both calls; the terminator goes behind the bytes.\<close>

definition swap_pairs_bytes :: "u8 list \<Rightarrow> u8 list \<Rightarrow> nat \<Rightarrow> u8 list" where
  "swap_pairs_bytes dst buf len = swap_pairs (take len dst) @ [0] @ drop (len + 1) buf"

definition cstr_text :: "u8 list \<Rightarrow> string" where
  "cstr_text bs = text_of (takeWhile (\<lambda>b. b \<noteq> 0) bs)"

text \<open>\<open>buf\<close> is the local array of 64 bytes as the routine finds it.\<close>

definition identify_disk :: "'d ata \<Rightarrow> nat \<Rightarrow> u8 list \<Rightarrow> ('d, unit) idm" where
  "identify_disk ops hd' buf =
     bindM (getM (\<lambda>s. disks s ! hd')) (\<lambda>dk.
     bindM (select_disk ops hd') (\<lambda>_.
     bindM (cmd_out ops (my_channel dk) CMD_IDENTIFY) (\<lambda>_.
     bindM (intr_point ops (my_channel dk)) (\<lambda>_.
     bindM (disk_wait ops (my_channel dk)) (\<lambda>_.
     bindM (busy_wait ops hd') (\<lambda>ready.
     if \<not> ready then failM (Panicked (hd_name dk @ '' identify failed!!!!!!'' @ NL))
     else
     bindM (read_from_sector ops hd' 1) (\<lambda>id_info.
     let sn = swap_pairs_bytes (drop 20 id_info) buf 20;
         md = swap_pairs_bytes (drop 54 id_info) (replicate 64 0) 40;
         sects = dec32 (take 4 (drop 120 id_info)) in
     bindM (printkM (''   disk '' @ hd_name dk @ '' info:'' @ NL @ ''      SN: '' @ cstr_text sn @ NL)) (\<lambda>_.
     bindM (printkM (''      MODULE: '' @ cstr_text md @ NL)) (\<lambda>_.
     bindM (printkM (''      SECTORS: '' @ num sects @ NL)) (\<lambda>_.
     printkM (''      CAPACITY: '' @ num (sects * 512 div 1024 div 1024) @ ''MB'' @ NL)))))))))))"

section \<open>Partitions\<close>

text \<open>The members of a table entry that the scan reads, and the four entries of a boot sector.\<close>

record partition_table_entry =
  fs_type :: u8
  pe_start_lba :: u32
  pe_sec_cnt :: u32

definition dec_entry :: "u8 list \<Rightarrow> partition_table_entry" where
  "dec_entry bs = \<lparr>fs_type = bs ! 4, pe_start_lba = dec32 (take 4 (drop 8 bs)), pe_sec_cnt = dec32 (take 4 (drop 12 bs))\<rparr>"

definition boot_table :: "u8 list \<Rightarrow> partition_table_entry list" where
  "boot_table bs = map (\<lambda>k. dec_entry (take 16 (drop (446 + 16 * k) bs))) [0..<4]"

definition upd_disk :: "nat \<Rightarrow> (disk \<Rightarrow> disk) \<Rightarrow> ('d, unit) idm" where
  "upd_disk hd' f = modM (\<lambda>s. s\<lparr>disks := (disks s)[hd' := f (disks s ! hd')]\<rparr>)"

definition add_prim :: "nat \<Rightarrow> u32 \<Rightarrow> partition_table_entry \<Rightarrow> ('d, unit) idm" where
  "add_prim hd' ext_lba p =
     bindM (getM (\<lambda>s. (unat (p_no s), hd_name (disks s ! hd'), length (prim_parts (disks s ! hd'))))) (\<lambda>(n, nm, len).
     if n \<ge> len then failM (Bad_access ''hd->prim_parts[p_no]'')
     else
     let part = \<lparr>start_lba = ext_lba + pe_start_lba p, sec_cnt = pe_sec_cnt p, my_disk = hd',
                 part_name = nm @ num (of_nat n + 1)\<rparr> in
     bindM (upd_disk hd' (\<lambda>d. d\<lparr>prim_parts := (prim_parts d)[n := part]\<rparr>)) (\<lambda>_.
     bindM (modM (\<lambda>s. s\<lparr>partition_list := partition_list s @ [Prim hd' n]\<rparr>)) (\<lambda>_.
     bindM (modM (\<lambda>s. s\<lparr>p_no := p_no s + 1\<rparr>)) (\<lambda>_.
     bindM (getM p_no) (\<lambda>v. assertM (v < 4) ''p_no < 4'')))))"

definition add_logic :: "nat \<Rightarrow> u32 \<Rightarrow> partition_table_entry \<Rightarrow> ('d, unit) idm" where
  "add_logic hd' ext_lba p =
     bindM (getM (\<lambda>s. (unat (l_no s), hd_name (disks s ! hd'), length (logic_parts (disks s ! hd'))))) (\<lambda>(n, nm, len).
     if n \<ge> len then failM (Bad_access ''hd->logic_parts[l_no]'')
     else
     let part = \<lparr>start_lba = ext_lba + pe_start_lba p, sec_cnt = pe_sec_cnt p, my_disk = hd',
                 part_name = nm @ num (of_nat n + 5)\<rparr> in
     bindM (upd_disk hd' (\<lambda>d. d\<lparr>logic_parts := (logic_parts d)[n := part]\<rparr>)) (\<lambda>_.
     bindM (modM (\<lambda>s. s\<lparr>partition_list := partition_list s @ [Logic hd' n]\<rparr>)) (\<lambda>_.
     modM (\<lambda>s. s\<lparr>l_no := l_no s + 1\<rparr>))))"

text \<open>
  The scan calls itself for an extended partition. The argument \<open>es\<close> holds the entries of the boot sector at
  \<open>ext_lba\<close> that are still to be looked at. A chain of extended partitions that is a cycle has no end, which
  is the value \<open>None\<close>. The buffer of the boot sector comes from the heap and is not part of this state.
\<close>

partial_function (option) scan_entries ::
  "'d ata \<Rightarrow> nat \<Rightarrow> u32 \<Rightarrow> partition_table_entry list \<Rightarrow> 'd ide \<Rightarrow> ('d ide) run" where
  "scan_entries ops hd' ext_lba es s =
     (case es of
        [] \<Rightarrow> returnX s
      | p # ps \<Rightarrow>
          if fs_type p = 5 then
            let (lba, s1) = (if ext_lba_base s \<noteq> 0 then (pe_start_lba p + ext_lba_base s, s)
                             else (pe_start_lba p, s\<lparr>ext_lba_base := pe_start_lba p\<rparr>)) in
            bindX (Some (ide_read ops hd' lba 1 s1)) (\<lambda>(bs, s2).
            bindX (scan_entries ops hd' lba (boot_table bs) s2) (\<lambda>s3.
            scan_entries ops hd' ext_lba ps s3))
          else if fs_type p \<noteq> 0 then
            if ext_lba = 0 then
              bindX (Some (add_prim hd' ext_lba p s)) (\<lambda>(_, s1). scan_entries ops hd' ext_lba ps s1)
            else
              bindX (Some (add_logic hd' ext_lba p s)) (\<lambda>(_, s1).
              if l_no s1 \<ge> 8 then returnX s1 else scan_entries ops hd' ext_lba ps s1)
          else scan_entries ops hd' ext_lba ps s)"

definition partition_scan :: "'d ata \<Rightarrow> nat \<Rightarrow> u32 \<Rightarrow> 'd ide \<Rightarrow> ('d ide) run" where
  "partition_scan ops hd' ext_lba s =
     bindX (Some (ide_read ops hd' ext_lba 1 s)) (\<lambda>(bs, s1). scan_entries ops hd' ext_lba (boot_table bs) s1)"

definition part_at :: "'d ide \<Rightarrow> part_ref \<Rightarrow> partition" where
  "part_at s r = (case r of Prim h n \<Rightarrow> prim_parts (disks s ! h) ! n | Logic h n \<Rightarrow> logic_parts (disks s ! h) ! n)"

definition partition_info :: "part_ref \<Rightarrow> ('d, unit) idm" where
  "partition_info r =
     bindM (getM (\<lambda>s. part_at s r)) (\<lambda>part.
     printkM (''   '' @ part_name part @ '' start_lba:0x'' @ hex (start_lba part) @ '', sec_cnt:0x'' @ hex (sec_cnt part) @ NL))"

section \<open>Starting the driver\<close>

definition init_device :: "'d ata \<Rightarrow> u8 list \<Rightarrow> nat \<Rightarrow> nat \<Rightarrow> 'd ide \<Rightarrow> ('d ide) run" where
  "init_device ops buf channel_no dev s =
     (let hd' = 2 * channel_no + dev;
          s1 = s\<lparr>disks := (disks s)[hd' := (disks s ! hd')\<lparr>my_channel := channel_no, dev_no := of_nat dev,
                 hd_name := ''sd'' @ [char_of (97 + channel_no * 2 + dev)]\<rparr>]\<rparr> in
      bindX (Some (identify_disk ops hd' buf s1)) (\<lambda>(_, s2).
      bindX (if dev \<noteq> 0 then partition_scan ops hd' 0 s2 else returnX s2) (\<lambda>s3.
      returnX (s3\<lparr>p_no := 0, l_no := 0\<rparr>))))"

text \<open>\<open>handler\<close> is the address of \<^verbatim>\<open>intr_hd_handler\<close>.\<close>

definition init_channel :: "'d ata \<Rightarrow> u8 list \<Rightarrow> addr \<Rightarrow> nat \<Rightarrow> 'd ide \<Rightarrow> ('d ide) run" where
  "init_channel ops buf handler channel_no s =
     (if channel_no \<ge> length (channels s) then Some (Inl (Bad_access ''channels[channel_no]''))
      else
      let c0 = (channels s ! channel_no)\<lparr>ch_name := ''ide'' @ num (of_nat channel_no)\<rparr>;
          c1 = (if channel_no = 0 then c0\<lparr>port_base := 0x1f0, irq_no := 0x20 + 14\<rparr>
                else if channel_no = 1 then c0\<lparr>port_base := 0x170, irq_no := 0x20 + 15\<rparr> else c0);
          c2 = c1\<lparr>expecting_intr := False, ch_locked := False, disk_done := 0\<rparr>;
          s1 = s\<lparr>channels := (channels s)[channel_no := c2]\<rparr> in
      bindX (Some (register_handler (irq_no c2) handler s1)) (\<lambda>s2.
      bindX (init_device ops buf channel_no 0 s2) (\<lambda>s3. init_device ops buf channel_no 1 s3)))"

fun init_channels :: "'d ata \<Rightarrow> u8 list \<Rightarrow> addr \<Rightarrow> nat list \<Rightarrow> 'd ide \<Rightarrow> ('d ide) run" where
  "init_channels ops buf handler [] s = returnX s"
| "init_channels ops buf handler (c # cs) s = bindX (init_channel ops buf handler c s) (init_channels ops buf handler cs)"

fun partition_infos :: "part_ref list \<Rightarrow> ('d, unit) idm" where
  "partition_infos [] = returnM ()"
| "partition_infos (r # rs) = bindM (partition_info r) (\<lambda>_. partition_infos rs)"

text \<open>\<open>hd_cnt\<close> is the byte the BIOS leaves at address 0x475.\<close>

definition ide_init :: "'d ata \<Rightarrow> u8 list \<Rightarrow> addr \<Rightarrow> u8 \<Rightarrow> 'd ide \<Rightarrow> ('d ide) run" where
  "ide_init ops buf handler hd_cnt s =
     (let s1 = put_str (''ide_init start'' @ NL) s in
      if hd_cnt = 0 then Some (Inl (Assert_failed ''hd_cnt > 0''))
      else
      let s2 = s1\<lparr>partition_list := [], channel_cnt := ucast (DIV_ROUND_UP (ucast hd_cnt) 2)\<rparr> in
      bindX (init_channels ops buf handler [0..<unat (channel_cnt s2)] s2) (\<lambda>s3.
      let s4 = put_str (NL @ ''   all partition info'' @ NL) s3 in
      bindX (Some (partition_infos (partition_list s4) s4)) (\<lambda>(_, s5).
      returnX (put_str (''ide_init done'' @ NL) s5))))"

section \<open>What the drive promises\<close>

text \<open>
  What a program sees of a drive on a channel: the registers at the offsets 2 to 6 of its ports, the sectors of
  its two disks, the bytes it has ready to be read, the number of bytes it expects, and for how many pauses it
  will be busy.
\<close>

record 'd ata_view =
  v_reg :: "'d \<Rightarrow> nat \<Rightarrow> u8"
  v_media :: "'d \<Rightarrow> u8 \<Rightarrow> u32 \<Rightarrow> u8 list"
  v_data :: "'d \<Rightarrow> u8 list"
  v_want :: "'d \<Rightarrow> nat"
  v_busy :: "'d \<Rightarrow> nat"

definition sel_cnt :: "(nat \<Rightarrow> u8) \<Rightarrow> nat" where
  "sel_cnt r = (if r 2 = 0 then 256 else unat (r 2))"

definition sel_lba :: "(nat \<Rightarrow> u8) \<Rightarrow> u32" where
  "sel_lba r = ucast (r 3) OR push_bit 8 (ucast (r 4)) OR push_bit 16 (ucast (r 5)) OR push_bit 24 (ucast (r 6 AND 0xf))"

definition sel_dev :: "(nat \<Rightarrow> u8) \<Rightarrow> u8" where
  "sel_dev r = (if bit (r 6) 4 then 1 else 0)"

definition same_view :: "'d ata_view \<Rightarrow> 'd \<Rightarrow> 'd \<Rightarrow> bool" where
  "same_view v d' d \<longleftrightarrow> v_reg v d' = v_reg v d \<and> v_media v d' = v_media v d \<and> v_data v d' = v_data v d \<and> v_want v d' = v_want v d"

text \<open>
  The documented behaviour of an ATA drive in programmed I/O mode, as far as commands for one sector go:
  registers hold what is written to them; a command acts on the sector that they select; the status register has
  bit 7 while the drive is busy and bit 3 when it is ready to transfer data; a sector leaves and enters through
  the data port; the drive raises its interrupt when it has the sector that was asked for, and when it has stored
  the sector it was given. The drive answers a command within 29998 pauses. Of commands for several sectors, which
  the drive serves in blocks of one sector, nothing is assumed.
\<close>

definition regs_latch :: "'d ata \<Rightarrow> 'd ata_view \<Rightarrow> u16 \<Rightarrow> bool" where
  "regs_latch ops v b \<longleftrightarrow> (\<forall>k\<in>{2..6}. \<forall>x d. v_reg v (dev_out ops (b + of_nat k) x d) = (v_reg v d)(k := x) \<and>
     v_media v (dev_out ops (b + of_nat k) x d) = v_media v d)"

definition cmd_read_ok :: "'d ata \<Rightarrow> 'd ata_view \<Rightarrow> u16 \<Rightarrow> u8 \<Rightarrow> bool" where
  "cmd_read_ok ops v b irq \<longleftrightarrow> (\<forall>d. let d' = dev_out ops (b + 7) CMD_READ_SECTOR d; r = v_reg v d in
     sel_cnt r = 1 \<longrightarrow> v_media v d' = v_media v d \<and> v_data v d' = v_media v d (sel_dev r) (sel_lba r) \<and>
     dev_intr ops irq d' \<and> v_busy v d' < 29999)"

definition cmd_write_ok :: "'d ata \<Rightarrow> 'd ata_view \<Rightarrow> u16 \<Rightarrow> bool" where
  "cmd_write_ok ops v b \<longleftrightarrow> (\<forall>d. let d' = dev_out ops (b + 7) CMD_WRITE_SECTOR d in
     sel_cnt (v_reg v d) = 1 \<longrightarrow>
     v_media v d' = v_media v d \<and> v_reg v d' = v_reg v d \<and> v_want v d' = 512 \<and> v_busy v d' < 29999)"

definition status_ok :: "'d ata \<Rightarrow> 'd ata_view \<Rightarrow> u16 \<Rightarrow> bool" where
  "status_ok ops v b \<longleftrightarrow> (\<forall>d st d'. dev_in ops (b + 7) d = (st, d') \<longrightarrow>
     same_view v d' d \<and> v_busy v d' = v_busy v d \<and> (bit st 7 \<longleftrightarrow> 0 < v_busy v d) \<and>
     (v_busy v d = 0 \<longrightarrow> (bit st 3 \<longleftrightarrow> v_data v d \<noteq> [] \<or> 0 < v_want v d)))"

definition sleep_ok :: "'d ata \<Rightarrow> 'd ata_view \<Rightarrow> bool" where
  "sleep_ok ops v \<longleftrightarrow> (\<forall>n d. same_view v (dev_sleep ops n d) d \<and> v_busy v (dev_sleep ops n d) = v_busy v d - 1)"

definition transfer_ok :: "'d ata \<Rightarrow> 'd ata_view \<Rightarrow> u16 \<Rightarrow> u8 \<Rightarrow> bool" where
  "transfer_ok ops v b irq \<longleftrightarrow>
     (\<forall>d bs d'. dev_insw ops b 256 d = (bs, d') \<longrightarrow> v_busy v d = 0 \<longrightarrow> length (v_data v d) = 512 \<longrightarrow>
        bs = v_data v d \<and> v_media v d' = v_media v d) \<and>
     (\<forall>bs d. v_busy v d = 0 \<longrightarrow> sel_cnt (v_reg v d) = 1 \<longrightarrow> v_want v d = 512 \<longrightarrow> length bs = 512 \<longrightarrow>
        (let d' = dev_outsw ops b bs d; r = v_reg v d in
         v_media v d' = (v_media v d)(sel_dev r := (v_media v d (sel_dev r))(sel_lba r := bs)) \<and>
         dev_intr ops irq d'))"

definition ata_ok :: "'d ata \<Rightarrow> 'd ata_view \<Rightarrow> u16 \<Rightarrow> u8 \<Rightarrow> bool" where
  "ata_ok ops v b irq \<longleftrightarrow> (\<forall>d dev k. length (v_media v d dev k) = 512) \<and> regs_latch ops v b \<and> cmd_read_ok ops v b irq \<and>
     cmd_write_ok ops v b \<and> status_ok ops v b \<and> sleep_ok ops v \<and> transfer_ok ops v b irq"

text \<open>A disk whose channel is set up and at rest.\<close>

definition chan_rest :: "nat \<Rightarrow> 'd ide \<Rightarrow> bool" where
  "chan_rest hd' s \<longleftrightarrow> (let c = my_channel (disks s ! hd') in
     c < length (channels s) \<and> c < 2 \<and> irq_no (channels s ! c) = 0x2e + of_nat c \<and> disk_done (channels s ! c) = 0 \<and>
     dev_no (disks s ! hd') < 2)"

section \<open>One transfer\<close>

lemma lba_bytes:
  assumes "lba \<le> max_lba" and x: "x \<in> {0, 0x10}"
  shows "ucast (ucast lba :: u8) OR push_bit 8 (ucast (ucast (drop_bit 8 lba) :: u8)) OR
     push_bit 16 (ucast (ucast (drop_bit 16 lba) :: u8)) OR
     push_bit 24 (ucast ((ucast (0xe0 OR x OR drop_bit 24 lba) :: u8) AND 0xf)) = (lba :: u32)"
proof -
  have "unat lba < 2 ^ 20" using assms by (simp add: max_lba_def word_le_nat_alt)
  then have "unat (take_bit 20 lba) = unat lba" by (simp add: unsigned_take_bit_eq take_bit_nat_eq_self)
  then have "take_bit 20 lba = lba" by (rule unsigned_word_eqI)
  then have hi: "\<not> bit lba n" if "20 \<le> n" for n
    using that bit_take_bit_iff [of 20 lba n] by simp
  then have "drop_bit 24 lba = 0" by (intro bit_word_eqI) (simp add: bit_simps)
  moreover have "(ucast (0xe0 OR x) :: u8) AND 0xf = 0" using x by auto
  moreover have "n - 8 < 8" if "bit lba n" "\<not> bit lba (16 + (n - 16))" for n
    using that by (cases "n < 16") auto
  ultimately show ?thesis using hi
    by (intro bit_word_eqI) (auto simp: bit_simps)
qed

lemma outI_run [simp]: "outI ops p x s = Inr ((), s\<lparr>hw := dev_out ops p x (hw s)\<rparr>)"
  by (simp add: outI_def stm_defs)

lemma chan_hw [simp]: "chan hd' (s\<lparr>hw := d\<rparr>) = chan hd' s"
  by (simp add: chan_def)

lemma regs_latchD:
  "regs_latch ops v b \<Longrightarrow> k \<in> {2..6} \<Longrightarrow> p = b + of_nat k \<Longrightarrow>
     v_reg v (dev_out ops p x d) = (v_reg v d)(k := x) \<and> v_media v (dev_out ops p x d) = v_media v d"
  by (auto simp: regs_latch_def)

lemma select_sector_run:
  assumes a: "regs_latch ops v (port_base (chan hd' s))" and lba: "lba \<le> max_lba" and dev: "dev_no (disks s ! hd') < 2"
    and n: "0 < n" "n \<le> 256"
  obtains d where "select_sector ops hd' lba (of_nat n) s = Inr ((), s\<lparr>hw := d\<rparr>)" "v_media v d = v_media v (hw s)"
    "sel_lba (v_reg v d) = lba" "sel_cnt (v_reg v d) = n" "sel_dev (v_reg v d) = dev_no (disks s ! hd')"
proof -
  let ?c = "chan hd' s" and ?dv = "dev_no (disks s ! hd')"
  let ?x = "if ?dv = 1 then 0x10 else 0 :: u32"
  let ?b6 = "ucast (0xe0 OR ?x OR drop_bit 24 lba) :: u8"
  define d2 where "d2 = dev_out ops (port_base ?c + 2) (of_nat n) (hw s)"
  define d3 where "d3 = dev_out ops (port_base ?c + 3) (ucast lba) d2"
  define d4 where "d4 = dev_out ops (port_base ?c + 4) (ucast (drop_bit 8 lba)) d3"
  define d5 where "d5 = dev_out ops (port_base ?c + 5) (ucast (drop_bit 16 lba)) d4"
  define d6 where "d6 = dev_out ops (port_base ?c + 6) ?b6 d5"
  have 2: "v_reg v d2 = (v_reg v (hw s))(2 := of_nat n) \<and> v_media v d2 = v_media v (hw s)"
    unfolding d2_def by (rule regs_latchD [OF a]) auto
  have 3: "v_reg v d3 = (v_reg v d2)(3 := ucast lba) \<and> v_media v d3 = v_media v d2"
    unfolding d3_def by (rule regs_latchD [OF a]) auto
  have 4: "v_reg v d4 = (v_reg v d3)(4 := ucast (drop_bit 8 lba)) \<and> v_media v d4 = v_media v d3"
    unfolding d4_def by (rule regs_latchD [OF a]) auto
  have 5: "v_reg v d5 = (v_reg v d4)(5 := ucast (drop_bit 16 lba)) \<and> v_media v d5 = v_media v d4"
    unfolding d5_def by (rule regs_latchD [OF a]) auto
  have 6: "v_reg v d6 = (v_reg v d5)(6 := ?b6) \<and> v_media v d6 = v_media v d5"
    unfolding d6_def by (rule regs_latchD [OF a]) auto
  have run: "select_sector ops hd' lba (of_nat n) s = Inr ((), s\<lparr>hw := d6\<rparr>)"
    using lba by (simp add: select_sector_def bindM_def getM_def assertM_def d2_def d3_def d4_def d5_def d6_def)
  have cnt: "sel_cnt (v_reg v d6) = n"
  proof (cases "n = 256")
    case False
    then have "unat (of_nat n :: u8) = n" using n by (simp add: unat_of_nat_lt)
    then show ?thesis using n 2 3 4 5 6 by (auto simp: sel_cnt_def)
  qed (use 2 3 4 5 6 in \<open>simp add: sel_cnt_def\<close>)
  have l: "sel_lba (v_reg v d6) = lba"
    using lba_bytes [OF lba, of ?x] 2 3 4 5 6 by (simp add: sel_lba_def)
  have "unat ?dv = 0 \<or> unat ?dv = 1" using dev by (simp add: word_less_nat_alt) linarith
  then have d01: "?dv = 0 \<or> ?dv = 1" by (simp add: word_eq_unat_iff)
  have "unat lba < 2 ^ 24" using lba by (simp add: max_lba_def word_le_nat_alt)
  then have "drop_bit 24 lba = 0" by (simp add: word_eq_unat_iff drop_bit_eq_div unat_div)
  then have "bit ?b6 4 \<longleftrightarrow> ?dv = 1" by (simp add: bit_simps)
  then have "sel_dev (v_reg v d6) = ?dv" using d01 6 by (auto simp: sel_dev_def)
  then show ?thesis using that [OF run] cnt l 2 3 4 5 6 by simp
qed

lemma cmd_out_run:
  assumes "c < length (channels s)"
  shows "cmd_out ops c cmd s = Inr ((), s\<lparr>hw := dev_out ops (port_base (channels s ! c) + 7) cmd (hw s),
     channels := (channels s)[c := (channels s ! c)\<lparr>expecting_intr := True\<rparr>]\<rparr>)"
  using assms by (simp add: cmd_out_def upd_chan_def stm_defs)

lemma status_clear: "st AND BIT_STAT_BSY = 0 \<longleftrightarrow> \<not> bit st 7" "st AND BIT_STAT_DRQ \<noteq> 0 \<longleftrightarrow> bit st 3" for st :: u8
  using and_two_pow_eq_0 [of 7 st] and_two_pow_eq_0 [of 3 st] by simp_all

lemma busy_loop_run:
  assumes ok: "status_ok ops v b" "sleep_ok ops v"
  shows "v_busy v (hw s) + 1 < t \<Longrightarrow> v_data v (hw s) \<noteq> [] \<or> 0 < v_want v (hw s) \<Longrightarrow>
    \<exists>d. busy_loop ops (b + 7) t s = Inr (True, s\<lparr>hw := d\<rparr>) \<and> same_view v d (hw s) \<and> v_busy v d = 0"
proof (induction t arbitrary: s)
  case (Suc t)
  obtain st d where in1: "dev_in ops (b + 7) (hw s) = (st, d)" by force
  note st = ok(1) [unfolded status_ok_def, rule_format, OF in1]
  show ?case
  proof (cases "v_busy v (hw s) = 0")
    case True
    obtain st' d' where in2: "dev_in ops (b + 7) d = (st', d')" by force
    note st2 = ok(1) [unfolded status_ok_def, rule_format, OF in2]
    show ?thesis using True Suc.prems st st2 in1 in2
      by (intro exI [of _ d']) (auto simp: inI_def stm_defs status_clear same_view_def)
  next
    case False
    let ?d = "dev_sleep ops 10 d"
    have sl: "same_view v ?d d" "v_busy v ?d = v_busy v d - 1" using ok(2) by (auto simp: sleep_ok_def)
    have "\<exists>d'. busy_loop ops (b + 7) t (s\<lparr>hw := ?d\<rparr>) = Inr (True, s\<lparr>hw := ?d\<rparr>\<lparr>hw := d'\<rparr>) \<and> same_view v d' ?d \<and> v_busy v d' = 0"
      using Suc.IH [of "s\<lparr>hw := ?d\<rparr>"] Suc.prems sl st False by (simp add: same_view_def)
    then show ?thesis using False Suc.prems st in1 sl
      by (auto simp: inI_def stm_defs status_clear same_view_def)
  qed
qed simp

lemma busy_wait_run:
  assumes "status_ok ops v (port_base (chan hd' s))" "sleep_ok ops v" "v_busy v (hw s) < 29999"
    "v_data v (hw s) \<noteq> [] \<or> 0 < v_want v (hw s)"
  obtains d where "busy_wait ops hd' s = Inr (True, s\<lparr>hw := d\<rparr>)" "same_view v d (hw s)" "v_busy v d = 0"
proof -
  have "v_busy v (hw s) + 1 < 30 * 1000" using assms(3) by simp
  from busy_loop_run [OF assms(1,2) this assms(4)] show ?thesis
    using that by (auto simp: busy_wait_def stm_defs)
qed

lemma handler_run:
  assumes c: "c < length (channels s)" "c < 2" "irq_no (channels s ! c) = 0x2e + of_nat c" "expecting_intr (channels s ! c)"
    and ok: "status_ok ops v (port_base (channels s ! c))"
  obtains d where "intr_hd_handler ops (irq_no (channels s ! c)) s = Inr ((), s\<lparr>hw := d,
      channels := (channels s)[c := (channels s ! c)\<lparr>expecting_intr := False, disk_done := disk_done (channels s ! c) + 1\<rparr>]\<rparr>)"
    "same_view v d (hw s)" "v_busy v d = v_busy v (hw s)"
proof -
  obtain st d where in1: "dev_in ops (port_base (channels s ! c) + 7) (hw s) = (st, d)" by force
  note st = ok [unfolded status_ok_def, rule_format, OF in1]
  have c01: "c = 0 \<or> c = 1" using c by linarith
  then have i: "0x2e + of_nat c = (0x2e :: u8) \<or> 0x2e + of_nat c = (0x2f :: u8)" "unat (0x2e + of_nat c - 0x2e :: u8) = c"
    by auto
  have "intr_hd_handler ops (irq_no (channels s ! c)) s = Inr ((), s\<lparr>hw := d,
      channels := (channels s)[c := (channels s ! c)\<lparr>expecting_intr := False, disk_done := disk_done (channels s ! c) + 1\<rparr>]\<rparr>)"
    using c i in1 by (simp add: intr_hd_handler_def upd_chan_def stm_defs inI_def del: add_diff_cancel_left')
  then show ?thesis using that st by blast
qed

lemma wait_run:
  assumes c: "c < length (channels s)" "c < 2" "irq_no (channels s ! c) = 0x2e + of_nat c" "expecting_intr (channels s ! c)"
      "disk_done (channels s ! c) = 0"
    and ok: "status_ok ops v (port_base (channels s ! c))" and intr: "dev_intr ops (irq_no (channels s ! c)) (hw s)"
  obtains d where "bindM (intr_point ops c) (\<lambda>_. bindM (disk_wait ops c) f) s = f () (s\<lparr>commands := commands s + 1, hw := d,
      channels := (channels s)[c := (channels s ! c)\<lparr>expecting_intr := False\<rparr>]\<rparr>)"
    "same_view v d (hw s)" "v_busy v d = v_busy v (hw s)"
proof -
  let ?s = "s\<lparr>commands := commands s + 1\<rparr>"
  obtain d where h: "intr_hd_handler ops (irq_no (channels s ! c)) ?s = Inr ((), ?s\<lparr>hw := d,
      channels := (channels s)[c := (channels s ! c)\<lparr>expecting_intr := False, disk_done := 1\<rparr>]\<rparr>)"
    and d: "same_view v d (hw s)" "v_busy v d = v_busy v (hw s)"
    using handler_run [of c ?s ops v] c ok by auto
  have e: "(channels s ! c)\<lparr>expecting_intr := False, disk_done := 0\<rparr> = (channels s ! c)\<lparr>expecting_intr := False\<rparr>"
    using c(5) by (cases "channels s ! c") simp
  have "bindM (intr_point ops c) (\<lambda>_. bindM (disk_wait ops c) f) s = f () (s\<lparr>commands := commands s + 1, hw := d,
      channels := (channels s)[c := (channels s ! c)\<lparr>expecting_intr := False\<rparr>]\<rparr>)"
  proof (cases "early s (commands s)")
    case True
    then have "intr_point ops c s = Inr ((), ?s\<lparr>hw := d,
        channels := (channels s)[c := (channels s ! c)\<lparr>expecting_intr := False, disk_done := 1\<rparr>]\<rparr>)"
      using intr h by (simp add: intr_point_def stm_defs)
    then show ?thesis using c by (simp add: e disk_wait_def upd_chan_def stm_defs)
  next
    case False
    then have "intr_point ops c s = Inr ((), ?s)" by (simp add: intr_point_def stm_defs)
    then show ?thesis using c h intr by (simp add: e disk_wait_def upd_chan_def stm_defs)
  qed
  then show ?thesis using that d by blast
qed

text \<open>What a transfer leaves: the drive, the number of the command, and a channel that expects no interrupt.\<close>

definition moved :: "nat \<Rightarrow> 'd ide \<Rightarrow> 'd ide \<Rightarrow> bool" where
  "moved c s s' \<longleftrightarrow> (\<exists>k d. s' = s\<lparr>commands := k, hw := d,
     channels := (channels s)[c := (channels s ! c)\<lparr>expecting_intr := False\<rparr>]\<rparr>)"

lemma moved_facts:
  assumes "moved c s s'"
  shows "disks s' = disks s" "channels s' = (channels s)[c := (channels s ! c)\<lparr>expecting_intr := False\<rparr>]"
    "c < length (channels s) \<Longrightarrow> channels s' ! c = (channels s ! c)\<lparr>expecting_intr := False\<rparr>"
  using assms by (auto simp: moved_def)

lemma moved_trans: "moved c s s1 \<Longrightarrow> moved c s1 s2 \<Longrightarrow> c < length (channels s) \<Longrightarrow> moved c s s2"
  unfolding moved_def by (elim exE, rule exI, rule exI) simp

lemma moved_chan_rest:
  "moved (my_channel (disks s ! hd')) s s' \<Longrightarrow> chan_rest hd' s \<Longrightarrow> chan_rest hd' s' \<and> port_base (chan hd' s') = port_base (chan hd' s) \<and>
     irq_no (chan hd' s') = irq_no (chan hd' s)"
  by (auto simp: chan_rest_def chan_def Let_def moved_facts)

lemma transfer_in:
  "transfer_ok ops v b irq \<Longrightarrow> dev_insw ops b 256 d = (bs, d') \<Longrightarrow> v_busy v d = 0 \<Longrightarrow> length (v_data v d) = 512 \<Longrightarrow>
     bs = v_data v d \<and> v_media v d' = v_media v d"
  unfolding transfer_ok_def by blast

lemma transfer_out:
  "transfer_ok ops v b irq \<Longrightarrow> v_busy v d = 0 \<Longrightarrow> sel_cnt (v_reg v d) = 1 \<Longrightarrow> v_want v d = 512 \<Longrightarrow> length bs = 512 \<Longrightarrow>
     v_media v (dev_outsw ops b bs d) = (v_media v d)(sel_dev (v_reg v d) :=
        (v_media v d (sel_dev (v_reg v d)))(sel_lba (v_reg v d) := bs)) \<and>
     dev_intr ops irq (dev_outsw ops b bs d)"
  unfolding transfer_ok_def Let_def by blast

lemma size_in_byte_one: "(if 1 = (0 :: u8) then 256 * 512 else unat (1 :: u8) * 512) = (512 :: nat)"
  by simp

lemma read_chunk:
  assumes a: "ata_ok ops v (port_base (chan hd' s)) (irq_no (chan hd' s))" and r: "chan_rest hd' s"
    and lba: "lba \<le> max_lba" and c: "c = my_channel (disks s ! hd')"
  shows "\<exists>s'. bindM (select_sector ops hd' lba 1) (\<lambda>_. bindM (cmd_out ops c CMD_READ_SECTOR) (\<lambda>_.
      bindM (intr_point ops c) (\<lambda>_. bindM (disk_wait ops c) (\<lambda>_. bindM (busy_wait ops hd') (\<lambda>ready.
      if \<not> ready then e else bindM (read_from_sector ops hd' 1) f))))) s =
        f (v_media v (hw s) (dev_no (disks s ! hd')) lba) s' \<and>
      v_media v (hw s') = v_media v (hw s) \<and> moved c s s'"
proof -
  let ?m = "v_media v (hw s) (dev_no (disks s ! hd'))" and ?b = "port_base (channels s ! c)"
  note ch = r [unfolded chan_rest_def Let_def, folded c]
  note a = a [unfolded chan_def, folded c]
  note ok = a [unfolded ata_ok_def]
  obtain d1 where 1: "select_sector ops hd' lba 1 s = Inr ((), s\<lparr>hw := d1\<rparr>)" "v_media v d1 = v_media v (hw s)"
    "sel_lba (v_reg v d1) = lba" "sel_cnt (v_reg v d1) = 1" "sel_dev (v_reg v d1) = dev_no (disks s ! hd')"
    using select_sector_run [of ops v hd' s lba 1] ok ch lba by (auto simp: chan_def c)
  define d2 where "d2 = dev_out ops (?b + 7) CMD_READ_SECTOR d1"
  let ?s2 = "s\<lparr>hw := d2, channels := (channels s)[c := (channels s ! c)\<lparr>expecting_intr := True\<rparr>]\<rparr>"
  have 2: "cmd_out ops c CMD_READ_SECTOR (s\<lparr>hw := d1\<rparr>) = Inr ((), ?s2)"
    using cmd_out_run [of c "s\<lparr>hw := d1\<rparr>"] ch by (simp add: d2_def)
  have m: "v_media v d2 = v_media v (hw s)" "v_data v d2 = ?m lba" "dev_intr ops (irq_no (channels s ! c)) d2" "v_busy v d2 < 29999"
    using ok 1 unfolding cmd_read_ok_def Let_def d2_def by auto
  let ?g = "\<lambda>_. bindM (busy_wait ops hd') (\<lambda>ready. if \<not> ready then e else bindM (read_from_sector ops hd' 1) f)"
  obtain d3 where 3: "bindM (intr_point ops c) (\<lambda>_. bindM (disk_wait ops c) ?g) ?s2 =
      ?g () (s\<lparr>commands := commands s + 1, hw := d3, channels := (channels s)[c := (channels s ! c)\<lparr>expecting_intr := False\<rparr>]\<rparr>)"
    "same_view v d3 d2" "v_busy v d3 = v_busy v d2"
    using wait_run [of c ?s2 ops v ?g] ch ok m by simp blast
  let ?s3 = "s\<lparr>commands := commands s + 1, hw := d3, channels := (channels s)[c := (channels s ! c)\<lparr>expecting_intr := False\<rparr>]\<rparr>"
  have len: "length (?m lba) = 512" using ok by simp
  have b3: "port_base (chan hd' ?s3) = ?b" using ch by (simp add: chan_def c)
  have "v_data v d3 = ?m lba" using 3 m by (simp add: same_view_def)
  then have "v_data v (hw ?s3) \<noteq> [] \<or> 0 < v_want v (hw ?s3)" using len by auto
  moreover have "status_ok ops v (port_base (chan hd' ?s3))" "sleep_ok ops v" "v_busy v (hw ?s3) < 29999"
    unfolding b3 using ok 3 m by simp_all
  ultimately obtain d4 where 4: "busy_wait ops hd' ?s3 = Inr (True, ?s3\<lparr>hw := d4\<rparr>)" "same_view v d4 d3" "v_busy v d4 = 0"
    using busy_wait_run [of ops v hd' ?s3 thesis] by simp
  obtain bs d5 where 5: "dev_insw ops ?b 256 d4 = (bs, d5)" by force
  have v4: "v_data v d4 = ?m lba" "v_media v d4 = v_media v (hw s)" using 4(2) 3(2) m by (simp_all add: same_view_def)
  have "transfer_ok ops v ?b (irq_no (channels s ! c))" using ok by simp
  from transfer_in [OF this 5 4(3)] v4 len
  have t: "bs = ?m lba" "v_media v d5 = v_media v (hw s)" by simp_all
  have 6: "read_from_sector ops hd' 1 (?s3\<lparr>hw := d4\<rparr>) = Inr (bs, ?s3\<lparr>hw := d5\<rparr>)"
    using 5 b3 unfolding read_from_sector_def size_in_byte_one by (simp add: insw_def stm_defs chan_def c)
  have "moved c s (?s3\<lparr>hw := d5\<rparr>)" unfolding moved_def
    by (rule exI [of _ "commands s + 1"], rule exI [of _ d5], rule ide.equality) simp_all
  moreover have "?g () ?s3 = f bs (?s3\<lparr>hw := d5\<rparr>)"
    by (rule bindM_eqI, rule 4(1)) (simp only: not_True_eq_False if_False, rule bindM_step, rule 6)
  then have "bindM (select_sector ops hd' lba 1) (\<lambda>_. bindM (cmd_out ops c CMD_READ_SECTOR) (\<lambda>_.
      bindM (intr_point ops c) (\<lambda>_. bindM (disk_wait ops c) ?g))) s = f bs (?s3\<lparr>hw := d5\<rparr>)"
    using 3(1) by (intro bindM_eqI [where m = "select_sector ops hd' lba 1", OF 1(1)] bindM_eqI [where m = "cmd_out ops c CMD_READ_SECTOR", OF 2]) simp
  ultimately show ?thesis using t by (intro exI [of _ "?s3\<lparr>hw := d5\<rparr>"]) simp
qed

lemma write_chunk:
  assumes a: "ata_ok ops v (port_base (chan hd' s)) (irq_no (chan hd' s))" and r: "chan_rest hd' s"
    and lba: "lba \<le> max_lba" and c: "c = my_channel (disks s ! hd')" and bs: "512 \<le> length bs"
  shows "\<exists>s'. bindM (select_sector ops hd' lba 1) (\<lambda>_. bindM (cmd_out ops c CMD_WRITE_SECTOR) (\<lambda>_.
      bindM (busy_wait ops hd') (\<lambda>ready. if \<not> ready then e else bindM (write2sector ops hd' bs 1) (\<lambda>_.
      bindM (intr_point ops c) (\<lambda>_. bindM (disk_wait ops c) f))))) s = f () s' \<and>
      v_media v (hw s') = (v_media v (hw s))(dev_no (disks s ! hd') :=
        (v_media v (hw s) (dev_no (disks s ! hd')))(lba := take 512 bs)) \<and> moved c s s'"
proof -
  let ?b = "port_base (channels s ! c)"
  note ch = r [unfolded chan_rest_def Let_def, folded c]
  note a = a [unfolded chan_def, folded c]
  note ok = a [unfolded ata_ok_def]
  obtain d1 where 1: "select_sector ops hd' lba 1 s = Inr ((), s\<lparr>hw := d1\<rparr>)" "v_media v d1 = v_media v (hw s)"
    "sel_lba (v_reg v d1) = lba" "sel_cnt (v_reg v d1) = 1" "sel_dev (v_reg v d1) = dev_no (disks s ! hd')"
    using select_sector_run [of ops v hd' s lba 1] ok ch lba by (auto simp: chan_def c)
  define d2 where "d2 = dev_out ops (?b + 7) CMD_WRITE_SECTOR d1"
  let ?s2 = "s\<lparr>hw := d2, channels := (channels s)[c := (channels s ! c)\<lparr>expecting_intr := True\<rparr>]\<rparr>"
  have 2: "cmd_out ops c CMD_WRITE_SECTOR (s\<lparr>hw := d1\<rparr>) = Inr ((), ?s2)"
    using cmd_out_run [of c "s\<lparr>hw := d1\<rparr>"] ch by (simp add: d2_def)
  have m: "v_media v d2 = v_media v (hw s)" "v_reg v d2 = v_reg v d1" "v_want v d2 = 512" "v_busy v d2 < 29999"
    using ok 1 unfolding cmd_write_ok_def Let_def d2_def by auto
  have b2: "port_base (chan hd' ?s2) = ?b" using ch by (simp add: chan_def c)
  have "v_data v (hw ?s2) \<noteq> [] \<or> 0 < v_want v (hw ?s2)" "status_ok ops v (port_base (chan hd' ?s2))" "sleep_ok ops v"
    "v_busy v (hw ?s2) < 29999"
    unfolding b2 using ok m by simp_all
  then obtain d3 where 3: "busy_wait ops hd' ?s2 = Inr (True, ?s2\<lparr>hw := d3\<rparr>)" "same_view v d3 d2" "v_busy v d3 = 0"
    using busy_wait_run [of ops v hd' ?s2 thesis] by simp
  define d4 where "d4 = dev_outsw ops ?b (take 512 bs) d3"
  have 4: "write2sector ops hd' bs 1 (?s2\<lparr>hw := d3\<rparr>) = Inr ((), ?s2\<lparr>hw := d4\<rparr>)"
    using b2 bs unfolding write2sector_def size_in_byte_one by (simp add: outsw_def stm_defs chan_def c d4_def)
  have "transfer_ok ops v ?b (irq_no (channels s ! c))" using ok by simp
  moreover have w: "v_want v d3 = 512" "v_reg v d3 = v_reg v d1" "v_media v d3 = v_media v (hw s)"
    using 3(2) m by (simp_all add: same_view_def)
  moreover have "sel_cnt (v_reg v d3) = 1" "length (take 512 bs) = 512"
    unfolding w 1(4) using bs by simp_all
  ultimately have t: "v_media v d4 = (v_media v (hw s))(dev_no (disks s ! hd') :=
      (v_media v (hw s) (dev_no (disks s ! hd')))(lba := take 512 bs))"
    "dev_intr ops (irq_no (channels s ! c)) d4"
    using transfer_out [of ops v ?b _ d3 "take 512 bs", OF _ 3(3)] 1(3-5) unfolding d4_def by metis+
  let ?s4 = "?s2\<lparr>hw := d4\<rparr>"
  have c4: "c < length (channels ?s4)" "c < 2" "irq_no (channels ?s4 ! c) = 0x2e + of_nat c" "expecting_intr (channels ?s4 ! c)"
    "disk_done (channels ?s4 ! c) = 0" "status_ok ops v (port_base (channels ?s4 ! c))"
    "dev_intr ops (irq_no (channels ?s4 ! c)) (hw ?s4)"
    using ch ok t(2) by simp_all
  obtain d5 where 5: "bindM (intr_point ops c) (\<lambda>_. bindM (disk_wait ops c) f) ?s4 =
      f () (?s4\<lparr>commands := commands ?s4 + 1, hw := d5, channels := (channels ?s4)[c := (channels ?s4 ! c)\<lparr>expecting_intr := False\<rparr>]\<rparr>)"
    "same_view v d5 (hw ?s4)"
    by (rule wait_run [OF c4, of f])
  let ?s5 = "s\<lparr>commands := commands s + 1, hw := d5, channels := (channels s)[c := (channels s ! c)\<lparr>expecting_intr := False\<rparr>]\<rparr>"
  have "bindM (select_sector ops hd' lba 1) (\<lambda>_. bindM (cmd_out ops c CMD_WRITE_SECTOR) (\<lambda>_.
      bindM (busy_wait ops hd') (\<lambda>ready. if \<not> ready then e else bindM (write2sector ops hd' bs 1) (\<lambda>_.
      bindM (intr_point ops c) (\<lambda>_. bindM (disk_wait ops c) f))))) s = f () ?s5"
    by (rule bindM_eqI, rule 1(1), rule bindM_eqI, rule 2, rule bindM_eqI, rule 3(1))
      (simp only: not_True_eq_False if_False, rule bindM_eqI, rule 4, subst 5(1), rule arg_cong [where f = "f ()"], rule ide.equality, use ch in simp_all)
  moreover have "moved c s ?s5" unfolding moved_def by blast
  ultimately show ?thesis using t(1) 5(2) by (intro exI [of _ ?s5]) (simp add: same_view_def)
qed

section \<open>Whole requests\<close>

lemma secs_op_one: "secs_op 0 1 = 1"
  by (simp add: secs_op_def)

lemma first_lba: "(lba :: u32) + of_nat 0 = lba"
  by simp

lemma ide_read_loop_run:
  assumes a: "ata_ok ops v (port_base (chan hd' s)) (irq_no (chan hd' s))" and r: "chan_rest hd' s" and lba: "lba \<le> max_lba"
  shows "\<exists>s'. ide_read_loop ops hd' lba 1 0 [] s = Inr (v_media v (hw s) (dev_no (disks s ! hd')) lba, s') \<and>
    v_media v (hw s') = v_media v (hw s) \<and> moved (my_channel (disks s ! hd')) s s'"
proof -
  let ?f = "\<lambda>bs. ide_read_loop ops hd' lba 1 1 ([] @ bs)"
  let ?e = "bindM (getM (\<lambda>s. hd_name (disks s ! hd'))) (\<lambda>nm. failM (Panicked (nm @ '' read sector '' @ num lba @ '' failed!!!!!!'' @ NL)))"
  have end_: "?f bs s1 = Inr (bs, s1)" for bs s1 by (subst ide_read_loop.simps) (simp add: returnM_def)
  have "ide_read_loop ops hd' lba 1 0 [] s = bindM (select_sector ops hd' lba 1) (\<lambda>_.
      bindM (cmd_out ops (my_channel (disks s ! hd')) CMD_READ_SECTOR) (\<lambda>_. bindM (intr_point ops (my_channel (disks s ! hd'))) (\<lambda>_.
      bindM (disk_wait ops (my_channel (disks s ! hd'))) (\<lambda>_. bindM (busy_wait ops hd') (\<lambda>ready.
      if \<not> ready then ?e else bindM (read_from_sector ops hd' 1) ?f))))) s"
    by (subst ide_read_loop.simps)
      (simp only: secs_op_one Let_def bindM_getM zero_less_one if_True first_lba semiring_1_class.of_nat_1 add_0 add_0_right)
  then show ?thesis using read_chunk [OF a r lba refl, of ?e ?f] unfolding end_ by simp
qed

lemma ide_write_loop_run:
  assumes a: "ata_ok ops v (port_base (chan hd' s)) (irq_no (chan hd' s))" and r: "chan_rest hd' s" and lba: "lba \<le> max_lba"
    and buf: "512 \<le> length buf"
  shows "\<exists>s'. ide_write_loop ops hd' lba buf 1 0 s = Inr ((), s') \<and>
    v_media v (hw s') = (v_media v (hw s))(dev_no (disks s ! hd') :=
      (v_media v (hw s) (dev_no (disks s ! hd')))(lba := take 512 buf)) \<and>
    moved (my_channel (disks s ! hd')) s s'"
proof -
  let ?f = "\<lambda>_. ide_write_loop ops hd' lba buf 1 1"
  let ?e = "bindM (getM (\<lambda>s. hd_name (disks s ! hd'))) (\<lambda>nm. failM (Panicked (nm @ '' write sector '' @ num lba @ '' failed!!!!!!'' @ NL)))"
  have end_: "?f () s1 = Inr ((), s1)" for s1 by (subst ide_write_loop.simps) (simp add: returnM_def)
  have "ide_write_loop ops hd' lba buf 1 0 s = bindM (select_sector ops hd' lba 1) (\<lambda>_.
      bindM (cmd_out ops (my_channel (disks s ! hd')) CMD_WRITE_SECTOR) (\<lambda>_. bindM (busy_wait ops hd') (\<lambda>ready.
      if \<not> ready then ?e else bindM (write2sector ops hd' buf 1) (\<lambda>_. bindM (intr_point ops (my_channel (disks s ! hd'))) (\<lambda>_.
      bindM (disk_wait ops (my_channel (disks s ! hd'))) ?f))))) s"
    by (subst ide_write_loop.simps)
      (simp only: secs_op_one Let_def bindM_getM zero_less_one if_True first_lba semiring_1_class.of_nat_1 add_0 add_0_right mult_zero_left drop_0)
  then show ?thesis using write_chunk [OF a r lba refl buf, of ?e ?f] unfolding end_ by simp
qed

text \<open>Only the drive and its channel have changed.\<close>

definition quiet :: "'d ide \<Rightarrow> 'd ide \<Rightarrow> bool" where
  "quiet s s' \<longleftrightarrow> (\<exists>k d cs. s' = s\<lparr>commands := k, hw := d, channels := cs\<rparr>)"

lemma quiet_trans: "quiet s s1 \<Longrightarrow> quiet s1 s2 \<Longrightarrow> quiet s s2"
  unfolding quiet_def by (elim exE, rule exI, rule exI, rule exI) simp

lemma moved_quiet: "moved c s s' \<Longrightarrow> quiet s s'"
  by (auto simp: moved_def quiet_def)

lemma quiet_channels: "quiet s (s\<lparr>channels := cs\<rparr>)"
  unfolding quiet_def by (rule exI [of _ "commands s"], rule exI [of _ "hw s"], rule exI [of _ cs]) simp

definition disk_ok :: "'d ata \<Rightarrow> 'd ata_view \<Rightarrow> nat \<Rightarrow> 'd ide \<Rightarrow> bool" where
  "disk_ok ops v hd' s \<longleftrightarrow> ata_ok ops v (port_base (chan hd' s)) (irq_no (chan hd' s)) \<and> chan_rest hd' s \<and> \<not> ch_locked (chan hd' s)"

lemma begin_request:
  assumes a: "ata_ok ops v (port_base (chan hd' s)) (irq_no (chan hd' s))" and r: "chan_rest hd' s" "\<not> ch_locked (chan hd' s)"
    and c: "c = my_channel (disks s ! hd')"
  obtains s1 where "bindM (chan_acquire c) (\<lambda>_. bindM (select_disk ops hd') f) s = f () s1" "v_media v (hw s1) = v_media v (hw s)"
    "disks s1 = disks s" "quiet s s1" "chan_rest hd' s1" "ata_ok ops v (port_base (chan hd' s1)) (irq_no (chan hd' s1))"
proof -
  note ch = r [unfolded chan_rest_def chan_def Let_def, folded c]
  let ?x = "if dev_no (disks s ! hd') = 1 then 0xe0 OR 0x10 else 0xe0 :: u8"
  define d where "d = dev_out ops (port_base (channels s ! c) + 6) ?x (hw s)"
  let ?s = "s\<lparr>channels := (channels s)[c := (channels s ! c)\<lparr>ch_locked := True\<rparr>], hw := d\<rparr>"
  have "regs_latch ops v (port_base (channels s ! c))" using a by (simp add: ata_ok_def chan_def c)
  then have "v_media v d = v_media v (hw s)" unfolding d_def using regs_latchD [of ops v _ 6 "port_base (channels s ! c) + 6"] by simp
  moreover have "bindM (chan_acquire c) (\<lambda>_. bindM (select_disk ops hd') f) s = f () ?s"
    using ch by (simp add: chan_acquire_def upd_chan_def select_disk_def stm_defs d_def chan_def c)
  moreover have "chan_rest hd' ?s" "ata_ok ops v (port_base (chan hd' ?s)) (irq_no (chan hd' ?s))"
    using ch a by (simp_all add: chan_rest_def chan_def c [symmetric] Let_def)
  moreover have "quiet s ?s" unfolding quiet_def
    by (rule exI [of _ "commands s"], rule exI [of _ d], rule exI, rule ide.equality) simp_all
  ultimately show ?thesis using that [of ?s] by simp
qed

text \<open>What a finished request leaves of the channel: it is free and at rest again.\<close>

lemma end_request:
  assumes "moved c s1 s2" "chan_rest hd' s1" "c = my_channel (disks s1 ! hd')"
    and "ata_ok ops v (port_base (chan hd' s1)) (irq_no (chan hd' s1))"
  shows "chan_release c s2 = Inr ((), s2\<lparr>channels := (channels s2)[c := (channels s2 ! c)\<lparr>ch_locked := False\<rparr>]\<rparr>)"
    "disk_ok ops v hd' (s2\<lparr>channels := (channels s2)[c := (channels s2 ! c)\<lparr>ch_locked := False\<rparr>]\<rparr>)"
    "quiet s1 (s2\<lparr>channels := (channels s2)[c := (channels s2 ! c)\<lparr>ch_locked := False\<rparr>]\<rparr>)"
  using assms quiet_trans [OF moved_quiet [OF assms(1)] quiet_channels]
  by (auto simp: chan_release_def upd_chan_def stm_defs chan_rest_def chan_def Let_def moved_def disk_ok_def)

lemma ide_read_run:
  assumes d: "disk_ok ops v hd' s" and lba: "lba \<le> max_lba"
  shows "\<exists>s'. ide_read ops hd' lba 1 s = Inr (v_media v (hw s) (dev_no (disks s ! hd')) lba, s') \<and>
    v_media v (hw s') = v_media v (hw s) \<and> quiet s s' \<and> disk_ok ops v hd' s'"
proof -
  note a = d [unfolded disk_ok_def, THEN conjunct1] and r = d [unfolded disk_ok_def, THEN conjunct2, THEN conjunct1]
    d [unfolded disk_ok_def, THEN conjunct2, THEN conjunct2]
  let ?c = "my_channel (disks s ! hd')" and ?m = "v_media v (hw s) (dev_no (disks s ! hd'))" and ?l = "ide_read_loop ops hd' lba 1 0 []"
  let ?k = "\<lambda>buf. bindM (chan_release ?c) (\<lambda>_. returnM buf)"
  obtain s1 where b: "bindM (chan_acquire ?c) (\<lambda>_. bindM (select_disk ops hd') (\<lambda>_. bindM ?l ?k)) s = bindM ?l ?k s1"
    and s1: "v_media v (hw s1) = v_media v (hw s)" "disks s1 = disks s" "quiet s s1" "chan_rest hd' s1"
      "ata_ok ops v (port_base (chan hd' s1)) (irq_no (chan hd' s1))"
    by (rule begin_request [OF a r refl, of "\<lambda>_. bindM ?l ?k"])
  obtain s2 where l: "?l s1 = Inr (?m lba, s2)" "v_media v (hw s2) = v_media v (hw s)" "moved ?c s1 s2"
    using ide_read_loop_run [OF s1(5,4) lba] s1 by auto
  note e = end_request [OF l(3) s1(4), unfolded s1(2), OF refl s1(5)]
  have "bindM ?l ?k s1 = ?k (?m lba) s2" by (rule bindM_step [where m = ?l, OF l(1)])
  then have "ide_read ops hd' lba 1 s = Inr (?m lba, s2\<lparr>channels := (channels s2)[?c := (channels s2 ! ?c)\<lparr>ch_locked := False\<rparr>]\<rparr>)"
    using b lba e(1) unfolding ide_read_def
    by (simp only: bindM_getM simp_thms stm_simps zero_less_one bindM_step [where m = "assertM True w" for w, OF stm_simps(5)]) (simp add: bindM_def returnM_def)
  then show ?thesis using e(2) l(2) quiet_trans [OF s1(3) e(3)] by simp
qed

text \<open>
  C17. The driver reads what the file system expects. Let the drive behave as documented and let the channel be
  free and at rest. A read of one sector below the limit of the driver returns, whether the interrupt comes before
  or after the task waits for it and however long the drive is busy, up to the limit of \<open>busy_wait\<close>, and gives
  exactly the bytes that the contract \<open>disk_read\<close> of the file system gives; the disk is not changed, and nothing
  but the drive and its channel, which is free and at rest again. A sector above the limit stops the kernel, as it
  does in the contract.
\<close>

theorem ide_read_refines:
  assumes d: "disk_ok ops v hd' s" and t: "sectors t = v_media v (hw s) (dev_no (disks s ! hd'))"
  shows "if lba \<le> max_lba
    then \<exists>bs s'. ide_read ops hd' lba 1 s = Inr (bs, s') \<and> disk_read lba 1 t = Inr (bs, t) \<and>
      v_media v (hw s') = v_media v (hw s) \<and> quiet s s' \<and> disk_ok ops v hd' s'
    else \<exists>e. ide_read ops hd' lba 1 s = Inl e \<and> disk_read lba 1 t = Inl e"
proof (cases "lba \<le> max_lba")
  case True
  then have "disk_read lba 1 t = Inr (v_media v (hw s) (dev_no (disks s ! hd')) lba, t)"
    using t by (simp add: disk_read_def stm_defs)
  with ide_read_run [OF d True] True show ?thesis by auto
next
  case False
  then show ?thesis by (simp add: ide_read_def disk_read_def stm_defs)
qed

text \<open>
  C18. The driver writes what the file system expects. Under the same conditions a write of one sector from a
  buffer that holds one returns, and the disk is then the one that the contract \<open>disk_write\<close> of the file system
  leaves; the other disk of the channel is not changed, and the channel is free and at rest again.
\<close>

theorem ide_write_refines:
  assumes d: "disk_ok ops v hd' s" and buf: "512 \<le> length buf" and t: "sectors t = v_media v (hw s) (dev_no (disks s ! hd'))"
  shows "if lba \<le> max_lba
    then \<exists>s' t'. ide_write ops hd' lba buf 1 s = Inr ((), s') \<and> disk_write lba buf 1 t = Inr ((), t') \<and>
      v_media v (hw s') = (v_media v (hw s))(dev_no (disks s ! hd') := sectors t') \<and> quiet s s' \<and> disk_ok ops v hd' s'
    else \<exists>e. ide_write ops hd' lba buf 1 s = Inl e \<and> disk_write lba buf 1 t = Inl e"
proof (cases "lba \<le> max_lba")
  case lba: True
  note a = d [unfolded disk_ok_def, THEN conjunct1] and r = d [unfolded disk_ok_def, THEN conjunct2, THEN conjunct1]
    d [unfolded disk_ok_def, THEN conjunct2, THEN conjunct2]
  let ?c = "my_channel (disks s ! hd')" and ?dv = "dev_no (disks s ! hd')" and ?l = "ide_write_loop ops hd' lba buf 1 0"
  let ?k = "\<lambda>_. chan_release ?c"
  obtain s1 where b: "bindM (chan_acquire ?c) (\<lambda>_. bindM (select_disk ops hd') (\<lambda>_. bindM ?l ?k)) s = bindM ?l ?k s1"
    and s1: "v_media v (hw s1) = v_media v (hw s)" "disks s1 = disks s" "quiet s s1" "chan_rest hd' s1"
      "ata_ok ops v (port_base (chan hd' s1)) (irq_no (chan hd' s1))"
    by (rule begin_request [OF a r refl, of "\<lambda>_. bindM ?l ?k"])
  obtain s2 where l: "?l s1 = Inr ((), s2)" "moved ?c s1 s2"
    "v_media v (hw s2) = (v_media v (hw s))(?dv := (v_media v (hw s) ?dv)(lba := take 512 buf))"
    using ide_write_loop_run [OF s1(5,4) lba buf] s1 by auto
  note e = end_request [OF l(2) s1(4), unfolded s1(2), OF refl s1(5)]
  have "bindM ?l ?k s1 = ?k () s2" by (rule bindM_step [where m = ?l, OF l(1)])
  then have "ide_write ops hd' lba buf 1 s = Inr ((), s2\<lparr>channels := (channels s2)[?c := (channels s2 ! ?c)\<lparr>ch_locked := False\<rparr>]\<rparr>)"
    using b lba e(1) unfolding ide_write_def
    by (simp only: bindM_getM simp_thms stm_simps zero_less_one bindM_step [where m = "assertM True w" for w, OF stm_simps(5)])
  moreover have "disk_write lba buf 1 t = Inr ((), t\<lparr>sectors := (sectors t)(lba := take 512 buf)\<rparr>)"
    using lba buf by (simp add: disk_write_def stm_defs fun_upd_def)
  ultimately show ?thesis using lba e(2) l(3) t quiet_trans [OF s1(3) e(3)] by simp
next
  case False
  then show ?thesis by (simp add: ide_write_def disk_write_def stm_defs)
qed

section \<open>An example\<close>

text \<open>A drive on the first channel that answers at once and hands over the first sector of a command.\<close>

record drive =
  dr_regs :: "nat \<Rightarrow> u8"
  dr_media :: "u8 \<Rightarrow> u32 \<Rightarrow> u8 list"
  dr_data :: "u8 list"
  dr_writing :: bool
  dr_intr :: bool

definition pad_sector :: "u8 list \<Rightarrow> u8 list" where
  "pad_sector bs = take 512 (bs @ replicate 512 0)"

definition drive_media :: "drive \<Rightarrow> u8 \<Rightarrow> u32 \<Rightarrow> u8 list" where
  "drive_media d dev k = pad_sector (dr_media d dev k)"

definition drive_out :: "u16 \<Rightarrow> u8 \<Rightarrow> drive \<Rightarrow> drive" where
  "drive_out port x d =
     (if port = 0x1f0 + 7 then
        if x = CMD_READ_SECTOR then d\<lparr>dr_intr := True, dr_writing := False,
          dr_data := drive_media d (sel_dev (dr_regs d)) (sel_lba (dr_regs d))\<rparr>
        else if x = CMD_WRITE_SECTOR then d\<lparr>dr_writing := True, dr_data := []\<rparr> else d
      else d\<lparr>dr_regs := (dr_regs d)(unat (port - 0x1f0) := x)\<rparr>)"

definition drive_outsw :: "u16 \<Rightarrow> u8 list \<Rightarrow> drive \<Rightarrow> drive" where
  "drive_outsw port bs d = d\<lparr>dr_intr := True, dr_writing := False,
     dr_media := (drive_media d)(sel_dev (dr_regs d) := (drive_media d (sel_dev (dr_regs d)))(sel_lba (dr_regs d) := bs))\<rparr>"

definition drive_ops :: "drive ata" where
  "drive_ops = \<lparr>dev_out = drive_out, dev_in = (\<lambda>port d. (if dr_data d \<noteq> [] \<or> dr_writing d then 0x48 else 0x40, d\<lparr>dr_intr := False\<rparr>)),
     dev_insw = (\<lambda>port n d. (take (2 * n) (dr_data d), d\<lparr>dr_data := drop (2 * n) (dr_data d)\<rparr>)),
     dev_outsw = drive_outsw, dev_intr = (\<lambda>irq. dr_intr), dev_sleep = (\<lambda>_ d. d)\<rparr>"

definition drive_view :: "drive ata_view" where
  "drive_view = \<lparr>v_reg = dr_regs, v_media = drive_media, v_data = dr_data,
     v_want = (\<lambda>d. if dr_writing d then 512 else 0), v_busy = (\<lambda>_. 0)\<rparr>"

lemma pad_sector_simps [simp]: "length (pad_sector bs) = 512" "length bs = 512 \<Longrightarrow> pad_sector bs = bs"
  by (simp_all add: pad_sector_def)

lemma drive_regs: "regs_latch drive_ops drive_view 0x1f0"
proof -
  have "(0x1f0 + of_nat k :: u16) \<noteq> 0x1f0 + 7 \<and> unat (of_nat k :: u16) = k" if "k \<in> {2..6}" for k :: nat
    using that by (auto simp: unat_of_nat_lt word_eq_unat_iff [of "of_nat k"])
  then show ?thesis
    by (auto simp: regs_latch_def drive_ops_def drive_view_def drive_out_def drive_media_def fun_eq_iff)
qed

lemma drive_ok: "ata_ok drive_ops drive_view 0x1f0 irq"
proof -
  have "transfer_ok drive_ops drive_view 0x1f0 irq"
    unfolding transfer_ok_def drive_ops_def drive_view_def
    by (auto simp: Let_def drive_outsw_def drive_media_def [abs_def] fun_eq_iff)
  moreover have "status_ok drive_ops drive_view 0x1f0"
  proof -
    have "\<not> bit (0x48 :: u8) 7" "\<not> bit (0x40 :: u8) 7" "bit (0x48 :: u8) 3" "\<not> bit (0x40 :: u8) 3" by simp_all
    then show ?thesis
      unfolding status_ok_def drive_ops_def drive_view_def same_view_def drive_media_def [abs_def]
      by (intro allI impI) (simp split: if_splits)
  qed
  moreover have "cmd_read_ok drive_ops drive_view 0x1f0 irq" "cmd_write_ok drive_ops drive_view 0x1f0" "sleep_ok drive_ops drive_view"
    by (auto simp: cmd_read_ok_def cmd_write_ok_def sleep_ok_def drive_ops_def drive_view_def drive_out_def same_view_def Let_def drive_media_def [abs_def])
  ultimately show ?thesis using drive_regs by (simp add: ata_ok_def) (simp add: drive_view_def drive_media_def)
qed

definition drive_zero :: drive where
  "drive_zero = \<lparr>dr_regs = (\<lambda>_. 0), dr_media = (\<lambda>dev k. replicate 512 (ucast k)), dr_data = [], dr_writing = False, dr_intr = False\<rparr>"

definition ide_example :: "drive ide" where
  "ide_example = intr_ctl.extend intr_ctl_zero (ide.fields drive_zero
     [\<lparr>ch_name = ''ide0'', port_base = 0x1f0, irq_no = 0x2e, ch_locked = False, expecting_intr = False, disk_done = 0\<rparr>]
     [\<lparr>hd_name = ''sda'', my_channel = 0, dev_no = 0, prim_parts = [], logic_parts = []\<rparr>,
      \<lparr>hd_name = ''sdb'', my_channel = 0, dev_no = 1,
       prim_parts = replicate 4 \<lparr>start_lba = 0, sec_cnt = 0, my_disk = 0, part_name = []\<rparr>,
       logic_parts = replicate 8 \<lparr>start_lba = 0, sec_cnt = 0, my_disk = 0, part_name = []\<rparr>\<rparr>]
     1 0 0 0 [] (\<lambda>k. even k) 0)"

lemma ide_example_simps [simp]:
  "hw ide_example = drive_zero" "disks ide_example ! 1 =
      \<lparr>hd_name = ''sdb'', my_channel = 0, dev_no = 1,
       prim_parts = replicate 4 \<lparr>start_lba = 0, sec_cnt = 0, my_disk = 0, part_name = []\<rparr>,
       logic_parts = replicate 8 \<lparr>start_lba = 0, sec_cnt = 0, my_disk = 0, part_name = []\<rparr>\<rparr>"
  "channels ide_example =
     [\<lparr>ch_name = ''ide0'', port_base = 0x1f0, irq_no = 0x2e, ch_locked = False, expecting_intr = False, disk_done = 0\<rparr>]"
  by (simp_all add: ide_example_def intr_ctl.defs ide.defs)

lemma ide_example_rest: "disk_ok drive_ops drive_view 1 ide_example"
  using drive_ok by (simp add: disk_ok_def chan_def chan_rest_def Let_def del: One_nat_def)

theorem ide_read_refines_witness:
  "\<exists>bs s'. ide_read drive_ops 1 300 1 ide_example = Inr (bs, s') \<and>
     disk_read 300 1 (fs_example\<lparr>sectors := drive_media drive_zero 1\<rparr>) = Inr (bs, fs_example\<lparr>sectors := drive_media drive_zero 1\<rparr>)"
  using ide_read_refines [OF ide_example_rest, of "fs_example\<lparr>sectors := drive_media drive_zero 1\<rparr>" 300]
  by (auto simp: max_lba_def drive_view_def simp del: One_nat_def)

theorem ide_write_refines_witness:
  "\<exists>s' t'. ide_write drive_ops 1 300 (replicate 512 7) 1 ide_example = Inr ((), s') \<and>
     disk_write 300 (replicate 512 7) 1 (fs_example\<lparr>sectors := drive_media drive_zero 1\<rparr>) = Inr ((), t') \<and>
     drive_media (hw s') 1 = sectors t'"
  using ide_write_refines [OF ide_example_rest, of "replicate 512 7" "fs_example\<lparr>sectors := drive_media drive_zero 1\<rparr>" 300]
  by (auto simp: max_lba_def drive_view_def simp del: One_nat_def)

end
