(* ===== verification/Format.thy ===== *)
theory Format
  imports FsDir Ide
begin

text \<open>
  Creating and mounting a file system (\<^verbatim>\<open>partition_format\<close>, \<^verbatim>\<open>mount_partition\<close> and \<^verbatim>\<open>filesys_init\<close> of \<^verbatim>\<open>fs/fs.c\<close>).
  The theory holds the operations: what is written to which sector, and what is read back into which buffer.
\<close>

definition enc_sb :: "super_block \<Rightarrow> u8 list \<Rightarrow> u8 list" where
  "enc_sb b pad = enc_words [sb_magic b, sb_sec_cnt b, sb_inode_cnt b, sb_part_lba_base b, sb_block_bitmap_lba b,
     sb_block_bitmap_sects b, sb_inode_bitmap_lba b, sb_inode_bitmap_sects b, sb_inode_table_lba b,
     sb_inode_table_sects b, sb_data_start_lba b, sb_root_inode_no b, sb_dir_entry_size b] @ pad"

definition dec_sb :: "u8 list \<Rightarrow> super_block" where
  "dec_sb bs = (let w = dec_words 13 bs in
     \<lparr>sb_magic = w ! 0, sb_sec_cnt = w ! 1, sb_inode_cnt = w ! 2, sb_part_lba_base = w ! 3, sb_block_bitmap_lba = w ! 4,
      sb_block_bitmap_sects = w ! 5, sb_inode_bitmap_lba = w ! 6, sb_inode_bitmap_sects = w ! 7, sb_inode_table_lba = w ! 8,
      sb_inode_table_sects = w ! 9, sb_data_start_lba = w ! 10, sb_root_inode_no = w ! 11, sb_dir_entry_size = w ! 12\<rparr>)"

section \<open>Formatting\<close>

definition format_free_sects :: "partition \<Rightarrow> u32" where
  "format_free_sects part =
     sec_cnt part - (1 + 1 + DIV_ROUND_UP 4096 4096 + DIV_ROUND_UP (of_nat INODE_SIZE * 4096) 512)"

definition format_bit_len :: "partition \<Rightarrow> u32" where
  "format_bit_len part = format_free_sects part - DIV_ROUND_UP (format_free_sects part) 4096"

definition format_sb :: "partition \<Rightarrow> super_block" where
  "format_sb part =
     (let inode_bitmap_sects = DIV_ROUND_UP 4096 4096;
          inode_table_sects = DIV_ROUND_UP (of_nat INODE_SIZE * 4096) 512;
          block_bitmap_sects = DIV_ROUND_UP (format_bit_len part) 4096;
          part_lba_base = start_lba part;
          block_bitmap_lba = part_lba_base + 2;
          inode_bitmap_lba = block_bitmap_lba + block_bitmap_sects;
          inode_table_lba = inode_bitmap_lba + inode_bitmap_sects in
      \<lparr>sb_magic = 0x19590318, sb_sec_cnt = sec_cnt part, sb_inode_cnt = 4096, sb_part_lba_base = part_lba_base,
       sb_block_bitmap_lba = block_bitmap_lba, sb_block_bitmap_sects = block_bitmap_sects,
       sb_inode_bitmap_lba = inode_bitmap_lba, sb_inode_bitmap_sects = inode_bitmap_sects,
       sb_inode_table_lba = inode_table_lba, sb_inode_table_sects = inode_table_sects,
       sb_data_start_lba = inode_table_lba + inode_table_sects, sb_root_inode_no = 0,
       sb_dir_entry_size = of_nat DIR_ENTRY_SIZE\<rparr>)"

text \<open>The valid bits of the last byte of the map are cleared one by one, up to and including \<open>n\<close>.\<close>

fun clear_low_bits :: "nat \<Rightarrow> u8 \<Rightarrow> u8" where
  "clear_low_bits 0 b = b AND NOT 1"
| "clear_low_bits (Suc n) b = clear_low_bits n b AND NOT (push_bit (Suc n) 1)"

definition format_block_bitmap :: "u32 \<Rightarrow> u8 list \<Rightarrow> u8 list res" where
  "format_block_bitmap bit_len buf =
     (let buf1 = buf[0 := buf ! 0 OR 1];
          last_byte = unat (bit_len div 8); last_bit = unat (bit_len mod 8);
          last_size = 512 - last_byte mod 512 in
      bindR (buf_write last_byte (replicate last_size 0xff) buf1) (\<lambda>buf2.
      Inr (buf2[last_byte := clear_low_bits last_bit (buf2 ! last_byte)])))"

definition format_messages :: "partition \<Rightarrow> super_block \<Rightarrow> unit fsm" where
  "format_messages part b =
     bindM (printkM (part_name part @ '' info:'' @ NL)) (\<lambda>_.
     printkM (''   magic:0x'' @ hex (sb_magic b) @ NL @ ''   part_lba_base:0x'' @ hex (sb_part_lba_base b) @ NL @
       ''   all_sectors:0x'' @ hex (sb_sec_cnt b) @ NL @ ''   inode_cnt:0x'' @ hex (sb_inode_cnt b) @ NL @
       ''   block_bitmap_lba:0x'' @ hex (sb_block_bitmap_lba b) @ NL @
       ''   block_bitmap_sectors:0x'' @ hex (sb_block_bitmap_sects b) @ NL @
       ''   inode_bitmap_lba:0x'' @ hex (sb_inode_bitmap_lba b) @ NL @
       ''   inode_bitmap_sectors:0x'' @ hex (sb_inode_bitmap_sects b) @ NL @
       ''   inode_table_lba:0x'' @ hex (sb_inode_table_lba b) @ NL @
       ''   inode_table_sectors:0x'' @ hex (sb_inode_table_sects b) @ NL @
       ''   data_start_lba:0x'' @ hex (sb_data_start_lba b) @ NL))"

text \<open>The bytes \<open>pad\<close> are the member of the local \<^verbatim>\<open>sb\<close> that is never set.\<close>

definition partition_format :: "partition \<Rightarrow> u8 list \<Rightarrow> unit fsm" where
  "partition_format part pad =
     (let b = format_sb part;
          buf_size0 = (if sb_block_bitmap_sects b \<ge> sb_inode_bitmap_sects b then sb_block_bitmap_sects b else sb_inode_bitmap_sects b);
          buf_size = (if buf_size0 \<ge> sb_inode_table_sects b then buf_size0 else sb_inode_table_sects b) * 512;
          zero = replicate (unat buf_size) 0;
          root = \<lparr>i_no = 0, i_size = sb_dir_entry_size b * 2, i_open_cnts = 0, write_deny = False,
                  i_sectors = (replicate 13 0)[0 := sb_data_start_lba b]\<rparr> in
      bindM (format_messages part b) (\<lambda>_.
      bindM (disk_write (start_lba part + 1) (enc_sb b pad) 1) (\<lambda>_.
      bindM (printkM (''   super_block_lba:0x'' @ hex (start_lba part + 1) @ NL)) (\<lambda>_.
      bindM (sys_malloc_fs (unat buf_size)) (\<lambda>buf.
      if buf = 0 then failM (Bad_access ''buf[0]'')
      else
      bindM (liftM (format_block_bitmap (format_bit_len part) zero)) (\<lambda>bm.
      bindM (disk_write (sb_block_bitmap_lba b) bm (unat (sb_block_bitmap_sects b))) (\<lambda>_.
      bindM (disk_write (sb_inode_bitmap_lba b) (zero[0 := 1]) (unat (sb_inode_bitmap_sects b))) (\<lambda>_.
      bindM (liftM (buf_write 0 (enc_inode root) zero)) (\<lambda>itable.
      bindM (disk_write (sb_inode_table_lba b) itable (unat (sb_inode_table_sects b))) (\<lambda>_.
      bindM (liftM (buf_write 0 (take (2 * DIR_ENTRY_SIZE) (dot_entries 0 0)) zero)) (\<lambda>entries.
      bindM (disk_write (sb_data_start_lba b) entries 1) (\<lambda>_.
      bindM (printkM (''   root_dir_lba:0x'' @ hex (sb_data_start_lba b) @ NL)) (\<lambda>_.
      bindM (printkM (part_name part @ '' format done'' @ NL)) (\<lambda>_.
      sys_free_fs buf))))))))))))))"

section \<open>Mounting\<close>

definition bitmap_of_bytes :: "u8 list \<Rightarrow> bitmap" where
  "bitmap_of_bytes bs = \<lparr>btmp_bytes_len = of_nat (length bs), bits = (\<lambda>k. if unat k < length bs then bs ! unat k else 0)\<rparr>"

definition mount_partition :: "partition \<Rightarrow> string \<Rightarrow> bool fsm" where
  "mount_partition part nm =
     (if part_name part = nm then
        bindM (modM (\<lambda>s. s\<lparr>part_start_lba := start_lba part, part_sec_cnt := sec_cnt part\<rparr>)) (\<lambda>_.
        bindM (sys_malloc_fs 512) (\<lambda>sb_buf.
        bindM (sys_malloc_fs 512) (\<lambda>sbp.
        if sbp = 0 then failM (Panicked ''alloc memory failed!'')
        else
        bindM (assertM (sb_buf \<noteq> 0) ''dst_ != NULL'') (\<lambda>_.
        bindM (disk_read (start_lba part + 1) 1) (\<lambda>bs.
        let b = dec_sb bs in
        bindM (modM (\<lambda>s. s\<lparr>sb := b\<rparr>)) (\<lambda>_.
        bindM (sys_malloc_fs (unat (sb_block_bitmap_sects b * 512))) (\<lambda>bbits.
        if bbits = 0 then failM (Panicked ''alloc memory failed!'')
        else
        bindM (disk_read (sb_block_bitmap_lba b) (unat (sb_block_bitmap_sects b))) (\<lambda>bbm.
        bindM (modM (\<lambda>s. s\<lparr>block_bitmap := bitmap_of_bytes bbm\<rparr>)) (\<lambda>_.
        bindM (sys_malloc_fs (unat (sb_inode_bitmap_sects b * 512))) (\<lambda>ibits.
        if ibits = 0 then failM (Panicked ''alloc memory failed!'')
        else
        bindM (disk_read (sb_inode_bitmap_lba b) (unat (sb_inode_bitmap_sects b))) (\<lambda>ibm.
        bindM (modM (\<lambda>s. s\<lparr>inode_bitmap := bitmap_of_bytes ibm, open_inodes := []\<rparr>)) (\<lambda>_.
        bindM (printkM (''mount '' @ part_name part @ '' done!'' @ NL)) (\<lambda>_. returnM True)))))))))))))
      else returnM False)"

fun mount_first :: "partition list \<Rightarrow> string \<Rightarrow> bool fsm" where
  "mount_first [] nm = returnM False"
| "mount_first (part # parts) nm = bindM (mount_partition part nm) (\<lambda>done. if done then returnM True else mount_first parts nm)"

text \<open>
  \<^verbatim>\<open>filesys_init\<close>. Each list of \<open>dks\<close> has the 12 places for the partitions of the second disk of a
  channel; the variable \<^verbatim>\<open>part_idx\<close> is set to 0 once, before the loops.
\<close>

fun init_parts :: "string \<Rightarrow> partition list \<Rightarrow> u8 list \<Rightarrow> unit fsm" where
  "init_parts hd' [] pad = returnM ()"
| "init_parts hd' (part # parts) pad =
     bindM (if sec_cnt part \<noteq> 0 then
         bindM (disk_read (start_lba part + 1) 1) (\<lambda>bs.
         if sb_magic (dec_sb bs) = 0x19590318 then printkM (part_name part @ '' has filesystem'' @ NL)
         else
           bindM (printkM (''formatting '' @ hd' @ ''`s partition '' @ part_name part @ ''......'' @ NL)) (\<lambda>_.
           partition_format part pad))
       else returnM ()) (\<lambda>_. init_parts hd' parts pad)"

fun init_disks :: "nat \<Rightarrow> (string \<times> partition list) list \<Rightarrow> u8 list \<Rightarrow> unit fsm" where
  "init_disks part_idx [] pad = returnM ()"
| "init_disks part_idx ((hd', parts) # dks) pad =
     bindM (init_parts hd' (take (12 - part_idx) parts) pad) (\<lambda>_. init_disks 12 dks pad)"

definition filesys_init :: "(string \<times> partition list) list \<Rightarrow> partition list \<Rightarrow> u8 list \<Rightarrow> unit fsm" where
  "filesys_init dks plist pad =
     bindM (sys_malloc_fs 512) (\<lambda>sb_buf.
     if sb_buf = 0 then failM (Panicked ''alloc memory failed!'')
     else
     bindM (printkM (''searching filesystem......'' @ NL)) (\<lambda>_.
     bindM (init_disks 0 dks pad) (\<lambda>_.
     bindM (sys_free_fs sb_buf) (\<lambda>_.
     bindM (mount_first plist ''sdb1'') (\<lambda>mounted.
     if \<not> mounted then failM (Bad_access ''cur_part->sb'')
     else
     bindM open_root_dir (\<lambda>_.
     modM (\<lambda>s. s\<lparr>file_table := map (\<lambda>f. f\<lparr>fd_inode := 0\<rparr>) (file_table s)\<rparr>)))))))"

end
