(* ===== verification/PartScan.thy ===== *)
theory PartScan
  imports Ide
begin

text \<open>
  The partitions that the driver finds on a disk (\<^verbatim>\<open>partition_scan\<close> of \<^verbatim>\<open>device/ide.c\<close>): the lemmas follow the scan
  through the main boot sector and along a chain of extended partitions, and show that it ends and which
  partitions it enters in the tables of the disk and in \<^verbatim>\<open>partition_list\<close>.
\<close>

lemma quiet_facts:
  assumes "quiet s s'"
  shows "disks s' = disks s" "partition_list s' = partition_list s" "l_no s' = l_no s" "p_no s' = p_no s"
    "ext_lba_base s' = ext_lba_base s"
  using assms by (auto simp: quiet_def)

lemma ide_read_one:
  assumes "disk_ok ops v hd' s" "lba \<le> max_lba"
  obtains s' where "ide_read ops hd' lba 1 s = Inr (v_media v (hw s) (dev_no (disks s ! hd')) lba, s')"
    "v_media v (hw s') = v_media v (hw s)" "quiet s s'" "disk_ok ops v hd' s'"
  using ide_read_run [OF assms] by blast

section \<open>Chains of extended partitions\<close>

definition data_entry :: "partition_table_entry \<Rightarrow> bool" where
  "data_entry e \<longleftrightarrow> fs_type e \<noteq> 0 \<and> fs_type e \<noteq> 5"

text \<open>
  The chain that starts at the boot sector \<open>lba\<close>: each boot sector of the chain has an entry for a logical
  partition and, if it is not the last, an entry of type 5 for the next boot sector, relative to \<open>base\<close>. The list
  has the boot sectors with the entries of their logical partitions.
\<close>

fun ebr_chain :: "(u32 \<Rightarrow> u8 list) \<Rightarrow> u32 \<Rightarrow> u32 \<Rightarrow> (u32 \<times> partition_table_entry) list \<Rightarrow> bool" where
  "ebr_chain m base lba [] \<longleftrightarrow> False"
| "ebr_chain m base lba [(a, e)] \<longleftrightarrow> a = lba \<and> lba \<noteq> 0 \<and> lba \<le> max_lba \<and> data_entry e \<and>
     (\<exists>zs. boot_table (m lba) = e # zs \<and> (\<forall>z\<in>set zs. fs_type z = 0))"
| "ebr_chain m base lba ((a, e) # es) \<longleftrightarrow> a = lba \<and> lba \<noteq> 0 \<and> lba \<le> max_lba \<and> data_entry e \<and>
     (\<exists>x zs. boot_table (m lba) = e # x # zs \<and> fs_type x = 5 \<and> (\<forall>z\<in>set zs. fs_type z = 0) \<and>
       ebr_chain m base (pe_start_lba x + base) es)"

definition logic_part :: "nat \<Rightarrow> string \<Rightarrow> nat \<Rightarrow> u32 \<times> partition_table_entry \<Rightarrow> partition" where
  "logic_part hd' nm n = (\<lambda>(a, e). \<lparr>start_lba = a + pe_start_lba e, sec_cnt = pe_sec_cnt e, my_disk = hd',
     part_name = nm @ num (of_nat n + 5)\<rparr>)"

definition prim_part :: "nat \<Rightarrow> string \<Rightarrow> nat \<Rightarrow> partition_table_entry \<Rightarrow> partition" where
  "prim_part hd' nm n e = \<lparr>start_lba = pe_start_lba e, sec_cnt = pe_sec_cnt e, my_disk = hd', part_name = nm @ num (of_nat n + 1)\<rparr>"

text \<open>The partitions \<open>ps\<close> are in the places from \<open>n\<close> on of a table.\<close>

definition placed :: "nat \<Rightarrow> 'p list \<Rightarrow> 'p list \<Rightarrow> 'p list" where
  "placed n ps tab = take n tab @ ps @ drop (n + length ps) tab"

lemma placed_Nil [simp]: "placed n [] tab = tab"
  by (simp add: placed_def)

lemma placed_Cons: "n < length tab \<Longrightarrow> placed (Suc n) ps (tab[n := p]) = placed n (p # ps) tab"
  by (simp add: placed_def take_Suc_conv_app_nth drop_update_swap)

lemma placed_length: "n + length ps \<le> length tab \<Longrightarrow> length (placed n ps tab) = length tab"
  by (simp add: placed_def)

text \<open>What a chain adds.\<close>

definition logics_added :: "'d ata \<Rightarrow> 'd ata_view \<Rightarrow> nat \<Rightarrow> (u32 \<times> partition_table_entry) list \<Rightarrow> 'd ide \<Rightarrow> 'd ide \<Rightarrow> bool" where
  "logics_added ops v hd' es s s' \<longleftrightarrow> (let l = unat (l_no s); n = length es; d = disks s ! hd' in
     disks s' = (disks s)[hd' := d\<lparr>logic_parts := placed l (map (\<lambda>i. logic_part hd' (hd_name d) (l + i) (es ! i)) [0..<n]) (logic_parts d)\<rparr>] \<and>
     partition_list s' = partition_list s @ map (Logic hd') [l..<l + n] \<and> unat (l_no s') = l + n \<and> p_no s' = p_no s \<and>
     ext_lba_base s' = ext_lba_base s \<and> v_media v (hw s') = v_media v (hw s) \<and> disk_ok ops v hd' s')"

lemma scan_empty: "\<forall>z\<in>set zs. fs_type z = 0 \<Longrightarrow> scan_entries ops hd' lba zs s = returnX s"
proof (induction zs)
  case (Cons z zs)
  then show ?case by (subst scan_entries.simps) simp
qed (subst scan_entries.simps, simp)

lemma add_logic_run:
  assumes "unat (l_no s) < 8" "length (logic_parts (disks s ! hd')) = 8" "hd' < length (disks s)"
  shows "add_logic hd' a e s = Inr ((), s\<lparr>disks := (disks s)[hd' := (disks s ! hd')\<lparr>logic_parts :=
      (logic_parts (disks s ! hd'))[unat (l_no s) := logic_part hd' (hd_name (disks s ! hd')) (unat (l_no s)) (a, e)]\<rparr>],
      partition_list := partition_list s @ [Logic hd' (unat (l_no s))], l_no := l_no s + 1\<rparr>)"
  using assms by (simp add: add_logic_def upd_disk_def stm_defs Let_def logic_part_def)

lemma disk_ok_disks:
  assumes "disk_ok ops v hd' s" "hw s' = hw s" "channels s' = channels s"
    "my_channel (disks s' ! hd') = my_channel (disks s ! hd')" "dev_no (disks s' ! hd') = dev_no (disks s ! hd')"
  shows "disk_ok ops v hd' s'"
  using assms by (simp add: disk_ok_def chan_rest_def chan_def)

lemma map_upt_Cons: "map (\<lambda>i. f (l + i) ((x # es) ! i)) [0..<Suc (length es)] = f l x # map (\<lambda>i. f (Suc l + i) (es ! i)) [0..<length es]"
proof -
  have "[0..<Suc (length es)] = 0 # map Suc [0..<length es]" by (simp only: map_Suc_upt) (rule upt_conv_Cons, simp)
  then show ?thesis by (simp add: comp_def del: upt_Suc)
qed

lemma logics_added_Cons:
  assumes one: "logics_added ops v hd' [x] s s2" and rest: "logics_added ops v hd' es s2 s3"
    and b: "unat (l_no s) < length (logic_parts (disks s ! hd'))" "hd' < length (disks s)"
  shows "logics_added ops v hd' (x # es) s s3"
proof -
  let ?l = "unat (l_no s)" and ?d = "disks s ! hd'"
  let ?p = "\<lambda>n. logic_part hd' (hd_name ?d) n"
  have one': "disks s2 = (disks s)[hd' := ?d\<lparr>logic_parts := (logic_parts ?d)[?l := ?p ?l x]\<rparr>]" "unat (l_no s2) = Suc ?l"
    "partition_list s2 = partition_list s @ [Logic hd' ?l]"
    using one placed_Cons [OF b(1), of "[]"] by (simp_all add: logics_added_def Let_def)
  have pl: "placed (Suc ?l) (map (\<lambda>i. ?p (Suc ?l + i) (es ! i)) [0..<length es]) ((logic_parts ?d)[?l := ?p ?l x]) =
      placed ?l (map (\<lambda>i. ?p (?l + i) ((x # es) ! i)) [0..<length (x # es)]) (logic_parts ?d)"
    using placed_Cons [OF b(1)] map_upt_Cons [of ?p ?l x es] by simp
  have up: "[?l..<?l + length (x # es)] = ?l # [Suc ?l..<Suc ?l + length es]" by (subst upt_conv_Cons) simp_all
  show ?thesis unfolding logics_added_def Let_def pl [symmetric] up
    using rest one one' b by (simp add: logics_added_def Let_def)
qed

lemma add_logic_added:
  assumes d: "disk_ok ops v hd' s" and l: "unat (l_no s) < 8" "length (logic_parts (disks s ! hd')) = 8" "hd' < length (disks s)"
  shows "\<exists>s2. add_logic hd' a e s = Inr ((), s2) \<and> logics_added ops v hd' [(a, e)] s s2"
proof -
  let ?n = "unat (l_no s)"
  let ?s2 = "s\<lparr>disks := (disks s)[hd' := (disks s ! hd')\<lparr>logic_parts :=
      (logic_parts (disks s ! hd'))[?n := logic_part hd' (hd_name (disks s ! hd')) ?n (a, e)]\<rparr>],
      partition_list := partition_list s @ [Logic hd' ?n], l_no := l_no s + 1\<rparr>"
  have "unat (l_no s + 1) = ?n + 1" using l(1) by (subst unat_add_lt) simp_all
  moreover have "disk_ok ops v hd' ?s2" by (rule disk_ok_disks [OF d]) (use l in simp_all)
  ultimately have "logics_added ops v hd' [(a, e)] s ?s2"
    using l placed_Cons [of ?n "logic_parts (disks s ! hd')" "[]"] by (simp add: logics_added_def Let_def)
  then show ?thesis using add_logic_run [OF l] by blast
qed

lemma logics_added_quiet: "quiet s s1 \<Longrightarrow> v_media v (hw s1) = v_media v (hw s) \<Longrightarrow> logics_added ops v hd' es s1 s2 \<Longrightarrow> logics_added ops v hd' es s s2"
  using quiet_facts [of s s1] by (simp add: logics_added_def)

lemma scan_data:
  assumes "data_entry e" "lba \<noteq> 0" "add_logic hd' lba e s = Inr ((), s2)"
  shows "scan_entries ops hd' lba (e # zs) s = (if l_no s2 \<ge> 8 then returnX s2 else scan_entries ops hd' lba zs s2)"
  using assms by (subst scan_entries.simps) (simp add: data_entry_def)

lemma scan_extended:
  assumes "fs_type x = 5" "ext_lba_base s \<noteq> 0"
  shows "scan_entries ops hd' lba (x # zs) s =
    bindX (partition_scan ops hd' (pe_start_lba x + ext_lba_base s) s) (scan_entries ops hd' lba zs)"
proof -
  have "bindX (bindX a (\<lambda>(bs, s2). f bs s2)) g = bindX a (\<lambda>(bs, s2). bindX (f bs s2) g)"
    for a :: "(u8 list \<times> 'a ide) run" and f and g :: "'a ide \<Rightarrow> ('a ide) run"
    by (simp add: bindX_def split: option.splits sum.splits)
  then show ?thesis using assms unfolding partition_scan_def by (subst scan_entries.simps) simp
qed

lemma logics_added_facts:
  assumes "logics_added ops v hd' es s s'" "hd' < length (disks s)" "unat (l_no s) + length es \<le> length (logic_parts (disks s ! hd'))"
  shows "hd' < length (disks s')" "length (logic_parts (disks s' ! hd')) = length (logic_parts (disks s ! hd'))"
    "dev_no (disks s' ! hd') = dev_no (disks s ! hd')" "ext_lba_base s' = ext_lba_base s" "disk_ok ops v hd' s'"
    "v_media v (hw s') = v_media v (hw s)" "unat (l_no s') = unat (l_no s) + length es" "p_no s' = p_no s"
  using assms by (simp_all add: logics_added_def Let_def placed_length)

lemma chain_run:
  assumes "ebr_chain (v_media v (hw s) (dev_no (disks s ! hd'))) base lba es" "disk_ok ops v hd' s" "ext_lba_base s = base" "base \<noteq> 0"
    "length (logic_parts (disks s ! hd')) = 8" "unat (l_no s) + length es \<le> 8" "hd' < length (disks s)"
  shows "\<exists>s'. partition_scan ops hd' lba s = returnX s' \<and> logics_added ops v hd' es s s'"
  using assms
proof (induction es arbitrary: lba s)
  case (Cons x es)
  obtain a e where x: "x = (a, e)" by force
  let ?m = "v_media v (hw s) (dev_no (disks s ! hd'))"
  have c: "a = lba" "lba \<noteq> 0" "lba \<le> max_lba" "data_entry e" and b: "\<exists>es'. boot_table (?m lba) = e # es'"
    using Cons.prems(1) x by (cases es; auto)+
  obtain s1 where r1: "ide_read ops hd' lba 1 s = Inr (?m lba, s1)" "v_media v (hw s1) = v_media v (hw s)" "quiet s s1" "disk_ok ops v hd' s1"
    by (rule ide_read_one [OF Cons.prems(2) c(3)])
  note q = quiet_facts [OF r1(3)]
  have l1: "unat (l_no s1) < 8" "length (logic_parts (disks s1 ! hd')) = 8" "hd' < length (disks s1)"
    using Cons.prems q by simp_all
  obtain s2 where a2: "add_logic hd' lba e s1 = Inr ((), s2)" and l2: "logics_added ops v hd' [x] s1 s2"
    using add_logic_added [OF r1(4) l1] c(1) x by blast
  note f2 = logics_added_facts [OF l2 l1(3)]
  have f: "hd' < length (disks s2)" "length (logic_parts (disks s2 ! hd')) = 8" "dev_no (disks s2 ! hd') = dev_no (disks s ! hd')"
    "ext_lba_base s2 = base" "disk_ok ops v hd' s2" "v_media v (hw s2) = v_media v (hw s)" "unat (l_no s2) = Suc (unat (l_no s))"
    using f2 l1 q r1(2) Cons.prems(3) by simp_all
  have scan: "partition_scan ops hd' lba s = (if l_no s2 \<ge> 8 then returnX s2 else scan_entries ops hd' lba zs s2)"
    if "boot_table (?m lba) = e # zs" for zs
    using r1(1) scan_data [OF c(4,2) a2] that by (simp add: partition_scan_def)
  show ?case
  proof (cases es)
    case Nil
    then obtain zs where "boot_table (?m lba) = e # zs" "\<forall>z\<in>set zs. fs_type z = 0" using Cons.prems(1) x by auto
    then have "partition_scan ops hd' lba s = returnX s2" using scan by (simp add: scan_empty)
    then show ?thesis using logics_added_quiet [OF r1(3,2) l2] Nil by auto
  next
    case (Cons y ys)
    then obtain z zs where t: "boot_table (?m lba) = e # z # zs" "fs_type z = 5" "\<forall>z\<in>set zs. fs_type z = 0"
        "ebr_chain ?m base (pe_start_lba z + base) es"
      using Cons.prems(1) x by auto
    have "\<not> l_no s2 \<ge> 8" using Cons.prems(6) Cons f(7) by (simp add: word_le_nat_alt)
    then have "partition_scan ops hd' lba s = bindX (partition_scan ops hd' (pe_start_lba z + base) s2) (scan_entries ops hd' lba zs)"
      using scan [OF t(1)] scan_extended [OF t(2), of s2] f(4) Cons.prems(4) by simp
    moreover obtain s3 where "partition_scan ops hd' (pe_start_lba z + base) s2 = returnX s3" and l3: "logics_added ops v hd' es s2 s3"
      using Cons.IH [of s2 "pe_start_lba z + base"] t(4) f Cons.prems(4,6) by auto
    ultimately have "partition_scan ops hd' lba s = returnX s3" using scan_empty [OF t(3)] by simp
    moreover have "logics_added ops v hd' (x # es) s1 s3"
      by (rule logics_added_Cons [OF l2 l3]) (use l1 in simp_all)
    ultimately show ?thesis using logics_added_quiet [OF r1(3,2)] by blast
  qed
qed simp

section \<open>The main boot sector\<close>

definition prims_added :: "'d ata \<Rightarrow> 'd ata_view \<Rightarrow> nat \<Rightarrow> partition_table_entry list \<Rightarrow> 'd ide \<Rightarrow> 'd ide \<Rightarrow> bool" where
  "prims_added ops v hd' ps s s' \<longleftrightarrow> (let p = unat (p_no s); n = length ps; d = disks s ! hd' in
     disks s' = (disks s)[hd' := d\<lparr>prim_parts := placed p (map (\<lambda>i. prim_part hd' (hd_name d) (p + i) (ps ! i)) [0..<n]) (prim_parts d)\<rparr>] \<and>
     partition_list s' = partition_list s @ map (Prim hd') [p..<p + n] \<and> unat (p_no s') = p + n \<and> l_no s' = l_no s \<and>
     ext_lba_base s' = ext_lba_base s \<and> v_media v (hw s') = v_media v (hw s) \<and> disk_ok ops v hd' s')"

lemma add_prim_run:
  assumes "unat (p_no s) < 3" "length (prim_parts (disks s ! hd')) = 4" "hd' < length (disks s)"
  shows "add_prim hd' 0 e s = Inr ((), s\<lparr>disks := (disks s)[hd' := (disks s ! hd')\<lparr>prim_parts :=
      (prim_parts (disks s ! hd'))[unat (p_no s) := prim_part hd' (hd_name (disks s ! hd')) (unat (p_no s)) e]\<rparr>],
      partition_list := partition_list s @ [Prim hd' (unat (p_no s))], p_no := p_no s + 1\<rparr>)"
proof -
  have "unat (p_no s + 1) = unat (p_no s) + 1" using assms(1) by (subst unat_add_lt) simp_all
  then have "p_no s + 1 < 4" using assms(1) by (simp add: word_less_nat_alt)
  then show ?thesis using assms by (simp add: add_prim_def upd_disk_def stm_defs Let_def prim_part_def)
qed

lemma prims_run:
  assumes "\<forall>e\<in>set ps. data_entry e" "disk_ok ops v hd' s" "unat (p_no s) + length ps \<le> 3"
    "length (prim_parts (disks s ! hd')) = 4" "hd' < length (disks s)"
  shows "\<exists>s'. scan_entries ops hd' 0 (ps @ es) s = scan_entries ops hd' 0 es s' \<and> prims_added ops v hd' ps s s'"
  using assms
proof (induction ps arbitrary: s)
  case Nil
  then show ?case by (intro exI [of _ s]) (simp add: prims_added_def Let_def)
next
  case (Cons e ps)
  let ?n = "unat (p_no s)" and ?d = "disks s ! hd'"
  let ?p = "\<lambda>n. prim_part hd' (hd_name ?d) n"
  let ?s2 = "s\<lparr>disks := (disks s)[hd' := ?d\<lparr>prim_parts := (prim_parts ?d)[?n := ?p ?n e]\<rparr>],
      partition_list := partition_list s @ [Prim hd' ?n], p_no := p_no s + 1\<rparr>"
  have n: "?n < 3" using Cons.prems(3) by simp
  have u: "unat (p_no s + 1) = Suc ?n" using n by (subst unat_add_lt) simp_all
  have "scan_entries ops hd' 0 ((e # ps) @ es) s = scan_entries ops hd' 0 (ps @ es) ?s2"
    using Cons.prems(1) add_prim_run [OF n Cons.prems(4,5)] by (subst scan_entries.simps) (simp add: data_entry_def)
  moreover have ok: "disk_ok ops v hd' ?s2" by (rule disk_ok_disks [OF Cons.prems(2)]) (use Cons.prems(5) in simp_all)
  ultimately obtain s' where s': "scan_entries ops hd' 0 ((e # ps) @ es) s = scan_entries ops hd' 0 es s'"
    "prims_added ops v hd' ps ?s2 s'"
    using Cons.IH [of ?s2] Cons.prems u by auto
  have pl: "placed (Suc ?n) (map (\<lambda>i. ?p (Suc ?n + i) (ps ! i)) [0..<length ps]) ((prim_parts ?d)[?n := ?p ?n e]) =
      placed ?n (map (\<lambda>i. ?p (?n + i) ((e # ps) ! i)) [0..<length (e # ps)]) (prim_parts ?d)"
    using placed_Cons [of ?n "prim_parts ?d"] map_upt_Cons [of ?p ?n e ps] n Cons.prems(4) by simp
  have up: "[?n..<?n + length (e # ps)] = ?n # [Suc ?n..<Suc ?n + length ps]" by (subst upt_conv_Cons) simp_all
  have "prims_added ops v hd' (e # ps) s s'"
    unfolding prims_added_def Let_def pl [symmetric] up using s'(2) u Cons.prems(5) by (simp add: prims_added_def Let_def)
  with s'(1) show ?case by blast
qed

lemma scan_first_extended:
  assumes "fs_type x = 5" "ext_lba_base s = 0" "pe_start_lba x \<noteq> 0"
  shows "scan_entries ops hd' lba (x # zs) s =
    bindX (partition_scan ops hd' (pe_start_lba x) (s\<lparr>ext_lba_base := pe_start_lba x\<rparr>)) (scan_entries ops hd' lba zs)"
proof -
  have "bindX (bindX a (\<lambda>(bs, s2). f bs s2)) g = bindX a (\<lambda>(bs, s2). bindX (f bs s2) g)"
    for a :: "(u8 list \<times> 'a ide) run" and f and g :: "'a ide \<Rightarrow> ('a ide) run"
    by (simp add: bindX_def split: option.splits sum.splits)
  then show ?thesis using assms unfolding partition_scan_def by (subst scan_entries.simps) simp
qed

lemma placed_nth: "i < length ps \<Longrightarrow> placed 0 ps tab ! i = ps ! i"
  by (simp add: placed_def nth_append)

lemma boot_lba: "(0 :: u32) \<le> max_lba"
  by simp

text \<open>
  C27. The partitions of a disk. Let the main boot sector have at most three primary partitions and an extended
  partition, from which a chain of at most eight logical partitions starts. The scan of the disk ends. It enters
  the primary partitions and then the logical ones, in their order, in the tables of the disk and at the end of
  \<^verbatim>\<open>partition_list\<close>, each with its absolute first sector, its number of sectors and its name, and it does not
  change the disk. The base of the extended partition is still set afterwards.
\<close>

theorem partition_scan_finds:
  assumes d: "disk_ok ops v hd' s" and m: "m = v_media v (hw s) (dev_no (disks s ! hd'))"
    and tab: "boot_table (m 0) = ps @ x # zs" "\<forall>e\<in>set ps. data_entry e" "length ps \<le> 3" "\<forall>z\<in>set zs. fs_type z = 0"
    and x: "fs_type x = 5" "pe_start_lba x \<noteq> 0" and chain: "ebr_chain m (pe_start_lba x) (pe_start_lba x) es" "length es \<le> 8"
    and s: "p_no s = 0" "l_no s = 0" "ext_lba_base s = 0" "hd' < length (disks s)"
      "length (prim_parts (disks s ! hd')) = 4" "length (logic_parts (disks s ! hd')) = 8"
  shows "\<exists>s'. partition_scan ops hd' 0 s = returnX s' \<and>
    partition_list s' = partition_list s @ map (Prim hd') [0..<length ps] @ map (Logic hd') [0..<length es] \<and>
    (\<forall>i<length ps. part_at s' (Prim hd' i) = prim_part hd' (hd_name (disks s ! hd')) i (ps ! i)) \<and>
    (\<forall>i<length es. part_at s' (Logic hd' i) = logic_part hd' (hd_name (disks s ! hd')) i (es ! i)) \<and>
    v_media v (hw s') = v_media v (hw s) \<and> ext_lba_base s' = pe_start_lba x"
proof -
  obtain s1 where r1: "ide_read ops hd' 0 1 s = Inr (m 0, s1)" "v_media v (hw s1) = v_media v (hw s)" "quiet s s1" "disk_ok ops v hd' s1"
    using ide_read_one [OF d boot_lba] m by metis
  note q = quiet_facts [OF r1(3)]
  obtain s2 where e2: "scan_entries ops hd' 0 (ps @ x # zs) s1 = scan_entries ops hd' 0 (x # zs) s2"
    and p2: "prims_added ops v hd' ps s1 s2"
    using prims_run [OF tab(2) r1(4), of "x # zs"] tab(3) s q by auto
  let ?s3 = "s2\<lparr>ext_lba_base := pe_start_lba x\<rparr>"
  have d2: "disks s2 = (disks s)[hd' := (disks s ! hd')\<lparr>prim_parts := placed 0 (map (\<lambda>i. prim_part hd' (hd_name (disks s ! hd')) i (ps ! i)) [0..<length ps]) (prim_parts (disks s ! hd'))\<rparr>]"
    "partition_list s2 = partition_list s @ map (Prim hd') [0..<length ps]" "l_no s2 = 0" "ext_lba_base s2 = 0"
    "v_media v (hw s2) = v_media v (hw s)" "disk_ok ops v hd' s2"
    using p2 s q r1(2) by (simp_all add: prims_added_def Let_def)
  have "disk_ok ops v hd' ?s3" by (rule disk_ok_disks [OF d2(6)]) simp_all
  then obtain s4 where e4: "partition_scan ops hd' (pe_start_lba x) ?s3 = returnX s4" and l4: "logics_added ops v hd' es ?s3 s4"
    using chain_run [of v ?s3 hd' "pe_start_lba x" "pe_start_lba x" es ops] chain x s d2 m by auto
  have "partition_scan ops hd' 0 s = returnX s4"
    using r1(1) tab(1) e2 scan_first_extended [OF x(1) d2(4) x(2)] e4 scan_empty [OF tab(4)] by (simp add: partition_scan_def)
  moreover have "part_at s4 (Prim hd' i) = prim_part hd' (hd_name (disks s ! hd')) i (ps ! i)" if "i < length ps" for i
    using l4 d2 s that by (simp add: placed_nth part_at_def logics_added_def Let_def)
  moreover have "part_at s4 (Logic hd' i) = logic_part hd' (hd_name (disks s ! hd')) i (es ! i)" if "i < length es" for i
    using l4 d2 s that by (simp add: placed_nth part_at_def logics_added_def Let_def)
  ultimately show ?thesis using l4 d2 by (simp add: logics_added_def Let_def)
qed

text \<open>
  Four primary partitions. The assertion behind the entry of a primary partition comes after the counter has
  been increased, so a disk with four primary partitions, which a boot sector may have, stops the kernel.
\<close>

theorem partition_scan_four:
  assumes d: "disk_ok ops v hd' s" and m: "m = v_media v (hw s) (dev_no (disks s ! hd'))"
    and tab: "\<forall>e\<in>set (boot_table (m 0)). data_entry e"
    and s: "p_no s = 0" "hd' < length (disks s)" "length (prim_parts (disks s ! hd')) = 4"
  shows "partition_scan ops hd' 0 s = Some (Inl (Assert_failed ''p_no < 4''))"
proof -
  have "length (boot_table (m 0)) = 4" by (simp add: boot_table_def)
  then obtain e1 e2 e3 e4 where t: "boot_table (m 0) = [e1, e2, e3] @ [e4]" by (auto simp: numeral_eq_Suc length_Suc_conv)
  obtain s1 where r1: "ide_read ops hd' 0 1 s = Inr (m 0, s1)" "quiet s s1" "disk_ok ops v hd' s1"
    using ide_read_one [OF d boot_lba] m by metis
  note q = quiet_facts [OF r1(2)]
  obtain s2 where e2: "scan_entries ops hd' 0 ([e1, e2, e3] @ [e4]) s1 = scan_entries ops hd' 0 [e4] s2"
    and p2: "prims_added ops v hd' [e1, e2, e3] s1 s2"
    using prims_run [OF _ r1(3), of "[e1, e2, e3]" "[e4]"] tab t s q by auto
  have "unat (p_no s2) = 3" "length (prim_parts (disks s2 ! hd')) = 4"
    using p2 s q by (simp_all add: prims_added_def Let_def placed_length)
  moreover from this(1) have "p_no s2 = 3" by (simp add: word_eq_unat_iff)
  moreover have "data_entry e4" using tab t by simp
  ultimately have "scan_entries ops hd' 0 [e4] s2 = Some (Inl (Assert_failed ''p_no < 4''))"
    by (subst scan_entries.simps) (simp add: data_entry_def add_prim_def upd_disk_def stm_defs Let_def)
  then show ?thesis using r1(1) t e2 by (simp add: partition_scan_def)
qed

section \<open>An example\<close>

definition enc_entry :: "partition_table_entry \<Rightarrow> u8 list" where
  "enc_entry e = [0, 0, 0, 0, fs_type e, 0, 0, 0] @ enc32 (pe_start_lba e) @ enc32 (pe_sec_cnt e)"

definition enc_boot :: "partition_table_entry list \<Rightarrow> u8 list" where
  "enc_boot es = replicate 446 0 @ concat (map enc_entry es) @ [0x55, 0xaa]"

lemma dec_enc_entry: "dec_entry (enc_entry e) = e"
  by (simp add: dec_entry_def enc_entry_def)

lemma enc_entry_length [simp]: "length (enc_entry e) = 16"
  by (simp add: enc_entry_def)

lemma boot_table_enc: "boot_table (enc_boot [a, b, c, d]) = [a, b, c, d]" "length (enc_boot [a, b, c, d]) = 512"
  by (simp_all add: boot_table_def enc_boot_def upt_rec dec_enc_entry)

definition prim_e :: partition_table_entry where "prim_e = \<lparr>fs_type = 0x83, pe_start_lba = 63, pe_sec_cnt = 100\<rparr>"
definition ext_e :: partition_table_entry where "ext_e = \<lparr>fs_type = 5, pe_start_lba = 200, pe_sec_cnt = 300\<rparr>"
definition logic_e :: partition_table_entry where "logic_e = \<lparr>fs_type = 0x66, pe_start_lba = 63, pe_sec_cnt = 50\<rparr>"
definition no_e :: partition_table_entry where "no_e = \<lparr>fs_type = 0, pe_start_lba = 0, pe_sec_cnt = 0\<rparr>"

definition disk_with :: "partition_table_entry list \<Rightarrow> drive ide" where
  "disk_with tab = ide_example\<lparr>hw := drive_zero\<lparr>dr_media := (\<lambda>dev k. if k = 0 then enc_boot tab
     else if k = 200 then enc_boot [logic_e, no_e, no_e, no_e] else replicate 512 0)\<rparr>\<rparr>"

lemma disk_with_ok: "disk_ok drive_ops drive_view 1 (disk_with tab)"
  using drive_ok by (simp add: disk_with_def disk_ok_def chan_def chan_rest_def Let_def del: One_nat_def)

lemma disk_with_facts:
  "p_no (disk_with tab) = 0" "l_no (disk_with tab) = 0" "ext_lba_base (disk_with tab) = 0" "1 < length (disks (disk_with tab))"
  "length (prim_parts (disks (disk_with tab) ! 1)) = 4" "length (logic_parts (disks (disk_with tab) ! 1)) = 8"
  "partition_list (disk_with tab) = []"
  by (simp_all add: disk_with_def ide_example_def intr_ctl.defs ide.defs)

lemma disk_with_media:
  "length (enc_boot tab) = 512 \<Longrightarrow> v_media drive_view (hw (disk_with tab)) dev 0 = enc_boot tab"
  "v_media drive_view (hw (disk_with tab)) dev 200 = enc_boot [logic_e, no_e, no_e, no_e]"
  using boot_table_enc(2) [of logic_e no_e no_e no_e] by (simp_all add: disk_with_def drive_view_def drive_media_def)

theorem partition_scan_finds_witness:
  "\<exists>s'. partition_scan drive_ops 1 0 (disk_with [prim_e, ext_e, no_e, no_e]) = returnX s' \<and>
     partition_list s' = [Prim 1 0, Logic 1 0] \<and> start_lba (part_at s' (Prim 1 0)) = 63 \<and> start_lba (part_at s' (Logic 1 0)) = 263"
proof -
  let ?s = "disk_with [prim_e, ext_e, no_e, no_e]"
  let ?m = "v_media drive_view (hw ?s) (dev_no (disks ?s ! 1))"
  have "boot_table (?m 0) = [prim_e] @ ext_e # [no_e, no_e]" by (simp add: disk_with_media boot_table_enc)
  moreover have "ebr_chain ?m (pe_start_lba ext_e) (pe_start_lba ext_e) [(200, logic_e)]"
    by (simp add: ext_e_def disk_with_media boot_table_enc data_entry_def max_lba_def) (simp add: logic_e_def no_e_def)
  ultimately show ?thesis
    using partition_scan_finds [OF disk_with_ok refl, of "[prim_e, ext_e, no_e, no_e]" "[prim_e]" ext_e "[no_e, no_e]" "[(200, logic_e)]"]
      disk_with_facts [of "[prim_e, ext_e, no_e, no_e]"]
    by (auto simp: data_entry_def prim_e_def ext_e_def no_e_def prim_part_def logic_part_def simp del: One_nat_def ebr_chain.simps)
      (auto simp: logic_e_def)
qed

theorem partition_scan_four_witness:
  "partition_scan drive_ops 1 0 (disk_with [prim_e, prim_e, prim_e, prim_e]) = Some (Inl (Assert_failed ''p_no < 4''))"
proof -
  have "\<forall>e\<in>set (boot_table (v_media drive_view (hw (disk_with [prim_e, prim_e, prim_e, prim_e]))
      (dev_no (disks (disk_with [prim_e, prim_e, prim_e, prim_e]) ! 1)) 0)). data_entry e"
    by (simp add: disk_with_media boot_table_enc data_entry_def) (simp add: prim_e_def)
  from partition_scan_four [OF disk_with_ok refl this] disk_with_facts show ?thesis by blast
qed

end
