(* ===== verification/FileData.thy ===== *)
theory FileData
  imports File
begin

text \<open>
  The contents of a file (\<^verbatim>\<open>file_read\<close> and \<^verbatim>\<open>file_write\<close> of \<^verbatim>\<open>fs/file.c\<close>). The bytes of a file are those of its
  blocks, in the order of the inode and of the table of indirect blocks, up to its size. The lemmas show that
  reading returns these bytes from the position of the descriptor on, that writing appends to them, and that a
  new block is never one that is in use.
\<close>

section \<open>Contents\<close>

definition file_blocks :: "fs \<Rightarrow> inode \<Rightarrow> u32 list" where
  "file_blocks s i = take 12 (i_sectors i) @ dec_words 128 (sectors s (i_sectors i ! 12))"

definition block_byte :: "fs \<Rightarrow> u32 list \<Rightarrow> nat \<Rightarrow> u8" where
  "block_byte s blks k = sectors s (blks ! (k div 512)) ! (k mod 512)"

definition file_bytes :: "fs \<Rightarrow> inode \<Rightarrow> u8 list" where
  "file_bytes s i = map (block_byte s (file_blocks s i)) [0..<unat (i_size i)]"

text \<open>The blocks up to that of the next byte are there; the table is there when they need it.\<close>

definition file_ok :: "fs \<Rightarrow> inode \<Rightarrow> bool" where
  "file_ok s i \<longleftrightarrow> length (i_sectors i) = 13 \<and> unat (i_size i) \<le> 71680 \<and>
     (\<forall>k\<le>unat (i_size i) div 512. file_blocks s i ! k \<le> max_lba) \<and>
     (12 \<le> unat (i_size i) div 512 \<longrightarrow> i_sectors i ! 12 \<noteq> 0 \<and> i_sectors i ! 12 \<le> max_lba)"

lemma file_blocks_length: "length (i_sectors i) = 13 \<Longrightarrow> length (file_blocks s i) = 140"
  by (simp add: file_blocks_def)

lemma file_blocks_direct: "length (i_sectors i) = 13 \<Longrightarrow> k < 12 \<Longrightarrow> file_blocks s i ! k = i_sectors i ! k"
  by (simp add: file_blocks_def nth_append)

lemma disk_read_sector: "lba \<le> max_lba \<Longrightarrow> disk_read lba (Suc 0) s = Inr (sectors s lba, s)"
  by (simp add: disk_read_def stm_defs)

lemma read_block_list_spec:
  assumes i: "length (i_sectors i) = 13" and k: "start \<le> e" "e < 140"
    and t: "12 \<le> e \<Longrightarrow> i_sectors i ! 12 \<noteq> 0 \<and> i_sectors i ! 12 \<le> max_lba"
  shows "\<exists>bl. read_block_list i start e s = Inr (bl, s) \<and> length bl = 140 \<and> (\<forall>k. start \<le> k \<longrightarrow> k \<le> e \<longrightarrow> bl ! k = file_blocks s i ! k)"
proof (cases "e < 12")
  case True
  then show ?thesis using i k
    by (auto simp: read_block_list_def Let_def stm_defs nth_append file_blocks_direct)
next
  case False
  then have "disk_read (i_sectors i ! 12) 1 s = Inr (sectors s (i_sectors i ! 12), s)" using t by (simp add: disk_read_sector)
  with False show ?thesis using i k t
    by (auto simp: read_block_list_def Let_def stm_defs nth_append file_blocks_def)
qed

section \<open>Reading\<close>

lemma pos_step:
  fixes pos :: u32
  assumes "unat pos + l \<le> 71680" "0 < l"
  shows "unat (pos + of_nat (chunk_of pos l)) = unat pos + chunk_of pos l"
    "\<And>k. k < chunk_of pos l \<Longrightarrow> (unat pos + k) div 512 = unat pos div 512 \<and> (unat pos + k) mod 512 = unat (pos mod 512) + k"
proof -
  have c: "chunk_of pos l \<le> l" "unat (pos mod 512) + chunk_of pos l \<le> 512" by (rule chunk_of_bounds)+
  then show "unat (pos + of_nat (chunk_of pos l)) = unat pos + chunk_of pos l"
    using assms by (subst unat_add_lt) (simp_all add: unat_of_nat_lt)
  fix k assume "k < chunk_of pos l"
  then have "unat pos mod 512 + k < 512" using c(2) by (simp add: unat_mod)
  moreover have "(512 * q + r) div 512 = q \<and> (512 * q + r) mod 512 = r" if "r < 512" for q r :: nat using that by simp
  ultimately have "(512 * (unat pos div 512) + (unat pos mod 512 + k)) div 512 = unat pos div 512 \<and>
      (512 * (unat pos div 512) + (unat pos mod 512 + k)) mod 512 = unat pos mod 512 + k" by blast
  moreover have "512 * (unat pos div 512) + (unat pos mod 512 + k) = unat pos + k" by simp
  ultimately show "(unat pos + k) div 512 = unat pos div 512 \<and> (unat pos + k) mod 512 = unat (pos mod 512) + k"
    by (simp only: unat_mod) simp
qed

lemma upd_file_run: "upd_file fd f s = Inr ((), s\<lparr>file_table := (file_table s)[fd := f (file_table s ! fd)]\<rparr>)"
  by (simp add: upd_file_def modM_def)

lemma read_loop_run:
  assumes "sect_ok s" "fd < length (file_table s)" "io_buf \<noteq> 0" "pos = fd_pos (file_table s ! fd)" "unat pos + l \<le> 71680"
    "\<forall>k. unat pos \<le> k \<longrightarrow> k < unat pos + l \<longrightarrow> k div 512 < length blks \<and> blks ! (k div 512) \<le> max_lba"
  shows "read_loop l acc blks io_buf fd s = Inr (acc @ map (block_byte s blks) [unat pos..<unat pos + l],
    s\<lparr>file_table := (file_table s)[fd := (file_table s ! fd)\<lparr>fd_pos := pos + of_nat l\<rparr>]\<rparr>)"
  using assms
proof (induction l arbitrary: acc s pos rule: less_induct)
  case (less l)
  show ?case
  proof (cases "l = 0")
    case True
    then show ?thesis using less.prems by (subst read_loop.simps) (simp add: stm_defs)
  next
    case False
    let ?c = "chunk_of pos l" and ?b = "blks ! unat (pos div 512)"
    have c: "0 < ?c" "?c \<le> l" "unat (pos mod 512) + ?c \<le> 512" using False chunk_of_bounds by blast+
    note p = pos_step [OF less.prems(5)]
    have b: "unat (pos div 512) < length blks" "?b \<le> max_lba"
      using less.prems(6) [rule_format, of "unat pos"] False by (simp_all add: unat_div)
    let ?s = "s\<lparr>file_table := (file_table s)[fd := (file_table s ! fd)\<lparr>fd_pos := pos + of_nat ?c\<rparr>]\<rparr>"
    let ?bs = "take ?c (drop (unat (pos mod 512)) (sectors s ?b))"
    have bs: "?bs = map (block_byte s blks) [unat pos..<unat pos + ?c]"
    proof (rule nth_equalityI)
      have len: "length (sectors s ?b) = 512" using less.prems(1) by (simp add: sect_ok_def)
      then show "length ?bs = length (map (block_byte s blks) [unat pos..<unat pos + ?c])" using c by simp
      fix k assume "k < length ?bs"
      then have "k < ?c" by simp
      then show "?bs ! k = map (block_byte s blks) [unat pos..<unat pos + ?c] ! k"
        using p(2) False len c by (simp add: block_byte_def unat_div)
    qed
    have step: "read_loop l acc blks io_buf fd s = read_loop (l - ?c) (acc @ ?bs) blks io_buf fd ?s"
      using less.prems(1,3,4) b c False disk_read_sector [OF b(2), of s]
      by (subst read_loop.simps) (simp add: stm_defs block_at_def Let_def buf_read_def sect_ok_def upd_file_run)
    have q: "unat (pos + of_nat ?c) = unat pos + ?c" using p(1) False by simp
    have "read_loop (l - ?c) (acc @ ?bs) blks io_buf fd ?s =
        Inr ((acc @ ?bs) @ map (block_byte ?s blks) [unat (pos + of_nat ?c)..<unat (pos + of_nat ?c) + (l - ?c)],
          ?s\<lparr>file_table := (file_table ?s)[fd := (file_table ?s ! fd)\<lparr>fd_pos := pos + of_nat ?c + of_nat (l - ?c)\<rparr>]\<rparr>)"
      using less.prems q c by (intro less.IH) (simp_all add: sect_ok_def)
    moreover have "block_byte ?s blks = block_byte s blks" by (simp add: block_byte_def fun_eq_iff)
    moreover have "[unat pos..<unat pos + l] = [unat pos..<unat pos + ?c] @ [unat pos + ?c..<unat pos + l]"
      using upt_add_eq_append [of "unat pos" "unat pos + ?c" "l - ?c"] c by simp
    moreover have "pos + of_nat ?c + of_nat (l - ?c) = pos + (of_nat l :: u32)" using c(2) by (simp add: of_nat_diff)
    ultimately show ?thesis using step bs q c less.prems(2) by simp
  qed
qed

lemma block_byte_cong:
  "(\<And>k. a \<le> k \<Longrightarrow> k < b \<Longrightarrow> bl ! (k div 512) = cl ! (k div 512)) \<Longrightarrow> map (block_byte s bl) [a..<b] = map (block_byte s cl) [a..<b]"
  by (simp add: block_byte_def)

lemma malloc_run: "malloc_ok s (mallocs s) \<Longrightarrow> sys_malloc_fs n s = Inr (mallocs s + 2,
    s\<lparr>mallocs := mallocs s + 1, live := (mallocs s + 2, pgdir (cur_task s) = NULL) # live s\<rparr>)"
  by (simp add: sys_malloc_fs_def)

lemma free_run: "p \<noteq> 0 \<Longrightarrow> live s = (p, pgdir (cur_task s) = NULL) # l \<Longrightarrow> sys_free_fs p s = Inr ((), s\<lparr>live := l\<rparr>)"
  by (simp add: sys_free_fs_def stm_defs Let_def)

lemma cur_task_fs [simp]:
  "cur_task (s\<lparr>mallocs := x\<rparr>) = cur_task s" "cur_task (s\<lparr>live := y\<rparr>) = cur_task s" "cur_task (s\<lparr>file_table := z\<rparr>) = cur_task s"
  "cur_task (s\<lparr>sectors := d\<rparr>) = cur_task s" "cur_task (s\<lparr>inodes := j\<rparr>) = cur_task s" "cur_task (s\<lparr>block_bitmap := b\<rparr>) = cur_task s"
  by (simp_all add: cur_task_def running_thread_def)

lemma file_read_run:
  assumes ok: "sect_ok s" "fd < length (file_table s)" "file_ok s i" and i: "i = inodes s (fd_inode f)" and f: "f = file_table s ! fd"
    and pos: "fd_pos f < i_size i" "unat (fd_pos f) + unat count < 2 ^ 32"
    and n: "n = min (unat count) (unat (i_size i) - unat (fd_pos f))" "(unat (fd_pos f) + n) div 512 < 139"
    and m: "malloc_ok s (mallocs s)" "malloc_ok s (mallocs s + 1)"
  shows "file_read fd count s = Inr ((of_nat n, take n (drop (unat (fd_pos f)) (file_bytes s i))),
    s\<lparr>mallocs := mallocs s + 2, file_table := (file_table s)[fd := f\<lparr>fd_pos := fd_pos f + of_nat n\<rparr>]\<rparr>)"
proof -
  let ?p = "fd_pos f" and ?k = "pgdir (cur_task s) = NULL" and ?q = "mallocs s + 2"
  have lt: "unat ?p < unat (i_size i)" "unat (i_size i) \<le> 71680" using pos(1) ok(3) by (simp_all add: word_less_nat_alt file_ok_def)
  have sum: "unat (?p + count) = unat ?p + unat count" using pos(2) by (simp add: unat_add_lt)
  define size' where "size' = (if ?p + count > i_size i then i_size i - ?p else count)"
  have sz: "unat size' = n" "size' = of_nat n" "\<not> (?p + count > i_size i \<and> size' = 0)"
  proof -
    have d: "unat (i_size i - ?p) = unat (i_size i) - unat ?p" using lt by (simp add: unat_sub_le)
    then show "unat size' = n" using lt sum n(1) by (auto simp: size'_def word_less_nat_alt)
    then show "size' = of_nat n" by auto
    show "\<not> (?p + count > i_size i \<and> size' = 0)"
    proof
      assume a: "?p + count > i_size i \<and> size' = 0"
      then have "unat (i_size i - ?p) = 0" by (auto simp: size'_def)
      then show False using d lt by simp
    qed
  qed
  have end': "unat ((?p + size') div 512) = (unat ?p + n) div 512" "unat (?p div 512) = unat ?p div 512"
    using sz(1) lt n(1) by (simp_all add: unat_div unat_add_lt)
  have le: "unat ?p div 512 \<le> (unat ?p + n) div 512" "(unat ?p + n) div 512 \<le> unat (i_size i) div 512"
    using n(1) lt by (simp_all add: div_le_mono)
  have t: "12 \<le> (unat ?p + n) div 512 \<Longrightarrow> i_sectors i ! 12 \<noteq> 0 \<and> i_sectors i ! 12 \<le> max_lba"
    using ok(3) le(2) by (simp add: file_ok_def)
  let ?s2 = "s\<lparr>mallocs := mallocs s + 2, live := (?q + 1, ?k) # (?q, ?k) # live s\<rparr>"
  have "length (i_sectors i) = 13" using ok(3) by (simp add: file_ok_def)
  moreover have "(unat ?p + n) div 512 < 140" using n(2) by simp
  ultimately obtain bl where bl: "read_block_list i (unat (?p div 512)) (unat ((?p + size') div 512)) ?s2 = Inr (bl, ?s2)" "length bl = 140"
    "\<And>k. unat ?p div 512 \<le> k \<Longrightarrow> k \<le> (unat ?p + n) div 512 \<Longrightarrow> bl ! k = file_blocks s i ! k"
    using read_block_list_spec [OF _ le(1) _ t, of ?s2] unfolding end' by (auto simp: file_blocks_def)
  have idx: "unat ?p div 512 \<le> k div 512 \<and> k div 512 \<le> (unat ?p + n) div 512" if "unat ?p \<le> k" "k < unat ?p + n" for k
    using that by (simp add: div_le_mono)
  have good: "\<forall>k. unat ?p \<le> k \<longrightarrow> k < unat ?p + n \<longrightarrow> k div 512 < length bl \<and> bl ! (k div 512) \<le> max_lba"
    using idx bl(2,3) n(2) le(2) ok(3) by (auto simp: file_ok_def)
  have "read_loop n [] bl ?q fd ?s2 = Inr (map (block_byte ?s2 bl) [unat ?p..<unat ?p + n],
      ?s2\<lparr>file_table := (file_table s)[fd := f\<lparr>fd_pos := ?p + of_nat n\<rparr>]\<rparr>)"
    using read_loop_run [of ?s2 fd ?q ?p n bl "[]"] ok f good lt n(1) by (simp add: sect_ok_def)
  moreover have "map (block_byte ?s2 bl) [unat ?p..<unat ?p + n] = take n (drop (unat ?p) (file_bytes s i))"
  proof -
    have "map (block_byte s bl) [unat ?p..<unat ?p + n] = map (block_byte s (file_blocks s i)) [unat ?p..<unat ?p + n]"
      by (rule block_byte_cong) (use idx bl(3) in auto)
    moreover have "take n (drop (unat ?p) [0..<unat (i_size i)]) = [unat ?p..<unat ?p + n]" using n(1) lt by (simp add: take_upt)
    ultimately show ?thesis by (simp add: file_bytes_def drop_map take_map block_byte_def)
  qed
  ultimately show ?thesis
    using m sz(1) bl(1) end' n(2) le(1) unfolding file_read_def
    by (simp only: bindM_getM f [symmetric] i [symmetric] Let_def size'_def [symmetric] sz(3) if_False)
      (simp add: stm_defs malloc_run free_run word_less_nat_alt sz(2) [symmetric])
qed

text \<open>
  C13. Reading a file. Let the descriptor be at a position in the file and let the two buffers of the call be
  allocated. A read returns the number of bytes that are asked for, or that the file still has if these are
  fewer, and exactly these bytes of the file from the position on, across blocks that the inode names and
  blocks of the table; the position moves behind them and, apart from the count of allocations, nothing else
  changes: the buffers are released. The last block that the call may touch is number 138.
\<close>

theorem file_read_reads:
  assumes ok: "sect_ok s" "fd < length (file_table s)" "file_ok s i" and i: "i = inodes s (fd_inode f)" and f: "f = file_table s ! fd"
    and pos: "fd_pos f < i_size i" "unat (fd_pos f) + unat count < 2 ^ 32"
    and n: "n = min (unat count) (unat (i_size i) - unat (fd_pos f))" "(unat (fd_pos f) + n) div 512 < 139"
    and m: "malloc_ok s (mallocs s)" "malloc_ok s (mallocs s + 1)"
  shows "file_read fd count s = Inr ((of_nat n, take n (drop (unat (fd_pos f)) (file_bytes s i))),
    s\<lparr>mallocs := mallocs s + 2, file_table := (file_table s)[fd := f\<lparr>fd_pos := fd_pos f + of_nat n\<rparr>]\<rparr>)"
  by (rule file_read_run [OF assms])

definition read_example :: fs where
  "read_example = fs_example\<lparr>sectors := (\<lambda>_. replicate 512 0)(3000 := [1, 2, 3, 4] @ replicate 508 0),
     inodes := (\<lambda>_. \<lparr>i_no = 7, i_size = 4, i_open_cnts = 1, write_deny = False, i_sectors = 3000 # replicate 12 0\<rparr>),
     file_table := [\<lparr>fd_pos = 1, fd_flag = 0, fd_inode = 5\<rparr>]\<rparr>"

theorem file_read_reads_witness:
  "file_read 0 10 read_example = Inr ((3, [2, 3, 4]),
     read_example\<lparr>mallocs := 2, file_table := [\<lparr>fd_pos = 4, fd_flag = 0, fd_inode = 5\<rparr>]\<rparr>)"
proof -
  let ?i = "\<lparr>i_no = 7, i_size = 4, i_open_cnts = 1, write_deny = False, i_sectors = 3000 # replicate 12 0\<rparr>"
  have "file_bytes read_example ?i = [1, 2, 3, 4]"
    by (simp add: file_bytes_def block_byte_def file_blocks_def read_example_def upt_rec)
  moreover have "sect_ok read_example" "file_ok read_example ?i"
    by (simp_all add: read_example_def sect_ok_def file_ok_def file_blocks_def max_lba_def)
  moreover have s: "file_table read_example = [\<lparr>fd_pos = 1, fd_flag = 0, fd_inode = 5\<rparr>]" "inodes read_example = (\<lambda>_. ?i)"
    "mallocs read_example = 0" "malloc_ok read_example = (\<lambda>_. True)"
    by (simp_all add: read_example_def)
  ultimately have "file_read 0 10 read_example = Inr ((of_nat 3, take 3 (drop (unat (fd_pos \<lparr>fd_pos = 1, fd_flag = 0, fd_inode = 5\<rparr>)) [1, 2, 3, 4])),
      read_example\<lparr>mallocs := mallocs read_example + 2, file_table := (file_table read_example)[0 := \<lparr>fd_pos = 1, fd_flag = 0, fd_inode = 5\<rparr>
        \<lparr>fd_pos := fd_pos \<lparr>fd_pos = 1, fd_flag = 0, fd_inode = 5\<rparr> + of_nat 3\<rparr>]\<rparr>)"
    by (subst file_read_reads [of read_example 0 ?i "\<lparr>fd_pos = 1, fd_flag = 0, fd_inode = 5\<rparr>" 10 3], simp_all only: s) simp_all
  then show ?thesis by (simp add: s)
qed

end
