(* ===== verification/FileWrite.thy ===== *)
theory FileWrite
  imports FileData
begin

text \<open>
  Appending to a file (\<^verbatim>\<open>file_write\<close> of \<^verbatim>\<open>fs/file.c\<close>, with the block allocator and \<^verbatim>\<open>bitmap_sync\<close>). The lemmas show
  that a new block is one whose bit was clear, that the write of the bitmap and of the inode touch no block of
  data, and that after a write the file has its old bytes followed by the new ones.
\<close>

section \<open>Geometry and blocks in use\<close>

text \<open>
  The areas of a mounted partition follow each other on the disk: the bitmap of blocks, the table of inodes,
  the blocks. Every block that the bitmap can name is on the disk.
\<close>

definition data_lba :: "fs \<Rightarrow> nat" where
  "data_lba s = unat (sb_data_start_lba (sb s))"

definition geom :: "fs \<Rightarrow> bool" where
  "geom s \<longleftrightarrow> table_ok s \<and> bm_ok (block_bitmap s) \<and> unat (btmp_bytes_len (block_bitmap s)) mod 512 = 0 \<and>
     unat (sb_block_bitmap_lba (sb s)) + unat (btmp_bytes_len (block_bitmap s)) div 512 \<le> unat (sb_inode_table_lba (sb s)) \<and>
     unat (sb_inode_table_lba (sb s)) + 608 \<le> data_lba s \<and> data_lba s + bm_size (block_bitmap s) \<le> unat max_lba + 1"

definition used_block :: "fs \<Rightarrow> u32 \<Rightarrow> bool" where
  "used_block s b \<longleftrightarrow> data_lba s \<le> unat b \<and> unat b - data_lba s \<in> bm_used (block_bitmap s)"

definition room :: "fs \<Rightarrow> nat \<Rightarrow> bool" where
  "room s n \<longleftrightarrow> n + card (bm_used (block_bitmap s)) \<le> bm_size (block_bitmap s)"

text \<open>Only the map of blocks and the disk below the blocks have changed.\<close>

definition map_step :: "fs \<Rightarrow> fs \<Rightarrow> bool" where
  "map_step s s' \<longleftrightarrow> (\<exists>d bm. s' = s\<lparr>sectors := d, block_bitmap := bm\<rparr> \<and> btmp_bytes_len bm = btmp_bytes_len (block_bitmap s)) \<and>
     sect_ok s' \<and> (\<forall>l. data_lba s \<le> unat l \<longrightarrow> sectors s' l = sectors s l)"

lemma data_block:
  assumes "geom s" "j < bm_size (block_bitmap s)"
  shows "unat (sb_data_start_lba (sb s) + of_nat j) = data_lba s + j" "sb_data_start_lba (sb s) + of_nat j \<le> max_lba"
    "sb_data_start_lba (sb s) + of_nat j \<noteq> -1"
proof -
  have lt: "data_lba s + j \<le> unat max_lba" using assms by (simp add: geom_def)
  then have "data_lba s + j < 2 ^ 32" using max_lba_less by simp
  then show u: "unat (sb_data_start_lba (sb s) + of_nat j) = data_lba s + j"
    unfolding data_lba_def by (subst unat_add_lt) (simp_all add: unat_of_nat_lt)
  then show "sb_data_start_lba (sb s) + of_nat j \<le> max_lba" using lt by (simp add: word_le_nat_alt)
  have "unat (-1 :: u32) = 4294967295" by (simp add: unsigned_minus_1_eq_mask mask_eq_exp_minus_1)
  then show "sb_data_start_lba (sb s) + of_nat j \<noteq> -1" using u lt max_lba_less by auto
qed

lemma geom_step: "geom s \<Longrightarrow> map_step s s' \<Longrightarrow> geom s' \<and> data_lba s' = data_lba s"
  by (auto simp: geom_def map_step_def data_lba_def table_ok_def bm_ok_def bm_size_def)

lemma block_alloc:
  assumes g: "geom s" and r: "room s (Suc n)"
  obtains b bm where "block_bitmap_alloc s = Inr (b, s\<lparr>block_bitmap := bm\<rparr>)" "\<not> used_block s b" "b \<le> max_lba" "b \<noteq> -1"
    "\<And>c. used_block (s\<lparr>block_bitmap := bm\<rparr>) c \<longleftrightarrow> c = b \<or> used_block s c" "btmp_bytes_len bm = btmp_bytes_len (block_bitmap s)"
    "room (s\<lparr>block_bitmap := bm\<rparr>) n" "b \<noteq> 0" "data_lba s \<le> unat b" "unat b < data_lba s + bm_size (block_bitmap s)"
proof -
  let ?bm = "block_bitmap s"
  have ok: "bm_ok ?bm" using g by (simp add: geom_def)
  have "\<not> bm_full ?bm"
  proof
    assume "bm_full ?bm"
    then have "card (bm_used ?bm) = bm_size ?bm" by (simp only: bm_full_iff card_lessThan)
    then show False using r unfolding room_def by linarith
  qed
  then obtain i where i: "i < bm_size ?bm" "bitmap_scan ?bm 1 = Inr (int i)" "\<not> bm_bit ?bm i"
    using scan_first_fit [OF ok] by blast
  obtain bm where bm: "bitmap_set ?bm (of_nat i) 1 = Inr bm" using bitmap_set_returns by blast
  have u: "unat (of_nat i :: u32) = i" using i(1) ok by (simp add: bm_ok_def unat_of_nat_lt)
  have used: "bm_used bm = insert i (bm_used ?bm)" "bm_size bm = bm_size ?bm" "i \<notin> bm_used ?bm"
    using bm_used_set [OF bm ok] u i bm_size_set [OF bm] by (simp_all add: bm_used_def)
  let ?b = "sb_data_start_lba (sb s) + of_nat i"
  note b = data_block [OF g i(1)]
  have run: "block_bitmap_alloc s = Inr (?b, s\<lparr>block_bitmap := bm\<rparr>)"
    using i(2) bm by (simp add: block_bitmap_alloc_def block_bitmap_set_def stm_defs)
  have iff: "used_block (s\<lparr>block_bitmap := bm\<rparr>) c \<longleftrightarrow> c = ?b \<or> used_block s c" for c
  proof -
    have "c = ?b \<longleftrightarrow> unat c = data_lba s + i" using b(1) by (simp add: word_eq_unat_iff)
    moreover have "(unat c = data_lba s + i) \<longleftrightarrow> data_lba s \<le> unat c \<and> unat c - data_lba s = i" by linarith
    ultimately show ?thesis using used(1) by (auto simp: used_block_def data_lba_def)
  qed
  have "finite (bm_used ?bm)" by (simp add: bm_used_def)
  then have room': "room (s\<lparr>block_bitmap := bm\<rparr>) n" using r used by (simp add: room_def)
  have "0 < data_lba s" using g by (auto simp: geom_def)
  then have "?b \<noteq> 0" using b(1) by (metis add_gr_0 less_irrefl unat_0)
  moreover have "btmp_bytes_len bm = btmp_bytes_len ?bm" using bitmap_set_cases [OF bm] by simp
  moreover have "\<not> used_block s ?b" "data_lba s \<le> unat ?b" "unat ?b < data_lba s + bm_size ?bm"
    unfolding used_block_def b(1) using used(3) i(1) by simp_all
  ultimately show ?thesis using that [OF run _ b(2,3) iff _ room'] by blast
qed

lemma bitmap_sync_run:
  assumes g: "geom s" and j: "j < bm_size (block_bitmap s)"
  obtains s' where "bitmap_sync (of_nat j) BLOCK_BITMAP s = Inr ((), s')" "map_step s s'" "block_bitmap s' = block_bitmap s"
proof -
  let ?bm = "block_bitmap s" and ?l = "sb_block_bitmap_lba (sb s)"
  let ?len = "unat (btmp_bytes_len ?bm)"
  have jl: "j < 2 ^ 31" "bm_size ?bm = 8 * ?len" using j g by (simp_all add: geom_def bm_ok_def bm_size_def)
  have q: "unat (of_nat j div 4096 :: u32) = j div 4096" using jl by (simp add: unat_div unat_of_nat_lt)
  have off: "unat ((of_nat j div 4096) * 512 :: u32) = j div 4096 * 512" using q jl by (subst unat_mult_lt) simp_all
  obtain m where m: "?len = 512 * m" using g by (auto simp: geom_def mod_eq_0_iff_dvd elim: dvdE)
  then have jm: "j div 4096 < m" using j jl(2) by (simp add: less_mult_imp_div_less)
  have lm: "unat ?l + m \<le> unat (sb_inode_table_lba (sb s))" "unat (sb_inode_table_lba (sb s)) + 608 \<le> data_lba s"
      "data_lba s \<le> unat max_lba + 1"
    using g m by (simp_all add: geom_def)
  have lba: "unat (?l + of_nat j div 4096) = unat ?l + j div 4096"
    using q lm jm max_lba_less by (subst unat_add_lt) simp_all
  let ?bs = "map (\<lambda>k. bits ?bm ((of_nat j div 4096) * 512 + of_nat k)) [0..<512]"
  let ?s = "s\<lparr>sectors := (sectors s)(?l + of_nat j div 4096 := ?bs)\<rparr>"
  have le: "?l + of_nat j div 4096 \<le> max_lba" using lba lm jm by (simp add: word_le_nat_alt)
  have "bitmap_sync (of_nat j) BLOCK_BITMAP s = Inr ((), ?s)"
    using off m jm le by (simp add: bitmap_sync_def Let_def stm_defs disk_write_def)
  moreover have "map_step s ?s"
  proof -
    have "sect_ok ?s" using g by (simp add: geom_def table_ok_def sect_ok_def)
    moreover have "sectors ?s l = sectors s l" if "data_lba s \<le> unat l" for l
      using that lba lm jm by auto
    moreover have "?s = s\<lparr>sectors := sectors ?s, block_bitmap := ?bm\<rparr>" by simp
    ultimately show ?thesis unfolding map_step_def by blast
  qed
  ultimately show ?thesis using that by simp
qed

section \<open>New blocks of a file\<close>

text \<open>The inode at \<open>p\<close> has the blocks \<open>secs\<close>; apart from that only the map and the disk below the blocks have changed.\<close>

definition grown :: "ptr \<Rightarrow> u32 list \<Rightarrow> fs \<Rightarrow> fs \<Rightarrow> bool" where
  "grown p secs s s' \<longleftrightarrow>
     (\<exists>d bm. s' = s\<lparr>sectors := d, block_bitmap := bm, inodes := (inodes s)(p := (inodes s p)\<lparr>i_sectors := secs\<rparr>)\<rparr> \<and>
        btmp_bytes_len bm = btmp_bytes_len (block_bitmap s)) \<and>
     sect_ok s' \<and> (\<forall>l. data_lba s \<le> unat l \<longrightarrow> sectors s' l = sectors s l)"

lemma grown_facts:
  assumes "grown p secs s s'"
  shows "inodes s' p = (inodes s p)\<lparr>i_sectors := secs\<rparr>" "sb s' = sb s" "data_lba s' = data_lba s" "sect_ok s'"
    "geom s \<Longrightarrow> geom s'" "bm_size (block_bitmap s') = bm_size (block_bitmap s)" "cur_task s' = cur_task s"
    "file_table s' = file_table s" "live s' = live s" "mallocs s' = mallocs s" "malloc_ok s' = malloc_ok s"
    "data_lba s \<le> unat l \<Longrightarrow> sectors s' l = sectors s l"
  using assms by (auto simp: grown_def data_lba_def geom_def table_ok_def bm_ok_def bm_size_def cur_task_def running_thread_def)

lemma grown_trans: "grown p a s s1 \<Longrightarrow> grown p b s1 s2 \<Longrightarrow> grown p b s s2"
proof -
  assume 1: "grown p a s s1" and 2: "grown p b s1 s2"
  note f = grown_facts [OF 1]
  obtain d bm where e1: "s1 = s\<lparr>sectors := d, block_bitmap := bm, inodes := (inodes s)(p := (inodes s p)\<lparr>i_sectors := a\<rparr>)\<rparr>"
    "btmp_bytes_len bm = btmp_bytes_len (block_bitmap s)" using 1 by (auto simp: grown_def)
  obtain d' bm' where e2: "s2 = s1\<lparr>sectors := d', block_bitmap := bm', inodes := (inodes s1)(p := (inodes s1 p)\<lparr>i_sectors := b\<rparr>)\<rparr>"
    "btmp_bytes_len bm' = btmp_bytes_len (block_bitmap s1)" using 2 by (auto simp: grown_def)
  have "s2 = s\<lparr>sectors := d', block_bitmap := bm', inodes := (inodes s)(p := (inodes s p)\<lparr>i_sectors := b\<rparr>)\<rparr>"
    "btmp_bytes_len bm' = btmp_bytes_len (block_bitmap s)"
    unfolding e2(1) using e1 e2(2) by simp_all
  moreover have "sectors s2 l = sectors s l" if "data_lba s \<le> unat l" for l
    using that f(3,12) grown_facts(12) [OF 2] by simp
  ultimately show ?thesis using 2 unfolding grown_def by blast
qed

lemma map_step_grown: "map_step s s' \<Longrightarrow> grown p (i_sectors (inodes s p)) s s'"
  by (auto simp: map_step_def grown_def)

definition put_at :: "nat \<Rightarrow> 'a list \<Rightarrow> 'a list \<Rightarrow> 'a list" where
  "put_at n ps xs = map (\<lambda>k. if n \<le> k \<and> k < n + length ps then ps ! (k - n) else xs ! k) [0..<length xs]"

lemma put_at_simps [simp]: "length (put_at n ps xs) = length xs" "put_at n [] xs = xs"
proof -
  show "length (put_at n ps xs) = length xs" by (simp add: put_at_def)
  show "put_at n [] xs = xs" by (rule nth_equalityI) (auto simp: put_at_def)
qed

lemma put_at_nth: "k < length xs \<Longrightarrow> put_at n ps xs ! k = (if n \<le> k \<and> k < n + length ps then ps ! (k - n) else xs ! k)"
  by (simp add: put_at_def)

lemma put_at_Cons: "n < length xs \<Longrightarrow> put_at n (b # ps) xs = put_at (Suc n) ps (xs[n := b])"
proof (rule nth_equalityI)
  fix k assume "n < length xs" "k < length (put_at n (b # ps) xs)"
  then show "put_at n (b # ps) xs ! k = put_at (Suc n) ps (xs[n := b]) ! k"
    by (cases "k = n") (auto simp: put_at_nth nth_Cons' Suc_le_eq)
qed simp

lemma set_sector_run: "set_sector p idx b s = Inr ((), s\<lparr>inodes := (inodes s)(p := (inodes s p)\<lparr>i_sectors := (i_sectors (inodes s p))[idx := b]\<rparr>)\<rparr>)"
  by (simp add: set_sector_def upd_inode_def modM_def)

lemma bitmap_sync_block:
  assumes "geom s" "data_lba s \<le> unat b" "unat b < data_lba s + bm_size (block_bitmap s)"
  obtains s' where "bitmap_sync (b - sb_data_start_lba (sb s)) BLOCK_BITMAP s = Inr ((), s')" "map_step s s'" "block_bitmap s' = block_bitmap s"
proof -
  have "unat (b - sb_data_start_lba (sb s)) = unat b - data_lba s" using assms(2) unfolding data_lba_def by (simp add: unat_sub_le)
  then have eq: "b - sb_data_start_lba (sb s) = of_nat (unat b - data_lba s)" by (metis of_nat_unat ucast_id)
  have "unat b - data_lba s < bm_size (block_bitmap s)" using assms(2,3) by linarith
  from bitmap_sync_run [OF assms(1) this] that show ?thesis unfolding eq by blast
qed

lemma alloc_one:
  assumes g: "geom s" and r: "room s (Suc n)" and z: "idx < 12 \<longrightarrow> i_sectors (inodes s p) ! idx = 0"
  obtains b s' where
    "bindM block_bitmap_alloc (\<lambda>block_lba. if block_lba = -1 then e else
      bindM (if idx < 12 then
         bindM (getM (\<lambda>s. i_sectors (inodes s p) ! idx)) (\<lambda>old.
         bindM (assertM (old = 0) w) (\<lambda>_. set_sector p idx block_lba))
       else returnM ()) (\<lambda>_.
      bindM (getM (\<lambda>s. block_lba - sb_data_start_lba (sb s))) (\<lambda>block_bitmap_idx.
      bindM (bitmap_sync block_bitmap_idx BLOCK_BITMAP) (f block_lba)))) s = f b () s'"
    "grown p (if idx < 12 then (i_sectors (inodes s p))[idx := b] else i_sectors (inodes s p)) s s'"
    "\<not> used_block s b" "b \<le> max_lba" "b \<noteq> 0" "\<forall>c. used_block s' c \<longleftrightarrow> c = b \<or> used_block s c" "room s' n" "data_lba s \<le> unat b"
proof -
  obtain b bm where b: "block_bitmap_alloc s = Inr (b, s\<lparr>block_bitmap := bm\<rparr>)" "\<not> used_block s b" "b \<le> max_lba" "b \<noteq> -1"
    "\<And>c. used_block (s\<lparr>block_bitmap := bm\<rparr>) c \<longleftrightarrow> c = b \<or> used_block s c" "btmp_bytes_len bm = btmp_bytes_len (block_bitmap s)"
    "room (s\<lparr>block_bitmap := bm\<rparr>) n" "b \<noteq> 0" "data_lba s \<le> unat b" "unat b < data_lba s + bm_size (block_bitmap s)"
    using block_alloc [OF g r] by metis
  let ?secs = "if idx < 12 then (i_sectors (inodes s p))[idx := b] else i_sectors (inodes s p)"
  let ?s1 = "s\<lparr>block_bitmap := bm, inodes := (inodes s)(p := (inodes s p)\<lparr>i_sectors := ?secs\<rparr>)\<rparr>"
  have "sect_ok s" using g by (simp add: geom_def table_ok_def)
  then have g1: "grown p ?secs s ?s1" using b(6) unfolding grown_def
    by (intro conjI exI [of _ "sectors s"] exI [of _ bm]) (simp_all add: sect_ok_def)
  note f1 = grown_facts [OF g1]
  obtain s2 where s2: "bitmap_sync (b - sb_data_start_lba (sb ?s1)) BLOCK_BITMAP ?s1 = Inr ((), s2)" "map_step ?s1 s2" "block_bitmap s2 = bm"
    using bitmap_sync_block [OF f1(5) [OF g], of b] b(9,10) f1(3,6) by auto
  have g2: "grown p ?secs s s2" using grown_trans [OF g1] map_step_grown [OF s2(2), of p] by simp
  moreover have "used_block s2 c \<longleftrightarrow> c = b \<or> used_block s c" for c
    using b(5) [of c] grown_facts(3) [OF g2] s2(3) by (simp add: used_block_def data_lba_def)
  moreover have "room s2 n" using b(7) s2(3) by (simp add: room_def)
  moreover have set': "(if idx < 12 then bindM (getM (\<lambda>s. i_sectors (inodes s p) ! idx)) (\<lambda>old.
         bindM (assertM (old = 0) w) (\<lambda>_. set_sector p idx b)) else returnM ()) (s\<lparr>block_bitmap := bm\<rparr>) = Inr ((), ?s1)"
    using z by (simp add: stm_defs set_sector_run)
  moreover have "bindM block_bitmap_alloc (\<lambda>block_lba. if block_lba = -1 then e else
      bindM (if idx < 12 then
         bindM (getM (\<lambda>s. i_sectors (inodes s p) ! idx)) (\<lambda>old.
         bindM (assertM (old = 0) w) (\<lambda>_. set_sector p idx block_lba))
       else returnM ()) (\<lambda>_.
      bindM (getM (\<lambda>s. block_lba - sb_data_start_lba (sb s))) (\<lambda>block_bitmap_idx.
      bindM (bitmap_sync block_bitmap_idx BLOCK_BITMAP) (f block_lba)))) s = f b () s2"
    by (rule bindM_eqI, rule b(1)) (simp only: b(4) if_False, rule bindM_eqI, rule set', simp only: bindM_getM, rule bindM_step, rule s2(1))
  ultimately show ?thesis using that b(2,3,8,9) by blast
qed

lemma alloc_blocks_run:
  assumes "geom s" "room s (n + m)" "length (i_sectors (inodes s p)) = 13" "\<And>k. idx \<le> k \<Longrightarrow> k < 12 \<Longrightarrow> i_sectors (inodes s p) ! k = 0"
    "idx + n \<le> length all"
  shows "\<exists>new s'. alloc_blocks n idx all p w s = Inr (Some (put_at idx new all), s') \<and> length new = n \<and> distinct new \<and>
     grown p (put_at idx (take (12 - idx) new) (i_sectors (inodes s p))) s s' \<and>
     (\<forall>b\<in>set new. \<not> used_block s b \<and> b \<le> max_lba \<and> b \<noteq> 0 \<and> data_lba s \<le> unat b) \<and>
     (\<forall>c. used_block s' c \<longleftrightarrow> c \<in> set new \<or> used_block s c) \<and> room s' m"
  using assms
proof (induction n arbitrary: idx all s)
  case 0
  have "sect_ok s" using 0 by (simp add: geom_def table_ok_def)
  then have "grown p (i_sectors (inodes s p)) s s" unfolding grown_def
    by (intro conjI exI [of _ "sectors s"] exI [of _ "block_bitmap s"]) simp_all
  then show ?case using 0 by (intro exI [of _ "[]"] exI [of _ s]) (simp add: returnM_def)
next
  case (Suc n)
  let ?secs = "i_sectors (inodes s p)"
  have r: "room s (Suc (n + m))" using Suc.prems(2) by simp
  have z: "idx < 12 \<longrightarrow> ?secs ! idx = 0" using Suc.prems(4) by simp
  let ?e = "bindM (printkM (''file_write: block_bitmap_alloc for situation '' @ w @ '' failed'' @ NL)) (\<lambda>_. returnM None)"
  let ?f = "\<lambda>b (_ :: unit). alloc_blocks n (idx + 1) (all[idx := b]) p w"
  obtain b s1 where step0: "bindM block_bitmap_alloc (\<lambda>block_lba. if block_lba = -1 then ?e else
      bindM (if idx < 12 then
         bindM (getM (\<lambda>s. i_sectors (inodes s p) ! idx)) (\<lambda>old.
         bindM (assertM (old = 0) ''file->fd_inode->i_sectors[block_idx] == 0'') (\<lambda>_. set_sector p idx block_lba))
       else returnM ()) (\<lambda>_.
      bindM (getM (\<lambda>s. block_lba - sb_data_start_lba (sb s))) (\<lambda>block_bitmap_idx.
      bindM (bitmap_sync block_bitmap_idx BLOCK_BITMAP) (?f block_lba)))) s = ?f b () s1"
    and g1: "grown p (if idx < 12 then ?secs[idx := b] else ?secs) s s1"
    and b: "\<not> used_block s b" "b \<le> max_lba" "b \<noteq> 0" "\<forall>c. used_block s1 c \<longleftrightarrow> c = b \<or> used_block s c" "room s1 (n + m)" "data_lba s \<le> unat b"
    by (rule alloc_one [OF Suc.prems(1) r z, where f = ?f and e = ?e and w = "''file->fd_inode->i_sectors[block_idx] == 0''"])
  have step: "alloc_blocks (Suc n) idx all p w s = ?f b () s1" unfolding alloc_blocks.simps by (rule step0)
  note f1 = grown_facts [OF g1]
  have secs1: "i_sectors (inodes s1 p) = (if idx < 12 then ?secs[idx := b] else ?secs)" using f1(1) by simp
  have pre: "length (i_sectors (inodes s1 p)) = 13" "\<And>k. idx + 1 \<le> k \<Longrightarrow> k < 12 \<Longrightarrow> i_sectors (inodes s1 p) ! k = 0"
    "idx + 1 + n \<le> length (all[idx := b])"
    using Suc.prems(3-5) by (simp_all add: secs1)
  obtain new s2 where n: "alloc_blocks n (idx + 1) (all[idx := b]) p w s1 = Inr (Some (put_at (idx + 1) new (all[idx := b])), s2)"
    "length new = n" "distinct new" "grown p (put_at (idx + 1) (take (12 - (idx + 1)) new) (i_sectors (inodes s1 p))) s1 s2"
    "\<forall>b\<in>set new. \<not> used_block s1 b \<and> b \<le> max_lba \<and> b \<noteq> 0 \<and> data_lba s1 \<le> unat b"
    "\<forall>c. used_block s2 c \<longleftrightarrow> c \<in> set new \<or> used_block s1 c" "room s2 m"
    using Suc.IH [OF f1(5) [OF Suc.prems(1)] b(5) pre] by blast
  have "put_at idx (b # new) all = put_at (idx + 1) new (all[idx := b])" using Suc.prems(5) by (simp add: put_at_Cons)
  moreover have "put_at idx (take (12 - idx) (b # new)) ?secs = put_at (idx + 1) (take (12 - (idx + 1)) new) (i_sectors (inodes s1 p))"
  proof (cases "idx < 12")
    case True
    then have "take (12 - idx) (b # new) = b # take (12 - (idx + 1)) new" by (simp add: take_Cons' )
    then show ?thesis using True Suc.prems(3) secs1 by (simp add: put_at_Cons)
  qed (simp add: secs1)
  ultimately show ?case
    using step n b f1(3) grown_trans [OF g1 n(4)] by (intro exI [of _ "b # new"] exI [of _ s2]) auto
qed

section \<open>The blocks of a write\<close>

text \<open>The inode \<open>i\<close> has \<open>n\<close> blocks: they are in use and distinct, and so is the block of the table when there is one.\<close>

definition holds :: "fs \<Rightarrow> inode \<Rightarrow> nat \<Rightarrow> bool" where
  "holds s i n \<longleftrightarrow> 0 < n \<and> n \<le> 140 \<and> length (i_sectors i) = 13 \<and> (\<forall>k<n. used_block s (file_blocks s i ! k)) \<and>
     distinct (take n (file_blocks s i)) \<and> (\<forall>k. n \<le> k \<longrightarrow> k < 12 \<longrightarrow> i_sectors i ! k = 0) \<and>
     (if n \<le> 12 then i_sectors i ! 12 = 0
      else used_block s (i_sectors i ! 12) \<and> i_sectors i ! 12 \<notin> set (take n (file_blocks s i)))"

text \<open>
  What collecting the blocks of a write does: the inode then has \<open>will\<close> blocks, the first \<open>has\<close> of them as
  before, the list has those that the write touches, and no block that was in use has changed, the table apart.
\<close>

definition extended :: "ptr \<Rightarrow> nat \<Rightarrow> nat \<Rightarrow> u32 list \<Rightarrow> fs \<Rightarrow> fs \<Rightarrow> bool" where
  "extended p has will bl s s' \<longleftrightarrow>
     (\<exists>d bm secs. s' = s\<lparr>sectors := d, block_bitmap := bm, inodes := (inodes s)(p := (inodes s p)\<lparr>i_sectors := secs\<rparr>)\<rparr> \<and>
        btmp_bytes_len bm = btmp_bytes_len (block_bitmap s)) \<and> sect_ok s' \<and>
     (\<forall>l. used_block s l \<longrightarrow> used_block s' l) \<and>
     (\<forall>l. used_block s l \<longrightarrow> (12 < has \<longrightarrow> l \<noteq> i_sectors (inodes s p) ! 12) \<longrightarrow> sectors s' l = sectors s l) \<and>
     holds s' (inodes s' p) will \<and> (\<forall>k<has. file_blocks s' (inodes s' p) ! k = file_blocks s (inodes s p) ! k) \<and>
     (\<forall>k. has \<le> k \<longrightarrow> k < will \<longrightarrow> \<not> used_block s (file_blocks s' (inodes s' p) ! k)) \<and>
     length bl = 140 \<and> (\<forall>k. has \<le> k + 1 \<longrightarrow> k < will \<longrightarrow> bl ! k = file_blocks s' (inodes s' p) ! k)"

lemma used_block_facts:
  assumes "geom s" "used_block s b"
  shows "data_lba s \<le> unat b" "b \<le> max_lba" "b \<noteq> 0"
proof -
  have b: "data_lba s \<le> unat b" "unat b < data_lba s + bm_size (block_bitmap s)" using assms(2) by (auto simp: used_block_def bm_used_def)
  moreover have "data_lba s + bm_size (block_bitmap s) \<le> unat max_lba + 1" "0 < data_lba s" using assms(1) by (auto simp: geom_def)
  ultimately show "data_lba s \<le> unat b" "b \<le> max_lba" "b \<noteq> 0" by (auto simp: word_le_nat_alt)
qed

lemma extended_same:
  assumes "sect_ok s" "holds s (inodes s p) has" "length bl = 140" "\<And>k. has = k + 1 \<Longrightarrow> bl ! k = file_blocks s (inodes s p) ! k"
  shows "extended p has has bl s s"
proof -
  have e: "\<exists>d bm secs. s = s\<lparr>sectors := d, block_bitmap := bm, inodes := (inodes s)(p := (inodes s p)\<lparr>i_sectors := secs\<rparr>)\<rparr> \<and>
      btmp_bytes_len bm = btmp_bytes_len (block_bitmap s)"
    by (rule exI [of _ "sectors s"], rule exI [of _ "block_bitmap s"], rule exI [of _ "i_sectors (inodes s p)"]) simp
  have "bl ! k = file_blocks s (inodes s p) ! k" if "has \<le> k + 1" "k < has" for k
    using assms(4) [of k] that by simp
  then show ?thesis unfolding extended_def using assms(1-3) by (intro conjI e) simp_all
qed

text \<open>From the parts: old blocks kept, new ones fresh.\<close>

lemma holds_grow:
  assumes h: "holds s i has" and i': "length (i_sectors i') = 13" and n: "has \<le> will" "will \<le> 140" "length new = will - has"
    and old: "\<And>k. k < has \<Longrightarrow> file_blocks s' i' ! k = file_blocks s i ! k"
    and new: "\<And>k. has \<le> k \<Longrightarrow> k < will \<Longrightarrow> file_blocks s' i' ! k = new ! (k - has)" "distinct new" "\<forall>b\<in>set new. \<not> used_block s b"
    and used: "\<And>b. used_block s b \<Longrightarrow> used_block s' b" "\<forall>b\<in>set new. used_block s' b"
    and rest: "\<And>k. will \<le> k \<Longrightarrow> k < 12 \<Longrightarrow> i_sectors i' ! k = 0" "will \<le> 12 \<Longrightarrow> i_sectors i' ! 12 = 0"
    and tab: "12 < will \<Longrightarrow> used_block s' (i_sectors i' ! 12) \<and> i_sectors i' ! 12 \<notin> set (take has (file_blocks s i)) \<union> set new"
  shows "holds s' i' will"
proof -
  have len: "length (file_blocks s i) = 140" "length (file_blocks s' i') = 140" using h i' by (simp_all add: holds_def file_blocks_length)
  have t1: "take has (file_blocks s' i') = take has (file_blocks s i)"
    using old len n h by (intro nth_equalityI) (auto simp: holds_def)
  have t2: "take (will - has) (drop has (file_blocks s' i')) = new"
    using new(1) len n by (intro nth_equalityI) auto
  have tk: "take will (file_blocks s' i') = take has (file_blocks s i) @ new"
    using take_add [of has "will - has" "file_blocks s' i'"] n t1 t2 by simp
  have nin: "\<forall>b\<in>set new. b \<notin> set (take has (file_blocks s i))"
    using new(3) h by (auto simp: holds_def in_set_conv_nth)
  have "\<forall>k<will. used_block s' (file_blocks s' i' ! k)"
  proof (intro allI impI)
    fix k assume "k < will"
    then show "used_block s' (file_blocks s' i' ! k)"
      using old new(1) used h n(3) by (cases "k < has") (auto simp: holds_def)
  qed
  moreover have "distinct (take will (file_blocks s' i'))" unfolding tk using nin h new(2) by (auto simp: holds_def)
  ultimately show ?thesis using h n i' rest tab unfolding holds_def tk by auto
qed

lemma grown_extended_ex:
  "grown p secs s s' \<Longrightarrow> \<exists>d bm secs. s' = s\<lparr>sectors := d, block_bitmap := bm, inodes := (inodes s)(p := (inodes s p)\<lparr>i_sectors := secs\<rparr>)\<rparr> \<and>
      btmp_bytes_len bm = btmp_bytes_len (block_bitmap s)"
  by (auto simp: grown_def)

lemma sectors_over:
  assumes "\<exists>d bm secs. s2 = s\<lparr>sectors := d, block_bitmap := bm, inodes := (inodes s)(p := (inodes s p)\<lparr>i_sectors := secs\<rparr>)\<rparr> \<and>
      btmp_bytes_len bm = btmp_bytes_len (block_bitmap s)"
  shows "\<exists>d bm secs. s2\<lparr>sectors := x\<rparr> = s\<lparr>sectors := d, block_bitmap := bm, inodes := (inodes s)(p := (inodes s p)\<lparr>i_sectors := secs\<rparr>)\<rparr> \<and>
      btmp_bytes_len bm = btmp_bytes_len (block_bitmap s)"
proof -
  obtain d bm secs where e: "s2 = s\<lparr>sectors := d, block_bitmap := bm, inodes := (inodes s)(p := (inodes s p)\<lparr>i_sectors := secs\<rparr>)\<rparr>"
      "btmp_bytes_len bm = btmp_bytes_len (block_bitmap s)" using assms by blast
  have "s2\<lparr>sectors := x\<rparr> = s\<lparr>sectors := x, block_bitmap := bm, inodes := (inodes s)(p := (inodes s p)\<lparr>i_sectors := secs\<rparr>)\<rparr>"
    unfolding e(1) by (rule fs.equality) simp_all
  then show ?thesis using e(2) by blast
qed

lemma blank_first:
  assumes "0 < has" "has \<le> 12"
  shows "length ((replicate 140 0)[has - 1 := x]) = 140" "k < 140 \<Longrightarrow> ((replicate 140 0)[has - 1 := x]) ! k = (if k = has - 1 then x else 0 :: u32)"
  using assms by (auto simp: nth_list_update)

lemma write_blocks_direct:
  assumes g: "geom s" and h: "holds s (inodes s p) has" and n: "has < will" "will \<le> 12" and r: "room s (will - has + m)"
  shows "\<exists>bl s'. write_blocks p has will s = Inr (Some bl, s') \<and> extended p has will bl s s' \<and> room s' m"
proof -
  let ?i = "inodes s p" and ?first = "(replicate 140 0)[has - 1 := i_sectors (inodes s p) ! (has - 1)]"
  have hp: "0 < has" "length (i_sectors ?i) = 13" "\<And>k. has \<le> k \<Longrightarrow> k < 12 \<Longrightarrow> i_sectors ?i ! k = 0"
    using h by (simp_all add: holds_def)
  have h12: "has \<le> 12" using n by simp
  have pre: "has + (will - has) \<le> length ?first" using n by simp
  obtain new s' where a: "alloc_blocks (will - has) has ?first p ''1'' s = Inr (Some (put_at has new ?first), s')" "length new = will - has" "distinct new"
    "grown p (put_at has (take (12 - has) new) (i_sectors ?i)) s s'"
    "\<forall>b\<in>set new. \<not> used_block s b \<and> b \<le> max_lba \<and> b \<noteq> 0 \<and> data_lba s \<le> unat b"
    "\<forall>c. used_block s' c \<longleftrightarrow> c \<in> set new \<or> used_block s c" "room s' m"
    using alloc_blocks_run [where w = "''1''", OF g r hp(2,3) pre] by blast
  note f = grown_facts [OF a(4)]
  have tk: "take (12 - has) new = new" using a(2) n by simp
  have secs: "i_sectors (inodes s' p) = put_at has new (i_sectors ?i)" using f(1) tk by simp
  have fb: "file_blocks s' (inodes s' p) ! k = (if has \<le> k \<and> k < will then new ! (k - has) else i_sectors ?i ! k)" if "k < 12" for k
    using that hp(2) secs a(2) n by (simp add: file_blocks_direct put_at_nth)
  have old: "file_blocks s' (inodes s' p) ! k = file_blocks s ?i ! k" if "k < has" for k
    using that n fb [of k] hp(2) by (simp add: file_blocks_direct)
  have t0: "i_sectors (inodes s' p) ! 12 = i_sectors ?i ! 12" "length (i_sectors (inodes s' p)) = 13"
    using secs hp(2) a(2) n by (simp_all add: put_at_nth)
  have "holds s' (inodes s' p) will"
    by (rule holds_grow [OF h t0(2), of will new s']) (use n a old fb secs hp t0 h h12 in \<open>auto simp: put_at_nth holds_def\<close>)
  moreover have "put_at has new ?first ! k = file_blocks s' (inodes s' p) ! k" if "has \<le> k + 1" "k < will" for k
    using that n fb [of k] a(2) hp(1) blank_first [OF hp(1) h12] by (cases "k = has - 1") (auto simp: put_at_nth)
  moreover have "i_sectors ?i ! (has - 1) \<noteq> 0"
    using h used_block_facts(3) [OF g, of "file_blocks s ?i ! (has - 1)"] hp(2) n by (auto simp: holds_def file_blocks_direct)
  then have "write_blocks p has will s = Inr (Some (put_at has new ?first), s')"
    using n a(1) by (simp add: write_blocks_def stm_defs Let_def)
  moreover have "sectors s' l = sectors s l" if "used_block s l" for l
    using f(12) used_block_facts(1) [OF g that] by simp
  moreover have "\<not> used_block s (file_blocks s' (inodes s' p) ! k)" if "has \<le> k" "k < will" for k
    using that n fb [of k] a(2,5) by simp
  ultimately have "extended p has will (put_at has new ?first) s s'"
    unfolding extended_def using f(4) a(6) old by (intro conjI grown_extended_ex [OF a(4)]) simp_all
  then show ?thesis using \<open>write_blocks p has will s = _\<close> a(7) by blast
qed


lemma write_table:
  assumes "tab \<le> max_lba" "length bl = 140"
  shows "disk_write tab (enc_words (drop 12 bl)) 1 s = Inr ((), s\<lparr>sectors := (sectors s)(tab := enc_words (drop 12 bl))\<rparr>)"
    "length (i_sectors i) = 13 \<Longrightarrow> i_sectors i ! 12 = tab \<Longrightarrow>
      file_blocks (s\<lparr>sectors := (sectors s)(tab := enc_words (drop 12 bl))\<rparr>) i = take 12 (i_sectors i) @ drop 12 bl"
proof -
  show "disk_write tab (enc_words (drop 12 bl)) 1 s = Inr ((), s\<lparr>sectors := (sectors s)(tab := enc_words (drop 12 bl))\<rparr>)"
    using assms by (simp add: disk_write_def stm_defs)
  have "dec_words 128 (enc_words (drop 12 bl)) = drop 12 bl" using dec_enc_words [of "drop 12 bl" "[]"] assms(2) by simp
  then show "length (i_sectors i) = 13 \<Longrightarrow> i_sectors i ! 12 = tab \<Longrightarrow>
      file_blocks (s\<lparr>sectors := (sectors s)(tab := enc_words (drop 12 bl))\<rparr>) i = take 12 (i_sectors i) @ drop 12 bl"
    by (simp add: file_blocks_def)
qed

lemma sectors_used_same:
  "s\<lparr>sectors := d\<rparr> = s' \<Longrightarrow> used_block s' = used_block s" "s\<lparr>sectors := d\<rparr> = s' \<Longrightarrow> room s' = room s"
  by (auto simp: fun_eq_iff used_block_def room_def data_lba_def)

lemma write_blocks_table:
  assumes g: "geom s" and h: "holds s (inodes s p) has" and n: "12 < has" "has < will" "will \<le> 140" and r: "room s (will - has + m)"
  shows "\<exists>bl s'. write_blocks p has will s = Inr (Some bl, s') \<and> extended p has will bl s s' \<and> room s' m"
proof -
  let ?i = "inodes s p" and ?tab = "i_sectors (inodes s p) ! 12"
  let ?old = "replicate 12 0 @ dec_words 128 (sectors s ?tab)"
  have hp: "length (i_sectors ?i) = 13" "used_block s ?tab" "?tab \<notin> set (take has (file_blocks s ?i))"
    using h n by (simp_all add: holds_def)
  note t = used_block_facts [OF g hp(2)]
  have z: "\<And>k. has \<le> k \<Longrightarrow> k < 12 \<Longrightarrow> i_sectors ?i ! k = 0" and pre: "has + (will - has) \<le> length ?old" using n by simp_all
  obtain new s2 where a: "alloc_blocks (will - has) has ?old p ''3'' s = Inr (Some (put_at has new ?old), s2)" "length new = will - has" "distinct new"
    "grown p (put_at has (take (12 - has) new) (i_sectors ?i)) s s2"
    "\<forall>b\<in>set new. \<not> used_block s b \<and> b \<le> max_lba \<and> b \<noteq> 0 \<and> data_lba s \<le> unat b"
    "\<forall>c. used_block s2 c \<longleftrightarrow> c \<in> set new \<or> used_block s c" "room s2 m"
    using alloc_blocks_run [where w = "''3''", OF g r hp(1) z pre] by blast
  note f = grown_facts [OF a(4)]
  let ?bl = "put_at has new ?old"
  define s' where "s' = s2\<lparr>sectors := (sectors s2)(?tab := enc_words (drop 12 ?bl))\<rparr>"
  have secs: "inodes s2 p = ?i" "inodes s' p = ?i" using f(1) n by (simp_all add: s'_def)
  have len: "length ?bl = 140" by simp
  have fb: "file_blocks s' ?i = take 12 (i_sectors ?i) @ drop 12 ?bl"
    unfolding s'_def by (rule write_table(2) [OF t(2) len hp(1) refl])
  have old: "file_blocks s' ?i ! k = file_blocks s ?i ! k" if "k < has" for k
    using that hp(1) n unfolding fb by (simp add: file_blocks_def nth_append put_at_nth)
  have new: "file_blocks s' ?i ! k = new ! (k - has)" if "has \<le> k" "k < will" for k
    using that hp(1) n a(2) unfolding fb by (simp add: nth_append put_at_nth)
  have used: "used_block s' = used_block s2" "room s' = room s2" unfolding s'_def by (rule sectors_used_same [OF refl])+
  have tn: "?tab \<notin> set new" using a(5) hp(2) by auto
  have "holds s' (inodes s' p) will" unfolding secs
    by (rule holds_grow [OF h hp(1), of will new s']) (use n a old new hp used tn in auto)
  moreover have "?bl ! k = file_blocks s' (inodes s' p) ! k" if "has \<le> k + 1" "k < will" for k
    using that n hp(1) unfolding secs fb by (simp add: nth_append)
  moreover have "sectors s' l = sectors s l" if "used_block s l" "l \<noteq> ?tab" for l
    using that f(12) used_block_facts(1) [OF g that(1)] by (simp add: s'_def)
  moreover have "\<exists>d bm secs. s' = s\<lparr>sectors := d, block_bitmap := bm, inodes := (inodes s)(p := (inodes s p)\<lparr>i_sectors := secs\<rparr>)\<rparr> \<and>
      btmp_bytes_len bm = btmp_bytes_len (block_bitmap s)"
    unfolding s'_def by (rule sectors_over [OF grown_extended_ex [OF a(4)]])
  moreover have "sect_ok s'" using f(4) by (simp add: sect_ok_def s'_def)
  moreover have "\<not> used_block s (file_blocks s' (inodes s' p) ! k)" if "has \<le> k" "k < will" for k
    using that new a(2,5) secs by simp
  ultimately have "extended p has will ?bl s s'"
    unfolding extended_def using used a(6) old n(1) secs len by (intro conjI) simp_all
  moreover have "write_blocks p has will s = Inr (Some ?bl, s')"
    using n t a(1) write_table(1) [OF t(2) len, of s2] by (simp add: write_blocks_def stm_defs Let_def disk_read_sector s'_def)
  ultimately show ?thesis using a(7) used(2) by auto
qed


lemma alloc_table:
  assumes g: "geom s" and r: "room s (Suc n)"
  obtains tab sb' s1 where "block_bitmap_alloc s = Inr (tab, sb')" "set_sector p 12 tab sb' = Inr ((), s1)" "\<not> used_block s tab" "tab \<le> max_lba"
    "tab \<noteq> -1" "grown p ((i_sectors (inodes s p))[12 := tab]) s s1" "\<forall>c. used_block s1 c \<longleftrightarrow> c = tab \<or> used_block s c" "room s1 n"
proof -
  let ?i = "inodes s p"
  obtain tab bm where b: "block_bitmap_alloc s = Inr (tab, s\<lparr>block_bitmap := bm\<rparr>)" "\<not> used_block s tab" "tab \<le> max_lba" "tab \<noteq> -1"
    "\<And>c. used_block (s\<lparr>block_bitmap := bm\<rparr>) c \<longleftrightarrow> c = tab \<or> used_block s c" "btmp_bytes_len bm = btmp_bytes_len (block_bitmap s)"
    "room (s\<lparr>block_bitmap := bm\<rparr>) n"
    using block_alloc [OF g r] by metis
  define s1 where "s1 = s\<lparr>block_bitmap := bm, inodes := (inodes s)(p := ?i\<lparr>i_sectors := (i_sectors ?i)[12 := tab]\<rparr>)\<rparr>"
  have "sect_ok s" using g by (simp add: geom_def table_ok_def)
  then have "grown p ((i_sectors ?i)[12 := tab]) s s1" using b(6) unfolding grown_def s1_def
    by (intro conjI exI [of _ "sectors s"] exI [of _ bm]) (simp_all add: sect_ok_def)
  moreover have "used_block s1 c \<longleftrightarrow> c = tab \<or> used_block s c" and "room s1 n" for c
    using b(5) [of c] b(7) by (simp_all add: s1_def used_block_def data_lba_def room_def)
  moreover have "set_sector p 12 tab (s\<lparr>block_bitmap := bm\<rparr>) = Inr ((), s1)" by (simp add: set_sector_run s1_def)
  ultimately show ?thesis using that b(1-4) by blast
qed

lemma write_blocks_new_table:
  assumes g: "geom s" and h: "holds s (inodes s p) has" and n: "has \<le> 12" "12 < will" "will \<le> 140" and r: "room s (will - has + 1 + m)"
  shows "\<exists>bl s'. write_blocks p has will s = Inr (Some bl, s') \<and> extended p has will bl s s' \<and> room s' m"
proof -
  let ?i = "inodes s p" and ?first = "(replicate 140 0)[has - 1 := i_sectors (inodes s p) ! (has - 1)]"
  have hp: "0 < has" "length (i_sectors ?i) = 13" "i_sectors ?i ! 12 = 0" "\<And>k. has \<le> k \<Longrightarrow> k < 12 \<Longrightarrow> i_sectors ?i ! k = 0"
    using h n by (simp_all add: holds_def)
  have r': "room s (Suc (will - has + m))" using r by simp
  obtain tab sb' s1 where b: "block_bitmap_alloc s = Inr (tab, sb')" "set_sector p 12 tab sb' = Inr ((), s1)" "\<not> used_block s tab" "tab \<le> max_lba"
    "tab \<noteq> -1" and g1: "grown p ((i_sectors ?i)[12 := tab]) s s1" and u1: "\<forall>c. used_block s1 c \<longleftrightarrow> c = tab \<or> used_block s c"
    and r1: "room s1 (will - has + m)"
    by (rule alloc_table [OF g r'])
  note f1 = grown_facts [OF g1]
  have i1: "i_sectors (inodes s1 p) = (i_sectors ?i)[12 := tab]" using f1(1) by simp
  have l1: "length (i_sectors (inodes s1 p)) = 13" and z1: "\<And>k. has \<le> k \<Longrightarrow> k < 12 \<Longrightarrow> i_sectors (inodes s1 p) ! k = 0"
    and pre: "has + (will - has) \<le> length ?first" using hp i1 n by simp_all
  obtain new s2 where a: "alloc_blocks (will - has) has ?first p ''2'' s1 = Inr (Some (put_at has new ?first), s2)" "length new = will - has" "distinct new"
    "grown p (put_at has (take (12 - has) new) (i_sectors (inodes s1 p))) s1 s2"
    "\<forall>b\<in>set new. \<not> used_block s1 b \<and> b \<le> max_lba \<and> b \<noteq> 0 \<and> data_lba s1 \<le> unat b"
    "\<forall>c. used_block s2 c \<longleftrightarrow> c \<in> set new \<or> used_block s1 c" "room s2 m"
    using alloc_blocks_run [where w = "''2''", OF f1(5) [OF g] r1 l1 z1 pre] by blast
  have g2: "grown p (put_at has (take (12 - has) new) ((i_sectors ?i)[12 := tab])) s s2" using grown_trans [OF g1 a(4)] i1 by simp
  note f = grown_facts [OF g2]
  let ?bl = "put_at has new ?first" and ?secs = "put_at has (take (12 - has) new) ((i_sectors ?i)[12 := tab])"
  define s' where "s' = s2\<lparr>sectors := (sectors s2)(tab := enc_words (drop 12 ?bl))\<rparr>"
  have secs: "i_sectors (inodes s' p) = ?secs" "length ?secs = 13" "?secs ! 12 = tab"
    using f(1) hp(2) n a(2) by (simp_all add: s'_def put_at_nth)
  have len: "length ?bl = 140" by simp
  have fb: "file_blocks s' (inodes s' p) = take 12 ?secs @ drop 12 ?bl"
    using write_table(2) [OF b(4) len, of "inodes s' p" s2] secs by (simp add: s'_def)
  have fbk: "file_blocks s' (inodes s' p) ! k = (if has \<le> k \<and> k < will then new ! (k - has) else if k < 12 then i_sectors ?i ! k else 0)" if "k < 140" for k
    using that hp(1,2) n a(2) secs(2) blank_first [OF hp(1) n(1)] unfolding fb by (auto simp: nth_append put_at_nth)
  have old: "file_blocks s' (inodes s' p) ! k = file_blocks s ?i ! k" if "k < has" for k
    using that n fbk [of k] hp(2) by (simp add: file_blocks_direct)
  have used: "used_block s' = used_block s2" "room s' = room s2" unfolding s'_def by (rule sectors_used_same [OF refl])+
  have tn: "tab \<notin> set new" "tab \<notin> set (take has (file_blocks s ?i))" using a(5) u1 b(3) h by (blast, auto simp: holds_def in_set_conv_nth)
  have u': "used_block s' c \<longleftrightarrow> c \<in> set new \<or> c = tab \<or> used_block s c" for c using used a(6) u1 by simp
  have "holds s' (inodes s' p) will"
    by (rule holds_grow [OF h, of "inodes s' p" will new s']) (use n a(2,3,5) old fbk secs tn u' u1 in auto)
  moreover have "?bl ! k = file_blocks s' (inodes s' p) ! k" if "has \<le> k + 1" "k < will" for k
    using that n fbk [of k] a(2) hp(1) blank_first [OF hp(1) n(1)] by (cases "k = has - 1") (auto simp: put_at_nth)
  moreover have "sectors s' l = sectors s l" if "used_block s l" for l
    using that f(12) used_block_facts(1) [OF g that] b(3) by (auto simp: s'_def)
  moreover have "\<exists>d bm secs. s' = s\<lparr>sectors := d, block_bitmap := bm, inodes := (inodes s)(p := (inodes s p)\<lparr>i_sectors := secs\<rparr>)\<rparr> \<and>
      btmp_bytes_len bm = btmp_bytes_len (block_bitmap s)"
    unfolding s'_def by (rule sectors_over [OF grown_extended_ex [OF g2]])
  moreover have "sect_ok s'" using f(4) by (simp add: sect_ok_def s'_def)
  moreover have "\<not> used_block s (file_blocks s' (inodes s' p) ! k)" if "has \<le> k" "k < will" for k
    using that n fbk [of k] a(2,5) u1 by simp
  ultimately have "extended p has will ?bl s s'"
    unfolding extended_def using u' old len by (intro conjI) simp_all
  moreover have "write_blocks p has will s = Inr (Some ?bl, s')"
    using n b(1,2,5) hp(3) a(1) write_table(1) [OF b(4) len, of s2] by (simp add: write_blocks_def stm_defs Let_def s'_def)
  ultimately show ?thesis using a(7) used(2) by auto
qed

lemma room_mono: "room s n \<Longrightarrow> m \<le> n \<Longrightarrow> room s m"
  by (simp add: room_def)

lemma write_blocks_run:
  assumes g: "geom s" and h: "holds s (inodes s p) has" and n: "has \<le> will" "will \<le> 140" and r: "room s (will - has + 1 + m)"
  shows "\<exists>bl s'. write_blocks p has will s = Inr (Some bl, s') \<and> extended p has will bl s s' \<and> room s' m"
proof -
  let ?i = "inodes s p"
  have ok: "sect_ok s" and len: "length (i_sectors ?i) = 13" and p: "0 < has" using g h by (simp_all add: geom_def table_ok_def holds_def)
  have r1: "room s (will - has + m)" "room s m" using r by (auto elim: room_mono)
  consider "will = has" "has \<le> 12" | "will = has" "12 < has" | "has < will" "will \<le> 12" | "has \<le> 12" "12 < will" | "12 < has" "has < will"
    using n by linarith
  then show ?thesis
  proof cases
    case 1
    let ?bl = "(replicate 140 0)[has - 1 := i_sectors ?i ! (has - 1)]"
    have "write_blocks p has will s = Inr (Some ?bl, s)" using 1 by (simp add: write_blocks_def stm_defs Let_def)
    moreover have "extended p has has ?bl s s"
      using 1 blank_first [OF p] len by (intro extended_same [OF ok h]) (auto simp: file_blocks_direct)
    ultimately show ?thesis using 1 r1 by blast
  next
    case 2
    let ?bl = "replicate 12 0 @ dec_words 128 (sectors s (i_sectors ?i ! 12))"
    have t: "used_block s (i_sectors ?i ! 12)" using h 2 by (simp add: holds_def)
    have "write_blocks p has will s = Inr (Some ?bl, s)"
      using 2 used_block_facts [OF g t] by (simp add: write_blocks_def stm_defs Let_def disk_read_sector)
    moreover have "extended p has has ?bl s s"
      using 2 len by (intro extended_same [OF ok h]) (auto simp: file_blocks_def nth_append)
    ultimately show ?thesis using 2 r1 by blast
  next
    case 3
    then show ?thesis using write_blocks_direct [OF g h _ _ r1(1)] by blast
  next
    case 4
    then show ?thesis using write_blocks_new_table [OF g h _ _ n(2) r] by blast
  next
    case 5
    then show ?thesis using write_blocks_table [OF g h _ _ n(2) r1(1)] by blast
  qed
qed

section \<open>Writing the data\<close>

text \<open>The positions of a file from the block of \<open>a\<close> on, up to \<open>b\<close>.\<close>

definition from_block :: "nat \<Rightarrow> nat \<Rightarrow> nat \<Rightarrow> bool" where
  "from_block a b x \<longleftrightarrow> a div 512 \<le> x div 512 \<and> x < b"

lemma sector_put:
  assumes "length old = 512" "off + length new \<le> 512" "j < 512"
  shows "(take off old @ new @ drop (off + length new) old) ! j = (if off \<le> j \<and> j < off + length new then new ! (j - off) else old ! j)"
  using assms by (auto simp: nth_append)

lemma same_block: "a div 512 = x div 512 \<Longrightarrow> x = 512 * (a div 512) + x mod (512 :: nat)"
  by simp

text \<open>One round of the loop.\<close>

lemma write_step:
  assumes s: "sect_ok s" "p = fd_inode (file_table s ! fd)" "size' = i_size (inodes s p)" "src \<noteq> []"
    and b: "unat size' div 512 < length blks" "blks ! (unat size' div 512) \<le> max_lba" and first: "first \<or> unat size' mod 512 = 0"
    and c: "c = chunk_of size' (length src)"
  shows "\<exists>sec. write_loop first src blks fd s = write_loop False (drop c src) blks fd
      (s\<lparr>sectors := (sectors s)(blks ! (unat size' div 512) := sec),
         inodes := (inodes s)(p := (inodes s p)\<lparr>i_size := size' + of_nat c\<rparr>),
         file_table := (file_table s)[fd := (file_table s ! fd)\<lparr>fd_pos := fd_pos (file_table s ! fd) + of_nat c\<rparr>]\<rparr>) \<and>
    length sec = 512 \<and> (\<forall>j<512. j < unat size' mod 512 + c \<longrightarrow>
      sec ! j = (if j < unat size' mod 512 then sectors s (blks ! (unat size' div 512)) ! j else src ! (j - unat size' mod 512)))"
proof -
  let ?b = "blks ! (unat size' div 512)" and ?off = "unat size' mod 512"
  define old where "old = (if first then sectors s ?b else replicate 512 (0 :: u8))"
  define sec where "sec = take ?off old @ take c src @ drop (?off + c) old"
  have cb: "c \<le> length src" "?off + c \<le> 512" using chunk_of_bounds(2,3) [of size' "length src"] c by (auto simp: unat_mod)
  have lo: "length old = 512" using s(1) by (simp add: old_def sect_ok_def)
  have ls: "length sec = 512" using lo cb by (simp add: sec_def)
  let ?s1 = "s\<lparr>sectors := (sectors s)(?b := sec)\<rparr>"
  let ?s2 = "?s1\<lparr>inodes := (inodes s)(p := (inodes s p)\<lparr>i_size := size' + of_nat c\<rparr>)\<rparr>"
  have st: "block_at blks (size' div 512) s = Inr (?b, s)" "(if first then disk_read ?b 1 else returnM (replicate 512 0)) s = Inr (old, s)"
    "liftM (buf_write (unat (size' mod 512)) (take c src) old) s = Inr (sec, s)" "disk_write ?b sec 1 s = Inr ((), ?s1)"
    "upd_inode p (\<lambda>i. i\<lparr>i_size := i_size i + of_nat c\<rparr>) ?s1 = Inr ((), ?s2)"
    using b cb lo ls s(3) by (simp_all add: block_at_def returnM_def unat_div old_def disk_read_sector liftM_def buf_write_def
        unat_mod sec_def disk_write_def stm_defs upd_inode_def)
  have "write_loop first src blks fd s = write_loop False (drop c src) blks fd
      (?s2\<lparr>file_table := (file_table s)[fd := (file_table s ! fd)\<lparr>fd_pos := fd_pos (file_table s ! fd) + of_nat c\<rparr>]\<rparr>)"
    apply (subst write_loop.simps)
    apply (simp only: s(4) if_False bindM_getM s(2,3) [symmetric])
    apply (rule bindM_eqI, rule st(1))
    apply (simp only: Let_def c [symmetric])
    apply (rule bindM_eqI, rule st(2), rule bindM_eqI, rule st(3), rule bindM_eqI, rule st(4), rule bindM_eqI, rule st(5))
    apply (rule bindM_eqI, rule upd_file_run)
    apply simp
    done
  moreover note ls
  moreover have "sec ! j = (if j < ?off then sectors s ?b ! j else src ! (j - ?off))" if "j < 512" "j < ?off + c" for j
    using sector_put [OF lo, of ?off "take c src" j] that cb first by (auto simp: sec_def old_def)
  ultimately show ?thesis by blast
qed

text \<open>
  What the loop leaves on the disk: sectors of the right size, no change outside of the blocks it goes through, and
  in these blocks the old bytes below the position \<open>a\<close> and the new ones from it on.
\<close>

definition data_written :: "u32 list \<Rightarrow> nat \<Rightarrow> u8 list \<Rightarrow> (u32 \<Rightarrow> u8 list) \<Rightarrow> (u32 \<Rightarrow> u8 list) \<Rightarrow> bool" where
  "data_written blks a src d d' \<longleftrightarrow> (\<forall>l. length (d' l) = 512) \<and>
     (\<forall>l. (\<forall>x. from_block a (a + length src) x \<longrightarrow> l \<noteq> blks ! (x div 512)) \<longrightarrow> d' l = d l) \<and>
     (\<forall>x. from_block a (a + length src) x \<longrightarrow>
        d' (blks ! (x div 512)) ! (x mod 512) = (if x < a then d (blks ! (x div 512)) ! (x mod 512) else src ! (x - a)))"

definition blocks_good :: "u32 list \<Rightarrow> nat \<Rightarrow> nat \<Rightarrow> bool" where
  "blocks_good blks a b \<longleftrightarrow> (\<forall>x. from_block a b x \<longrightarrow> x div 512 < length blks \<and> blks ! (x div 512) \<le> max_lba) \<and>
     (\<forall>x y. from_block a b x \<longrightarrow> from_block a b y \<longrightarrow> blks ! (x div 512) = blks ! (y div 512) \<longrightarrow> x div 512 = y div 512)"

lemma from_block_mono: "a \<le> a' \<Longrightarrow> from_block a' b x \<Longrightarrow> from_block a b x"
  using div_le_mono [of a a' 512] by (auto simp: from_block_def)

lemma data_written_step:
  assumes c: "c \<le> length src" "a mod 512 + c \<le> 512" "0 < c" and good: "blocks_good blks a (a + length src)"
    and sec: "\<forall>j<512. j < a mod 512 + c \<longrightarrow> sec ! j = (if j < a mod 512 then d (blks ! (a div 512)) ! j else src ! (j - a mod 512))"
    and w: "data_written blks (a + c) (drop c src) (d(blks ! (a div 512) := sec)) d'"
  shows "data_written blks a src d d'"
proof -
  let ?b = "blks ! (a div 512)" and ?e = "a + length src"
  have e: "a + c + length (drop c src) = ?e" using c by simp
  have ab: "from_block a ?e a" using c by (auto simp: from_block_def)
  have un: "d' l = d l" if "\<forall>x. from_block a ?e x \<longrightarrow> l \<noteq> blks ! (x div 512)" for l
  proof -
    have "l \<noteq> ?b" using that ab by blast
    moreover have "\<forall>x. from_block (a + c) ?e x \<longrightarrow> l \<noteq> blks ! (x div 512)" using that from_block_mono [of a "a + c"] by auto
    ultimately show ?thesis using w unfolding data_written_def e by auto
  qed
  have "d' (blks ! (x div 512)) ! (x mod 512) = (if x < a then d (blks ! (x div 512)) ! (x mod 512) else src ! (x - a))"
    if x: "from_block a ?e x" for x
  proof (cases "x < a + c")
    case False
    then have "from_block (a + c) ?e x" using x div_le_mono [of "a + c" x 512] by (simp add: from_block_def)
    then show ?thesis using w False c unfolding data_written_def e by (auto simp: ac_simps)
  next
    case True
    have q: "512 * (a div 512) + a mod 512 = a" by simp
    have "x < 512 * (a div 512) + 512" using True c(2) q by linarith
    then have "x div 512 < a div 512 + 1" by (simp add: less_mult_imp_div_less)
    then have xa: "x div 512 = a div 512" using x by (simp add: from_block_def)
    have xq: "512 * (a div 512) + x mod 512 = x" using xa mult_div_mod_eq [of 512 x] by simp
    have "d' ?b ! (x mod 512) = sec ! (x mod 512)"
    proof (cases "from_block (a + c) ?e x")
      case True
      then show ?thesis using w \<open>x < a + c\<close> xa unfolding data_written_def e by auto
    next
      case False
      have "?b \<noteq> blks ! (y div 512)" if "from_block (a + c) ?e y" for y
      proof
        assume "?b = blks ! (y div 512)"
        moreover have "from_block a ?e y" using that by (rule from_block_mono [rotated]) simp
        ultimately have "y div 512 = a div 512" using good ab unfolding blocks_good_def by metis
        then show False using that False xa x by (simp add: from_block_def)
      qed
      then show ?thesis using w unfolding data_written_def e by auto
    qed
    moreover have "x mod 512 < a mod 512 + c" "x < a \<longleftrightarrow> x mod 512 < a mod 512" "x - a = x mod 512 - a mod 512"
      using xq q True by linarith+
    ultimately show ?thesis using sec xa by simp
  qed
  then show ?thesis using un w unfolding data_written_def by blast
qed

lemma write_loop_run:
  assumes "sect_ok s" "p = fd_inode (file_table s ! fd)" "fd < length (file_table s)" "size' = i_size (inodes s p)"
    "unat size' + length src \<le> 71680" "blocks_good blks (unat size') (unat size' + length src)" "src = [] \<or> first \<or> unat size' mod 512 = 0"
  shows "\<exists>d. write_loop first src blks fd s = Inr ((), s\<lparr>sectors := d,
      inodes := (inodes s)(p := (inodes s p)\<lparr>i_size := size' + of_nat (length src)\<rparr>),
      file_table := (file_table s)[fd := (file_table s ! fd)\<lparr>fd_pos := fd_pos (file_table s ! fd) + of_nat (length src)\<rparr>]\<rparr>) \<and>
    data_written blks (unat size') src (sectors s) d"
  using assms
proof (induction "length src" arbitrary: src s size' first rule: less_induct)
  case less
  show ?case
  proof (cases "src = []")
    case True
    then have "write_loop first src blks fd s = Inr ((), s)" by (subst write_loop.simps) (simp add: returnM_def)
    moreover have "s = s\<lparr>sectors := sectors s, inodes := (inodes s)(p := (inodes s p)\<lparr>i_size := size' + of_nat (length src)\<rparr>),
        file_table := (file_table s)[fd := (file_table s ! fd)\<lparr>fd_pos := fd_pos (file_table s ! fd) + of_nat (length src)\<rparr>]\<rparr>"
      using True less.prems by simp
    moreover have "data_written blks (unat size') src (sectors s) (sectors s)"
      using True less.prems by (auto simp: data_written_def from_block_def sect_ok_def)
    ultimately show ?thesis by metis
  next
    case False
    let ?a = "unat size'" and ?c = "chunk_of size' (length src)"
    have c: "0 < ?c" "?c \<le> length src" "?a mod 512 + ?c \<le> 512"
      using False chunk_of_bounds [where pos = size' and left = "length src"] by (auto simp: unat_mod)
    have "from_block ?a (?a + length src) ?a" using False by (simp add: from_block_def)
    then have b: "?a div 512 < length blks" "blks ! (?a div 512) \<le> max_lba" using less.prems(6) unfolding blocks_good_def by blast+
    have fm: "first \<or> ?a mod 512 = 0" using less.prems(7) False by simp
    obtain sec where st: "write_loop first src blks fd s = write_loop False (drop ?c src) blks fd
      (s\<lparr>sectors := (sectors s)(blks ! (?a div 512) := sec), inodes := (inodes s)(p := (inodes s p)\<lparr>i_size := size' + of_nat ?c\<rparr>),
         file_table := (file_table s)[fd := (file_table s ! fd)\<lparr>fd_pos := fd_pos (file_table s ! fd) + of_nat ?c\<rparr>]\<rparr>)"
      "length sec = 512" "\<forall>j<512. j < ?a mod 512 + ?c \<longrightarrow>
        sec ! j = (if j < ?a mod 512 then sectors s (blks ! (?a div 512)) ! j else src ! (j - ?a mod 512))"
      using write_step [OF less.prems(1,2,4) False b fm refl] by blast
    let ?s = "s\<lparr>sectors := (sectors s)(blks ! (?a div 512) := sec), inodes := (inodes s)(p := (inodes s p)\<lparr>i_size := size' + of_nat ?c\<rparr>),
         file_table := (file_table s)[fd := (file_table s ! fd)\<lparr>fd_pos := fd_pos (file_table s ! fd) + of_nat ?c\<rparr>]\<rparr>"
    have a': "unat (size' + of_nat ?c) = ?a + ?c" using pos_step(1) [OF less.prems(5)] False by simp
    have "length (drop ?c src) < length src" using c by simp
    moreover have "sect_ok ?s" "p = fd_inode (file_table ?s ! fd)" "fd < length (file_table ?s)" "size' + of_nat ?c = i_size (inodes ?s p)"
      using less.prems(1-3) st(2) by (simp_all add: sect_ok_def)
    moreover have "unat (size' + of_nat ?c) + length (drop ?c src) \<le> 71680" using less.prems(5) a' c by simp
    moreover have "blocks_good blks (unat (size' + of_nat ?c)) (unat (size' + of_nat ?c) + length (drop ?c src))"
      using less.prems(6) a' c from_block_mono [of ?a "?a + ?c"] unfolding blocks_good_def by auto
    moreover have "drop ?c src = [] \<or> False \<or> unat (size' + of_nat ?c) mod 512 = 0"
    proof (cases "?c = length src")
      case False
      then have "?a mod 512 + ?c = 512" by (simp add: chunk_of_def unat_mod min_def split: if_splits)
      then have "(?a + ?c) mod 512 = 0" by (metis mod_add_left_eq mod_self)
      then show ?thesis using a' by simp
    qed simp
    ultimately have "\<exists>d. write_loop False (drop ?c src) blks fd ?s = Inr ((), ?s\<lparr>sectors := d,
        inodes := (inodes ?s)(p := (inodes ?s p)\<lparr>i_size := size' + of_nat ?c + of_nat (length (drop ?c src))\<rparr>),
        file_table := (file_table ?s)[fd := (file_table ?s ! fd)\<lparr>fd_pos := fd_pos (file_table ?s ! fd) + of_nat (length (drop ?c src))\<rparr>]\<rparr>) \<and>
      data_written blks (unat (size' + of_nat ?c)) (drop ?c src) (sectors ?s) d" by (rule less.hyps)
    then obtain d where d: "write_loop False (drop ?c src) blks fd ?s = Inr ((), ?s\<lparr>sectors := d,
        inodes := (inodes ?s)(p := (inodes ?s p)\<lparr>i_size := size' + of_nat ?c + of_nat (length (drop ?c src))\<rparr>),
        file_table := (file_table ?s)[fd := (file_table ?s ! fd)\<lparr>fd_pos := fd_pos (file_table ?s ! fd) + of_nat (length (drop ?c src))\<rparr>]\<rparr>)"
      "data_written blks (?a + ?c) (drop ?c src) (sectors ?s) d"
      unfolding a' by blast
    have n: "of_nat ?c + of_nat (length (drop ?c src)) = (of_nat (length src) :: u32)"
      using c(2) by (simp flip: of_nat_add)
    have "data_written blks ?a src (sectors s) d"
      using data_written_step [where d = "sectors s", OF c(2,3,1) less.prems(6) st(3), of d] d(2) by simp
    then show ?thesis using st(1) d(1) n less.prems(3) by (intro exI [of _ d]) (simp add: add.assoc)
  qed
qed

lemma holds_cong:
  assumes h: "holds s i n" and e: "block_bitmap s' = block_bitmap s" "sb s' = sb s" "i_sectors i' = i_sectors i"
    "12 < n \<longrightarrow> sectors s' (i_sectors i ! 12) = sectors s (i_sectors i ! 12)"
  shows "holds s' i' n" "k < n \<Longrightarrow> file_blocks s' i' ! k = file_blocks s i ! k"
proof -
  have len: "length (file_blocks s i) = 140" "length (file_blocks s' i') = 140" "n \<le> 140" using h e by (simp_all add: holds_def file_blocks_length)
  have eq: "file_blocks s' i' ! k = file_blocks s i ! k" if "k < n" for k
    using that e h len by (cases "k < 12") (auto simp: file_blocks_def nth_append holds_def)
  then show "k < n \<Longrightarrow> file_blocks s' i' ! k = file_blocks s i ! k" .
  have "take n (file_blocks s' i') = take n (file_blocks s i)" using eq len by (intro nth_equalityI) auto
  moreover have "used_block s' = used_block s" using e by (simp add: used_block_def data_lba_def fun_eq_iff)
  ultimately show "holds s' i' n" using h eq e unfolding holds_def by auto
qed

lemma holds_good:
  assumes g: "geom s" and h: "holds s i n" and bl: "length bl = 140" "\<forall>k. a div 512 \<le> k \<longrightarrow> k < n \<longrightarrow> bl ! k = file_blocks s i ! k"
    and b: "b \<le> 512 * n"
  shows "blocks_good bl a b"
proof -
  have n: "n \<le> 140" "length (file_blocks s i) = 140" using h by (simp_all add: holds_def file_blocks_length)
  have lt: "x div 512 < n" if "x < b" for x using that b by (simp add: less_mult_imp_div_less mult.commute)
  show ?thesis unfolding blocks_good_def from_block_def
  proof (intro conjI allI impI)
    fix x assume x: "a div 512 \<le> x div 512 \<and> x < b"
    then have k: "x div 512 < n" using lt by blast
    then show "x div 512 < length bl" using n bl(1) by simp
    show "bl ! (x div 512) \<le> max_lba" using bl(2) x k h used_block_facts(2) [OF g] by (simp add: holds_def)
    fix y assume y: "a div 512 \<le> y div 512 \<and> y < b" and eq: "bl ! (x div 512) = bl ! (y div 512)"
    then have l: "y div 512 < n" using lt by blast
    have "take n (file_blocks s i) ! (x div 512) = take n (file_blocks s i) ! (y div 512)" using eq bl(2) x y k l by simp
    moreover have "distinct (take n (file_blocks s i))" using h by (simp add: holds_def)
    ultimately show "x div 512 = y div 512" using k l n nth_eq_iff_index_eq [of "take n (file_blocks s i)" "x div 512" "y div 512"] by simp
  qed
qed

text \<open>The block that a file gets with its first write.\<close>

lemma first_block_run:
  assumes g: "geom s" and r: "room s (Suc n)" and i: "i_sectors (inodes s p) = replicate 13 0" and root: "used_block s (sb_data_start_lba (sb s))"
  shows "\<exists>s1 secs. bindM block_bitmap_alloc (\<lambda>block_lba. if block_lba = -1 then e else
         bindM (set_sector p 0 block_lba) (\<lambda>_.
         bindM (getM (\<lambda>s. block_lba - sb_data_start_lba (sb s))) (\<lambda>block_bitmap_idx.
         bindM (assertM (block_bitmap_idx \<noteq> 0) w) (\<lambda>_.
         bindM (bitmap_sync block_bitmap_idx BLOCK_BITMAP) (\<lambda>_. returnM True))))) s = Inr (True, s1) \<and>
    grown p secs s s1 \<and> holds s1 (inodes s1 p) 1 \<and> room s1 n \<and> (\<forall>c. used_block s c \<longrightarrow> used_block s1 c) \<and> \<not> used_block s (secs ! 0)"
proof -
  obtain b bm where b: "block_bitmap_alloc s = Inr (b, s\<lparr>block_bitmap := bm\<rparr>)" "\<not> used_block s b" "b \<le> max_lba" "b \<noteq> -1"
    "\<And>c. used_block (s\<lparr>block_bitmap := bm\<rparr>) c \<longleftrightarrow> c = b \<or> used_block s c" "btmp_bytes_len bm = btmp_bytes_len (block_bitmap s)"
    "room (s\<lparr>block_bitmap := bm\<rparr>) n" "b \<noteq> 0" "data_lba s \<le> unat b" "unat b < data_lba s + bm_size (block_bitmap s)"
    using block_alloc [OF g r] by metis
  let ?secs = "(replicate 13 0)[0 := b]"
  let ?s1 = "s\<lparr>block_bitmap := bm, inodes := (inodes s)(p := (inodes s p)\<lparr>i_sectors := ?secs\<rparr>)\<rparr>"
  have "sect_ok s" using g by (simp add: geom_def table_ok_def)
  then have g1: "grown p ?secs s ?s1" using b(6) unfolding grown_def
    by (intro conjI exI [of _ "sectors s"] exI [of _ bm]) (simp_all add: sect_ok_def)
  note f1 = grown_facts [OF g1]
  obtain s2 where s2: "bitmap_sync (b - sb_data_start_lba (sb ?s1)) BLOCK_BITMAP ?s1 = Inr ((), s2)" "map_step ?s1 s2" "block_bitmap s2 = bm"
    using bitmap_sync_block [OF f1(5) [OF g], of b] b(9,10) f1(3,6) by auto
  have g2: "grown p ?secs s s2" using grown_trans [OF g1] map_step_grown [OF s2(2), of p] by simp
  have used: "used_block s2 c \<longleftrightarrow> c = b \<or> used_block s c" for c
    using b(5) [of c] grown_facts(3) [OF g2] s2(3) by (simp add: used_block_def data_lba_def)
  have ne: "b - sb_data_start_lba (sb s) \<noteq> 0" using root b(2) by auto
  have i2: "i_sectors (inodes s2 p) = ?secs" using grown_facts(1) [OF g2] by simp
  have "?secs = b # replicate 12 0" by (simp add: numeral_eq_Suc)
  then have "holds s2 (inodes s2 p) 1" using used i2 by (auto simp: holds_def file_blocks_def nth_Cons')
  moreover have "room s2 n" using b(7) s2(3) by (simp add: room_def)
  moreover have "set_sector p 0 b (s\<lparr>block_bitmap := bm\<rparr>) = Inr ((), ?s1)" using i by (simp add: set_sector_run)
  ultimately show ?thesis
    using b(1,2,4) ne s2(1) g2 used by (intro exI [of _ s2] exI [of _ ?secs]) (simp add: stm_defs)
qed


lemma extended_geom:
  assumes "geom s" "extended p has will bl s s'"
  shows "geom s'" "data_lba s' = data_lba s" "sb s' = sb s" "cur_task s' = cur_task s" "file_table s' = file_table s" "live s' = live s"
    "mallocs s' = mallocs s" "inodes s' p = (inodes s p)\<lparr>i_sectors := i_sectors (inodes s' p)\<rparr>" "malloc_ok s' = malloc_ok s"
proof -
  obtain d bm secs where e: "s' = s\<lparr>sectors := d, block_bitmap := bm, inodes := (inodes s)(p := (inodes s p)\<lparr>i_sectors := secs\<rparr>)\<rparr>"
    "btmp_bytes_len bm = btmp_bytes_len (block_bitmap s)" "sect_ok s'" using assms(2) by (auto simp: extended_def)
  show "geom s'" using assms(1) e(3) unfolding e(1) using e(2) by (simp add: geom_def table_ok_def bm_ok_def bm_size_def data_lba_def)
  show "data_lba s' = data_lba s" "sb s' = sb s" "cur_task s' = cur_task s" "file_table s' = file_table s" "live s' = live s"
    "mallocs s' = mallocs s" "inodes s' p = (inodes s p)\<lparr>i_sectors := i_sectors (inodes s' p)\<rparr>" "malloc_ok s' = malloc_ok s"
    unfolding e(1) by (simp_all add: data_lba_def)
qed

lemma extended_inodes:
  assumes "extended p has will bl s s'"
  shows "inodes s' = (inodes s)(p := (inodes s p)\<lparr>i_sectors := i_sectors (inodes s' p)\<rparr>)" "holds s' (inodes s' p) will" "length bl = 140"
    "has = Suc k0 \<Longrightarrow> \<forall>k. k0 \<le> k \<longrightarrow> k < will \<longrightarrow> bl ! k = file_blocks s' (inodes s' p) ! k" "\<forall>b. used_block s b \<longrightarrow> used_block s' b"
proof -
  obtain d bm secs where e: "s' = s\<lparr>sectors := d, block_bitmap := bm, inodes := (inodes s)(p := (inodes s p)\<lparr>i_sectors := secs\<rparr>)\<rparr>"
    using assms by (auto simp: extended_def)
  show "inodes s' = (inodes s)(p := (inodes s p)\<lparr>i_sectors := i_sectors (inodes s' p)\<rparr>)" unfolding e by simp
  show "holds s' (inodes s' p) will" "length bl = 140" "has = Suc k0 \<Longrightarrow> \<forall>k. k0 \<le> k \<longrightarrow> k < will \<longrightarrow> bl ! k = file_blocks s' (inodes s' p) ! k"
    "\<forall>b. used_block s b \<longrightarrow> used_block s' b" using assms unfolding extended_def by simp_all
qed

lemma appended:
  fixes p s1 i1
  defines "i1 \<equiv> inodes s1 p"
  assumes g: "geom s1" and h: "holds s1 i1 (a div 512 + 1)" and ext: "extended p (a div 512 + 1) will bl s1 s2"
    and a: "a = unat (i_size i1)" "will = (a + length src) div 512 + 1" and w: "data_written bl a src (sectors s2) d"
    and s5: "\<forall>l. data_lba s1 \<le> unat l \<longrightarrow> sectors s5 l = d l" "block_bitmap s5 = block_bitmap s2" "sb s5 = sb s2"
    and i5: "i_sectors i5 = i_sectors (inodes s2 p)" "unat (i_size i5) = a + length src"
  shows "file_bytes s5 i5 = file_bytes s1 i1 @ src" "holds s5 i5 will"
    "used_block s1 b \<Longrightarrow> b \<notin> set (take (a div 512 + 1) (file_blocks s1 i1)) \<Longrightarrow> (12 < a div 512 + 1 \<longrightarrow> b \<noteq> i_sectors i1 ! 12) \<Longrightarrow> sectors s5 b = sectors s1 b"
proof -
  let ?i2 = "inodes s2 p" and ?has = "a div 512 + 1"
  note eg = extended_geom [OF g ext]
  have h2: "holds s2 ?i2 will" and old: "\<And>k. k < ?has \<Longrightarrow> file_blocks s2 ?i2 ! k = file_blocks s1 i1 ! k"
    and mono: "\<And>l. used_block s1 l \<Longrightarrow> used_block s2 l"
    and keep: "\<And>l. used_block s1 l \<Longrightarrow> (12 < ?has \<longrightarrow> l \<noteq> i_sectors i1 ! 12) \<Longrightarrow> sectors s2 l = sectors s1 l"
    and bl: "\<And>k. a div 512 \<le> k \<Longrightarrow> k < will \<Longrightarrow> bl ! k = file_blocks s2 ?i2 ! k"
    and fresh: "\<And>k. ?has \<le> k \<Longrightarrow> k < will \<Longrightarrow> \<not> used_block s1 (file_blocks s2 ?i2 ! k)"
    using ext unfolding extended_def i1_def by auto
  have same: "sectors s2 (file_blocks s1 i1 ! k) = sectors s1 (file_blocks s1 i1 ! k)" if "k < ?has" for k
  proof (rule keep)
    show "used_block s1 (file_blocks s1 i1 ! k)" using h that unfolding holds_def by blast
    have "file_blocks s1 i1 ! k \<in> set (take ?has (file_blocks s1 i1))"
      using h that unfolding in_set_conv_nth by (intro exI [of _ k]) (simp add: holds_def file_blocks_length)
    then show "12 < ?has \<longrightarrow> file_blocks s1 i1 ! k \<noteq> i_sectors i1 ! 12" using h unfolding holds_def by (metis leD)
  qed
  have u2: "\<And>k. k < will \<Longrightarrow> used_block s2 (file_blocks s2 ?i2 ! k)" and d2: "distinct (take will (file_blocks s2 ?i2))"
    and len: "length (file_blocks s2 ?i2) = 140" "will \<le> 140" using h2 by (simp_all add: holds_def file_blocks_length)
  have up: "x div 512 < will" if "x < a + length src" for x
    using div_le_mono [of x "a + length src" 512] that a(2) by simp
  have data: "sectors s5 l = d l" if "used_block s2 l" for l
    using s5(1) used_block_facts(1) [OF eg(1) that] eg(2) by simp
  have still: "d l = sectors s2 l" if "\<And>k. a div 512 \<le> k \<Longrightarrow> k < will \<Longrightarrow> l \<noteq> file_blocks s2 ?i2 ! k" for l
    using w that bl up unfolding data_written_def from_block_def by metis
  have tab: "12 < will \<longrightarrow> sectors s5 (i_sectors ?i2 ! 12) = sectors s2 (i_sectors ?i2 ! 12)"
  proof
    assume "12 < will"
    then have t: "used_block s2 (i_sectors ?i2 ! 12)" "i_sectors ?i2 ! 12 \<notin> set (take will (file_blocks s2 ?i2))"
      using h2 by (simp_all add: holds_def)
    have "d (i_sectors ?i2 ! 12) = sectors s2 (i_sectors ?i2 ! 12)" by (rule still) (use t(2) len in \<open>auto simp: in_set_conv_nth\<close>)
    then show "sectors s5 (i_sectors ?i2 ! 12) = sectors s2 (i_sectors ?i2 ! 12)" using data [OF t(1)] by simp
  qed
  note hc = holds_cong [OF h2 s5(2,3) i5(1) tab]
  show "holds s5 i5 will" by (rule hc(1))
  have byte: "block_byte s5 (file_blocks s5 i5) x = (if x < a then block_byte s1 (file_blocks s1 i1) x else src ! (x - a))" if x: "x < a + length src" for x
  proof (cases "a div 512 \<le> x div 512")
    case True
    have k: "x div 512 < will" using up [OF x] .
    have "block_byte s5 (file_blocks s5 i5) x = d (bl ! (x div 512)) ! (x mod 512)"
      using k True hc(2) bl data [OF u2 [OF k]] by (simp add: block_byte_def)
    also have "\<dots> = (if x < a then sectors s2 (bl ! (x div 512)) ! (x mod 512) else src ! (x - a))"
      using w True x unfolding data_written_def from_block_def by blast
    also have "\<dots> = (if x < a then block_byte s1 (file_blocks s1 i1) x else src ! (x - a))"
    proof (cases "x < a")
      case True
      then have "x div 512 < ?has" using div_le_mono [of x a 512] by simp
      then show ?thesis using True \<open>a div 512 \<le> x div 512\<close> k bl old same by (simp add: block_byte_def)
    qed simp
    finally show ?thesis .
  next
    case False
    then have k: "x div 512 < ?has" "x div 512 < will" "x < a" using up [OF x] div_le_mono [of a x 512] by (simp, simp, metis not_le)
    have "d (file_blocks s2 ?i2 ! (x div 512)) = sectors s2 (file_blocks s2 ?i2 ! (x div 512))"
    proof (rule still)
      fix j assume "a div 512 \<le> j" "j < will"
      then show "file_blocks s2 ?i2 ! (x div 512) \<noteq> file_blocks s2 ?i2 ! j"
        using False k d2 len nth_eq_iff_index_eq [OF d2, of "x div 512" j] by auto
    qed
    then show ?thesis using k hc(2) data [OF u2 [OF k(2)]] old same by (simp add: block_byte_def)
  qed
  show "file_bytes s5 i5 = file_bytes s1 i1 @ src"
    by (rule nth_equalityI) (use byte in \<open>auto simp: file_bytes_def i5(2) a(1) [symmetric] nth_append\<close>)
  assume b: "used_block s1 b" "b \<notin> set (take ?has (file_blocks s1 i1))" "12 < ?has \<longrightarrow> b \<noteq> i_sectors i1 ! 12"
  have "b \<noteq> file_blocks s2 ?i2 ! k" if "a div 512 \<le> k" "k < will" for k
  proof (cases "k < ?has")
    case True
    then have "file_blocks s1 i1 ! k \<in> set (take ?has (file_blocks s1 i1))"
      using h unfolding in_set_conv_nth by (intro exI [of _ k]) (simp add: holds_def file_blocks_length)
    then show ?thesis using b(2) old [OF True] by auto
  next
    case False
    then show ?thesis using fresh that b(1) by (metis not_less)
  qed
  then have "d b = sectors s2 b" by (rule still)
  then show "sectors s5 b = sectors s1 b" using data [OF mono [OF b(1)]] keep [OF b(1) b(3)] by simp
qed

lemma file_write_tail:
  fixes p s1 buf count
  defines "i1 \<equiv> inodes s1 p" and "a \<equiv> unat (i_size (inodes s1 p))" and "src \<equiv> take (unat count) buf"
  assumes g: "geom s1" and h: "holds s1 i1 (a div 512 + 1)" and p: "p = fd_inode (file_table s1 ! fd)" "fd < length (file_table s1)"
    and n: "a + unat count < 71680" "unat count \<le> length buf" "will = (a + unat count) div 512 + 1" and r: "room s1 (will - (a div 512 + 1) + 1 + m)"
    and st: "INODE_SIZE * (unat (i_no i1) mod 256) mod 512 + INODE_SIZE \<le> 512"
    and lv: "live s1 = (q2, pgdir (cur_task s1) = NULL) # (q1, pgdir (cur_task s1) = NULL) # l" "q1 \<noteq> 0" "q2 \<noteq> 0"
  shows "\<exists>s'. bindM (write_blocks p (a div 512 + 1) will) (\<lambda>r.
     case r of None \<Rightarrow> returnM (-1)
     | Some blocks \<Rightarrow>
     bindM (upd_file fd (\<lambda>f. f\<lparr>fd_pos := i_size i1 - 1\<rparr>)) (\<lambda>_.
     bindM (liftM (buf_read 0 (unat count) buf)) (\<lambda>src.
     bindM (write_loop True src blocks fd) (\<lambda>_.
     bindM (getM (\<lambda>s. inodes s p)) (\<lambda>i'.
     bindM (inode_sync i' 512) (\<lambda>_.
     bindM (sys_free_fs q2) (\<lambda>_.
     bindM (sys_free_fs q1) (\<lambda>_. returnM count)))))))) s1 = Inr (count, s') \<and>
    file_bytes s' (inodes s' p) = file_bytes s1 i1 @ src \<and> holds s' (inodes s' p) will \<and> geom s' \<and> room s' m \<and>
    inodes s' = (inodes s1)(p := i1\<lparr>i_size := i_size i1 + count, i_sectors := i_sectors (inodes s' p)\<rparr>) \<and>
    file_table s' = (file_table s1)[fd := (file_table s1 ! fd)\<lparr>fd_pos := i_size i1 - 1 + count\<rparr>] \<and> live s' = l \<and> mallocs s' = mallocs s1 \<and> malloc_ok s' = malloc_ok s1 \<and>
    (\<forall>b. used_block s1 b \<longrightarrow> used_block s' b \<and> (b \<notin> set (take (a div 512 + 1) (file_blocks s1 i1)) \<longrightarrow>
       (12 < a div 512 + 1 \<longrightarrow> b \<noteq> i_sectors i1 ! 12) \<longrightarrow> sectors s' b = sectors s1 b))"
proof -
  have will: "a div 512 + 1 \<le> will" "will \<le> 140" using n by (simp_all add: div_le_mono)
  obtain bl s2 where s2: "write_blocks p (a div 512 + 1) will s1 = Inr (Some bl, s2)" "extended p (a div 512 + 1) will bl s1 s2" "room s2 m"
    using write_blocks_run [OF g h [unfolded i1_def] will r] by blast
  note eg = extended_geom [OF g s2(2)]
  note i2 = extended_inodes [OF s2(2), folded i1_def] and bl = extended_inodes(4) [OF s2(2), of "a div 512", simplified]
  have sz: "i_size (inodes s2 p) = i_size i1" "i_no (inodes s2 p) = i_no i1" 
    using arg_cong [OF eg(8), of i_size] arg_cong [OF eg(8), of i_no] by (simp_all add: i1_def)
  have cnt: "length src = unat count" "of_nat (length src) = count" using n(2) by (simp_all add: src_def)
  define s3 where "s3 = s2\<lparr>file_table := (file_table s2)[fd := (file_table s2 ! fd)\<lparr>fd_pos := i_size i1 - 1\<rparr>]\<rparr>"
  have u3: "upd_file fd (\<lambda>f. f\<lparr>fd_pos := i_size i1 - 1\<rparr>) s2 = Inr ((), s3)" by (simp add: upd_file_run s3_def)
  have ok3: "sect_ok s3" using eg(1) by (simp add: s3_def geom_def table_ok_def sect_ok_def)
  have "blocks_good bl a (a + length src)"
    by (rule holds_good [OF eg(1) i2(2,3) bl]) (use n cnt in simp)
  then obtain d where d: "write_loop True src bl fd s3 = Inr ((), s3\<lparr>sectors := d,
      inodes := (inodes s3)(p := (inodes s3 p)\<lparr>i_size := i_size i1 + count\<rparr>),
      file_table := (file_table s3)[fd := (file_table s3 ! fd)\<lparr>fd_pos := fd_pos (file_table s3 ! fd) + count\<rparr>]\<rparr>)"
    "data_written bl a src (sectors s2) d"
    using write_loop_run [OF ok3, of p fd "i_size i1" src bl True] p eg(5) sz(1) cnt n(1) by (auto simp: s3_def a_def i1_def)
  define s4 where "s4 = s3\<lparr>sectors := d, inodes := (inodes s3)(p := (inodes s3 p)\<lparr>i_size := i_size i1 + count\<rparr>),
      file_table := (file_table s3)[fd := (file_table s3 ! fd)\<lparr>fd_pos := fd_pos (file_table s3 ! fd) + count\<rparr>]\<rparr>"
  have bm4: "block_bitmap s4 = block_bitmap s2" "sb s4 = sb s2" "live s4 = live s1" "mallocs s4 = mallocs s1" "cur_task s4 = cur_task s1" "sectors s4 = d"
    using eg by (simp_all add: s4_def s3_def cur_task_def running_thread_def)
  have d512: "sect_ok s4" using d(2) by (simp add: data_written_def sect_ok_def s4_def)
  have t4: "geom s4" using eg(1) d512 bm4(1,2) by (simp add: geom_def table_ok_def data_lba_def s4_def s3_def)
  have i4: "inodes s4 = (inodes s1)(p := i1\<lparr>i_size := i_size i1 + count, i_sectors := i_sectors (inodes s2 p)\<rparr>)"
    by (subst s4_def, simp add: s3_def, subst i2(1), subst eg(8)) (simp add: i1_def fun_eq_iff)
  have st4: "INODE_SIZE * (unat (i_no (inodes s4 p)) mod 256) mod 512 + INODE_SIZE \<le> 512" "length (i_sectors (inodes s4 p)) = 13"
    using st i2(2) by (simp_all add: i4 holds_def)
  obtain d5 where d5: "inode_sync (inodes s4 p) 512 s4 = Inr ((), s4\<lparr>sectors := d5\<rparr>)" "sect_ok (s4\<lparr>sectors := d5\<rparr>)"
    "\<forall>l. unat (sb_inode_table_lba (sb s4)) + 608 \<le> unat l \<longrightarrow> d5 l = d l"
    using inode_sync_sectors [of s4 "inodes s4 p" 512] t4 st4 bm4(6) by (auto simp: geom_def)
  define s' where "s' = s4\<lparr>sectors := d5, live := l\<rparr>"
  have f: "sys_free_fs q2 (s4\<lparr>sectors := d5\<rparr>) = Inr ((), s4\<lparr>sectors := d5, live := (q1, pgdir (cur_task s1) = NULL) # l\<rparr>)"
    "sys_free_fs q1 (s4\<lparr>sectors := d5, live := (q1, pgdir (cur_task s1) = NULL) # l\<rparr>) = Inr ((), s')"
    using lv bm4(3,5) by (subst free_run; simp add: s'_def)+
  have src: "buf_read 0 (unat count) buf = Inr src" using n(2) by (simp add: buf_read_def src_def)
  have pre: "a = unat (i_size (inodes s1 p))" "will = (a + length src) div 512 + 1" "\<forall>l. data_lba s1 \<le> unat l \<longrightarrow> sectors s' l = d l"
    "block_bitmap s' = block_bitmap s2" "sb s' = sb s2" "i_sectors (inodes s' p) = i_sectors (inodes s2 p)" "unat (i_size (inodes s' p)) = a + length src"
    using n(1,3) cnt d5(3) g bm4(1,2) eg(3) by (auto simp: a_def s'_def geom_def i4 i1_def unat_add_lt)
  note keep = appended [OF g h [unfolded i1_def] s2(2) pre(1,2) d(2) pre(3-7)]
  have used: "used_block s' = used_block s2" "room s' = room s2" using pre(4,5) by (simp_all add: fun_eq_iff used_block_def room_def data_lba_def)
  have "geom s'" using t4 d5(2) by (simp add: geom_def table_ok_def sect_ok_def data_lba_def s'_def)
  moreover have "inodes s' = (inodes s1)(p := i1\<lparr>i_size := i_size i1 + count, i_sectors := i_sectors (inodes s' p)\<rparr>)"
    using i4 by (simp add: s'_def)
  moreover have "file_table s' = (file_table s1)[fd := (file_table s1 ! fd)\<lparr>fd_pos := i_size i1 - 1 + count\<rparr>]"
    using eg(5) p(2) by (simp add: s'_def s4_def s3_def)
  moreover have "live s' = l" "mallocs s' = mallocs s1" "malloc_ok s' = malloc_ok s1" using bm4(4) eg(9) by (simp_all add: s'_def s4_def s3_def)
  moreover have "write_loop True src bl fd s3 = Inr ((), s4)" unfolding s4_def by (rule d(1))
  moreover note s2(1) u3 src d5(1) f
  ultimately show ?thesis
    using keep i2(5) s2(3) used unfolding i1_def by (intro exI [of _ s'] conjI) (simp_all add: stm_defs)
qed

text \<open>A file that a write can extend: it has the blocks of its size, or it has never been written.\<close>

definition extensible :: "fs \<Rightarrow> inode \<Rightarrow> bool" where
  "extensible s i \<longleftrightarrow> holds s i (unat (i_size i) div 512 + 1) \<or> i_size i = 0 \<and> i_sectors i = replicate 13 0"

text \<open>The blocks of a file, the one of its table included.\<close>

definition own_blocks :: "fs \<Rightarrow> inode \<Rightarrow> u32 set" where
  "own_blocks s i = set (take (unat (i_size i) div 512 + 1) (file_blocks s i)) \<union>
     (if 12 < unat (i_size i) div 512 + 1 then {i_sectors i ! 12} else {})"

lemma heap_change:
  fixes s q l
  defines "s' \<equiv> s\<lparr>mallocs := q, live := l\<rparr>"
  shows "geom s' = geom s" "used_block s' = used_block s" "room s' = room s" "holds s' = holds s" "file_blocks s' = file_blocks s"
    "file_bytes s' = file_bytes s"
proof -
  show u: "used_block s' = used_block s" "file_blocks s' = file_blocks s"
    by (simp_all add: fun_eq_iff s'_def used_block_def data_lba_def file_blocks_def)
  show "geom s' = geom s" "room s' = room s" by (simp_all add: fun_eq_iff s'_def geom_def table_ok_def sect_ok_def data_lba_def room_def)
  show "holds s' = holds s" by (simp add: fun_eq_iff holds_def u)
  show "file_bytes s' = file_bytes s" by (simp add: fun_eq_iff file_bytes_def block_byte_def u) (simp add: s'_def)
qed

text \<open>The first block, when the file has none.\<close>

lemma first_block:
  fixes s p
  defines "i \<equiv> inodes s p"
  assumes g: "geom s" and r: "room s (Suc n)" and i: "extensible s i" and root: "used_block s (sb_data_start_lba (sb s))"
  shows "\<exists>s1. (if i_sectors i ! 0 = 0 then
         bindM block_bitmap_alloc (\<lambda>block_lba. if block_lba = -1 then e else
         bindM (set_sector p 0 block_lba) (\<lambda>_.
         bindM (getM (\<lambda>s. block_lba - sb_data_start_lba (sb s))) (\<lambda>block_bitmap_idx.
         bindM (assertM (block_bitmap_idx \<noteq> 0) w) (\<lambda>_.
         bindM (bitmap_sync block_bitmap_idx BLOCK_BITMAP) (\<lambda>_. returnM True))))) else returnM True) s = Inr (True, s1) \<and>
    geom s1 \<and> room s1 n \<and> holds s1 (inodes s1 p) (unat (i_size i) div 512 + 1) \<and> file_bytes s1 (inodes s1 p) = file_bytes s i \<and>
    inodes s1 = (inodes s)(p := i\<lparr>i_sectors := i_sectors (inodes s1 p)\<rparr>) \<and> file_table s1 = file_table s \<and> live s1 = live s \<and>
    mallocs s1 = mallocs s \<and> malloc_ok s1 = malloc_ok s \<and> cur_task s1 = cur_task s \<and>
    (\<forall>b. used_block s b \<longrightarrow> used_block s1 b \<and> (b \<in> own_blocks s1 (inodes s1 p) \<longrightarrow> b \<in> own_blocks s i) \<and>
        (b \<notin> own_blocks s i \<longrightarrow> sectors s1 b = sectors s b))"
proof (cases "holds s i (unat (i_size i) div 512 + 1)")
  case True
  then have "used_block s (file_blocks s i ! 0)" "length (i_sectors i) = 13" by (simp_all add: holds_def)
  then have "i_sectors i ! 0 \<noteq> 0" using used_block_facts(3) [OF g] by (auto simp: file_blocks_direct)
  then show ?thesis using True g room_mono [OF r, of n] by (intro exI [of _ s]) (simp add: returnM_def i_def)
next
  case False
  then have z: "i_size i = 0" "i_sectors i = replicate 13 0" using i by (simp_all add: extensible_def)
  obtain s1 secs where s1: "bindM block_bitmap_alloc (\<lambda>block_lba. if block_lba = -1 then e else
         bindM (set_sector p 0 block_lba) (\<lambda>_.
         bindM (getM (\<lambda>s. block_lba - sb_data_start_lba (sb s))) (\<lambda>block_bitmap_idx.
         bindM (assertM (block_bitmap_idx \<noteq> 0) w) (\<lambda>_.
         bindM (bitmap_sync block_bitmap_idx BLOCK_BITMAP) (\<lambda>_. returnM True))))) s = Inr (True, s1)"
    "grown p secs s s1" "holds s1 (inodes s1 p) 1" "room s1 n" "\<forall>c. used_block s c \<longrightarrow> used_block s1 c" "\<not> used_block s (secs ! 0)"
    using first_block_run [OF g r z(2) [unfolded i_def] root] by blast
  note f = grown_facts [OF s1(2)]
  have ino: "inodes s1 = (inodes s)(p := i\<lparr>i_sectors := secs\<rparr>)" using s1(2) by (auto simp: grown_def i_def)
  have len: "length secs = 13" using s1(3) by (simp add: holds_def f(1))
  have "own_blocks s1 (inodes s1 p) = {secs ! 0}"
    using z(1) len by (simp add: own_blocks_def f(1) i_def file_blocks_def take_Suc_conv_app_nth)
  moreover have "sectors s1 b = sectors s b" if "used_block s b" for b using f(12) used_block_facts(1) [OF g that] by simp
  ultimately show ?thesis using s1 f z ino g by (intro exI [of _ s1]) (auto simp: file_bytes_def i_def)
qed

lemma inode_updates:
  "f1 = f0(p := i\<lparr>i_sectors := x\<rparr>) \<Longrightarrow> f2 = f1(p := (f1 p)\<lparr>i_size := n, i_sectors := y\<rparr>) \<Longrightarrow> f2 = f0(p := i\<lparr>i_size := n, i_sectors := y\<rparr>)"
  for f0 :: "ptr \<Rightarrow> inode"
  by simp

lemma file_write_run:
  fixes s fd buf count
  defines "f \<equiv> file_table s ! fd" and "p \<equiv> fd_inode (file_table s ! fd)" and "i \<equiv> inodes s (fd_inode (file_table s ! fd))"
  assumes g: "geom s" and fd: "fd < length (file_table s)" and i: "extensible s i" and root: "used_block s (sb_data_start_lba (sb s))"
    and n: "unat (i_size i) + unat count < 71680" "unat count \<le> length buf"
    and r: "room s ((unat (i_size i) + unat count) div 512 - unat (i_size i) div 512 + 2)"
    and st: "INODE_SIZE * (unat (i_no i) mod 256) mod 512 + INODE_SIZE \<le> 512"
    and m: "malloc_ok s (mallocs s)" "malloc_ok s (mallocs s + 1)"
  shows "\<exists>s'. file_write fd buf count s = Inr (count, s') \<and>
    file_bytes s' (inodes s' p) = file_bytes s i @ take (unat count) buf \<and> extensible s' (inodes s' p) \<and> geom s' \<and>
    inodes s' = (inodes s)(p := i\<lparr>i_size := i_size i + count, i_sectors := i_sectors (inodes s' p)\<rparr>) \<and>
    file_table s' = (file_table s)[fd := f\<lparr>fd_pos := i_size i - 1 + count\<rparr>] \<and> live s' = live s \<and>
    mallocs s' = mallocs s + 2 \<and> malloc_ok s' = malloc_ok s \<and>
    (\<forall>b. used_block s b \<longrightarrow> used_block s' b \<and> (b \<notin> own_blocks s i \<longrightarrow> sectors s' b = sectors s b))"
proof -
  let ?q = "mallocs s + 2" and ?k = "pgdir (cur_task s) = NULL" and ?a = "unat (i_size i)"
  let ?will = "(?a + unat count) div 512 + 1" and ?w = "''block_bitmap_idx != 0''"
  let ?e = "bindM (printkM (''file_write: block_bitmap_alloc failed'' @ NL)) (\<lambda>_. returnM False)"
  define sm where "sm = s\<lparr>mallocs := mallocs s + 2, live := (?q + 1, ?k) # (?q, ?k) # live s\<rparr>"
  note hc [simp] = heap_change [where s = s and q = "mallocs s + 2" and l = "(?q + 1, ?k) # (?q, ?k) # live s", folded sm_def]
  have sm: "inodes sm = inodes s" "file_table sm = file_table s" "cur_task sm = cur_task s" "sb sm = sb s" "sectors sm = sectors s" "malloc_ok sm = malloc_ok s" by (simp_all add: sm_def)
  have ob: "own_blocks sm = own_blocks s" "extensible sm = extensible s" by (simp_all add: own_blocks_def extensible_def fun_eq_iff)
  have ip: "inodes s p = i" by (simp add: i_def p_def)
  have g': "geom sm" "extensible sm (inodes sm p)" "used_block sm (sb_data_start_lba (sb sm))" "room sm (Suc (?will - (?a div 512 + 1) + 1 + 0))"
    using g i root r by (simp_all add: sm ob i_def p_def)
  obtain s1 where s1: "(if i_sectors i ! 0 = 0 then
         bindM block_bitmap_alloc (\<lambda>block_lba. if block_lba = -1 then ?e else
         bindM (set_sector p 0 block_lba) (\<lambda>_.
         bindM (getM (\<lambda>s. block_lba - sb_data_start_lba (sb s))) (\<lambda>block_bitmap_idx.
         bindM (assertM (block_bitmap_idx \<noteq> 0) ?w) (\<lambda>_.
         bindM (bitmap_sync block_bitmap_idx BLOCK_BITMAP) (\<lambda>_. returnM True))))) else returnM True) sm = Inr (True, s1)"
    "geom s1" "room s1 (?will - (?a div 512 + 1) + 1 + 0)" "holds s1 (inodes s1 p) (?a div 512 + 1)" "file_bytes s1 (inodes s1 p) = file_bytes s i"
    "inodes s1 = (inodes s)(p := i\<lparr>i_sectors := i_sectors (inodes s1 p)\<rparr>)" "file_table s1 = file_table s" "live s1 = live sm" "mallocs s1 = mallocs sm"
    "cur_task s1 = cur_task s" "malloc_ok s1 = malloc_ok s" "\<forall>b. used_block s b \<longrightarrow> used_block s1 b \<and> (b \<in> own_blocks s1 (inodes s1 p) \<longrightarrow> b \<in> own_blocks s i) \<and>
        (b \<notin> own_blocks s i \<longrightarrow> sectors s1 b = sectors s b)"
    using first_block [OF g'(1,4,2,3), of ?e ?w] unfolding sm ob hc ip by blast
  have i1: "i_size (inodes s1 p) = i_size i" "i_no (inodes s1 p) = i_no i"
    using arg_cong [OF fun_cong [OF s1(6), of p], of i_size] arg_cong [OF fun_cong [OF s1(6), of p], of i_no] by simp_all
  have pre: "p = fd_inode (file_table s1 ! fd)" "fd < length (file_table s1)"
    "live s1 = (?q + 1, pgdir (cur_task s1) = NULL) # (?q, pgdir (cur_task s1) = NULL) # live s" "?q \<noteq> 0" "?q + 1 \<noteq> 0"
    using fd s1(7,8,10) by (simp_all add: p_def sm_def)
  obtain s' where s': "bindM (write_blocks p (?a div 512 + 1) ?will) (\<lambda>r.
     case r of None \<Rightarrow> returnM (-1)
     | Some blocks \<Rightarrow>
     bindM (upd_file fd (\<lambda>f. f\<lparr>fd_pos := i_size i - 1\<rparr>)) (\<lambda>_.
     bindM (liftM (buf_read 0 (unat count) buf)) (\<lambda>src.
     bindM (write_loop True src blocks fd) (\<lambda>_.
     bindM (getM (\<lambda>s. inodes s p)) (\<lambda>i'.
     bindM (inode_sync i' 512) (\<lambda>_.
     bindM (sys_free_fs (?q + 1)) (\<lambda>_.
     bindM (sys_free_fs ?q) (\<lambda>_. returnM count)))))))) s1 = Inr (count, s')"
    "file_bytes s' (inodes s' p) = file_bytes s1 (inodes s1 p) @ take (unat count) buf" "holds s' (inodes s' p) ?will" "geom s'"
    "inodes s' = (inodes s1)(p := (inodes s1 p)\<lparr>i_size := i_size i + count, i_sectors := i_sectors (inodes s' p)\<rparr>)"
    "file_table s' = (file_table s1)[fd := (file_table s1 ! fd)\<lparr>fd_pos := i_size i - 1 + count\<rparr>]" "live s' = live s"
    "mallocs s' = mallocs s1" "malloc_ok s' = malloc_ok s1"
    "\<forall>b. used_block s1 b \<longrightarrow> used_block s' b \<and> (b \<notin> set (take (?a div 512 + 1) (file_blocks s1 (inodes s1 p))) \<longrightarrow>
       (12 < ?a div 512 + 1 \<longrightarrow> b \<noteq> i_sectors (inodes s1 p) ! 12) \<longrightarrow> sectors s' b = sectors s1 b)"
    using file_write_tail [OF s1(2) _ pre(1,2) _ n(2) refl _ _ pre(3,4,5), unfolded i1, OF s1(4) n(1) s1(3) st] by blast
  have sum: "unat (i_size i + count) = ?a + unat count" using n(1) by (simp add: unat_add_lt)
  have blocks: "unat (i_size i div 512 + 1) = ?a div 512 + 1" "unat ((i_size i + count) div 512 + 1) = ?will"
    "(i_size i + count) div 512 + 1 \<le> 140" "\<not> i_size i + count > 512 * 140"
    using n(1) sum by (simp_all add: unat_div unat_add_lt word_le_nat_alt word_less_nat_alt)
  have m2: "sys_malloc_fs 512 s = Inr (?q, s\<lparr>mallocs := mallocs s + 1, live := (?q, ?k) # live s\<rparr>)"
    "sys_malloc_fs (512 + 48) (s\<lparr>mallocs := mallocs s + 1, live := (?q, ?k) # live s\<rparr>) = Inr (?q + 1, sm)"
    using m by (simp_all add: malloc_run sm_def)
  have "file_write fd buf count s = Inr (count, s')"
    unfolding file_write_def bindM_getM p_def [symmetric] ip if_not_P [OF blocks(4)] Let_def
    apply (rule bindM_eqI, rule m2(1), simp only: pre(4) if_False)
    apply (rule bindM_eqI, rule m2(2), simp only: pre(5) if_False)
    apply (rule bindM_eqI, rule s1(1) [unfolded bindM_getM])
    apply (simp only: not_True_eq_False if_False blocks(1,2))
    apply (rule bindM_eqI [of _ _ "()" s1], simp add: assertM_def blocks(3))
    by (rule s'(1) [unfolded bindM_getM])
  moreover have "extensible s' (inodes s' p)"
    using s'(3) arg_cong [OF fun_cong [OF s'(5), of p], of i_size] sum by (simp add: extensible_def)
  moreover have "inodes s' = (inodes s)(p := i\<lparr>i_size := i_size i + count, i_sectors := i_sectors (inodes s' p)\<rparr>)"
    by (rule inode_updates [OF s1(6) s'(5)])
  moreover have "\<forall>b. used_block s b \<longrightarrow> used_block s' b \<and> (b \<notin> own_blocks s i \<longrightarrow> sectors s' b = sectors s b)"
    using s'(10) s1(12) unfolding own_blocks_def i1 by auto
  ultimately show ?thesis using s'(2,4,6-9) s1(5,7,9,11) by (intro exI [of _ s']) (simp add: f_def sm_def)
qed

text \<open>
  C5. Appending to a file. Let the partition have its areas in order, the map of blocks have enough free blocks,
  the file have the blocks of its size or none, and the two buffers of the call be allocated. A write that keeps
  the file below 71680 bytes returns its count; the file then has its old bytes followed by those of the buffer,
  its size has grown by the count, its blocks are distinct and in use, a block in use that is not one of the file
  has kept its contents, the position is at the last byte and the buffers are released. The inode must not cross
  a boundary of sectors, for the buffer that it is written through has one sector.
\<close>

theorem file_write_appends:
  fixes s fd buf count
  defines "f \<equiv> file_table s ! fd" and "p \<equiv> fd_inode (file_table s ! fd)" and "i \<equiv> inodes s (fd_inode (file_table s ! fd))"
  assumes g: "geom s" and fd: "fd < length (file_table s)" and i: "extensible s i" and root: "used_block s (sb_data_start_lba (sb s))"
    and n: "unat (i_size i) + unat count < 71680" "unat count \<le> length buf"
    and r: "room s ((unat (i_size i) + unat count) div 512 - unat (i_size i) div 512 + 2)"
    and st: "INODE_SIZE * (unat (i_no i) mod 256) mod 512 + INODE_SIZE \<le> 512"
    and m: "malloc_ok s (mallocs s)" "malloc_ok s (mallocs s + 1)"
  shows "\<exists>s'. file_write fd buf count s = Inr (count, s') \<and>
    file_bytes s' (inodes s' p) = file_bytes s i @ take (unat count) buf \<and> extensible s' (inodes s' p) \<and> geom s' \<and>
    inodes s' = (inodes s)(p := i\<lparr>i_size := i_size i + count, i_sectors := i_sectors (inodes s' p)\<rparr>) \<and>
    file_table s' = (file_table s)[fd := f\<lparr>fd_pos := i_size i - 1 + count\<rparr>] \<and> live s' = live s \<and>
    (\<forall>b. used_block s b \<longrightarrow> used_block s' b \<and> (b \<notin> own_blocks s i \<longrightarrow> sectors s' b = sectors s b))"
  using file_write_run [OF g fd i [unfolded i_def] root n [unfolded i_def] r [unfolded i_def] st [unfolded i_def] m] unfolding f_def p_def i_def by blast

definition write_example :: fs where
  "write_example = fs_example\<lparr>block_bitmap := \<lparr>btmp_bytes_len = 2560, bits = (\<lambda>_. 0)(0 := 1)\<rparr>\<rparr>"

lemma write_example_used: "bm_used (block_bitmap write_example) = {0}"
proof -
  let ?b = "\<lparr>btmp_bytes_len = 2560, bits = (\<lambda>_. 0)\<rparr>"
  have "bitmap_set ?b 0 1 = Inr (block_bitmap write_example)" by (simp add: bitmap_set_def write_example_def kassert_def)
  from bm_used_set [OF this] show ?thesis by (simp add: bm_ok_def bm_size_def bm_used_def bm_bit_def)
qed

lemma write_example_ok:
  "geom write_example" "extensible write_example (inodes write_example 0)" "used_block write_example (sb_data_start_lba (sb write_example))"
  "room write_example n \<longleftrightarrow> n < 20480" "file_bytes write_example (inodes write_example 0) = []"
proof -
  show "geom write_example"
    by (simp add: write_example_def geom_def table_ok_def sect_ok_def sb_example_def bm_ok_def bm_size_def data_lba_def max_lba_def)
  show "extensible write_example (inodes write_example 0)" "file_bytes write_example (inodes write_example 0) = []"
    by (simp_all add: write_example_def extensible_def file_bytes_def)
  show "used_block write_example (sb_data_start_lba (sb write_example))"
    by (simp add: used_block_def data_lba_def write_example_used)
  show "room write_example n \<longleftrightarrow> n < 20480"
    unfolding room_def write_example_used by (simp add: write_example_def bm_size_def Suc_le_eq)
qed

theorem file_write_appends_witness:
  "\<exists>s'. file_write 0 [104, 105] 2 write_example = Inr (2, s') \<and> file_bytes s' (inodes s' 0) = [104, 105] \<and> live s' = []"
  using file_write_appends [of write_example 0 2 "[104, 105]"] write_example_ok
  by (simp add: write_example_def MAX_FILE_OPEN_def INODE_SIZE_def) blast

text \<open>
  C2. What is written is what is read. After a write as above, a read of as many bytes from the position that was
  the end of the file returns exactly the bytes of the buffer and changes no sector.
\<close>

theorem write_then_read:
  fixes s fd buf count
  defines "f \<equiv> file_table s ! fd" and "p \<equiv> fd_inode (file_table s ! fd)" and "i \<equiv> inodes s (fd_inode (file_table s ! fd))"
  assumes g: "geom s" and fd: "fd < length (file_table s)" and i: "extensible s i" and root: "used_block s (sb_data_start_lba (sb s))"
    and n: "unat (i_size i) + unat count < 71680" "unat count \<le> length buf"
    and r: "room s ((unat (i_size i) + unat count) div 512 - unat (i_size i) div 512 + 2)"
    and st: "INODE_SIZE * (unat (i_no i) mod 256) mod 512 + INODE_SIZE \<le> 512"
    and m: "malloc_ok s (mallocs s)" "malloc_ok s (mallocs s + 1)"
    and e: "(unat (i_size i) + unat count) div 512 < 139" "0 < count" and m2: "malloc_ok s (mallocs s + 2)" "malloc_ok s (mallocs s + 3)"
  shows "\<exists>s' s''. file_write fd buf count s = Inr (count, s') \<and>
    file_read fd count (s'\<lparr>file_table := (file_table s')[fd := f\<lparr>fd_pos := i_size i\<rparr>]\<rparr>) = Inr ((count, take (unat count) buf), s'') \<and>
    sectors s'' = sectors s' \<and> live s'' = live s"
proof -
  obtain s' where s': "file_write fd buf count s = Inr (count, s')"
    "file_bytes s' (inodes s' p) = file_bytes s i @ take (unat count) buf" "extensible s' (inodes s' p)" "geom s'"
    "inodes s' p = i\<lparr>i_size := i_size i + count, i_sectors := i_sectors (inodes s' p)\<rparr>"
    "file_table s' = (file_table s)[fd := f\<lparr>fd_pos := i_size i - 1 + count\<rparr>]" "live s' = live s" "mallocs s' = mallocs s + 2" "malloc_ok s' = malloc_ok s"
    using file_write_run [OF g fd i [unfolded i_def] root n [unfolded i_def] r [unfolded i_def] st [unfolded i_def] m] unfolding f_def p_def i_def
    by (metis fun_upd_same)
  let ?s = "s'\<lparr>file_table := (file_table s')[fd := f\<lparr>fd_pos := i_size i\<rparr>]\<rparr>" and ?i = "inodes s' p"
  have fb: "file_blocks ?s = file_blocks s'" "file_bytes ?s = file_bytes s'" by (simp_all add: fun_eq_iff file_blocks_def file_bytes_def block_byte_def)
  have sz: "i_size ?i = i_size i + count" using arg_cong [OF s'(5), of i_size] by simp
  have sum: "unat (i_size i + count) = unat (i_size i) + unat count" using n(1) by (simp add: unat_add_lt)
  have pos: "0 < unat count" using e(2) by (simp add: word_less_nat_alt)
  have h: "holds s' ?i (unat (i_size ?i) div 512 + 1)" using s'(3) sz pos sum by (auto simp: extensible_def unat_eq_0)
  have "file_ok s' ?i"
    using h used_block_facts [OF s'(4)] n(1) sz sum unfolding file_ok_def holds_def by (auto simp: less_Suc_eq_le)
  then have ok: "sect_ok ?s" "fd < length (file_table ?s)" "file_ok ?s ?i"
    using s'(4) fd s'(6) fb by (simp_all add: geom_def table_ok_def sect_ok_def file_ok_def)
  have f: "?i = inodes ?s (fd_inode (f\<lparr>fd_pos := i_size i\<rparr>))" "f\<lparr>fd_pos := i_size i\<rparr> = file_table ?s ! fd"
    using fd s'(6) by (simp_all add: p_def f_def)
  have "file_read fd count ?s = Inr ((of_nat (unat count), take (unat count) (drop (unat (i_size i)) (file_bytes ?s ?i))),
    ?s\<lparr>mallocs := mallocs ?s + 2, file_table := (file_table ?s)[fd := f\<lparr>fd_pos := i_size i\<rparr>\<lparr>fd_pos := i_size i + of_nat (unat count)\<rparr>]\<rparr>)"
    using file_read_run [OF ok f, of count "unat count"] sz sum pos n(1) e(1) m2 s'(8,9) by (simp add: word_less_nat_alt add.commute numeral_3_eq_3)
  moreover have "take (unat count) (drop (unat (i_size i)) (file_bytes ?s ?i)) = take (unat count) buf"
    unfolding fb s'(2) using n(2) by (simp add: file_bytes_def)
  ultimately show ?thesis
    using s'(1,7) by (intro exI [of _ s'] exI [of _ "?s\<lparr>mallocs := mallocs ?s + 2, file_table := _\<rparr>"]) simp
qed

theorem write_then_read_witness:
  "\<exists>s' s''. file_write 0 [104, 105] 2 write_example = Inr (2, s') \<and>
    file_read 0 2 (s'\<lparr>file_table := (file_table s')[0 := \<lparr>fd_pos = 0, fd_flag = 0, fd_inode = 0\<rparr>]\<rparr>) = Inr ((2, [104, 105]), s'')"
  using write_then_read [of write_example 0 2 "[104, 105]"] write_example_ok
  by (simp add: write_example_def MAX_FILE_OPEN_def INODE_SIZE_def) blast

end
