(* ===== verification/Shell.thy ===== *)
theory Shell
  imports Path
begin

text \<open>
  How the shell reads a line, cuts it into words and clears a path of dots (\<^verbatim>\<open>readline\<close> and \<^verbatim>\<open>cmd_parse\<close> of
  \<^verbatim>\<open>shell/shell.c\<close>, \<^verbatim>\<open>wash_path\<close> of \<^verbatim>\<open>shell/buildin_cmd.c\<close>). The keys that \<^verbatim>\<open>read\<close> returns one after the other are a
  list. A pointer into the line is an index; reading or writing outside an array is a fault. The lemmas show
  that each routine computes what a short functional description says.
\<close>

section \<open>Reading a line\<close>

text \<open>What goes to the screen.\<close>

datatype echo = Echo u8 | Clear_screen | Prompt | Print "u8 list"

record line_state =
  line_buf :: "u8 list"
  line_pos :: nat
  echoed :: "echo list"

text \<open>The loop of control-u.\<close>

fun erase_line :: "nat \<Rightarrow> line_state \<Rightarrow> line_state" where
  "erase_line 0 r = r"
| "erase_line (Suc pos) r = erase_line pos (r\<lparr>line_buf := (line_buf r)[Suc pos := 0], line_pos := pos, echoed := echoed r @ [Echo 8]\<rparr>)"

text \<open>One key, which \<^verbatim>\<open>read\<close> has put at \<^verbatim>\<open>pos\<close>. The boolean says whether the line is complete.\<close>

definition line_key :: "line_state \<Rightarrow> (line_state \<times> bool) res" where
  "line_key r =
     (let pos = line_pos r; c = line_buf r ! pos in
      if c = 10 \<or> c = 13 then Inr (r\<lparr>line_buf := (line_buf r)[pos := 0], echoed := echoed r @ [Echo 10]\<rparr>, True)
      else if c = 8 then
        (if line_buf r ! 0 \<noteq> 8 then Inr (r\<lparr>line_pos := pos - 1, echoed := echoed r @ [Echo 8]\<rparr>, False) else Inr (r, False))
      else if c = 0x6c - 0x61 then
        let buf = (line_buf r)[pos := 0] in
        bindR (buf_cstr 0 buf) (\<lambda>str.
        Inr (r\<lparr>line_buf := buf, echoed := echoed r @ [Clear_screen, Prompt, Print str]\<rparr>, False))
      else if c = 0x75 - 0x61 then Inr (erase_line pos r, False)
      else Inr (r\<lparr>line_pos := pos + 1, echoed := echoed r @ [Echo c]\<rparr>, False))"

text \<open>
  The keys that follow the line are in the result; \<open>None\<close> is a line that is not complete yet. The test of the
  length comes after \<^verbatim>\<open>read\<close> has written the key.
\<close>

fun readline :: "u8 list \<Rightarrow> nat \<Rightarrow> line_state \<Rightarrow> (line_state \<times> u8 list option) res" where
  "readline [] count r = Inr (r, None)"
| "readline (k # keys) count r =
     (if line_pos r < length (line_buf r) then
        let r1 = r\<lparr>line_buf := (line_buf r)[line_pos r := k]\<rparr> in
        if line_pos r1 < count then
          bindR (line_key r1) (\<lambda>(r2, fin). if fin then Inr (r2, Some keys) else readline keys count r2)
        else Inr (r1\<lparr>echoed := echoed r1 @ [Print (bytes_of (''readline: can`t find enter_key in the cmd_line, max num of char is 128'' @ NL))]\<rparr>, Some keys)
      else Inl (Bad_access ''read past cmd_line''))"

text \<open>The line as it is edited, and the keys behind it.\<close>

fun edit :: "u8 list \<Rightarrow> u8 list \<Rightarrow> (u8 list \<times> u8 list) option" where
  "edit l [] = None"
| "edit l (k # keys) = (if k = 10 \<or> k = 13 then Some (l, keys) else if k = 8 then edit (butlast l) keys
     else if k = 11 then edit l keys else if k = 20 then edit [] keys else edit (l @ [k]) keys)"

subsection \<open>The line that is read\<close>

text \<open>The first \<^verbatim>\<open>pos\<close> bytes of the array are the line.\<close>

definition holds_line :: "u8 list \<Rightarrow> line_state \<Rightarrow> bool" where
  "holds_line l r \<longleftrightarrow> line_pos r = length l \<and> take (length l) (line_buf r) = l \<and> 8 \<notin> set l"

lemma erase_line_facts:
  "line_pos r = pos \<Longrightarrow> line_pos (erase_line pos r) = 0 \<and> length (line_buf (erase_line pos r)) = length (line_buf r)"
  by (induction pos arbitrary: r) auto

lemma cstr_cut:
  assumes "take n buf = l" "length l = n" "n < length buf"
  shows "buf_cstr 0 (buf[n := 0]) = Inr (takeWhile (\<lambda>b. b \<noteq> 0) l)"
proof -
  have "buf[n := 0] = l @ 0 # drop (Suc n) buf" using assms by (simp add: upd_conv_take_nth_drop)
  then show ?thesis by (simp add: buf_cstr_def takeWhile_tail)
qed

lemma line_key_edits:
  assumes h: "holds_line l r" and p: "length l < length (line_buf r)"
    and k: "r1 = r\<lparr>line_buf := (line_buf r)[length l := k]\<rparr>"
  shows "\<exists>r2 fin. line_key r1 = Inr (r2, fin) \<and> length (line_buf r2) = length (line_buf r) \<and>
    (if k = 10 \<or> k = 13 then fin \<and> buf_cstr 0 (line_buf r2) = Inr (takeWhile (\<lambda>b. b \<noteq> 0) l)
     else \<not> fin \<and> holds_line (if k = 8 then butlast l else if k = 11 then l else if k = 20 then [] else l @ [k]) r2)"
proof -
  have pos: "line_pos r1 = length l" and buf: "line_buf r1 = (line_buf r)[length l := k]" using h by (auto simp: holds_line_def k)
  have tk: "take (length l) (line_buf r1) = l" and at: "line_buf r1 ! length l = k" and len: "length (line_buf r1) = length (line_buf r)"
    and no8: "8 \<notin> set l"
    using h p by (auto simp: holds_line_def buf)
  have tk1: "take (Suc (length l)) (line_buf r1) = l @ [k]" using p tk at len by (simp add: take_Suc_conv_app_nth)
  have cut: "buf_cstr 0 ((line_buf r1)[length l := 0]) = Inr (takeWhile (\<lambda>b. b \<noteq> 0) l)"
    using tk p len by (intro cstr_cut) auto
  have first: "line_buf r1 ! 0 = (if l = [] then k else hd l)"
    using at tk by (cases l) (auto simp: nth_take [of 0 "length l" "line_buf r1", symmetric])
  have bl: "take (length l - 1) (line_buf r1) = butlast l"
    using arg_cong [OF tk, of butlast] p len by (simp add: butlast_take)
  have er: "line_pos (erase_line (length l) r1) = 0" "length (line_buf (erase_line (length l) r1)) = length (line_buf r)"
    using erase_line_facts [OF pos] len by auto
  have hd8: "l \<noteq> [] \<Longrightarrow> hd l \<noteq> 8" using no8 by (cases l) auto
  consider "k = 10 \<or> k = 13" | "k = 8" | "k = 11" | "k = 20" | "k \<notin> {10, 13, 8, 11, 20}" by auto
  then show ?thesis
  proof cases
    case 1
    then show ?thesis using cut len by (auto simp: line_key_def Let_def pos at)
  next
    case 2
    then show ?thesis using no8 bl first hd8 len
      by (auto simp: line_key_def Let_def pos at holds_line_def dest: in_set_butlastD)
  next
    case 3
    then show ?thesis using cut no8 tk len by (auto simp: line_key_def Let_def pos at holds_line_def)
  next
    case 4
    then show ?thesis using er by (auto simp: line_key_def Let_def pos at holds_line_def)
  next
    case 5
    then show ?thesis using no8 tk1 len by (auto simp: line_key_def Let_def pos at holds_line_def)
  qed
qed

lemma readline_run:
  assumes "holds_line l r" "length l + length keys \<le> length (line_buf r)"
  shows "\<exists>r' rest. readline keys (length (line_buf r)) r = Inr (r', rest) \<and>
    (case edit l keys of None \<Rightarrow> rest = None
     | Some (l', keys') \<Rightarrow> rest = Some keys' \<and> buf_cstr 0 (line_buf r') = Inr (takeWhile (\<lambda>b. b \<noteq> 0) l'))"
  using assms
proof (induction keys arbitrary: l r)
  case (Cons k keys)
  have pos: "line_pos r = length l" and lt: "length l < length (line_buf r)" using Cons.prems by (auto simp: holds_line_def)
  obtain r2 fin where k: "line_key (r\<lparr>line_buf := (line_buf r)[length l := k]\<rparr>) = Inr (r2, fin)" "length (line_buf r2) = length (line_buf r)"
    and e: "if k = 10 \<or> k = 13 then fin \<and> buf_cstr 0 (line_buf r2) = Inr (takeWhile (\<lambda>b. b \<noteq> 0) l)
     else \<not> fin \<and> holds_line (if k = 8 then butlast l else if k = 11 then l else if k = 20 then [] else l @ [k]) r2"
    using line_key_edits [OF Cons.prems(1) lt refl] by blast
  show ?case
  proof (cases "k = 10 \<or> k = 13")
    case True
    then show ?thesis using k e lt by (auto simp: pos)
  next
    case False
    let ?l = "if k = 8 then butlast l else if k = 11 then l else if k = 20 then [] else l @ [k]"
    have "edit l (k # keys) = edit ?l keys" using False by auto
    moreover have "length ?l + length keys \<le> length (line_buf r2)" using Cons.prems(2) k(2) by auto
    ultimately show ?thesis using Cons.IH [of ?l r2] e k False lt by (auto simp: pos)
  qed
qed simp



section \<open>Words\<close>

function skip_token :: "u8 \<Rightarrow> u8 list \<Rightarrow> nat \<Rightarrow> nat res" where
  "skip_token token buf i =
     (if i < length buf then if buf ! i = token then skip_token token buf (i + 1) else Inr i
      else Inl (Bad_access ''cmd_str''))"
  by pat_completeness auto
termination by (relation "measure (\<lambda>(token, buf, i). length buf - i)") auto

function skip_word :: "u8 \<Rightarrow> u8 list \<Rightarrow> nat \<Rightarrow> nat res" where
  "skip_word token buf i =
     (if i < length buf then if buf ! i \<noteq> 0 \<and> buf ! i \<noteq> token then skip_word token buf (i + 1) else Inr i
      else Inl (Bad_access ''cmd_str''))"
  by pat_completeness auto
termination by (relation "measure (\<lambda>(token, buf, i). length buf - i)") auto

declare skip_token.simps [simp del] skip_word.simps [simp del]

lemma skip_token_Inr: "skip_token t buf i = Inr j \<Longrightarrow> i \<le> j \<and> j < length buf \<and> buf ! j \<noteq> t"
  by (induction t buf i rule: skip_token.induct) (subst (asm) (2) skip_token.simps, auto split: if_splits)

lemma skip_word_Inr: "skip_word t buf i = Inr j \<Longrightarrow> i \<le> j \<and> j < length buf \<and> (buf ! j = 0 \<or> buf ! j = t)"
  by (induction t buf i rule: skip_word.induct) (subst (asm) (2) skip_word.simps, auto split: if_splits)

definition MAX_ARG_NR :: nat where "MAX_ARG_NR = 16"

text \<open>The outer loop, with the line, the array, the number of words found and the place in the line.\<close>

function parse_words :: "u8 \<Rightarrow> u8 list \<Rightarrow> nat option list \<Rightarrow> nat \<Rightarrow> nat \<Rightarrow> (u8 list \<times> nat option list \<times> int) res" where
  "parse_words token buf argv argc next =
     (if \<not> next < length buf then Inl (Bad_access ''cmd_str'')
      else if buf ! next = 0 then Inr (buf, argv, int argc)
      else case skip_token token buf next of Inl e \<Rightarrow> Inl e | Inr j \<Rightarrow>
        if buf ! j = 0 then Inr (buf, argv, int argc)
        else if \<not> argc < length argv then Inl (Bad_access ''argv[argc]'')
        else
        let argv' = argv[argc := Some j] in
        case skip_word token buf j of Inl e \<Rightarrow> Inl e | Inr k \<Rightarrow>
        let buf' = (if buf ! k \<noteq> 0 then buf[k := 0] else buf); next' = (if buf ! k \<noteq> 0 then k + 1 else k) in
        if argc > MAX_ARG_NR then Inr (buf', argv', -1)
        else parse_words token buf' argv' (argc + 1) next')"
  by pat_completeness auto
termination
proof (relation "measure (\<lambda>(token, buf, argv, argc, next). length buf - next)", goal_cases)
  case (2 token buf argv argc next' j argv' k buf' next'')
  then have "next' \<le> j" "buf ! j \<noteq> token" "j \<le> k" "k < length buf" "buf ! k = 0 \<or> buf ! k = token"
    using skip_token_Inr [of token buf next' j] skip_word_Inr [of token buf j k] by auto
  moreover have "buf ! j \<noteq> 0" using 2 by simp
  ultimately have "j \<noteq> k" "next' \<le> j" "j \<le> k" by auto
  then have "next' < k" by linarith
  with 2(8,9) \<open>k < length buf\<close> show ?case by auto
qed simp

declare parse_words.simps [simp del]

definition cmd_parse :: "u8 list \<Rightarrow> nat \<Rightarrow> u8 \<Rightarrow> (u8 list \<times> nat option list \<times> int) res" where
  "cmd_parse buf cmd_str token = parse_words token buf (replicate MAX_ARG_NR None) 0 cmd_str"



lemma skip_token_run:
  "\<forall>x\<in>set ts. x = t \<Longrightarrow> c \<noteq> t \<Longrightarrow> skip_token t (pre @ ts @ c # post) (length pre) = Inr (length pre + length ts)"
proof (induction ts arbitrary: pre)
  case (Cons x ts)
  then show ?case using Cons.IH [of "pre @ [x]"] by (subst skip_token.simps) simp
qed (subst skip_token.simps, simp)

lemma skip_word_run:
  "\<forall>x\<in>set w. x \<noteq> t \<and> x \<noteq> 0 \<Longrightarrow> c = t \<or> c = 0 \<Longrightarrow> skip_word t (pre @ w @ c # post) (length pre) = Inr (length pre + length w)"
proof (induction w arbitrary: pre)
  case (Cons x w)
  then show ?case using Cons.IH [of "pre @ [x]"] by (subst skip_word.simps) simp
qed (subst skip_word.simps, auto)

text \<open>The pointers from place \<open>n\<close> of the array on lead to the words, and the rest of the array is as before.\<close>

definition points_to :: "nat \<Rightarrow> nat option list \<Rightarrow> u8 list \<Rightarrow> u8 list list \<Rightarrow> nat option list \<Rightarrow> bool" where
  "points_to n argv buf ws argv' \<longleftrightarrow> length argv' = length argv \<and>
     (\<forall>i<length argv. if n \<le> i \<and> i < n + length ws then \<exists>j. argv' ! i = Some j \<and> buf_cstr j buf = Inr (ws ! (i - n)) else argv' ! i = argv ! i)"

lemma points_to_Nil: "points_to n argv buf [] argv"
  by (auto simp: points_to_def)

lemma points_to_Cons:
  assumes "points_to (Suc n) (argv[n := Some j]) buf ws argv'" "buf_cstr j buf = Inr w" "n < length argv"
  shows "points_to n argv buf (w # ws) argv'"
proof -
  have "(if n \<le> i \<and> i < n + length (w # ws) then \<exists>j. argv' ! i = Some j \<and> buf_cstr j buf = Inr ((w # ws) ! (i - n)) else argv' ! i = argv ! i)"
    if "i < length argv" for i
  proof (cases "i = n")
    case True
    then have "argv' ! i = Some j" using assms(1,3) by (auto simp: points_to_def)
    then show ?thesis using True assms(2) by simp
  next
    case False
    have at: "if Suc n \<le> i \<and> i < Suc n + length ws then \<exists>j. argv' ! i = Some j \<and> buf_cstr j buf = Inr (ws ! (i - Suc n))
        else argv' ! i = argv ! i"
      using assms(1) that False by (simp add: points_to_def)
    show ?thesis
    proof (cases "n < i")
      case True
      then have "(w # ws) ! (i - n) = ws ! (i - Suc n)" by (simp add: nth_Cons')
      then show ?thesis using at True by simp
    next
      case False
      then show ?thesis using at \<open>i \<noteq> n\<close> by simp
    qed
  qed
  then show ?thesis using assms(1) by (simp add: points_to_def)
qed

lemma cstr_at: "0 \<notin> set w \<Longrightarrow> buf_cstr (length pre) (pre @ w @ 0 # post) = Inr w"
  by (auto simp: buf_cstr_def takeWhile_tail takeWhile_eq_all_conv)

lemma parse_words_stop:
  assumes "\<forall>x\<in>set s. x = t" "t \<noteq> 0"
  shows "parse_words t (pre @ s @ 0 # post) argv argc (length pre) = Inr (pre @ s @ 0 # post, argv, int argc)"
proof (cases s)
  case (Cons a s')
  have "skip_token t (pre @ s @ 0 # post) (length pre) = Inr (length pre + length s)"
    using assms by (intro skip_token_run) auto
  moreover have "(pre @ s @ 0 # post) ! (length pre + length s) = 0" by (simp add: nth_append)
  ultimately show ?thesis by (subst parse_words.simps) (simp add: nth_append)
qed (subst parse_words.simps, simp)

lemma parse_words_step:
  assumes s: "s = ts @ w @ rest" "\<forall>x\<in>set ts. x = t" "w \<noteq> []" "\<forall>x\<in>set w. x \<noteq> t \<and> x \<noteq> 0"
    and r: "rest @ 0 # post = c # post'" "c = t \<or> c = 0"
    and t: "t \<noteq> 0" and n: "argc < length argv" "length argv = MAX_ARG_NR"
  shows "parse_words t (pre @ s @ 0 # post) argv argc (length pre) =
    parse_words t ((pre @ ts @ w) @ 0 # post') (argv[argc := Some (length (pre @ ts))]) (argc + 1)
      (if c \<noteq> 0 then length (pre @ ts @ w) + 1 else length (pre @ ts @ w))"
proof -
  let ?buf = "pre @ s @ 0 # post"
  obtain a w' where w: "w = a # w'" "a \<noteq> t" "a \<noteq> 0" using s(3,4) by (cases w) auto
  have buf1: "?buf = pre @ ts @ a # w' @ c # post'" and buf2: "?buf = (pre @ ts) @ w @ c # post'"
    and buf3: "?buf = (pre @ ts @ w) @ c # post'"
    using r(1) by (simp_all add: s(1) w)
  have k1: "skip_token t ?buf (length pre) = Inr (length (pre @ ts))"
    unfolding buf1 using skip_token_run [OF s(2) w(2)] by simp
  have k2: "skip_word t ?buf (length (pre @ ts)) = Inr (length (pre @ ts @ w))"
    unfolding buf2 using skip_word_run [OF s(4) r(2), of "pre @ ts"] by simp
  have a1: "?buf ! length (pre @ ts) = a" unfolding buf1 by (simp add: nth_append)
  have a2: "?buf ! length (pre @ ts @ w) = c" unfolding buf3 by (simp only: nth_append_length)
  have first: "length pre < length ?buf" "?buf ! length pre \<noteq> 0"
    unfolding buf1 using s(2) t w by (cases ts; simp)+
  have cut: "?buf[length (pre @ ts @ w) := 0] = (pre @ ts @ w) @ 0 # post'" unfolding buf3 by (simp only: list_update_length)
  have same: "c = 0 \<Longrightarrow> ?buf = (pre @ ts @ w) @ 0 # post'" unfolding buf3 by simp
  show ?thesis
    by (subst parse_words.simps)
      (use n first a1 a2 w(3) cut same in \<open>simp only: k1 k2 sum.case Let_def not_less if_True if_False refl split: if_split; auto\<close>)
qed


lemma parse_words_full:
  assumes "dropWhile (\<lambda>c. c = t) s \<noteq> []" "0 \<notin> set s" "t \<noteq> 0" "length argv = argc"
  shows "parse_words t (pre @ s @ 0 # post) argv argc (length pre) = Inl (Bad_access ''argv[argc]'')"
proof -
  obtain ts w rest where s: "s = ts @ w @ rest" "\<forall>x\<in>set ts. x = t" "w \<noteq> []" "\<forall>x\<in>set w. x \<noteq> t \<and> x \<noteq> 0"
    using word_split [OF assms(1,2)] by metis
  obtain a w' where w: "w = a # w'" "a \<noteq> t" "a \<noteq> 0" using s(3,4) by (cases w) auto
  have buf: "pre @ s @ 0 # post = pre @ ts @ a # w' @ rest @ 0 # post" by (simp add: s(1) w)
  have "skip_token t (pre @ s @ 0 # post) (length pre) = Inr (length (pre @ ts))"
    unfolding buf using skip_token_run [OF s(2) w(2)] by simp
  moreover have "(pre @ s @ 0 # post) ! length (pre @ ts) = a" unfolding buf by (simp add: nth_append)
  moreover have "length pre < length (pre @ s @ 0 # post)" "(pre @ s @ 0 # post) ! length pre \<noteq> 0"
    unfolding buf using s(2) assms(3) w by (cases ts; simp)+
  ultimately show ?thesis using w assms(4) by (subst parse_words.simps) (simp only: sum.case not_less, simp)
qed

definition parsed :: "u8 \<Rightarrow> u8 list \<Rightarrow> u8 list \<Rightarrow> u8 list \<Rightarrow> nat option list \<Rightarrow> nat \<Rightarrow> (u8 list \<times> nat option list \<times> int) res \<Rightarrow> bool" where
  "parsed t pre s post argv argc r \<longleftrightarrow>
     (if argc + length (words_of t s) \<le> length argv
      then \<exists>s' argv'. r = Inr (pre @ s' @ 0 # post, argv', int (argc + length (words_of t s))) \<and> length s' = length s \<and>
        points_to argc argv (pre @ s' @ 0 # post) (words_of t s) argv'
      else r = Inl (Bad_access ''argv[argc]''))"

lemma parsed_Cons:
  assumes "parsed t (pre @ ts @ w @ [0]) rest post (argv[argc := Some (length (pre @ ts))]) (argc + 1) r"
    "words_of t s = w # words_of t rest" "length s = length ts + length w + 1 + length rest" "0 \<notin> set w" "argc < length argv"
  shows "parsed t pre s post argv argc r"
proof (cases "argc + length (words_of t s) \<le> length argv")
  case True
  then obtain s' argv' where r: "r = Inr ((pre @ ts @ w @ [0]) @ s' @ 0 # post, argv', int (argc + 1 + length (words_of t rest)))"
    "length s' = length rest"
    "points_to (Suc argc) (argv[argc := Some (length (pre @ ts))]) ((pre @ ts @ w @ [0]) @ s' @ 0 # post) (words_of t rest) argv'"
    using assms(1,2) by (auto simp: parsed_def)
  have "buf_cstr (length (pre @ ts)) ((pre @ ts @ w @ [0]) @ s' @ 0 # post) = Inr w"
    using cstr_at [OF assms(4), of "pre @ ts" "s' @ 0 # post"] by simp
  from points_to_Cons [OF r(3) this assms(5)]
  have "points_to argc argv (pre @ (ts @ w @ 0 # s') @ 0 # post) (words_of t s) argv'" using assms(2) by simp
  moreover have "r = Inr (pre @ (ts @ w @ 0 # s') @ 0 # post, argv', int (argc + length (words_of t s)))" using r(1) assms(2) by simp
  ultimately show ?thesis using True assms(3) r(2) unfolding parsed_def
    by (simp only: if_True) (rule exI [of _ "ts @ w @ 0 # s'"], simp)
next
  case False
  then show ?thesis using assms(1,2) by (simp add: parsed_def)
qed

lemma parse_words_run:
  assumes "0 \<notin> set s" "t \<noteq> 0" "length argv = MAX_ARG_NR" "argc \<le> MAX_ARG_NR"
  shows "parsed t pre s post argv argc (parse_words t (pre @ s @ 0 # post) argv argc (length pre))"
  using assms
proof (induction "length s" arbitrary: s pre argv argc rule: less_induct)
  case less
  show ?case
  proof (cases "dropWhile (\<lambda>c. c = t) s = []")
    case True
    then have all: "\<forall>x\<in>set s. x = t" and "words_of t s = []" by (auto simp: words_of.simps [of t s])
    then show ?thesis using less.prems parse_words_stop [OF all less.prems(2)]
      by (auto simp: parsed_def points_to_Nil)
  next
    case False
    obtain ts w rest where s: "s = ts @ w @ rest" "\<forall>x\<in>set ts. x = t" "w \<noteq> []" "\<forall>x\<in>set w. x \<noteq> t \<and> x \<noteq> 0"
      "rest = [] \<or> (\<exists>rest'. rest = t # rest')" "words_of t s = w # words_of t rest"
      using word_split [OF False less.prems(1)] .
    have w0: "0 \<notin> set w" using s(4) by auto
    show ?thesis
    proof (cases "argc < length argv")
      case True
      note step = parse_words_step [OF s(1-4) _ _ less.prems(2) True less.prems(3), where pre = pre and post = post]
      show ?thesis
      proof (cases rest)
        case Nil
        let ?argv = "argv[argc := Some (length (pre @ ts))]"
        have "parse_words t (pre @ s @ 0 # post) argv argc (length pre) = Inr ((pre @ ts @ w) @ 0 # post, ?argv, int (argc + 1))"
          using step [of 0 post] parse_words_stop [of "[]" t "pre @ ts @ w" post ?argv "argc + 1"] less.prems(2) Nil by simp
        moreover have "points_to argc argv ((pre @ ts @ w) @ 0 # post) [w] ?argv"
          using cstr_at [OF w0, of "pre @ ts" post] True
          by (intro points_to_Cons [where j = "length (pre @ ts)"] points_to_Nil) simp_all
        ultimately show ?thesis using s(1,6) Nil True unfolding parsed_def
          by (simp add: words_of_Nil)
      next
        case (Cons a rest')
        then have r: "rest = t # rest'" using s(5) by auto
        have l: "length rest' < length s" "0 \<notin> set rest'" using s(1) r less.prems(1) by auto
        have "parse_words t (pre @ s @ 0 # post) argv argc (length pre) =
          parse_words t ((pre @ ts @ w @ [0]) @ rest' @ 0 # post) (argv[argc := Some (length (pre @ ts))]) (argc + 1) (length (pre @ ts @ w @ [0]))"
          using step [of t "rest' @ 0 # post"] less.prems(2) r by simp
        moreover have "parsed t (pre @ ts @ w @ [0]) rest' post (argv[argc := Some (length (pre @ ts))]) (argc + 1)
          (parse_words t ((pre @ ts @ w @ [0]) @ rest' @ 0 # post) (argv[argc := Some (length (pre @ ts))]) (argc + 1) (length (pre @ ts @ w @ [0])))"
          using less.prems True by (intro less.hyps [OF l]) auto
        ultimately show ?thesis using s(1,6) r w0 True
          by (intro parsed_Cons [of t pre ts w rest']) (simp_all add: words_of_skip)
      qed
    next
      case False
      then show ?thesis using less.prems s(6) parse_words_full [OF \<open>dropWhile (\<lambda>c. c = t) s \<noteq> []\<close> less.prems(1,2)]
        by (simp add: parsed_def)
    qed
  qed
qed

text \<open>
  C33. The shell cuts a line into its words. The line is a string in an array, from the place \<open>length pre\<close> on. If it
  has at most 16 words, the routine returns their number and leaves in the array of arguments, for each word, a
  pointer to a string that is the word, cut out of the line in place, and null pointers behind; the rest of the
  memory is as before. A line with more words makes the routine write past the array of arguments, since its
  test of the number comes after the write and allows two more.
\<close>

theorem cmd_parse_words:
  assumes "0 \<notin> set s" "token \<noteq> 0" and ws: "ws = words_of token s"
  shows "if length ws \<le> 16
    then \<exists>s' argv. cmd_parse (pre @ s @ 0 # post) (length pre) token = Inr (pre @ s' @ 0 # post, argv, int (length ws)) \<and>
      length s' = length s \<and> length argv = 16 \<and>
      (\<forall>i<length ws. \<exists>j. argv ! i = Some j \<and> buf_cstr j (pre @ s' @ 0 # post) = Inr (ws ! i)) \<and>
      (\<forall>i<16. length ws \<le> i \<longrightarrow> argv ! i = None)
    else cmd_parse (pre @ s @ 0 # post) (length pre) token = Inl (Bad_access ''argv[argc]'')"
proof -
  have "parsed token pre s post (replicate 16 None) 0 (cmd_parse (pre @ s @ 0 # post) (length pre) token)"
    using parse_words_run [OF assms(1,2), of "replicate 16 None" 0] by (simp add: cmd_parse_def MAX_ARG_NR_def)
  then show ?thesis unfolding ws by (fastforce simp: parsed_def points_to_def split: if_splits)
qed

theorem cmd_parse_words_witness:
  "words_of 32 (map of_char ''ls  -l '') = [map of_char ''ls'', map of_char ''-l''] \<and>
   (\<exists>s' argv j. cmd_parse (map of_char ''ls  -l '' @ [0]) 0 32 = Inr (s' @ [0], argv, 2) \<and> argv ! 1 = Some j \<and>
     buf_cstr j (s' @ [0]) = Inr (map of_char ''-l''))"
proof -
  have w: "words_of 32 (map of_char ''ls  -l '') = [map of_char ''ls'', map of_char ''-l'']" by code_simp
  show ?thesis
    using cmd_parse_words [of "map of_char ''ls  -l ''" 32 _ "[]" "[]", OF _ _ w [symmetric]] w by fastforce
qed

section \<open>Paths without dots\<close>

text \<open>\<^verbatim>\<open>strrchr(path, '/')\<close> of a path that has a slash, as an index; and the path cut there.\<close>

definition last_slash :: "u8 list \<Rightarrow> nat" where
  "last_slash path = length path - length (takeWhile (\<lambda>c. c \<noteq> 47) (rev path)) - 1"

definition up_path :: "u8 list \<Rightarrow> u8 list" where
  "up_path path = (if last_slash path \<noteq> 0 then take (last_slash path) path else take (last_slash path + 1) path)"

definition wash_name :: "u8 list \<Rightarrow> u8 list \<Rightarrow> u8 list res" where
  "wash_name nm path =
     (if nm = [46, 46] then Inr (up_path path)
      else if nm \<noteq> [46] then
        bindR (if path \<noteq> [47] then path_cat path [47] else Inr path) (\<lambda>path1. path_cat path1 nm)
      else Inr path)"

function wash_loop :: "u8 list option \<Rightarrow> u8 list \<Rightarrow> u8 list \<Rightarrow> u8 list res" where
  "wash_loop sub_path nm new_abs_path =
     (if nm ! 0 = 0 then Inr new_abs_path
      else case bindR (buf_cstr 0 nm) (\<lambda>str. wash_name str new_abs_path) of
        Inl e \<Rightarrow> Inl e
      | Inr path \<Rightarrow>
          (case sub_path of
             None \<Rightarrow> Inr path
           | Some q \<Rightarrow>
               (case path_parse q (replicate 16 0) of Inl e \<Rightarrow> Inl e | Inr (sub', nm') \<Rightarrow> wash_loop sub' nm' path)))"
  by pat_completeness auto
termination
  by (relation "measure (\<lambda>(p, nm, path). case p of None \<Rightarrow> 0 | Some q \<Rightarrow> Suc (length q))")
    (auto split: option.split dest: path_parse_shorter)

declare wash_loop.simps [simp del]

definition wash_path :: "u8 list \<Rightarrow> u8 list res" where
  "wash_path old_abs_path =
     bindR (kassert (old_abs_path \<noteq> [] \<and> old_abs_path ! 0 = 47) ''old_abs_path[0] is a slash'') (\<lambda>_.
     bindR (path_parse old_abs_path (replicate 16 0)) (\<lambda>(sub_path, nm).
     if nm ! 0 = 0 then Inr [47]
     else bindR (path_cat [] [47]) (\<lambda>path. wash_loop sub_path nm path)))"

text \<open>The directories that a list of components leads through, and the path of such a list.\<close>

definition enter :: "u8 list list \<Rightarrow> u8 list \<Rightarrow> u8 list list" where
  "enter ds nm = (if nm = [46, 46] then butlast ds else if nm = [46] then ds else ds @ [nm])"

definition path_of :: "u8 list list \<Rightarrow> u8 list" where
  "path_of ds = (if ds = [] then [47] else concat (map (\<lambda>d. 47 # d) ds))"

lemma path_of_snoc: "path_of (ds @ [d]) = (if ds = [] then [] else path_of ds) @ 47 # d"
  by (simp add: path_of_def)

lemma last_slash_snoc: "47 \<notin> set d \<Longrightarrow> last_slash (p @ 47 # d) = length p"
proof -
  assume "47 \<notin> set d"
  then have "takeWhile (\<lambda>c. c \<noteq> 47) (rev d @ 47 # rev p) = rev d" by (subst takeWhile_append2) auto
  then show ?thesis by (simp add: last_slash_def)
qed

definition plain :: "u8 list \<Rightarrow> bool" where
  "plain d \<longleftrightarrow> d \<noteq> [] \<and> 47 \<notin> set d \<and> 0 \<notin> set d"

lemma path_of_root: "\<forall>d\<in>set ds. plain d \<Longrightarrow> path_of ds = [47] \<longleftrightarrow> ds = []"
  by (cases ds) (auto simp: path_of_def plain_def)

lemma up_path_of: "\<forall>d\<in>set ds. plain d \<Longrightarrow> up_path (path_of ds) = path_of (butlast ds)"
proof (cases ds rule: rev_cases)
  case Nil
  then show ?thesis by (simp add: path_of_def up_path_def last_slash_def)
next
  case (snoc es d)
  assume "\<forall>d\<in>set ds. plain d"
  then have "47 \<notin> set d" "es \<noteq> [] \<Longrightarrow> length (path_of es) \<noteq> 0" by (auto simp: snoc plain_def path_of_def neq_Nil_conv)
  then show ?thesis using last_slash_snoc [of d "if es = [] then [] else path_of es"]
    by (cases "es = []") (simp_all add: snoc path_of_snoc up_path_def, simp_all add: path_of_def)
qed

definition plen :: "u8 list list \<Rightarrow> nat" where
  "plen ds = sum_list (map (\<lambda>d. length d + 1) ds)"

lemma plen_simps [simp]: "plen [] = 0" "plen (d # ds) = length d + 1 + plen ds" "plen (ds @ es) = plen ds + plen es"
  by (simp_all add: plen_def)

lemma path_of_length: "ds \<noteq> [] \<Longrightarrow> length (path_of ds) = plen ds"
  by (simp add: path_of_def plen_def length_concat comp_def)

lemma enter_facts:
  assumes "\<forall>d\<in>set ds. plain d" "plain nm"
  shows "\<forall>d\<in>set (enter ds nm). plain d" "plen (enter ds nm) \<le> plen ds + length nm + 1"
proof -
  show "\<forall>d\<in>set (enter ds nm). plain d" using assms by (auto simp: enter_def dest: in_set_butlastD)
  have "plen (butlast ds) \<le> plen ds" by (cases ds rule: rev_cases) auto
  then show "plen (enter ds nm) \<le> plen ds + length nm + 1" by (simp add: enter_def)
qed

lemma wash_name_enters:
  assumes "\<forall>d\<in>set ds. plain d" "plen ds + length nm + 1 < MAX_PATH_LEN"
  shows "wash_name nm (path_of ds) = Inr (path_of (enter ds nm))"
proof (cases "ds = []")
  case True
  then show ?thesis using assms(2) by (simp add: wash_name_def enter_def path_of_def path_cat_def up_path_def last_slash_def)
next
  case False
  then show ?thesis using assms(2) path_of_root [OF assms(1)] up_path_of [OF assms(1)] path_of_snoc [of ds nm] path_of_length [OF False]
    by (simp add: wash_name_def enter_def path_cat_def)
qed

lemma words_of_facts:
  "0 \<notin> set q \<Longrightarrow> (\<forall>w\<in>set (words_of 47 q). plain w) \<and> plen (words_of 47 q) \<le> length q + 1"
proof (induction "length q" arbitrary: q rule: less_induct)
  case less
  show ?case
  proof (cases "dropWhile (\<lambda>c. c = 47) q = []")
    case True
    then have "words_of 47 q = []" by (simp only: words_of_cases)
    then show ?thesis by simp
  next
    case False
    obtain ts w rest where s: "q = ts @ w @ rest" "w \<noteq> []" "\<forall>x\<in>set w. x \<noteq> 47 \<and> x \<noteq> 0" "rest = [] \<or> (\<exists>r. rest = 47 # r)"
      "words_of 47 q = w # words_of 47 rest"
      using word_split [OF False less.prems] by metis
    have w: "plain w" using s(2,3) by (auto simp: plain_def)
    show ?thesis
    proof (cases rest)
      case Nil
      then show ?thesis using s w by (simp add: words_of_Nil)
    next
      case (Cons a r)
      then have "rest = 47 # r" using s(4) by auto
      then show ?thesis using less.hyps [of r] less.prems s w by (simp add: words_of_skip)
    qed
  qed
qed

lemma name_cstr:
  assumes "plain w" "length w < 16"
  shows "(w @ replicate (16 - length w) 0) ! 0 \<noteq> 0" "buf_cstr 0 (w @ replicate (16 - length w) 0) = Inr w"
proof -
  have "16 - length w = Suc (15 - length w)" using assms(2) by simp
  then have r: "w @ replicate (16 - length w) 0 = [] @ w @ 0 # replicate (15 - length w) 0" by simp
  show "buf_cstr 0 (w @ replicate (16 - length w) 0) = Inr w"
    unfolding r using cstr_at [of w "[]"] assms(1) by (simp add: plain_def)
  show "(w @ replicate (16 - length w) 0) ! 0 \<noteq> 0" using assms(1) by (cases w) (auto simp: plain_def)
qed

lemma wash_loop_run:
  "plain w \<Longrightarrow> length w < 16 \<Longrightarrow> words_of 47 (case p of None \<Rightarrow> [] | Some q \<Rightarrow> q) = ws \<Longrightarrow> (\<And>q. p = Some q \<Longrightarrow> 0 \<notin> set q) \<Longrightarrow>
   \<forall>v\<in>set ws. plain v \<and> length v < 16 \<Longrightarrow> \<forall>d\<in>set ds. plain d \<Longrightarrow> plen ds + plen (w # ws) < MAX_PATH_LEN \<Longrightarrow>
   wash_loop p (w @ replicate (16 - length w) 0) (path_of ds) = Inr (path_of (foldl enter ds (w # ws)))"
proof (induction ws arbitrary: p w ds)
  case Nil
  note wc = name_cstr [OF Nil.prems(1,2)]
  have e: "wash_name w (path_of ds) = Inr (path_of (enter ds w))" using Nil.prems by (intro wash_name_enters) auto
  show ?case using Nil.prems(3)
    by (subst wash_loop.simps) (auto simp: wc e path_parse_none split: option.splits, subst wash_loop.simps, simp)
next
  case (Cons v vs)
  note wc = name_cstr [OF Cons.prems(1,2)]
  have e: "wash_name w (path_of ds) = Inr (path_of (enter ds w))" using Cons.prems by (intro wash_name_enters) auto
  obtain q where p: "p = Some q" using Cons.prems(3) by (cases p) (auto simp: words_of_Nil)
  obtain rest where r: "path_parse q (replicate 16 0) = Inr (rest, v @ replicate (16 - length v) 0)"
    "words_of 47 (case rest of None \<Rightarrow> [] | Some r \<Rightarrow> r) = vs" "\<And>r. rest = Some r \<Longrightarrow> length r < length q \<and> 0 \<notin> set r"
    using path_parse_some [of q v vs] Cons.prems(3-5) p by auto
  have "wash_loop rest (v @ replicate (16 - length v) 0) (path_of (enter ds w)) = Inr (path_of (foldl enter (enter ds w) (v # vs)))"
    using Cons.prems r enter_facts [OF Cons.prems(6,1)] by (intro Cons.IH) auto
  then show ?case using p r(1) by (subst wash_loop.simps) (simp add: wc e)
qed

lemma words_of_word:
  assumes "plain d" "rest = [] \<or> (\<exists>r. rest = 47 # r)"
  shows "words_of 47 (47 # d @ rest) = d # words_of 47 rest"
proof -
  obtain a d' where d: "d = a # d'" "a \<noteq> 47" using assms(1) by (cases d) (auto simp: plain_def)
  have dw: "dropWhile (\<lambda>c. c = 47) (47 # d @ rest) = d @ rest" using d by simp
  have "takeWhile (\<lambda>c. c \<noteq> 47) (d @ rest) = d" "dropWhile (\<lambda>c. c \<noteq> 47) (d @ rest) = rest"
    using assms by (auto simp: plain_def takeWhile_append dropWhile_append)
  then show ?thesis unfolding words_of_cases dw by (simp add: d)
qed

lemma words_of_path_of: "\<forall>d\<in>set ds. plain d \<Longrightarrow> words_of 47 (path_of ds) = ds"
proof -
  have c: "\<forall>d\<in>set ds. plain d \<Longrightarrow> words_of 47 (concat (map (\<lambda>d. 47 # d) ds)) = ds" for ds :: "u8 list list"
  proof (induction ds)
    case (Cons d ds)
    have "concat (map (\<lambda>d. 47 # d) ds) = [] \<or> (\<exists>r. concat (map (\<lambda>d. 47 # d) ds) = 47 # r)" by (cases ds) auto
    then show ?case using Cons words_of_word [of d "concat (map (\<lambda>d. 47 # d) ds)"] by simp
  qed (simp add: words_of_Nil)
  assume "\<forall>d\<in>set ds. plain d"
  then show ?thesis using c by (auto simp: path_of_def words_of_skip words_of_Nil)
qed

lemma foldl_enter_facts:
  assumes "\<forall>d\<in>set ds. plain d \<and> d \<noteq> [46] \<and> d \<noteq> [46, 46]" "\<forall>w\<in>set ws. plain w"
  shows "(\<forall>d\<in>set (foldl enter ds ws). plain d \<and> d \<noteq> [46] \<and> d \<noteq> [46, 46]) \<and> plen (foldl enter ds ws) \<le> plen ds + plen ws"
  using assms
proof (induction ws arbitrary: ds)
  case (Cons w ws)
  have p: "\<forall>d\<in>set ds. plain d" "plain w" using Cons.prems by auto
  have "\<forall>d\<in>set (enter ds w). plain d \<and> d \<noteq> [46] \<and> d \<noteq> [46, 46]"
    using Cons.prems by (auto simp: enter_def dest: in_set_butlastD)
  moreover have "\<forall>w\<in>set ws. plain w" using Cons.prems(2) by simp
  ultimately have "(\<forall>d\<in>set (foldl enter (enter ds w) ws). plain d \<and> d \<noteq> [46] \<and> d \<noteq> [46, 46]) \<and>
      plen (foldl enter (enter ds w) ws) \<le> plen (enter ds w) + plen ws"
    by (rule Cons.IH)
  then show ?case using enter_facts(2) [OF p] by simp
qed simp

text \<open>
  C32. The shell clears a path of its dots. For an absolute path of less than 512 bytes whose components have less
  than 16, the routine walks through the components in the order of the path: a component \<^verbatim>\<open>..\<close> leaves the last
  directory entered, or stays at the root, \<^verbatim>\<open>.\<close> stays, and any other name is entered. The result is the path of
  the directories entered: it has exactly these components, neither of the two dots among them, and it is not
  longer than the path, so that it fits the array of 512 bytes that it goes to.
\<close>

theorem wash_path_walks:
  assumes "path \<noteq> []" "path ! 0 = 47" "0 \<notin> set path" "length path < MAX_PATH_LEN" "\<forall>w\<in>set (words_of 47 path). length w < 16"
    and ds: "ds = foldl enter [] (words_of 47 path)"
  shows "wash_path path = Inr (path_of ds) \<and> words_of 47 (path_of ds) = ds \<and> [46] \<notin> set ds \<and> [46, 46] \<notin> set ds \<and>
    length (path_of ds) \<le> length path"
proof -
  obtain q where q: "path = 47 # q" using assms(1,2) by (cases path) auto
  have f: "\<forall>w\<in>set (words_of 47 path). plain w" "plen (words_of 47 path) \<le> length path"
    using words_of_facts [of q] assms(3) by (auto simp: q words_of_skip)
  have d: "\<forall>d\<in>set ds. plain d \<and> d \<noteq> [46] \<and> d \<noteq> [46, 46]" "plen ds \<le> plen (words_of 47 path)"
    using foldl_enter_facts [of "[]" "words_of 47 path"] f(1) by (auto simp: ds)
  have "length (path_of ds) \<le> length path"
    using d(2) f(2) path_of_length [of ds] q by (cases "ds = []") (auto simp: path_of_def)
  moreover have "wash_path path = Inr (path_of ds)"
  proof (cases "words_of 47 path")
    case Nil
    then show ?thesis using assms(1,2) by (simp add: wash_path_def path_parse_none ds path_of_def kassert_def)
  next
    case (Cons w ws)
    have w: "plain w" "length w < 16" using f(1) assms(5) Cons by auto
    obtain rest where r: "path_parse path (replicate 16 0) = Inr (rest, w @ replicate (16 - length w) 0)"
      "words_of 47 (case rest of None \<Rightarrow> [] | Some r \<Rightarrow> r) = ws" "\<And>r. rest = Some r \<Longrightarrow> length r < length path \<and> 0 \<notin> set r"
      using path_parse_some [OF Cons _ assms(3)] w(2) by auto
    have "wash_loop rest (w @ replicate (16 - length w) 0) (path_of []) = Inr (path_of (foldl enter [] (w # ws)))"
      using w r f assms(4,5) Cons by (intro wash_loop_run) auto
    then show ?thesis using assms(1,2) r(1) name_cstr(1) [OF w]
      by (simp add: wash_path_def ds Cons path_cat_def path_of_def [of "[]"] MAX_PATH_LEN_def kassert_def)
  qed
  ultimately show ?thesis using words_of_path_of [of ds] d(1) by auto
qed

theorem wash_path_walks_witness:
  "wash_path (map of_char ''/usr/./bin/../lib'') = Inr (map of_char ''/usr/lib'')"
proof -
  have w: "words_of 47 (map of_char ''/usr/./bin/../lib'') = map (map of_char) [''usr'', ''.'', ''bin'', ''..'', ''lib'']" by code_simp
  have "path_of (foldl enter [] (words_of 47 (map of_char ''/usr/./bin/../lib''))) = map of_char ''/usr/lib''" by code_simp
  then show ?thesis
    using wash_path_walks [of "map of_char ''/usr/./bin/../lib''", OF _ _ _ _ _ refl] w by (simp add: MAX_PATH_LEN_def)
qed

end
