(* ===== verification/Thread.thy ===== *)
theory Thread
  imports Malloc
begin

text \<open>
  Creating and ending threads (\<^verbatim>\<open>thread/thread.c\<close>): numbers for tasks, the control block and the first stack of a
  thread, its place in the queues, and what is given back when it ends. The control block of a task is at the
  start of a page of the kernel whose end is its stack. Addresses of functions are the linker's and are
  arguments. A pointer to dwords is decremented by dwords: the room that \<^verbatim>\<open>thread_create\<close> leaves is four times
  the size of the two structures.
\<close>

section \<open>Numbers of tasks\<close>

definition pid_pool_init :: "'a kernel_scheme \<Rightarrow> 'a kernel_scheme" where
  "pid_pool_init s = s\<lparr>the_pid_pool := \<lparr>pid_bitmap = bitmap_init ((pid_bitmap (the_pid_pool s))\<lparr>btmp_bytes_len := 128\<rparr>),
     pid_start = 1, pid_lock = lock_init\<rparr>\<rparr>"

definition set_pids :: "bitmap \<Rightarrow> 'a kernel_scheme \<Rightarrow> 'a kernel_scheme" where
  "set_pids b s = s\<lparr>the_pid_pool := (the_pid_pool s)\<lparr>pid_bitmap := b\<rparr>\<rparr>"

text \<open>\<^verbatim>\<open>lock_acquire(&pid_pool.pid_lock)\<close> and \<^verbatim>\<open>lock_release(&pid_pool.pid_lock)\<close>.\<close>

definition pids_acquire :: "'a kernel_scheme \<Rightarrow> 'a kernel_scheme res" where
  "pids_acquire s = bindR (lock_acquire (pid_lock (the_pid_pool s)) s) (\<lambda>(l, s1).
     Inr (s1\<lparr>the_pid_pool := (the_pid_pool s1)\<lparr>pid_lock := l\<rparr>\<rparr>))"

definition pids_release :: "'a kernel_scheme \<Rightarrow> 'a kernel_scheme res" where
  "pids_release s = bindR (lock_release (pid_lock (the_pid_pool s)) s) (\<lambda>(l, s1).
     Inr (s1\<lparr>the_pid_pool := (the_pid_pool s1)\<lparr>pid_lock := l\<rparr>\<rparr>))"

definition allocate_pid :: "'a kernel_scheme \<Rightarrow> ('a kernel_scheme \<times> u16) res" where
  "allocate_pid s =
     bindR (pids_acquire s) (\<lambda>s1.
     bindR (bitmap_scan (pid_bitmap (the_pid_pool s1)) 1) (\<lambda>bit_idx.
     bindR (bitmap_set (pid_bitmap (the_pid_pool s1)) (word_of_int bit_idx) 1) (\<lambda>b.
     bindR (pids_release (set_pids b s1)) (\<lambda>s2.
     Inr (s2, ucast (word_of_int bit_idx + pid_start (the_pid_pool s2)))))))"

definition release_pid :: "u16 \<Rightarrow> 'a kernel_scheme \<Rightarrow> 'a kernel_scheme res" where
  "release_pid pid' s =
     bindR (pids_acquire s) (\<lambda>s1.
     let bit_idx = scast pid' - pid_start (the_pid_pool s1) in
     bindR (bitmap_set (pid_bitmap (the_pid_pool s1)) bit_idx 0) (\<lambda>b. pids_release (set_pids b s1)))"

definition fork_pid :: "'a kernel_scheme \<Rightarrow> ('a kernel_scheme \<times> u16) res" where
  "fork_pid s = allocate_pid s"

section \<open>The control block and the first stack\<close>

definition sizeof_intr_stack :: u32 where "sizeof_intr_stack = 76"
definition sizeof_thread_stack :: u32 where "sizeof_thread_stack = 32"

definition thread_create :: "addr \<Rightarrow> addr \<Rightarrow> addr \<Rightarrow> addr \<Rightarrow> 'a kernel_scheme \<Rightarrow> 'a kernel_scheme" where
  "thread_create kernel_thread pthread function func_arg s =
     (let sp = self_kstack (tasks s pthread) - 4 * sizeof_intr_stack - 4 * sizeof_thread_stack;
          s1 = upd_task pthread (\<lambda>t. t\<lparr>self_kstack := sp\<rparr>) s
      in s1\<lparr>thread_stacks := (thread_stacks s1)(sp := (thread_stacks s1 sp)\<lparr>ts_eip := kernel_thread, ts_function := function,
           ts_func_arg := func_arg, ts_ebp := 0, ts_ebx := 0, ts_esi := 0, ts_edi := 0\<rparr>)\<rparr>)"

text \<open>\<^verbatim>\<open>strcpy(pthread->name, name)\<close> into the 16 bytes of the name.\<close>

definition name_copy :: "u8 list \<Rightarrow> u8 list \<Rightarrow> u8 list res" where
  "name_copy old new =
     (if length new < TASK_NAME_LEN then Inr (new @ 0 # drop (length new + 1) old)
      else Inl (Bad_access ''strcpy past task_struct.name''))"

definition init_thread :: "addr \<Rightarrow> u8 list \<Rightarrow> u8 \<Rightarrow> 'a kernel_scheme \<Rightarrow> 'a kernel_scheme res" where
  "init_thread pthread nm prio s =
     bindR (kassert (pthread \<noteq> NULL) ''dst_ != NULL'') (\<lambda>_.
     let s0 = upd_task pthread (\<lambda>t. task_zero) s in
     bindR (allocate_pid s0) (\<lambda>(s1, p).
     bindR (name_copy (name (tasks s1 pthread)) nm) (\<lambda>nm'.
     Inr (upd_task pthread (\<lambda>t. t\<lparr>pid := p, name := nm',
       status := (if pthread = main_thread s1 then TASK_RUNNING else TASK_READY),
       self_kstack := pthread + PG_SIZE, priority := prio, ticks := prio, elapsed_ticks := 0, pgdir := NULL,
       fd_table := [0, 1, 2] @ replicate (MAX_FILES_OPEN_PER_PROC - 3) (-1),
       cwd_inode_nr := 0, parent_pid := -1, stack_magic := 0x19870916\<rparr>) s1))))"

text \<open>The asserted \<^verbatim>\<open>list_append\<close> to the ready queue and to the list of all tasks.\<close>

definition append_ready :: "addr \<Rightarrow> 'a kernel_scheme \<Rightarrow> 'a kernel_scheme res" where
  "append_ready t s =
     bindR (kassert (t \<notin> set (thread_ready_list s)) ''!elem_find(&thread_ready_list, &thread->general_tag)'') (\<lambda>_.
     Inr (s\<lparr>thread_ready_list := thread_ready_list s @ [t]\<rparr>))"

definition append_all :: "addr \<Rightarrow> 'a kernel_scheme \<Rightarrow> 'a kernel_scheme res" where
  "append_all t s =
     bindR (kassert (t \<notin> set (thread_all_list s)) ''!elem_find(&thread_all_list, &thread->all_list_tag)'') (\<lambda>_.
     Inr (s\<lparr>thread_all_list := thread_all_list s @ [t]\<rparr>))"

definition thread_start :: "addr \<Rightarrow> u8 list \<Rightarrow> u8 \<Rightarrow> addr \<Rightarrow> addr \<Rightarrow> 'a kernel_scheme \<Rightarrow> ('a kernel_scheme \<times> addr) res" where
  "thread_start kernel_thread nm prio function func_arg s =
     bindR (get_kernel_pages 1 s) (\<lambda>(s1, thread).
     bindR (init_thread thread nm prio s1) (\<lambda>s2.
     let s3 = thread_create kernel_thread thread function func_arg s2 in
     bindR (append_ready thread s3) (\<lambda>s4.
     bindR (append_all thread s4) (\<lambda>s5. Inr (s5, thread)))))"

definition make_main_thread :: "u8 list \<Rightarrow> 'a kernel_scheme \<Rightarrow> 'a kernel_scheme res" where
  "make_main_thread nm s =
     (let s1 = s\<lparr>main_thread := running_thread s\<rparr> in
      bindR (init_thread (main_thread s1) nm 31 s1) (\<lambda>s2. append_all (main_thread s2) s2))"

text \<open>What a thread does first: \<^verbatim>\<open>kernel_thread\<close> turns interrupts on and calls the function with its argument.\<close>

definition kernel_thread :: "thread_stack \<Rightarrow> 'a kernel_scheme \<Rightarrow> 'a kernel_scheme \<times> addr \<times> addr" where
  "kernel_thread k s = (fst (intr_enable s), ts_function k, ts_func_arg k)"

text \<open>A pass of the loop of the idle thread, up to the switch, and what it does when it runs again.\<close>

definition idle_pass :: "'a kernel_scheme \<Rightarrow> ('a kernel_scheme \<times> intr_status) res" where
  "idle_pass s = thread_block TASK_BLOCKED s"

definition idle_again :: "intr_status \<Rightarrow> 'a kernel_scheme \<Rightarrow> 'a kernel_scheme" where
  "idle_again old s = sti (thread_resume old s)"

section \<open>The end of a task\<close>

text \<open>
  \<^verbatim>\<open>thread_exit\<close>. The result says whether the processor has been given to another task. The code reads the number
  of the task from its control block after it has freed the page of the block; the model reads it from the
  block, which the memory still holds.
\<close>

definition thread_exit :: "addr \<Rightarrow> bool \<Rightarrow> 'a kernel_scheme \<Rightarrow> ('a kernel_scheme \<times> bool) res" where
  "thread_exit thread_over need_schedule s =
     (let s1 = upd_task thread_over (\<lambda>t. t\<lparr>status := TASK_DIED\<rparr>) (fst (intr_disable s));
          s2 = (if thread_over \<in> set (thread_ready_list s1)
                then s1\<lparr>thread_ready_list := remove1 thread_over (thread_ready_list s1)\<rparr> else s1) in
      bindR (if pgdir (tasks s2 thread_over) \<noteq> NULL then mfree_page PF_KERNEL (pgdir (tasks s2 thread_over)) 1 s2 else Inr s2) (\<lambda>s3.
      bindR (if thread_over \<in> set (thread_all_list s3)
             then Inr (s3\<lparr>thread_all_list := remove1 thread_over (thread_all_list s3)\<rparr>)
             else Inl (Bad_access ''list_remove of an element of no list'')) (\<lambda>s4.
      bindR (if thread_over \<noteq> main_thread s4 then mfree_page PF_KERNEL thread_over 1 s4 else Inr s4) (\<lambda>s5.
      bindR (release_pid (pid (tasks s5 thread_over)) s5) (\<lambda>s6.
      if need_schedule then bindR (schedule s6) (\<lambda>s7. Inr (s7, True)) else Inr (s6, False))))))"

definition pid_check :: "addr \<Rightarrow> u32 \<Rightarrow> 'a kernel_scheme \<Rightarrow> bool" where
  "pid_check pthread p s \<longleftrightarrow> scast (pid (tasks s pthread)) = p"

definition pid2thread :: "u32 \<Rightarrow> 'a kernel_scheme \<Rightarrow> addr" where
  "pid2thread p s = (case List.find (\<lambda>t. pid_check t p s) (thread_all_list s) of None \<Rightarrow> NULL | Some t \<Rightarrow> t)"

end
