(* ===== verification/Tss.thy ===== *)
theory Tss
  imports Sched
begin

text \<open>
  The task state segment and the segment descriptors of user mode (\<^verbatim>\<open>userprog/tss.c\<close>, \<^verbatim>\<open>lib/global.h\<close>). The
  descriptor table is a map from addresses to descriptors; the address of the variable \<^verbatim>\<open>tss\<close> is the linker's.
  The lemmas read the descriptors that \<^verbatim>\<open>tss_init\<close> builds the way the processor does.
\<close>

record gdt_desc =
  limit_low_word :: u16
  base_low_word :: u16
  base_mid_byte :: u8
  attr_low_byte :: u8
  limit_high_attr_high :: u8
  base_high_byte :: u8

definition SELECTOR_K_STACK :: u32 where
  "SELECTOR_K_STACK = push_bit 3 2 + push_bit 2 0 + 0"

definition SELECTOR_U_CODE :: u32 where
  "SELECTOR_U_CODE = push_bit 3 5 + push_bit 2 0 + 3"

definition SELECTOR_U_DATA :: u32 where
  "SELECTOR_U_DATA = push_bit 3 6 + push_bit 2 0 + 3"

definition SELECTOR_TSS :: u16 where
  "SELECTOR_TSS = push_bit 3 4 + push_bit 2 0 + 0"

definition GDT_ATTR_HIGH :: u8 where
  "GDT_ATTR_HIGH = push_bit 7 1 + push_bit 6 1 + push_bit 5 0 + push_bit 4 0"

definition GDT_CODE_ATTR_LOW_DPL3 :: u8 where
  "GDT_CODE_ATTR_LOW_DPL3 = push_bit 7 1 + push_bit 5 3 + push_bit 4 1 + 8"

definition GDT_DATA_ATTR_LOW_DPL3 :: u8 where
  "GDT_DATA_ATTR_LOW_DPL3 = push_bit 7 1 + push_bit 5 3 + push_bit 4 1 + 2"

definition TSS_ATTR_HIGH :: u8 where
  "TSS_ATTR_HIGH = push_bit 7 1 + push_bit 6 0 + push_bit 5 0 + push_bit 4 0 + 0"

definition TSS_ATTR_LOW :: u8 where
  "TSS_ATTR_LOW = push_bit 7 1 + push_bit 5 0 + push_bit 4 0 + 9"

definition make_gdt_desc :: "addr \<Rightarrow> u32 \<Rightarrow> u8 \<Rightarrow> u8 \<Rightarrow> gdt_desc" where
  "make_gdt_desc desc_addr limit attr_low attr_high =
     \<lparr>limit_low_word = ucast (limit AND 0x0000ffff),
      base_low_word = ucast (desc_addr AND 0x0000ffff),
      base_mid_byte = ucast (drop_bit 16 (desc_addr AND 0x00ff0000)),
      attr_low_byte = attr_low,
      limit_high_attr_high = ucast (drop_bit 16 (limit AND 0x000f0000) + ucast attr_high),
      base_high_byte = ucast (drop_bit 24 desc_addr)\<rparr>"

definition tss_size :: u32 where
  "tss_size = 108"

definition tss_init :: "addr \<Rightarrow> (addr \<Rightarrow> gdt_desc) \<times> 'a kernel_scheme \<Rightarrow> (addr \<Rightarrow> gdt_desc) \<times> 'a kernel_scheme" where
  "tss_init tss_addr = (\<lambda>(gdt, s).
     let s1 = put_str (''tss_init start'' @ NL) s;
         zero = \<lparr>backlink = 0, esp0 = 0, ss0 = 0, esp1 = 0, ss1 = 0, esp2 = 0, ss2 = 0, tss_cr3 = 0, tss_eip = 0, tss_eflags = 0,
                 tss_regs = replicate 8 0, tss_segs = replicate 6 0, ldt = 0, trace = 0, io_base = 0\<rparr>;
         s2 = s1\<lparr>the_tss := zero\<lparr>ss0 := SELECTOR_K_STACK, io_base := tss_size\<rparr>\<rparr>;
         gdt1 = gdt(0xc0000920 := make_gdt_desc tss_addr (tss_size - 1) TSS_ATTR_LOW TSS_ATTR_HIGH);
         gdt2 = gdt1(0xc0000928 := make_gdt_desc 0 0xfffff GDT_CODE_ATTR_LOW_DPL3 GDT_ATTR_HIGH);
         gdt3 = gdt2(0xc0000930 := make_gdt_desc 0 0xfffff GDT_DATA_ATTR_LOW_DPL3 GDT_ATTR_HIGH);
         gdt_operand = ((8 * 7 - 1) OR push_bit 16 (ucast (0xc0000900 :: u32))) :: u64;
         s3 = emit (Ltr SELECTOR_TSS) (emit (Lgdt gdt_operand) s2)
     in (gdt3, put_str (''tss_init and ltr done'' @ NL) s3))"

section \<open>Reading a descriptor as the processor does\<close>

definition seg_base :: "gdt_desc \<Rightarrow> u32" where
  "seg_base d = push_bit 24 (ucast (base_high_byte d)) OR push_bit 16 (ucast (base_mid_byte d)) OR ucast (base_low_word d)"

text \<open>The limit in bytes: with the granularity flag it counts pages.\<close>

definition seg_limit :: "gdt_desc \<Rightarrow> u32" where
  "seg_limit d = (let raw = push_bit 16 (ucast (limit_high_attr_high d AND 0x0f)) OR ucast (limit_low_word d) in
     if bit (limit_high_attr_high d) 7 then push_bit 12 raw OR 0xfff else raw)"

definition seg_dpl :: "gdt_desc \<Rightarrow> u8" where
  "seg_dpl d = drop_bit 5 (attr_low_byte d) AND 3"

definition seg_type :: "gdt_desc \<Rightarrow> u8" where
  "seg_type d = attr_low_byte d AND 0x1f"

lemma seg_base_make: "seg_base (make_gdt_desc a l lo hi) = a"
proof -
  have m: "(0xffff :: u32) = mask 16" "(0xff0000 :: u32) = push_bit 16 (mask 8)" by (simp_all add: mask_eq_exp_minus_1)
  show ?thesis unfolding seg_base_def make_gdt_desc_def gdt_desc.simps m
    by (rule bit_word_eqI, rename_tac n, case_tac "n < 24") (auto simp: bit_simps)
qed

text \<open>
  The segments of user mode. After \<^verbatim>\<open>tss_init\<close> the descriptor of the task state segment is at the address of
  that segment, for the kernel only; the two descriptors of user mode are code and data of privilege 3 that
  cover all of the 4 GB. The segment itself names the kernel's stack segment. Its limit, however, is counted in
  pages, so that the offset of the I/O map lies well inside the limit, and not beyond it as it must to deny every
  port to user mode: the processor takes what follows the segment in memory for the map.
\<close>

theorem tss_init_segments:
  fixes a :: addr and gdt :: "addr \<Rightarrow> gdt_desc" and s :: "'a kernel_scheme"
  defines "gdt' \<equiv> fst (tss_init a (gdt, s))" and "s' \<equiv> snd (tss_init a (gdt, s))"
  shows "seg_base (gdt' 0xc0000920) = a \<and> seg_dpl (gdt' 0xc0000920) = 0 \<and> seg_type (gdt' 0xc0000920) = 9 \<and>
    seg_limit (gdt' 0xc0000920) = 108 * 4096 - 1 \<and> io_base (the_tss s') < seg_limit (gdt' 0xc0000920) \<and> ss0 (the_tss s') = 0x10 \<and>
    (\<forall>d\<in>{0xc0000928, 0xc0000930}. seg_base (gdt' d) = 0 \<and> seg_limit (gdt' d) = 0xffffffff \<and> seg_dpl (gdt' d) = 3) \<and>
    seg_type (gdt' 0xc0000928) = 0x18 \<and> seg_type (gdt' 0xc0000930) = 0x12 \<and>
    (\<forall>d. d \<notin> {0xc0000920, 0xc0000928, 0xc0000930} \<longrightarrow> gdt' d = gdt d)"
proof -
  have g: "gdt' 0xc0000920 = make_gdt_desc a 107 0x89 0x80" "gdt' 0xc0000928 = make_gdt_desc 0 0xfffff 0xf8 0xc0"
    "gdt' 0xc0000930 = make_gdt_desc 0 0xfffff 0xf2 0xc0" "d \<notin> {0xc0000920, 0xc0000928, 0xc0000930} \<Longrightarrow> gdt' d = gdt d" for d
    by (simp_all add: gdt'_def tss_init_def Let_def TSS_ATTR_LOW_def TSS_ATTR_HIGH_def GDT_ATTR_HIGH_def GDT_CODE_ATTR_LOW_DPL3_def
        GDT_DATA_ATTR_LOW_DPL3_def tss_size_def)
  have t: "io_base (the_tss s') = 108" "ss0 (the_tss s') = 0x10"
    by (simp_all add: s'_def tss_init_def Let_def SELECTOR_K_STACK_def tss_size_def put_str_def emit_def)
  have l: "seg_limit (make_gdt_desc a 107 0x89 0x80) = 108 * 4096 - 1" "seg_limit (make_gdt_desc 0 0xfffff x 0xc0) = 0xffffffff" for x
    by (simp_all add: seg_limit_def make_gdt_desc_def Let_def)
  show ?thesis unfolding g t l by (simp add: g(2-4) seg_base_make l) (simp add: seg_dpl_def seg_type_def make_gdt_desc_def)
qed

theorem tss_init_segments_witness:
  "seg_base (fst (tss_init 0xc0008000 (\<lambda>_. make_gdt_desc 0 0 0 0, kernel_zero)) 0xc0000928) = 0 \<and>
   seg_dpl (fst (tss_init 0xc0008000 (\<lambda>_. make_gdt_desc 0 0 0 0, kernel_zero)) 0xc0000928) = 3"
  using tss_init_segments [of "0xc0008000" "\<lambda>_. make_gdt_desc 0 0 0 0" kernel_zero] by simp

end
