(* ===== verification/Process.thy ===== *)
theory Process
  imports Thread Tss
begin

text \<open>
  User processes (\<^verbatim>\<open>userprog/process.c\<close>): the directory of a new address space, which gets the kernel's entries of
  the current one and an entry for itself, the map of its virtual addresses, its control block, and the frame
  from which the processor goes to user mode; and \<^verbatim>\<open>thread_init\<close> of \<^verbatim>\<open>thread/thread.c\<close>, which makes the first tasks.
\<close>

definition default_prio :: u8 where "default_prio = 31"
definition USER_STACK3_VADDR :: u32 where "USER_STACK3_VADDR = 0xc0000000 - 0x1000"
definition USER_VADDR_START :: u32 where "USER_VADDR_START = 0x8048000"

section \<open>The address space\<close>

text \<open>\<^verbatim>\<open>memcpy\<close> of aligned memory, by dwords.\<close>

fun copy_dws :: "nat \<Rightarrow> addr \<Rightarrow> addr \<Rightarrow> 'a kernel_scheme \<Rightarrow> 'a kernel_scheme res" where
  "copy_dws 0 dst src s = Inr s"
| "copy_dws (Suc n) dst src s =
     bindR (load_dw src s) (\<lambda>v. bindR (store_dw dst v s) (copy_dws n (dst + 4) (src + 4)))"

definition create_page_dir :: "'a kernel_scheme \<Rightarrow> ('a kernel_scheme \<times> addr) res" where
  "create_page_dir s =
     bindR (get_kernel_pages 1 s) (\<lambda>(s1, page_dir_vaddr).
     if page_dir_vaddr = NULL then Inr (put_str ''create_page_dir: get_kernel_page failed!'' s1, NULL)
     else
       bindR (copy_dws 256 (page_dir_vaddr + 0x300 * 4) (0xfffff000 + 0x300 * 4) s1) (\<lambda>s2.
       bindR (addr_v2p page_dir_vaddr s2) (\<lambda>new_page_dir_phy_addr.
       bindR (store_dw (page_dir_vaddr + 4 * 1023) (new_page_dir_phy_addr OR PG_US_U OR PG_RW_W OR PG_P_1) s2) (\<lambda>s3.
       Inr (s3, page_dir_vaddr)))))"

definition user_bitmap_len :: u32 where
  "user_bitmap_len = (0xc0000000 - USER_VADDR_START) div PG_SIZE div 8"

definition create_user_vaddr_bitmap :: "addr \<Rightarrow> 'a kernel_scheme \<Rightarrow> 'a kernel_scheme res" where
  "create_user_vaddr_bitmap user_prog s0 =
     (let s = upd_task user_prog (\<lambda>t. t\<lparr>userprog_vaddr := (userprog_vaddr t)\<lparr>vaddr_start := USER_VADDR_START\<rparr>\<rparr>) s0;
          bitmap_pg_cnt = DIV_ROUND_UP user_bitmap_len PG_SIZE in
      bindR (get_kernel_pages bitmap_pg_cnt s) (\<lambda>(s1, a).
      Inr (upd_task user_prog (\<lambda>t. t\<lparr>userprog_vaddr := (userprog_vaddr t)\<lparr>bits_at := a,
             vaddr_bitmap := bitmap_init ((vaddr_bitmap (userprog_vaddr t))\<lparr>btmp_bytes_len := user_bitmap_len\<rparr>)\<rparr>\<rparr>) s1)))"

section \<open>Starting a process\<close>

text \<open>The function of a process's first thread: it builds the frame of user mode and leaves through \<^verbatim>\<open>intr_exit\<close>.\<close>

definition start_process :: "addr \<Rightarrow> 'a kernel_scheme \<Rightarrow> 'a kernel_scheme res" where
  "start_process filename' s0 =
     (let function = filename'; cur = running_thread s0;
          s = upd_task cur (\<lambda>t. t\<lparr>self_kstack := self_kstack t + 4 * sizeof_thread_stack\<rparr>) s0;
          proc_stack = self_kstack (tasks s cur);
          k = (intr_stacks s proc_stack)\<lparr>is_edi := 0, is_esi := 0, is_ebp := 0, is_esp_dummy := 0, is_ebx := 0, is_edx := 0,
                is_ecx := 0, is_eax := 0, is_gs := 0, is_ds := SELECTOR_U_DATA, is_es := SELECTOR_U_DATA, is_fs := SELECTOR_U_DATA,
                is_eip := function, is_cs := SELECTOR_U_CODE, is_eflags := 0 OR 2 OR 0x200\<rparr>;
          s1 = s\<lparr>intr_stacks := (intr_stacks s)(proc_stack := k)\<rparr> in
      bindR (get_a_page PF_USER USER_STACK3_VADDR s1) (\<lambda>(s2, a).
      let k2 = (intr_stacks s2 proc_stack)\<lparr>is_esp := a + PG_SIZE, is_ss := SELECTOR_U_DATA\<rparr> in
      Inr (s2\<lparr>intr_stacks := (intr_stacks s2)(proc_stack := k2), esp := proc_stack\<rparr>)))"

definition process_execute :: "addr \<Rightarrow> addr \<Rightarrow> addr \<Rightarrow> u8 list \<Rightarrow> 'a kernel_scheme \<Rightarrow> 'a kernel_scheme res" where
  "process_execute entry' start_process' filename' nm s =
     bindR (get_kernel_pages 1 s) (\<lambda>(s1, thread).
     bindR (init_thread thread nm default_prio s1) (\<lambda>s2.
     bindR (create_user_vaddr_bitmap thread s2) (\<lambda>s3.
     let s4 = thread_create entry' thread start_process' filename' s3 in
     bindR (create_page_dir s4) (\<lambda>(s5, pd).
     let s6 = upd_task thread (\<lambda>t. t\<lparr>pgdir := pd, u_block_desc := block_desc_init (u_block_desc t)\<rparr>) s5;
         (s7, old_status) = intr_disable s6 in
     bindR (append_ready thread s7) (\<lambda>s8.
     bindR (append_all thread s8) (\<lambda>s9. Inr (fst (intr_set_status old_status s9))))))))"

text \<open>The tasks of a kernel that starts: the process \<^verbatim>\<open>init\<close>, the thread that runs, and the idle thread.\<close>

definition thread_init :: "addr \<Rightarrow> addr \<Rightarrow> addr \<Rightarrow> addr \<Rightarrow> 'a kernel_scheme \<Rightarrow> 'a kernel_scheme res" where
  "thread_init entry' start_process' init idle s =
     (let s1 = put_str (''thread_init start'' @ NL) s;
          s2 = pid_pool_init (s1\<lparr>thread_ready_list := [], thread_all_list := []\<rparr>) in
      bindR (process_execute entry' start_process' init (map of_char ''init'') s2) (\<lambda>s3.
      bindR (make_main_thread (map of_char ''main'') s3) (\<lambda>s4.
      bindR (thread_start entry' (map of_char ''idle'') 10 idle NULL s4) (\<lambda>(s5, t).
      Inr (put_str (''thread_init done'' @ NL) (s5\<lparr>idle_thread := t\<rparr>))))))"

end
