(* ===== verification/Ps.thy ===== *)
theory Ps
  imports Process Fs Stdio
begin

text \<open>
  The list of tasks that \<^verbatim>\<open>ps\<close> prints (\<^verbatim>\<open>sys_ps\<close> of \<^verbatim>\<open>thread/thread.c\<close>). Every field is printed into an array of 16
  bytes by \<^verbatim>\<open>sprintf\<close>, filled up with spaces and written without its last byte. The case of a decimal number in
  \<^verbatim>\<open>pad_print\<close> runs on into the one of a hexadecimal number: the second result is written over the first, and
  the length is that of the string which is then in the array.
\<close>

text \<open>The argument: a string, or the dword at the pointer, as a 16-bit number in decimal or as it is.\<close>

datatype pad_arg = Pad_s "u8 list" | Pad_d u32 | Pad_x u32

text \<open>\<^verbatim>\<open>sprintf\<close> to the start of an array: the bytes, and the length of the string that the array then holds.\<close>

definition sprint_over :: "u8 list \<Rightarrow> u8 list \<Rightarrow> (u8 list \<times> nat) res" where
  "sprint_over bs buf =
     bindR (buf_write 0 bs buf) (\<lambda>buf'.
     bindR (buf_cstr 0 buf') (\<lambda>str. Inr (buf', length str)))"

definition pad_fields :: "nat \<Rightarrow> pad_arg \<Rightarrow> (u8 list \<times> nat) res" where
  "pad_fields buf_len arg =
     (let buf = replicate buf_len 0 in
      case arg of
        Pad_s str \<Rightarrow> sprint_over str buf
      | Pad_d w \<Rightarrow>
          bindR (sprint_over (int_bytes (scast (ucast w :: u16))) buf) (\<lambda>(buf1, _).
          sprint_over (num_bytes 16 (unat w)) buf1)
      | Pad_x w \<Rightarrow> sprint_over (num_bytes 16 (unat w)) buf)"

definition pad_text :: "nat \<Rightarrow> pad_arg \<Rightarrow> u8 list res" where
  "pad_text buf_len arg =
     bindR (pad_fields buf_len arg) (\<lambda>(buf, out_pad_0idx).
     Inr (take out_pad_0idx buf @ replicate (buf_len - out_pad_0idx) 32))"

definition pad_print :: "nat \<Rightarrow> pad_arg \<Rightarrow> unit fsm" where
  "pad_print buf_len arg =
     bindM (liftM (pad_text buf_len arg)) (\<lambda>buf.
     bindM (sys_write 1 buf (of_nat buf_len - 1)) (\<lambda>_. returnM ()))"

definition status_name :: "task_status \<Rightarrow> string" where
  "status_name st = (case st of TASK_RUNNING \<Rightarrow> ''RUNNING'' | TASK_READY \<Rightarrow> ''READY'' | TASK_BLOCKED \<Rightarrow> ''BLOCKED''
     | TASK_WAITING \<Rightarrow> ''WAITING'' | TASK_HANGING \<Rightarrow> ''HANGING'' | TASK_DIED \<Rightarrow> ''DIED'')"

text \<open>
  The dword at \<^verbatim>\<open>&pthread->pid\<close> has the number in its low half and padding, which \<^verbatim>\<open>init_thread\<close> clears, in its high
  half; the dword at \<^verbatim>\<open>&pthread->parent_pid\<close> has the exit status in its third byte.
\<close>

definition elem2thread_info :: "addr \<Rightarrow> unit fsm" where
  "elem2thread_info pthread =
     bindM (getM (\<lambda>s. tasks s pthread)) (\<lambda>t.
     bindM (pad_print 16 (Pad_d (ucast (pid t)))) (\<lambda>_.
     bindM (if parent_pid t = -1 then pad_print 16 (Pad_s (bytes_of ''NULL''))
            else pad_print 16 (Pad_d (ucast (parent_pid t) OR push_bit 16 (ucast (exit_status t))))) (\<lambda>_.
     bindM (pad_print 16 (Pad_s (bytes_of (status_name (status t))))) (\<lambda>_.
     bindM (pad_print 16 (Pad_x (elapsed_ticks t))) (\<lambda>_.
     bindM (liftM (buf_cstr 0 (name t))) (\<lambda>nm.
     bindM (assertM (length nm < 17) ''strlen(pthread->name) < 17'') (\<lambda>_.
     bindM (liftM (buf_write 0 (nm @ [10, 0]) (replicate 16 0))) (\<lambda>_.
     bindM (sys_write 1 (nm @ [10]) (of_nat (length nm + 1))) (\<lambda>_. returnM ())))))))))"

fun each_task :: "addr list \<Rightarrow> unit fsm" where
  "each_task [] = returnM ()"
| "each_task (t # ts) = bindM (elem2thread_info t) (\<lambda>_. each_task ts)"

definition ps_title :: "u8 list" where
  "ps_title = bytes_of (''PID            PPID           STAT           TICKS          COMMAND'' @ NL)"

definition sys_ps :: "unit fsm" where
  "sys_ps =
     bindM (sys_write 1 ps_title (of_nat (length ps_title))) (\<lambda>_.
     bindM (getM thread_all_list) each_task)"

lemma ps_decimal_is_hexadecimal:
  "pad_text 16 (Pad_d 10) = Inr (bytes_of ''A0              '')"
  "pad_text 16 (Pad_d 17) = Inr (bytes_of ''11              '')"
  by code_simp+

end
