(* ===== verification/Fork.thy ===== *)
theory Fork
  imports Process Pipe
begin

text \<open>
  \<^verbatim>\<open>fork\<close> (\<^verbatim>\<open>userprog/fork.c\<close>): a copy of the running process, with its control block and kernel stack, the map of its
  virtual addresses, every page of user memory that the map names, and the open files. The copy of a page of
  the kernel that holds a control block copies the block and the frames that lie in the page; the pages of user
  memory go through a page of the kernel, by dwords. The address of \<^verbatim>\<open>intr_exit\<close> is the linker's.
\<close>

text \<open>A routine of the kernel as one on the state of the file system.\<close>

definition liftK :: "(fs \<Rightarrow> (fs \<times> 'b) res) \<Rightarrow> 'b fsm" where
  "liftK f s = bindR (f s) (\<lambda>(s', x). Inr (x, s'))"

definition liftS :: "(fs \<Rightarrow> fs res) \<Rightarrow> unit fsm" where
  "liftS f s = bindR (f s) (\<lambda>s'. Inr ((), s'))"

section \<open>The control block\<close>

text \<open>\<^verbatim>\<open>memcpy(child_thread, parent_thread, PG_SIZE)\<close>.\<close>

definition copy_pcb_page :: "addr \<Rightarrow> addr \<Rightarrow> 'a kernel_scheme \<Rightarrow> 'a kernel_scheme" where
  "copy_pcb_page child parent s =
     s\<lparr>tasks := (tasks s)(child := tasks s parent),
       thread_stacks := (\<lambda>a. if page_of a = child then thread_stacks s (a - child + parent) else thread_stacks s a),
       intr_stacks := (\<lambda>a. if page_of a = child then intr_stacks s (a - child + parent) else intr_stacks s a)\<rparr>"

definition copy_pcb_vaddrbitmap_stack0 :: "addr \<Rightarrow> addr \<Rightarrow> 'a kernel_scheme \<Rightarrow> ('a kernel_scheme \<times> u32) res" where
  "copy_pcb_vaddrbitmap_stack0 child_thread parent_thread s =
     bindR (fork_pid (copy_pcb_page child_thread parent_thread s)) (\<lambda>(s1, p).
     let s2 = upd_task child_thread (\<lambda>t. t\<lparr>pid := p, elapsed_ticks := 0, status := TASK_READY, ticks := priority t,
                parent_pid := pid (tasks s1 parent_thread), u_block_desc := block_desc_init (u_block_desc t)\<rparr>) s1;
         bitmap_pg_cnt = DIV_ROUND_UP user_bitmap_len PG_SIZE in
     bindR (get_kernel_pages bitmap_pg_cnt s2) (\<lambda>(s3, vaddr_btmp).
     if vaddr_btmp = NULL then Inr (s3, -1)
     else Inr (upd_task child_thread (\<lambda>t. t\<lparr>userprog_vaddr := (userprog_vaddr t)\<lparr>bits_at := vaddr_btmp\<rparr>\<rparr>) s3, 0)))"

section \<open>User memory\<close>

definition copy_user_page :: "addr \<Rightarrow> addr \<Rightarrow> addr \<Rightarrow> addr \<Rightarrow> 'a kernel_scheme \<Rightarrow> 'a kernel_scheme res" where
  "copy_user_page child_thread parent_thread buf_page prog_vaddr s =
     bindR (copy_dws 1024 buf_page prog_vaddr s) (\<lambda>s1.
     bindR (page_dir_activate child_thread s1) (\<lambda>s2.
     bindR (get_a_page_without_opvaddrbitmap PF_USER prog_vaddr s2) (\<lambda>(s3, _).
     bindR (copy_dws 1024 prog_vaddr buf_page s3) (\<lambda>s4.
     page_dir_activate parent_thread s4))))"

text \<open>The two loops of \<^verbatim>\<open>copy_body_stack3\<close>: \<open>n\<close> bits from bit \<open>idx_bit\<close> of a byte, and \<open>n\<close> bytes.\<close>

fun copy_bits :: "nat \<Rightarrow> nat \<Rightarrow> u32 \<Rightarrow> virtual_addr \<Rightarrow> addr \<Rightarrow> addr \<Rightarrow> addr \<Rightarrow> 'a kernel_scheme \<Rightarrow> 'a kernel_scheme res" where
  "copy_bits 0 idx_bit idx_byte va child parent buf_page s = Inr s"
| "copy_bits (Suc n) idx_bit idx_byte va child parent buf_page s =
     bindR (if push_bit idx_bit 1 AND bits (vaddr_bitmap va) idx_byte \<noteq> 0
            then copy_user_page child parent buf_page ((idx_byte * 8 + of_nat idx_bit) * PG_SIZE + vaddr_start va) s else Inr s)
       (copy_bits n (idx_bit + 1) idx_byte va child parent buf_page)"

fun copy_bytes :: "nat \<Rightarrow> u32 \<Rightarrow> virtual_addr \<Rightarrow> addr \<Rightarrow> addr \<Rightarrow> addr \<Rightarrow> 'a kernel_scheme \<Rightarrow> 'a kernel_scheme res" where
  "copy_bytes 0 idx_byte va child parent buf_page s = Inr s"
| "copy_bytes (Suc n) idx_byte va child parent buf_page s =
     bindR (if bits (vaddr_bitmap va) idx_byte \<noteq> 0 then copy_bits 8 0 idx_byte va child parent buf_page s else Inr s)
       (copy_bytes n (idx_byte + 1) va child parent buf_page)"

definition copy_body_stack3 :: "addr \<Rightarrow> addr \<Rightarrow> addr \<Rightarrow> 'a kernel_scheme \<Rightarrow> 'a kernel_scheme res" where
  "copy_body_stack3 child_thread parent_thread buf_page s =
     (let va = userprog_vaddr (tasks s parent_thread) in
      copy_bytes (unat (btmp_bytes_len (vaddr_bitmap va))) 0 va child_thread parent_thread buf_page s)"

section \<open>The first switch to the child\<close>

definition build_child_stack :: "addr \<Rightarrow> addr \<Rightarrow> 'a kernel_scheme \<Rightarrow> 'a kernel_scheme" where
  "build_child_stack intr_exit child_thread s =
     (let intr_0_stack = child_thread + PG_SIZE - sizeof_intr_stack;
          ebp_ptr_in_thread_stack = intr_0_stack - 4 * 5;
          s1 = s\<lparr>intr_stacks := (intr_stacks s)(intr_0_stack := (intr_stacks s intr_0_stack)\<lparr>is_eax := 0\<rparr>)\<rparr>;
          s2 = s1\<lparr>thread_stacks := (thread_stacks s1)(ebp_ptr_in_thread_stack :=
                 (thread_stacks s1 ebp_ptr_in_thread_stack)\<lparr>ts_eip := intr_exit, ts_ebp := 0, ts_ebx := 0, ts_edi := 0, ts_esi := 0\<rparr>)\<rparr>
      in upd_task child_thread (\<lambda>t. t\<lparr>self_kstack := ebp_ptr_in_thread_stack\<rparr>) s2)"

section \<open>Open files\<close>

text \<open>The loop from descriptor \<open>local_fd\<close> on.\<close>

fun update_inode_open_cnts :: "nat \<Rightarrow> nat \<Rightarrow> addr \<Rightarrow> unit fsm" where
  "update_inode_open_cnts 0 local_fd thread = returnM ()"
| "update_inode_open_cnts (Suc n) local_fd thread =
     bindM (getM (\<lambda>s. fd_table (tasks s thread) ! local_fd)) (\<lambda>global_fd.
     bindM (assertM (sint global_fd < int MAX_FILE_OPEN) ''global_fd < MAX_FILE_OPEN'') (\<lambda>_.
     bindM (if global_fd \<noteq> -1 then
         bindM (is_pipe (of_nat local_fd)) (\<lambda>p.
         if p then upd_file (unat global_fd) (\<lambda>f. f\<lparr>fd_pos := fd_pos f + 1\<rparr>)
         else bindM (getM (\<lambda>s. fd_inode (file_table s ! unat global_fd))) (\<lambda>i.
           upd_inode i (\<lambda>x. x\<lparr>i_open_cnts := i_open_cnts x + 1\<rparr>)))
       else returnM ()) (\<lambda>_. update_inode_open_cnts n (local_fd + 1) thread)))"

section \<open>The copy of a process\<close>

definition copy_process :: "addr \<Rightarrow> addr \<Rightarrow> addr \<Rightarrow> u32 fsm" where
  "copy_process intr_exit child_thread parent_thread =
     bindM (liftK (get_kernel_pages 1)) (\<lambda>buf_page.
     if buf_page = NULL then returnM (-1)
     else
     bindM (liftK (copy_pcb_vaddrbitmap_stack0 child_thread parent_thread)) (\<lambda>r.
     if r = -1 then returnM (-1)
     else
     bindM (liftK create_page_dir) (\<lambda>pd.
     bindM (modM (upd_task child_thread (\<lambda>t. t\<lparr>pgdir := pd\<rparr>))) (\<lambda>_.
     if pd = NULL then returnM (-1)
     else
     bindM (liftS (copy_body_stack3 child_thread parent_thread buf_page)) (\<lambda>_.
     bindM (modM (build_child_stack intr_exit child_thread)) (\<lambda>_.
     bindM (update_inode_open_cnts (MAX_FILES_OPEN_PER_PROC - 3) 3 child_thread) (\<lambda>_.
     bindM (liftS (mfree_page PF_KERNEL buf_page 1)) (\<lambda>_. returnM 0))))))))"

definition sys_fork :: "addr \<Rightarrow> u16 fsm" where
  "sys_fork intr_exit =
     bindM (getM running_thread) (\<lambda>parent_thread.
     bindM (liftK (get_kernel_pages 1)) (\<lambda>child_thread.
     if child_thread = NULL then returnM (-1)
     else
     bindM (getM (\<lambda>s. INTR_OFF = intr_get_status s \<and> pgdir (tasks s parent_thread) \<noteq> NULL)) (\<lambda>ok.
     bindM (assertM ok ''INTR_OFF == intr_get_status() && parent_thread->pgdir != NULL'') (\<lambda>_.
     bindM (copy_process intr_exit child_thread parent_thread) (\<lambda>r.
     if r = -1 then returnM (-1)
     else
     bindM (liftS (append_ready child_thread)) (\<lambda>_.
     bindM (liftS (append_all child_thread)) (\<lambda>_.
     getM (\<lambda>s. pid (tasks s child_thread)))))))))"

end
