(* ===== verification/WaitExit.thy ===== *)
theory WaitExit
  imports Fork Fs
begin

text \<open>
  The end of a process and the wait for it (\<^verbatim>\<open>userprog/wait_exit.c\<close>). A process that exits gives its children to
  the process 1, frees the frames of its user memory, the map of its virtual addresses and its open files,
  wakes a parent that waits, and stays as a task that hangs until its parent takes its status and frees its
  control block. The pass of the loop of \<^verbatim>\<open>sys_wait\<close> up to its end or up to the switch is one operation.
\<close>

section \<open>Resources\<close>

text \<open>The loops over the entries of a table and over those of the directory, from an index on.\<close>

fun release_ptes :: "nat \<Rightarrow> addr \<Rightarrow> 'a kernel_scheme \<Rightarrow> 'a kernel_scheme res" where
  "release_ptes 0 v_pte_ptr s = Inr s"
| "release_ptes (Suc n) v_pte_ptr s =
     bindR (load_dw v_pte_ptr s) (\<lambda>pte.
     bindR (if pte AND 1 \<noteq> 0 then free_a_phy_page (pte AND 0xfffff000) s else Inr s) (release_ptes n (v_pte_ptr + 4)))"

fun release_pdes :: "nat \<Rightarrow> u32 \<Rightarrow> addr \<Rightarrow> 'a kernel_scheme \<Rightarrow> 'a kernel_scheme res" where
  "release_pdes 0 pde_idx pgdir_vaddr s = Inr s"
| "release_pdes (Suc n) pde_idx pgdir_vaddr s =
     bindR (load_dw (pgdir_vaddr + 4 * pde_idx) s) (\<lambda>pde.
     bindR (if pde AND 1 \<noteq> 0 then
         bindR (release_ptes 1024 (pte_ptr (pde_idx * 0x400000)) s) (free_a_phy_page (pde AND 0xfffff000))
       else Inr s) (release_pdes n (pde_idx + 1) pgdir_vaddr))"

text \<open>The number of pages that are freed for the map of addresses is rounded down.\<close>

definition release_user_memory :: "addr \<Rightarrow> 'a kernel_scheme \<Rightarrow> 'a kernel_scheme res" where
  "release_user_memory release_thread s =
     bindR (release_pdes 768 0 (pgdir (tasks s release_thread)) s) (\<lambda>s1.
     let va = userprog_vaddr (tasks s1 release_thread);
         bitmap_pg_cnt = btmp_bytes_len (vaddr_bitmap va) div PG_SIZE in
     mfree_page PF_KERNEL (bits_at va) bitmap_pg_cnt s1)"

fun release_files :: "nat \<Rightarrow> nat \<Rightarrow> addr \<Rightarrow> unit fsm" where
  "release_files 0 local_fd release_thread = returnM ()"
| "release_files (Suc n) local_fd release_thread =
     bindM (getM (\<lambda>s. fd_table (tasks s release_thread) ! local_fd)) (\<lambda>fd.
     bindM (if fd \<noteq> -1 then
         bindM (is_pipe (of_nat local_fd)) (\<lambda>p.
         if p then
           bindM (fd_local2global (of_nat local_fd)) (\<lambda>global_fd.
           bindM (upd_file (unat global_fd) (\<lambda>f. f\<lparr>fd_pos := fd_pos f - 1\<rparr>)) (\<lambda>_.
           bindM (getM (\<lambda>s. file_table s ! unat global_fd)) (\<lambda>f.
           if fd_pos f = 0 then
             bindM (liftS (mfree_page PF_KERNEL (of_nat (fd_inode f)) 1)) (\<lambda>_.
             upd_file (unat global_fd) (\<lambda>f. f\<lparr>fd_inode := 0\<rparr>))
           else returnM ())))
         else bindM (sys_close (of_nat local_fd)) (\<lambda>_. returnM ()))
       else returnM ()) (\<lambda>_. release_files n (local_fd + 1) release_thread))"

definition release_prog_resource :: "addr \<Rightarrow> unit fsm" where
  "release_prog_resource release_thread =
     bindM (liftS (release_user_memory release_thread)) (\<lambda>_.
     release_files (MAX_FILES_OPEN_PER_PROC - 3) 3 release_thread)"

section \<open>Children\<close>

definition find_child :: "u32 \<Rightarrow> 'a kernel_scheme \<Rightarrow> addr \<Rightarrow> bool" where
  "find_child ppid s pthread \<longleftrightarrow> scast (parent_pid (tasks s pthread)) = ppid"

definition find_hanging_child :: "u32 \<Rightarrow> 'a kernel_scheme \<Rightarrow> addr \<Rightarrow> bool" where
  "find_hanging_child ppid s pthread \<longleftrightarrow>
     scast (parent_pid (tasks s pthread)) = ppid \<and> status (tasks s pthread) = TASK_HANGING"

definition init_adopt_a_child :: "u32 \<Rightarrow> addr \<Rightarrow> 'a kernel_scheme \<Rightarrow> 'a kernel_scheme" where
  "init_adopt_a_child p pthread s =
     (if scast (parent_pid (tasks s pthread)) = p then upd_task pthread (\<lambda>t. t\<lparr>parent_pid := 1\<rparr>) s else s)"

text \<open>\<^verbatim>\<open>list_traversal(&thread_all_list, init_adopt_a_child, pid)\<close>: the function never stops the traversal.\<close>

definition adopt_children :: "u32 \<Rightarrow> 'a kernel_scheme \<Rightarrow> 'a kernel_scheme" where
  "adopt_children p s = fold (init_adopt_a_child p) (thread_all_list s) s"

section \<open>Wait and exit\<close>

text \<open>The end of a pass: the child's number, no child at all, or a wait, with the local variable of the block.\<close>

datatype wait_end = Reaped u16 | No_child | Waiting intr_status

definition wait_pass :: "addr \<Rightarrow> 'a kernel_scheme \<Rightarrow> ('a kernel_scheme \<times> wait_end) res" where
  "wait_pass status_ptr s =
     (let parent_thread = running_thread s; ppid = scast (pid (tasks s parent_thread)) in
      case List.find (find_hanging_child ppid s) (thread_all_list s) of
        Some child_thread \<Rightarrow>
          bindR (store_dw status_ptr (scast (exit_status (tasks s child_thread))) s) (\<lambda>s1.
          let child_pid = pid (tasks s1 child_thread) in
          bindR (thread_exit child_thread False s1) (\<lambda>(s2, _). Inr (s2, Reaped child_pid)))
      | None \<Rightarrow>
          (case List.find (find_child ppid s) (thread_all_list s) of
             None \<Rightarrow> Inr (s, No_child)
           | Some _ \<Rightarrow> bindR (thread_block TASK_WAITING s) (\<lambda>(s1, old). Inr (s1, Waiting old))))"

text \<open>What \<^verbatim>\<open>sys_wait\<close> returns at the end of a pass; a pass that waits is followed by another one.\<close>

definition wait_result :: "wait_end \<Rightarrow> u16 option" where
  "wait_result e = (case e of Reaped p \<Rightarrow> Some p | No_child \<Rightarrow> Some (-1) | Waiting _ \<Rightarrow> None)"

text \<open>\<^verbatim>\<open>sys_exit\<close> after the resources are given back, up to the switch.\<close>

definition exit_notify :: "addr \<Rightarrow> 'a kernel_scheme \<Rightarrow> ('a kernel_scheme \<times> intr_status) res" where
  "exit_notify child_thread s =
     (let parent_thread = pid2thread (scast (parent_pid (tasks s child_thread))) s in
      bindR (if parent_thread = NULL then Inl (Bad_access ''parent_thread->status'')
             else if status (tasks s parent_thread) = TASK_WAITING then thread_unblock parent_thread s else Inr s) (\<lambda>s1.
      thread_block TASK_HANGING s1))"

definition sys_exit :: "u32 \<Rightarrow> intr_status fsm" where
  "sys_exit st =
     bindM (getM running_thread) (\<lambda>child_thread.
     bindM (modM (upd_task child_thread (\<lambda>t. t\<lparr>exit_status := ucast st\<rparr>))) (\<lambda>_.
     bindM (getM (\<lambda>s. parent_pid (tasks s child_thread))) (\<lambda>pp.
     if pp = -1 then liftM (kpanic ''sys_exit: child_thread->parent_pid is -1'')
     else
     bindM (getM (\<lambda>s. scast (pid (tasks s child_thread)))) (\<lambda>p.
     bindM (modM (adopt_children p)) (\<lambda>_.
     bindM (release_prog_resource child_thread) (\<lambda>_.
     liftK (exit_notify child_thread)))))))"

end
