(* ===== verification/Exec.thy ===== *)
theory Exec
  imports Process Fs Fork
begin

text \<open>
  \<^verbatim>\<open>execv\<close> (\<^verbatim>\<open>userprog/exec.c\<close>): reading an ELF file into the memory of the running process and leaving the kernel at
  its entry. The headers are the little-endian fields of the bytes read. The bytes of a segment are stored one
  by one; a dword of memory holds four of them. Pointers in the array of arguments are aligned.
\<close>

section \<open>Headers\<close>

record Elf32_Ehdr =
  e_ident :: "u8 list"
  e_type :: u16
  e_machine :: u16
  e_version :: u32
  e_entry :: u32
  e_phoff :: u32
  e_shoff :: u32
  e_flags :: u32
  e_ehsize :: u16
  e_phentsize :: u16
  e_phnum :: u16
  e_shentsize :: u16
  e_shnum :: u16
  e_shstrndx :: u16

record Elf32_Phdr =
  p_type :: u32
  p_offset :: u32
  p_vaddr :: u32
  p_paddr :: u32
  p_filesz :: u32
  p_memsz :: u32
  p_flags :: u32
  p_align :: u32

definition half_at :: "nat \<Rightarrow> u8 list \<Rightarrow> u16" where
  "half_at off bs = ucast (bs ! off) OR push_bit 8 (ucast (bs ! (off + 1)))"

definition word_at :: "nat \<Rightarrow> u8 list \<Rightarrow> u32" where
  "word_at off bs = dec32 (take 4 (drop off bs))"

definition ehdr_of :: "u8 list \<Rightarrow> Elf32_Ehdr" where
  "ehdr_of bs = \<lparr>e_ident = take 16 bs, e_type = half_at 16 bs, e_machine = half_at 18 bs, e_version = word_at 20 bs,
     e_entry = word_at 24 bs, e_phoff = word_at 28 bs, e_shoff = word_at 32 bs, e_flags = word_at 36 bs,
     e_ehsize = half_at 40 bs, e_phentsize = half_at 42 bs, e_phnum = half_at 44 bs, e_shentsize = half_at 46 bs,
     e_shnum = half_at 48 bs, e_shstrndx = half_at 50 bs\<rparr>"

definition phdr_of :: "u8 list \<Rightarrow> Elf32_Phdr" where
  "phdr_of bs = \<lparr>p_type = word_at 0 bs, p_offset = word_at 4 bs, p_vaddr = word_at 8 bs, p_paddr = word_at 12 bs,
     p_filesz = word_at 16 bs, p_memsz = word_at 20 bs, p_flags = word_at 24 bs, p_align = word_at 28 bs\<rparr>"

definition PT_LOAD :: u32 where "PT_LOAD = 1"

section \<open>Segments\<close>

definition store_byte :: "addr \<Rightarrow> u8 \<Rightarrow> 'a kernel_scheme \<Rightarrow> 'a kernel_scheme res" where
  "store_byte va b s = (case translate s va of None \<Rightarrow> Inl (Bad_access ''page fault'')
     | Some pa \<Rightarrow> let w = pa AND 0xfffffffc; k = 8 * unat (pa AND 3) in
         Inr (s\<lparr>pmem := (pmem s)(w := (pmem s w AND NOT (push_bit k 0xff)) OR push_bit k (ucast b))\<rparr>))"

fun store_bytes :: "addr \<Rightarrow> u8 list \<Rightarrow> 'a kernel_scheme \<Rightarrow> 'a kernel_scheme res" where
  "store_bytes va [] s = Inr s"
| "store_bytes va (b # bs) s = bindR (store_byte va b s) (store_bytes (va + 1) bs)"

definition occupy_pages :: "u32 \<Rightarrow> u32 \<Rightarrow> u32" where
  "occupy_pages vaddr filesz =
     (let size_in_first_page = PG_SIZE - (vaddr AND 0x00000fff) in
      if filesz > size_in_first_page then DIV_ROUND_UP (filesz - size_in_first_page) PG_SIZE + 1 else 1)"

text \<open>The loop over the pages of a segment: a page for each that has none.\<close>

fun alloc_pages :: "nat \<Rightarrow> addr \<Rightarrow> 'a kernel_scheme \<Rightarrow> ('a kernel_scheme \<times> bool) res" where
  "alloc_pages 0 vaddr_page s = Inr (s, True)"
| "alloc_pages (Suc n) vaddr_page s =
     bindR (load_dw (pde_ptr vaddr_page) s) (\<lambda>pde.
     bindR (if pde AND 1 = 0 then Inr True else bindR (load_dw (pte_ptr vaddr_page) s) (\<lambda>pte. Inr (pte AND 1 = 0))) (\<lambda>absent.
     if absent then
       bindR (get_a_page PF_USER vaddr_page s) (\<lambda>(s1, a).
       if a = NULL then Inr (s1, False) else alloc_pages n (vaddr_page + PG_SIZE) s1)
     else alloc_pages n (vaddr_page + PG_SIZE) s))"

definition segment_load :: "u32 \<Rightarrow> u32 \<Rightarrow> u32 \<Rightarrow> u32 \<Rightarrow> bool fsm" where
  "segment_load fd offset filesz vaddr =
     bindM (liftK (alloc_pages (unat (occupy_pages vaddr filesz)) (vaddr AND 0xfffff000))) (\<lambda>ok.
     if \<not> ok then returnM False
     else
     bindM (sys_lseek fd offset 1) (\<lambda>_.
     bindM (sys_read fd filesz) (\<lambda>(_, bs).
     bindM (liftS (store_bytes vaddr bs)) (\<lambda>_. returnM True))))"

section \<open>The file\<close>

definition sizeof_Ehdr :: u32 where "sizeof_Ehdr = 52"
definition sizeof_Phdr :: u32 where "sizeof_Phdr = 32"

definition ehdr_ok :: "Elf32_Ehdr \<Rightarrow> bool" where
  "ehdr_ok h \<longleftrightarrow> take 7 (e_ident h) = [0x7f, 0x45, 0x4c, 0x46, 1, 1, 1] \<and> e_type h = 2 \<and> e_machine h = 3 \<and> e_version h = 1 \<and>
     e_phnum h \<le> 1024 \<and> (ucast (e_phentsize h) :: u32) = sizeof_Phdr"

text \<open>The loop over the program headers, the file at its place \<open>prog_header_offset\<close>.\<close>

fun load_segments :: "nat \<Rightarrow> u32 \<Rightarrow> u32 \<Rightarrow> Elf32_Ehdr \<Rightarrow> bool fsm" where
  "load_segments 0 fd prog_header_offset h = returnM True"
| "load_segments (Suc n) fd prog_header_offset h =
     bindM (sys_lseek fd prog_header_offset 1) (\<lambda>_.
     bindM (sys_read fd (ucast (e_phentsize h))) (\<lambda>(r, bs).
     if r \<noteq> ucast (e_phentsize h) then returnM False
     else
     let ph = phdr_of bs in
     bindM (if p_type ph = PT_LOAD then segment_load fd (p_offset ph) (p_filesz ph) (p_vaddr ph) else returnM True) (\<lambda>ok.
     if \<not> ok then returnM False
     else load_segments n fd (prog_header_offset + ucast (e_phentsize h)) h)))"

definition load :: "u8 list \<Rightarrow> u32 fsm" where
  "load pathname =
     bindM (sys_open pathname O_RDONLY) (\<lambda>fd.
     if fd = -1 then returnM (-1)
     else
     bindM (sys_read fd sizeof_Ehdr) (\<lambda>(r, bs).
     bindM (if r \<noteq> sizeof_Ehdr \<or> \<not> ehdr_ok (ehdr_of bs) then returnM (-1)
            else let h = ehdr_of bs in
              bindM (load_segments (unat (e_phnum h)) fd (e_phoff h) h) (\<lambda>ok. returnM (if ok then e_entry h else -1))) (\<lambda>ret.
     bindM (sys_close fd) (\<lambda>_. returnM ret))))"

section \<open>The call\<close>

text \<open>
  The number of pointers before the first null one. A space of addresses has \<open>2 ^ 30\<close> dwords: a walk of that
  many steps has seen them all and goes round for ever.
\<close>

fun count_args :: "nat \<Rightarrow> addr \<Rightarrow> u32 \<Rightarrow> 'a kernel_scheme \<Rightarrow> u32 res" where
  "count_args 0 argv argc s = Inl Never_returns"
| "count_args (Suc n) argv argc s =
     bindR (load_dw (argv + 4 * argc) s) (\<lambda>p. if p \<noteq> 0 then count_args n argv (argc + 1) s else Inr argc)"

text \<open>
  \<open>path_tail\<close> is what memory holds behind the terminator of the path: \<^verbatim>\<open>memcpy\<close> takes 16 bytes for the name of the
  task. The result is \<open>-1\<close> for a load that failed; otherwise the call ends in \<^verbatim>\<open>intr_exit\<close> with the stack pointer at
  the frame, and the result is 0.
\<close>

definition sys_execv :: "u8 list \<Rightarrow> u8 list \<Rightarrow> addr \<Rightarrow> u32 fsm" where
  "sys_execv path path_tail argv =
     bindM (\<lambda>s. bindR (count_args (2 ^ 30) argv 0 s) (\<lambda>n. Inr (n, s))) (\<lambda>argc.
     bindM (load path) (\<lambda>entry_point.
     if entry_point = -1 then returnM (-1)
     else
     bindM (getM running_thread) (\<lambda>cur.
     bindM (liftM (buf_read 0 TASK_NAME_LEN (path @ 0 # path_tail))) (\<lambda>nm.
     bindM (modM (upd_task cur (\<lambda>t. t\<lparr>name := nm\<rparr>))) (\<lambda>_.
     let intr_0_stack = cur + PG_SIZE - sizeof_intr_stack in
     bindM (modM (\<lambda>s. s\<lparr>intr_stacks := (intr_stacks s)(intr_0_stack := (intr_stacks s intr_0_stack)
              \<lparr>is_ebx := argv, is_ecx := argc, is_eip := entry_point, is_esp := 0xc0000000\<rparr>), esp := intr_0_stack\<rparr>)) (\<lambda>_.
     returnM 0))))))"

end
