(* ===== verification/Buildin.thy ===== *)
theory Buildin
  imports Shell FsDir Ps WaitExit Exec Ide
begin

text \<open>
  The commands of the shell and its loop (\<^verbatim>\<open>shell/buildin_cmd.c\<close> and \<^verbatim>\<open>my_shell\<close> of \<^verbatim>\<open>shell/shell.c\<close>) on the kernel's
  operations, which the calls of \<^verbatim>\<open>user/syscall.c\<close> reach. \<^verbatim>\<open>printf\<close> writes its text with \<^verbatim>\<open>write\<close> to descriptor 1, through an
  array of 1024 bytes. A command that is not built in runs in a new process: what the shell does after \<^verbatim>\<open>fork\<close> is
  in \<open>cmd_execute\<close>, and ends with \<open>Suspended\<close> while it waits; what the new process does is \<open>child_command\<close>.
\<close>

record shell =
  the_fs :: fs
  cmd_line :: "u8 list"
  final_path :: "u8 list"
  cwd_cache :: "u8 list"

type_synonym 'a shm = "(shell, 'a) stm"

definition liftF :: "'a fsm \<Rightarrow> 'a shm" where
  "liftF f s = bindR (f (the_fs s)) (\<lambda>(x, t). Inr (x, s\<lparr>the_fs := t\<rparr>))"

definition printf_sh :: "string \<Rightarrow> unit shm" where
  "printf_sh msg =
     (if length msg < 1024 then bindM (liftF (sys_write 1 (bytes_of msg) (of_nat (length msg)))) (\<lambda>_. returnM ())
      else failM (Bad_access ''vsprintf past the buffer of printf''))"

definition print_prompt :: "unit shm" where
  "print_prompt = bindM (getM cwd_cache) (\<lambda>cwd. printf_sh (''[OS@zhanglai '' @ text_of cwd @ '']$ ''))"

definition set_final :: "u8 list \<Rightarrow> unit shm" where
  "set_final p = modM (\<lambda>s. s\<lparr>final_path := p\<rparr>)"

section \<open>Commands\<close>

definition make_clear_abs_path :: "u8 list \<Rightarrow> unit shm" where
  "make_clear_abs_path path =
     bindM (if path = [] \<or> path ! 0 \<noteq> 47 then
         bindM (liftF (sys_getcwd (of_nat MAX_PATH_LEN))) (\<lambda>cwd.
         case cwd of None \<Rightarrow> returnM []
         | Some c \<Rightarrow> if c \<noteq> [47] then liftM (path_cat c [47]) else returnM c)
       else returnM []) (\<lambda>abs_path.
     bindM (liftM (path_cat abs_path path)) (\<lambda>abs_path1.
     bindM (liftM (wash_path abs_path1)) set_final))"

definition buildin_pwd :: "u32 \<Rightarrow> unit shm" where
  "buildin_pwd argc =
     (if argc \<noteq> 1 then printf_sh (''pwd: no argument support!'' @ NL)
      else
      bindM (liftF (sys_getcwd (of_nat MAX_PATH_LEN))) (\<lambda>cwd.
      case cwd of
        Some c \<Rightarrow> bindM (set_final c) (\<lambda>_. printf_sh (text_of c @ NL))
      | None \<Rightarrow> printf_sh (''pwd: get current work directory failed.'' @ NL)))"

definition buildin_cd :: "u32 \<Rightarrow> u8 list list \<Rightarrow> bool shm" where
  "buildin_cd argc argv =
     (if argc > 2 then bindM (printf_sh (''cd: only support 1 argument!'' @ NL)) (\<lambda>_. returnM False)
      else
      bindM (if argc = 1 then set_final [47] else make_clear_abs_path (argv ! 1)) (\<lambda>_.
      bindM (getM final_path) (\<lambda>p.
      bindM (liftF (sys_chdir p)) (\<lambda>r.
      if r = -1 then bindM (printf_sh (''cd: no such directory '' @ text_of p @ NL)) (\<lambda>_. returnM False)
      else returnM True))))"

text \<open>The options of \<^verbatim>\<open>ls\<close>: whether to print details and the path, or a message with which the command ends.\<close>

fun ls_args :: "u8 list list \<Rightarrow> bool \<Rightarrow> u8 list option \<Rightarrow> string + (bool \<times> u8 list option)" where
  "ls_args [] long_info pathname = Inr (long_info, pathname)"
| "ls_args (a # as) long_info pathname =
     (if a \<noteq> [] \<and> a ! 0 = 45 then
        if a = bytes_of ''-l'' then ls_args as True pathname
        else if a = bytes_of ''-h'' then
          Inl (''usage: -l list all infomation about the file.'' @ NL @ ''-h for help'' @ NL @
            ''list all files in the current dirctory if no option'' @ NL)
        else Inl (''ls: invalid option '' @ text_of a @ NL @ ''Try `ls -h' for more information.'' @ NL)
      else if pathname = None then ls_args as long_info (Some a)
      else Inl (''ls: only support one path'' @ NL))"

text \<open>
  The loops over the entries of a directory. A directory has at most 140 blocks of 21 entries, and a call of
  \<^verbatim>\<open>readdir\<close> returns one of them that it has not returned before: 2941 calls are enough.
\<close>

definition ls_fuel :: nat where "ls_fuel = 2941"

fun ls_long :: "nat \<Rightarrow> ptr \<Rightarrow> u8 list \<Rightarrow> bool shm" where
  "ls_long 0 dir sub_pathname = failM Never_returns"
| "ls_long (Suc n) dir sub_pathname =
     bindM (liftF (sys_readdir dir)) (\<lambda>dir_e.
     case dir_e of None \<Rightarrow> returnM True
     | Some e \<Rightarrow>
         let ftype = (if f_type e = FT_REGULAR then ''-'' else ''d'') in
         bindM (liftM (buf_cstr 0 (filename e))) (\<lambda>nm.
         bindM (liftM (path_cat sub_pathname nm)) (\<lambda>p.
         bindM (liftF (sys_stat p \<lparr>st_ino = 0, st_size = 0, st_filetype = 0\<rparr>)) (\<lambda>(r, st).
         if r = -1 then
           bindM (printf_sh (''ls: cannot access '' @ text_of nm @ '': No such file or directory'' @ NL)) (\<lambda>_. returnM False)
         else
           bindM (printf_sh (ftype @ ''  '' @ num (de_i_no e) @ ''  '' @ num (st_size st) @ ''  '' @ text_of nm @ NL)) (\<lambda>_.
           ls_long n dir sub_pathname)))))"

fun ls_short :: "nat \<Rightarrow> ptr \<Rightarrow> unit shm" where
  "ls_short 0 dir = failM Never_returns"
| "ls_short (Suc n) dir =
     bindM (liftF (sys_readdir dir)) (\<lambda>dir_e.
     case dir_e of None \<Rightarrow> returnM ()
     | Some e \<Rightarrow>
         bindM (liftM (buf_cstr 0 (filename e))) (\<lambda>nm.
         bindM (printf_sh (text_of nm @ '' '')) (\<lambda>_. ls_short n dir)))"

definition ls_dir :: "bool \<Rightarrow> u8 list \<Rightarrow> stat \<Rightarrow> unit shm" where
  "ls_dir long_info pathname st =
     bindM (liftF (sys_opendir pathname)) (\<lambda>dir.
     let sub_pathname = (if pathname \<noteq> [] \<and> last pathname \<noteq> 47 then pathname @ [47] else pathname) in
     bindM (liftF (sys_rewinddir dir)) (\<lambda>_.
     bindM (if long_info then
         bindM (printf_sh (''total: '' @ num (st_size st) @ NL)) (\<lambda>_. ls_long ls_fuel dir sub_pathname)
       else bindM (ls_short ls_fuel dir) (\<lambda>_. bindM (printf_sh NL) (\<lambda>_. returnM True))) (\<lambda>ok.
     if ok then bindM (liftF (sys_closedir dir)) (\<lambda>_. returnM ()) else returnM ())))"

definition buildin_ls :: "u8 list list \<Rightarrow> unit shm" where
  "buildin_ls argv =
     (case ls_args (tl argv) False None of
        Inl msg \<Rightarrow> printf_sh msg
      | Inr (long_info, path) \<Rightarrow>
          bindM (case path of
              None \<Rightarrow>
                bindM (liftF (sys_getcwd (of_nat MAX_PATH_LEN))) (\<lambda>cwd.
                case cwd of
                  Some c \<Rightarrow> bindM (set_final c) (\<lambda>_. returnM True)
                | None \<Rightarrow> bindM (printf_sh (''ls: getcwd for default path failed'' @ NL)) (\<lambda>_. returnM False))
            | Some p \<Rightarrow> bindM (make_clear_abs_path p) (\<lambda>_. returnM True)) (\<lambda>ok.
          if \<not> ok then returnM ()
          else
          bindM (getM final_path) (\<lambda>pathname.
          bindM (liftF (sys_stat pathname \<lparr>st_ino = 0, st_size = 0, st_filetype = 0\<rparr>)) (\<lambda>(r, st).
          if r = -1 then printf_sh (''ls: cannot access '' @ text_of pathname @ '': No such file or directory'' @ NL)
          else if st_filetype st = FT_DIRECTORY then ls_dir long_info pathname st
          else if long_info then printf_sh (''-  '' @ num (st_ino st) @ ''  '' @ num (st_size st) @ ''  '' @ text_of pathname @ NL)
          else printf_sh (text_of pathname @ NL)))))"

definition buildin_ps :: "u32 \<Rightarrow> unit shm" where
  "buildin_ps argc = (if argc \<noteq> 1 then printf_sh (''ps: no argument support!'' @ NL) else liftF sys_ps)"

definition buildin_clear :: "u32 \<Rightarrow> unit shm" where
  "buildin_clear argc =
     (if argc \<noteq> 1 then printf_sh (''clear: no argument support!'' @ NL) else liftF (modM (emit Cls_screen)))"

definition buildin_mkdir :: "u32 \<Rightarrow> u8 list list \<Rightarrow> u32 shm" where
  "buildin_mkdir argc argv =
     (if argc \<noteq> 2 then bindM (printf_sh (''mkdir: only support 1 argument!'' @ NL)) (\<lambda>_. returnM (-1))
      else
      bindM (make_clear_abs_path (argv ! 1)) (\<lambda>_.
      bindM (getM final_path) (\<lambda>p.
      if p \<noteq> [47] then
        bindM (liftF (sys_mkdir p)) (\<lambda>r.
        if r = 0 then returnM 0
        else bindM (printf_sh (''mkdir: create directory '' @ text_of (argv ! 1) @ '' failed.'' @ NL)) (\<lambda>_. returnM (-1)))
      else returnM (-1))))"

definition buildin_rmdir :: "u32 \<Rightarrow> u8 list list \<Rightarrow> u32 shm" where
  "buildin_rmdir argc argv =
     (if argc \<noteq> 2 then bindM (printf_sh (''rmdir: only support 1 argument!'' @ NL)) (\<lambda>_. returnM (-1))
      else
      bindM (make_clear_abs_path (argv ! 1)) (\<lambda>_.
      bindM (getM final_path) (\<lambda>p.
      if p \<noteq> [47] then
        bindM (liftF (sys_rmdir p)) (\<lambda>r.
        if r = 0 then returnM 0
        else bindM (printf_sh (''rmdir: remove '' @ text_of (argv ! 1) @ '' failed.'' @ NL)) (\<lambda>_. returnM (-1)))
      else returnM (-1))))"

definition buildin_rm :: "u32 \<Rightarrow> u8 list list \<Rightarrow> u32 shm" where
  "buildin_rm argc argv =
     (if argc \<noteq> 2 then bindM (printf_sh (''rm: only support 1 argument!'' @ NL)) (\<lambda>_. returnM (-1))
      else
      bindM (make_clear_abs_path (argv ! 1)) (\<lambda>_.
      bindM (getM final_path) (\<lambda>p.
      if p \<noteq> [47] then
        bindM (liftF (sys_unlink p)) (\<lambda>r.
        if r = 0 then returnM 0
        else bindM (printf_sh (''rm: delete '' @ text_of (argv ! 1) @ '' failed.'' @ NL)) (\<lambda>_. returnM (-1)))
      else returnM (-1))))"

definition buildin_help :: "unit shm" where
  "buildin_help = liftF sys_help"

section \<open>A command\<close>

text \<open>
  The shell after \<^verbatim>\<open>fork\<close> has returned in it; \<open>status_ptr\<close> is the address of its local variable. A number that is not
  zero is the parent's: the child's own, or \<open>-1\<close>.
\<close>

definition wait_command :: "addr \<Rightarrow> unit shm" where
  "wait_command status_ptr =
     bindM (liftF (liftK (wait_pass status_ptr))) (\<lambda>e.
     case e of
       Waiting _ \<Rightarrow> failM Suspended
     | No_child \<Rightarrow> liftM (kpanic ''my_shell: no child'')
     | Reaped child_pid \<Rightarrow>
         bindM (liftF (\<lambda>s. bindR (load_dw status_ptr s) (\<lambda>v. Inr (v, s)))) (\<lambda>status.
         printf_sh (''child_pid '' @ num (scast child_pid) @ '', it's status: '' @ num status @ NL)))"

text \<open>The new process; \<open>tail\<close> is what follows the path in memory, \<open>argv_ptr\<close> the address of the array of arguments.\<close>

definition child_command :: "u8 list \<Rightarrow> u8 list \<Rightarrow> addr \<Rightarrow> unit shm" where
  "child_command cmd tail argv_ptr =
     bindM (make_clear_abs_path cmd) (\<lambda>_.
     bindM (getM final_path) (\<lambda>p.
     bindM (liftF (sys_stat p \<lparr>st_ino = 0, st_size = 0, st_filetype = 0\<rparr>)) (\<lambda>(r, _).
     if r = -1 then
       bindM (printf_sh (''my_shell: cannot access '' @ text_of p @ '': No such file or directory'' @ NL)) (\<lambda>_.
       bindM (liftF (sys_exit (-1))) (\<lambda>_. returnM ()))
     else bindM (liftF (sys_execv p tail argv_ptr)) (\<lambda>_. returnM ()))))"

definition cmd_execute :: "addr \<Rightarrow> addr \<Rightarrow> u32 \<Rightarrow> u8 list list \<Rightarrow> unit shm" where
  "cmd_execute intr_exit status_ptr argc argv =
     (if argv = [] then liftM (kassert False ''a != NULL && b != NULL'')
      else let c = argv ! 0 in
      if c = bytes_of ''ls'' then buildin_ls argv
      else if c = bytes_of ''cd'' then
        bindM (buildin_cd argc argv) (\<lambda>ok. if ok then modM (\<lambda>s. s\<lparr>cwd_cache := final_path s\<rparr>) else returnM ())
      else if c = bytes_of ''pwd'' then buildin_pwd argc
      else if c = bytes_of ''ps'' then buildin_ps argc
      else if c = bytes_of ''clear'' then buildin_clear argc
      else if c = bytes_of ''mkdir'' then bindM (buildin_mkdir argc argv) (\<lambda>_. returnM ())
      else if c = bytes_of ''rmdir'' then bindM (buildin_rmdir argc argv) (\<lambda>_. returnM ())
      else if c = bytes_of ''rm'' then bindM (buildin_rm argc argv) (\<lambda>_. returnM ())
      else if c = bytes_of ''help'' then buildin_help
      else bindM (liftF (sys_fork intr_exit)) (\<lambda>pid'. if pid' \<noteq> 0 then wait_command status_ptr else returnM ()))"

section \<open>The loop\<close>

text \<open>The strings that the first \<open>argc\<close> pointers of an array of arguments lead to.\<close>

fun arg_strings :: "u8 list \<Rightarrow> nat option list \<Rightarrow> u8 list list res" where
  "arg_strings buf (Some j # as) = bindR (buf_cstr j buf) (\<lambda>a. bindR (arg_strings buf as) (\<lambda>rest. Inr (a # rest)))"
| "arg_strings buf as = Inr []"

text \<open>\<^verbatim>\<open>cmd_parse\<close> of the line from a place on, and the command.\<close>

definition run_command :: "addr \<Rightarrow> addr \<Rightarrow> nat \<Rightarrow> bool shm" where
  "run_command intr_exit status_ptr each_cmd =
     bindM (getM cmd_line) (\<lambda>buf.
     bindM (liftM (cmd_parse buf each_cmd 32)) (\<lambda>(buf', argv, argc).
     bindM (modM (\<lambda>s. s\<lparr>cmd_line := buf'\<rparr>)) (\<lambda>_.
     if argc = -1 then returnM False
     else
     bindM (liftM (arg_strings buf' argv)) (\<lambda>args.
     bindM (cmd_execute intr_exit status_ptr (of_int argc) args) (\<lambda>_. returnM True)))))"

text \<open>\<^verbatim>\<open>strchr(each_cmd, '|')\<close> as an index.\<close>

definition pipe_at :: "u8 list \<Rightarrow> nat \<Rightarrow> nat option" where
  "pipe_at buf i = (let str = takeWhile (\<lambda>c. c \<noteq> 0) (drop i buf) in
     if 124 \<in> set str then Some (i + length (takeWhile (\<lambda>c. c \<noteq> 124) str)) else None)"

lemma pipe_at_bound: "pipe_at buf i = Some j \<Longrightarrow> i \<le> j \<and> j < length buf"
proof -
  assume p: "pipe_at buf i = Some j"
  let ?s = "takeWhile (\<lambda>c. c \<noteq> 0) (drop i buf)"
  have j: "124 \<in> set ?s" "j = i + length (takeWhile (\<lambda>c. c \<noteq> 124) ?s)" using p by (auto simp: pipe_at_def Let_def split: if_splits)
  have "length (takeWhile (\<lambda>c. c \<noteq> 124) ?s) < length ?s"
    using j(1) by (metis (mono_tags) length_takeWhile_le nat_less_le set_takeWhileD takeWhile_eq_take take_all_iff)
  moreover have "length ?s \<le> length buf - i" using length_takeWhile_le [of _ "drop i buf"] by simp
  ultimately show ?thesis using j(2) by linarith
qed

text \<open>The commands between the first and the last of a line with pipes; the result is the start of the last one.\<close>

fun middle_commands :: "nat \<Rightarrow> addr \<Rightarrow> addr \<Rightarrow> nat \<Rightarrow> nat shm" where
  "middle_commands 0 intr_exit status_ptr each_cmd = returnM each_cmd"
| "middle_commands (Suc n) intr_exit status_ptr each_cmd =
     bindM (getM (\<lambda>s. pipe_at (cmd_line s) each_cmd)) (\<lambda>p.
     case p of None \<Rightarrow> returnM each_cmd
     | Some j \<Rightarrow>
         bindM (modM (\<lambda>s. s\<lparr>cmd_line := (cmd_line s)[j := 0]\<rparr>)) (\<lambda>_.
         bindM (run_command intr_exit status_ptr each_cmd) (\<lambda>_.
         middle_commands n intr_exit status_ptr (j + 1))))"

definition piped_commands :: "addr \<Rightarrow> addr \<Rightarrow> nat \<Rightarrow> unit shm" where
  "piped_commands intr_exit status_ptr pipe_symbol =
     bindM (liftF sys_pipe) (\<lambda>(_, fd0, fd1).
     bindM (liftF (sys_fd_redirect 1 fd1)) (\<lambda>_.
     bindM (modM (\<lambda>s. s\<lparr>cmd_line := (cmd_line s)[pipe_symbol := 0]\<rparr>)) (\<lambda>_.
     bindM (run_command intr_exit status_ptr 0) (\<lambda>_.
     bindM (liftF (sys_fd_redirect 0 fd0)) (\<lambda>_.
     bindM (middle_commands MAX_PATH_LEN intr_exit status_ptr (pipe_symbol + 1)) (\<lambda>each_cmd.
     bindM (liftF (sys_fd_redirect 1 1)) (\<lambda>_.
     bindM (run_command intr_exit status_ptr each_cmd) (\<lambda>_.
     bindM (liftF (sys_fd_redirect 0 0)) (\<lambda>_.
     bindM (liftF (sys_close fd0)) (\<lambda>_.
     bindM (liftF (sys_close fd1)) (\<lambda>_. returnM ())))))))))))"

text \<open>What \<^verbatim>\<open>readline\<close> puts on the screen.\<close>

fun put_echo :: "echo list \<Rightarrow> unit shm" where
  "put_echo [] = returnM ()"
| "put_echo (e # es) =
     bindM (case e of Echo c \<Rightarrow> liftF (sys_putchar c) | Clear_screen \<Rightarrow> liftF (modM (emit Cls_screen))
       | Prompt \<Rightarrow> print_prompt | Print str \<Rightarrow> printf_sh (text_of str)) (\<lambda>_. put_echo es)"

text \<open>A pass of the loop of \<^verbatim>\<open>my_shell\<close> on the keys that come; the result is the keys that are left.\<close>

definition shell_pass :: "addr \<Rightarrow> addr \<Rightarrow> u8 list \<Rightarrow> u8 list shm" where
  "shell_pass intr_exit status_ptr keys =
     bindM print_prompt (\<lambda>_.
     bindM (liftM (readline keys MAX_PATH_LEN \<lparr>line_buf = replicate MAX_PATH_LEN 0, line_pos = 0, echoed = []\<rparr>)) (\<lambda>(r, rest).
     case rest of None \<Rightarrow> failM Suspended
     | Some keys' \<Rightarrow>
         bindM (put_echo (echoed r)) (\<lambda>_.
         bindM (modM (\<lambda>s. s\<lparr>final_path := [], cmd_line := line_buf r\<rparr>)) (\<lambda>_.
         bindM (if line_buf r ! 0 = 0 then returnM ()
           else case pipe_at (line_buf r) 0 of
             Some j \<Rightarrow> piped_commands intr_exit status_ptr j
           | None \<Rightarrow>
               bindM (run_command intr_exit status_ptr 0) (\<lambda>ok.
               if ok then returnM () else printf_sh (''num of arguments exceed 16'' @ NL))) (\<lambda>_.
         returnM keys')))))"

end
