(* ===== verification/Entry.thy ===== *)
theory Entry
  imports Interrupt
begin

text \<open>
  The entries of the interrupts and the way back (\<^verbatim>\<open>VECTOR\<close> and \<^verbatim>\<open>intr_exit\<close> of \<^verbatim>\<open>kernel/kernel.S\<close>). A stack is the list of
  its dwords, the top first. The processor pushes the flags, the code segment and the instruction pointer, below
  them the stack of a program of privilege level 3, and above them an error code for some exceptions; for the
  others the entry pushes a zero. The handler that is called in between leaves the frame as it is.
\<close>

datatype vector_kind = ZERO | ERROR_CODE

definition vectors :: "vector_kind list" where
  "vectors =
     [ZERO, ZERO, ZERO, ZERO, ZERO, ZERO, ZERO, ZERO, ERROR_CODE, ZERO, ERROR_CODE, ERROR_CODE, ZERO, ERROR_CODE, ERROR_CODE, ZERO,
      ZERO, ERROR_CODE, ZERO, ZERO, ZERO, ZERO, ZERO, ZERO, ERROR_CODE, ZERO, ERROR_CODE, ERROR_CODE, ZERO, ERROR_CODE, ERROR_CODE, ZERO,
      ZERO, ZERO, ZERO, ZERO, ZERO, ZERO, ZERO, ZERO, ZERO, ZERO, ZERO, ZERO, ZERO, ZERO, ZERO, ZERO]"

record cpu =
  r_eax :: u32
  r_ecx :: u32
  r_edx :: u32
  r_ebx :: u32
  r_ebp :: u32
  r_esi :: u32
  r_edi :: u32
  r_ds :: u32
  r_es :: u32
  r_fs :: u32
  r_gs :: u32
  r_eip :: u32
  r_cs :: u32
  r_eflags :: u32
  r_esp :: u32
  r_ss :: u32

text \<open>Level 3 is in the two low bits of the code segment.\<close>

definition from_user :: "u32 \<Rightarrow> bool" where
  "from_user cs \<longleftrightarrow> cs AND 3 = 3"

section \<open>The processor\<close>

text \<open>The exceptions for which the processor pushes an error code.\<close>

definition has_code :: "nat \<Rightarrow> bool" where
  "has_code v \<longleftrightarrow> v \<in> {8, 10, 11, 12, 13, 14, 17}"

text \<open>\<open>stk\<close> is the stack on which the frame is built: the one in use, or the one that the task state segment names.\<close>

definition interrupt :: "nat \<Rightarrow> u32 \<Rightarrow> cpu \<Rightarrow> u32 list \<Rightarrow> u32 list" where
  "interrupt v code r stk =
     (if has_code v then [code] else []) @ [r_eip r, r_cs r, r_eflags r] @ (if from_user (r_cs r) then [r_esp r, r_ss r] else []) @ stk"

fun iretd :: "cpu \<Rightarrow> u32 list \<Rightarrow> (cpu \<times> u32 list) res" where
  "iretd r (eip # cs # fl # stk) =
     (let r1 = r\<lparr>r_eip := eip, r_cs := cs, r_eflags := fl\<rparr> in
      if from_user cs then
        case stk of e # s # stk' \<Rightarrow> Inr (r1\<lparr>r_esp := e, r_ss := s\<rparr>, stk') | _ \<Rightarrow> Inl (Bad_access ''iretd past the stack'')
      else Inr (r1, stk))"
| "iretd r _ = Inl (Bad_access ''iretd past the stack'')"

section \<open>The entry and the exit\<close>

definition intr_entry :: "nat \<Rightarrow> cpu \<Rightarrow> u32 list \<Rightarrow> u32 list res" where
  "intr_entry v r stk =
     (if v < length vectors then
        let stk1 = (case vectors ! v of ZERO \<Rightarrow> 0 # stk | ERROR_CODE \<Rightarrow> stk);
            stk2 = r_gs r # r_fs r # r_es r # r_ds r # stk1;
            stk3 = r_edi r # r_esi r # r_ebp r # r_esp r # r_ebx r # r_edx r # r_ecx r # r_eax r # stk2
        in Inr (of_nat v # stk3)
      else Inl (Bad_access ''intr_entry_table''))"

text \<open>The end-of-interrupt commands that the entry sends to the two controllers.\<close>

definition entry_eoi :: "'a machine_scheme \<Rightarrow> 'a machine_scheme" where
  "entry_eoi m = outb 0x20 0x20 (outb 0xa0 0x20 m)"

fun intr_exit :: "cpu \<Rightarrow> u32 list \<Rightarrow> (cpu \<times> u32 list) res" where
  "intr_exit r (vec # edi # esi # ebp # dummy # ebx # edx # ecx # eax # gs # fs # es # ds # code # stk) =
     iretd (r\<lparr>r_edi := edi, r_esi := esi, r_ebp := ebp, r_ebx := ebx, r_edx := edx, r_ecx := ecx, r_eax := eax,
       r_gs := gs, r_fs := fs, r_es := es, r_ds := ds\<rparr>) stk"
| "intr_exit r _ = Inl (Bad_access ''intr_exit past the stack'')"

lemma codes_agree:
  assumes "v < 0x30" "v \<notin> {0x0c, 0x18, 0x1a, 0x1b, 0x1d, 0x1e}"
  shows "(vectors ! v = ERROR_CODE) = has_code v"
proof -
  have "\<forall>v\<in>set [0..<0x30]. v \<in> {0x0c, 0x18, 0x1a, 0x1b, 0x1d, 0x1e} \<or> (vectors ! v = ERROR_CODE) = has_code v" by code_simp
  then show ?thesis using assms by auto
qed

text \<open>
  C16. An interrupt leaves no trace in the program that it interrupts. For the vectors of the devices and those that
  the processor raises (the reserved vectors \<open>0x18\<close>, \<open>0x1a\<close>, \<open>0x1b\<close>, \<open>0x1d\<close> and \<open>0x1e\<close>, whose entries rely on an error
  code, are left out), but for one, the entry completes the frame of the processor, and \<^verbatim>\<open>intr_exit\<close> takes it down: whatever the
  handler has done to the registers, the program continues where it was, with all its registers and its stack.
  The exception among those that the processor raises is vector \<open>0x0c\<close>, the stack fault: its entry pushes a zero
  although the processor has pushed an error code, and the program would continue at the error code.
\<close>

theorem interrupt_transparent:
  assumes "v < 0x30" "v \<notin> {0x18, 0x1a, 0x1b, 0x1d, 0x1e}"
    and "\<not> from_user (r_cs r) \<Longrightarrow> r_esp r' = r_esp r \<and> r_ss r' = r_ss r"
  shows "\<exists>frame. intr_entry v r (interrupt v code r stk) = Inr frame \<and>
    (if v = 0x0c then \<not> from_user (r_eip r) \<longrightarrow> (\<exists>r2 stk2. intr_exit r' frame = Inr (r2, stk2) \<and> r_eip r2 = code \<and> r_cs r2 = r_eip r)
     else intr_exit r' frame = Inr (r, stk))"
proof -
  have len: "v < length vectors" using assms(1) by (simp add: vectors_def)
  show ?thesis
  proof (cases "v = 0x0c")
    case True
    then have "vectors ! v = ZERO" "has_code v" by (simp_all add: vectors_def has_code_def)
    then show ?thesis using len True by (simp add: intr_entry_def interrupt_def Let_def)
  next
    case False
    then have k: "(case vectors ! v of ZERO \<Rightarrow> 0 # stk' | ERROR_CODE \<Rightarrow> stk') = (if has_code v then stk' else 0 # stk')" for stk'
      using codes_agree [OF assms(1)] assms(2) by (cases "vectors ! v") auto
    show ?thesis using len False assms(3)
      by (cases "from_user (r_cs r)") (auto simp: intr_entry_def interrupt_def Let_def k intro: cpu.equality)
  qed
qed

theorem interrupt_transparent_witness:
  "\<exists>frame r. r_eip r = 0x8048123 \<and> from_user (r_cs r) \<and> intr_entry 0x20 r (interrupt 0x20 0 r []) = Inr frame \<and>
     intr_exit (r\<lparr>r_eax := 7, r_eip := 0, r_cs := 8, r_esp := 0xc0100f00, r_ss := 0x10\<rparr>) frame = Inr (r, [])"
proof -
  let ?r = "\<lparr>r_eax = 1, r_ecx = 2, r_edx = 3, r_ebx = 4, r_ebp = 5, r_esi = 6, r_edi = 7, r_ds = 0x33, r_es = 0x33, r_fs = 0x33, r_gs = 0,
    r_eip = 0x8048123, r_cs = 0x2b, r_eflags = 0x202, r_esp = 0xbffffff0, r_ss = 0x33\<rparr>"
  have "from_user (r_cs ?r)" by (simp add: from_user_def)
  then show ?thesis
    using interrupt_transparent [of "0x20" ?r "?r\<lparr>r_eax := 7, r_eip := 0, r_cs := 8, r_esp := 0xc0100f00, r_ss := 0x10\<rparr>" 0 "[]"]
    by (intro exI [of _ ?r] ex_comm [THEN iffD1]) auto
qed

end
