(* ===== verification/Syscall.thy ===== *)
theory Syscall
  imports Sched
begin

text \<open>
  The way from a user program's call to the kernel's routine: the stubs of \<^verbatim>\<open>user/syscall.c\<close>, which load the number
  and the arguments into registers, the entry \<^verbatim>\<open>syscall_handler\<close> of \<^verbatim>\<open>kernel/kernel.S\<close>, which pushes three registers and calls
  through a table, and the table that \<^verbatim>\<open>userprog/syscall-init.c\<close> fills. A routine of the kernel is its name here; its
  model is in the theory of its component. The theorem shows that every stub reaches the routine of the same name
  with its arguments in their places.
\<close>

section \<open>Numbers\<close>

datatype SYSCALL_NR = SYS_GETPID | SYS_WRITE | SYS_MALLOC | SYS_FREE | SYS_FORK | SYS_READ | SYS_PUTCHAR | SYS_CLEAR
  | SYS_GETCWD | SYS_OPEN | SYS_CLOSE | SYS_LSEEK | SYS_UNLINK | SYS_MKDIR | SYS_OPENDIR | SYS_CLOSEDIR | SYS_CHDIR
  | SYS_RMDIR | SYS_READDIR | SYS_REWINDDIR | SYS_STAT | SYS_PS | SYS_EXECV | SYS_EXIT | SYS_WAIT | SYS_PIPE
  | SYS_FD_REDIRECT | SYS_HELP

definition syscall_nrs :: "SYSCALL_NR list" where
  "syscall_nrs = [SYS_GETPID, SYS_WRITE, SYS_MALLOC, SYS_FREE, SYS_FORK, SYS_READ, SYS_PUTCHAR, SYS_CLEAR,
     SYS_GETCWD, SYS_OPEN, SYS_CLOSE, SYS_LSEEK, SYS_UNLINK, SYS_MKDIR, SYS_OPENDIR, SYS_CLOSEDIR, SYS_CHDIR,
     SYS_RMDIR, SYS_READDIR, SYS_REWINDDIR, SYS_STAT, SYS_PS, SYS_EXECV, SYS_EXIT, SYS_WAIT, SYS_PIPE,
     SYS_FD_REDIRECT, SYS_HELP]"

fun place :: "'b \<Rightarrow> 'b list \<Rightarrow> nat" where
  "place x [] = 0"
| "place x (y # ys) = (if x = y then 0 else Suc (place x ys))"

text \<open>The value of an enumerator is its place in the declaration.\<close>

definition nr :: "SYSCALL_NR \<Rightarrow> u32" where
  "nr c = of_nat (place c syscall_nrs)"

section \<open>The kernel\<close>

datatype routine = K_getpid | K_write | K_malloc | K_free | K_fork | K_read | K_putchar | K_clear | K_getcwd | K_open
  | K_close | K_lseek | K_unlink | K_mkdir | K_opendir | K_closedir | K_chdir | K_rmdir | K_readdir | K_rewinddir
  | K_stat | K_ps | K_execv | K_exit | K_wait | K_pipe | K_fd_redirect | K_help

definition syscall_nr :: nat where "syscall_nr = 32"

definition table_set :: "SYSCALL_NR \<Rightarrow> routine \<Rightarrow> routine option list \<Rightarrow> routine option list" where
  "table_set c r table = table[unat (nr c) := Some r]"

definition sys_getpid :: "'a kernel_scheme \<Rightarrow> u32" where
  "sys_getpid s = scast (pid (tasks s (running_thread s)))"

text \<open>The assignments of \<^verbatim>\<open>syscall_init\<close>, in their order.\<close>

definition fill_table :: "routine option list \<Rightarrow> routine option list" where
  "fill_table table =
     fold (\<lambda>(c, r). table_set c r)
       [(SYS_GETPID, K_getpid), (SYS_WRITE, K_write), (SYS_MALLOC, K_malloc), (SYS_FREE, K_free), (SYS_FORK, K_fork),
        (SYS_READ, K_read), (SYS_PUTCHAR, K_putchar), (SYS_CLEAR, K_clear), (SYS_GETCWD, K_getcwd), (SYS_OPEN, K_open),
        (SYS_CLOSE, K_close), (SYS_LSEEK, K_lseek), (SYS_UNLINK, K_unlink), (SYS_MKDIR, K_mkdir), (SYS_OPENDIR, K_opendir),
        (SYS_CLOSEDIR, K_closedir), (SYS_CHDIR, K_chdir), (SYS_RMDIR, K_rmdir), (SYS_READDIR, K_readdir),
        (SYS_REWINDDIR, K_rewinddir), (SYS_STAT, K_stat), (SYS_PS, K_ps), (SYS_EXECV, K_execv), (SYS_EXIT, K_exit),
        (SYS_WAIT, K_wait), (SYS_PIPE, K_pipe), (SYS_FD_REDIRECT, K_fd_redirect), (SYS_HELP, K_help)] table"

definition syscall_init :: "routine option list \<Rightarrow> 'a machine_scheme \<Rightarrow> routine option list \<times> 'a machine_scheme" where
  "syscall_init table s =
     (let s1 = put_str (''syscall_init start'' @ NL) s; table1 = fill_table table in
      (table1, put_str (''syscall_init done'' @ NL) s1))"

record regs =
  eax :: u32
  ebx :: u32
  ecx :: u32
  edx :: u32

text \<open>
  The entry for interrupt \<^verbatim>\<open>0x80\<close>. \<open>routines\<close> is what the routines do, with the three dwords on top of the stack as
  their arguments; the result goes to the place of \<^verbatim>\<open>eax\<close> in the frame. The entry does not test the number: one
  beyond the table calls what lies behind it, and an empty place calls address 0.
\<close>

definition syscall_handler ::
  "(routine \<Rightarrow> u32 \<Rightarrow> u32 \<Rightarrow> u32 \<Rightarrow> 's \<Rightarrow> ('s \<times> u32) res) \<Rightarrow> routine option list \<Rightarrow> regs \<Rightarrow> 's \<Rightarrow> ('s \<times> regs) res" where
  "syscall_handler routines table r s =
     (if unat (eax r) < length table then
        case table ! unat (eax r) of
          None \<Rightarrow> Inl (Bad_access ''call of address 0'')
        | Some f \<Rightarrow> bindR (routines f (ebx r) (ecx r) (edx r) s) (\<lambda>(s', v). Inr (s', r\<lparr>eax := v\<rparr>))
      else Inl (Bad_access ''call through syscall_table + eax*4''))"

section \<open>The stubs\<close>

text \<open>The registers at \<^verbatim>\<open>int 0x80\<close>: the caller's, with the operands of the instruction.\<close>

definition syscall0 :: "SYSCALL_NR \<Rightarrow> regs \<Rightarrow> regs" where
  "syscall0 c r = r\<lparr>eax := nr c\<rparr>"

definition syscall1 :: "SYSCALL_NR \<Rightarrow> u32 \<Rightarrow> regs \<Rightarrow> regs" where
  "syscall1 c a r = r\<lparr>eax := nr c, ebx := a\<rparr>"

definition syscall2 :: "SYSCALL_NR \<Rightarrow> u32 \<Rightarrow> u32 \<Rightarrow> regs \<Rightarrow> regs" where
  "syscall2 c a b r = r\<lparr>eax := nr c, ebx := a, ecx := b\<rparr>"

definition syscall3 :: "SYSCALL_NR \<Rightarrow> u32 \<Rightarrow> u32 \<Rightarrow> u32 \<Rightarrow> regs \<Rightarrow> regs" where
  "syscall3 c a b d r = r\<lparr>eax := nr c, ebx := a, ecx := b, edx := d\<rparr>"

text \<open>A call of a stub, with its arguments.\<close>

datatype ucall =
    getpid | "write" u32 addr u32 | malloc u32 | free addr | fork | read u32 addr u32 | putchar u8 | clear
  | getcwd addr u32 | "open" addr u8 | close u32 | lseek u32 u32 u8 | unlink addr | mkdir addr | opendir addr
  | closedir addr | rmdir addr | readdir addr | rewinddir addr | stat addr addr | chdir addr | ps | execv addr addr
  | exit u32 | wait addr | "pipe" addr | fd_redirect u32 u32 | "help"

fun stub :: "ucall \<Rightarrow> regs \<Rightarrow> regs" where
  "stub getpid = syscall0 SYS_GETPID"
| "stub (write fd buf count) = syscall3 SYS_WRITE fd buf count"
| "stub (malloc size') = syscall1 SYS_MALLOC size'"
| "stub (free p) = syscall1 SYS_FREE p"
| "stub fork = syscall0 SYS_FORK"
| "stub (read fd buf count) = syscall3 SYS_READ fd buf count"
| "stub (putchar char_asci) = syscall1 SYS_PUTCHAR (scast char_asci)"
| "stub clear = syscall0 SYS_CLEAR"
| "stub (getcwd buf size') = syscall2 SYS_GETCWD buf size'"
| "stub (open pathname flag) = syscall2 SYS_OPEN pathname (ucast flag)"
| "stub (close fd) = syscall1 SYS_CLOSE fd"
| "stub (lseek fd offset whence) = syscall3 SYS_LSEEK fd offset (ucast whence)"
| "stub (unlink pathname) = syscall1 SYS_UNLINK pathname"
| "stub (mkdir pathname) = syscall1 SYS_MKDIR pathname"
| "stub (opendir nm) = syscall1 SYS_OPENDIR nm"
| "stub (closedir dir) = syscall1 SYS_CLOSEDIR dir"
| "stub (rmdir pathname) = syscall1 SYS_RMDIR pathname"
| "stub (readdir dir) = syscall1 SYS_READDIR dir"
| "stub (rewinddir dir) = syscall1 SYS_REWINDDIR dir"
| "stub (stat path buf) = syscall2 SYS_STAT path buf"
| "stub (chdir path) = syscall1 SYS_CHDIR path"
| "stub ps = syscall0 SYS_PS"
| "stub (execv pathname argv) = syscall2 SYS_EXECV pathname argv"
| "stub (exit st) = syscall1 SYS_EXIT st"
| "stub (wait st) = syscall1 SYS_WAIT st"
| "stub (pipe pipefd) = syscall1 SYS_PIPE pipefd"
| "stub (fd_redirect old new) = syscall2 SYS_FD_REDIRECT old new"
| "stub help = syscall0 SYS_HELP"

text \<open>The routine that a stub stands for, with the arguments that the routine takes.\<close>

fun means :: "ucall \<Rightarrow> routine \<times> u32 list" where
  "means getpid = (K_getpid, [])" | "means (write fd buf count) = (K_write, [fd, buf, count])"
| "means (malloc n) = (K_malloc, [n])" | "means (free p) = (K_free, [p])" | "means fork = (K_fork, [])"
| "means (read fd buf count) = (K_read, [fd, buf, count])" | "means (putchar c) = (K_putchar, [scast c])"
| "means clear = (K_clear, [])" | "means (getcwd buf n) = (K_getcwd, [buf, n])" | "means (open p flag) = (K_open, [p, ucast flag])"
| "means (close fd) = (K_close, [fd])" | "means (lseek fd offset whence) = (K_lseek, [fd, offset, ucast whence])"
| "means (unlink p) = (K_unlink, [p])" | "means (mkdir p) = (K_mkdir, [p])" | "means (opendir p) = (K_opendir, [p])"
| "means (closedir d) = (K_closedir, [d])" | "means (rmdir p) = (K_rmdir, [p])" | "means (readdir d) = (K_readdir, [d])"
| "means (rewinddir d) = (K_rewinddir, [d])" | "means (stat p b) = (K_stat, [p, b])" | "means (chdir p) = (K_chdir, [p])"
| "means ps = (K_ps, [])" | "means (execv p argv) = (K_execv, [p, argv])" | "means (exit st) = (K_exit, [st])"
| "means (wait p) = (K_wait, [p])" | "means (pipe p) = (K_pipe, [p])" | "means (fd_redirect a b) = (K_fd_redirect, [a, b])"
| "means help = (K_help, [])"

section \<open>From a stub to its routine\<close>

lemma nr_values:
  "unat (nr SYS_GETPID) = 0" "unat (nr SYS_WRITE) = 1" "unat (nr SYS_MALLOC) = 2" "unat (nr SYS_FREE) = 3" "unat (nr SYS_FORK) = 4"
  "unat (nr SYS_READ) = 5" "unat (nr SYS_PUTCHAR) = 6" "unat (nr SYS_CLEAR) = 7" "unat (nr SYS_GETCWD) = 8" "unat (nr SYS_OPEN) = 9"
  "unat (nr SYS_CLOSE) = 10" "unat (nr SYS_LSEEK) = 11" "unat (nr SYS_UNLINK) = 12" "unat (nr SYS_MKDIR) = 13"
  "unat (nr SYS_OPENDIR) = 14" "unat (nr SYS_CLOSEDIR) = 15" "unat (nr SYS_CHDIR) = 16" "unat (nr SYS_RMDIR) = 17"
  "unat (nr SYS_READDIR) = 18" "unat (nr SYS_REWINDDIR) = 19" "unat (nr SYS_STAT) = 20" "unat (nr SYS_PS) = 21"
  "unat (nr SYS_EXECV) = 22" "unat (nr SYS_EXIT) = 23" "unat (nr SYS_WAIT) = 24" "unat (nr SYS_PIPE) = 25"
  "unat (nr SYS_FD_REDIRECT) = 26" "unat (nr SYS_HELP) = 27"
  by code_simp+

lemmas call_defs = syscall0_def syscall1_def syscall2_def syscall3_def

lemma table_entry:
  assumes "length table = syscall_nr" "f = fst (means c)"
  shows "unat (eax (stub c r)) < length (fill_table table) \<and> fill_table table ! unat (eax (stub c r)) = Some f"
  using assms by (cases c) (simp_all add: fill_table_def table_set_def nr_values call_defs syscall_nr_def)

lemma stub_args: "take (length (snd (means c))) [ebx (stub c r), ecx (stub c r), edx (stub c r)] = snd (means c)"
  by (cases c) (simp_all add: call_defs)

text \<open>
  C28. Every call of a user program reaches its routine. Once the table is filled, the interrupt that a stub raises
  ends in the call of the routine that the stub is named after; the arguments of the stub are the first ones on
  the routine's stack, in their order, and the result of the routine is what the program finds in \<^verbatim>\<open>eax\<close>, all other
  registers being those it had at the interrupt.
\<close>

theorem syscall_reaches:
  assumes "length table = syscall_nr" "means c = (f, args)"
  shows "\<exists>a b d. take (length args) [a, b, d] = args \<and>
    syscall_handler routines (fst (syscall_init table k)) (stub c r) s =
      bindR (routines f a b d s) (\<lambda>(s', v). Inr (s', (stub c r)\<lparr>eax := v\<rparr>))"
  using table_entry [OF assms(1) refl, of c r] stub_args [of c r] assms(2)
  by (intro exI [of _ "ebx (stub c r)"] exI [of _ "ecx (stub c r)"] exI [of _ "edx (stub c r)"]) (simp add: syscall_handler_def syscall_init_def Let_def)

theorem syscall_reaches_witness:
  "\<exists>a b d. take 3 [a, b, d] = [1, 0xc0100000, 5] \<and>
    syscall_handler (\<lambda>f a b d s. Inr (s @ [(f, a, b, d)], 5)) (fst (syscall_init (replicate 32 None) kernel_zero))
      (stub (write 1 0xc0100000 5) \<lparr>eax = 0, ebx = 0, ecx = 0, edx = 0\<rparr>) [] =
    Inr ([(K_write, a, b, d)], \<lparr>eax = 5, ebx = 1, ecx = 0xc0100000, edx = 5\<rparr>)"
  using syscall_reaches [of "replicate 32 None" "write 1 0xc0100000 5" K_write "[1, 0xc0100000, 5]"
      "\<lambda>f a b d s. Inr (s @ [(f, a, b, d)], 5)" kernel_zero "\<lparr>eax = 0, ebx = 0, ecx = 0, edx = 0\<rparr>" "[]"]
  by (simp add: syscall_nr_def call_defs)

text \<open>The number is not tested.\<close>

lemma syscall_unchecked:
  assumes "length table = syscall_nr" "unat (eax r) \<ge> syscall_nr"
  shows "syscall_handler routines (fst (syscall_init table k)) r s = Inl (Bad_access ''call through syscall_table + eax*4'')"
proof -
  have "length (fst (syscall_init table k)) = length table" by (simp add: syscall_init_def fill_table_def table_set_def Let_def)
  then show ?thesis using assms by (simp add: syscall_handler_def)
qed

end
