(* ===== verification/Console.thy ===== *)
theory Console
  imports Malloc
begin

text \<open>
  The console (\<^verbatim>\<open>device/console.c\<close>): output under a lock. The lock is an argument and part of the result. The lemma
  shows that output on a free console appears as one piece and leaves the console free.
\<close>

definition console_init :: lock where
  "console_init = lock_init"

definition console_acquire :: "lock \<Rightarrow> 'a kernel_scheme \<Rightarrow> (lock \<times> 'a kernel_scheme) res" where
  "console_acquire l s = lock_acquire l s"

definition console_release :: "lock \<Rightarrow> 'a kernel_scheme \<Rightarrow> (lock \<times> 'a kernel_scheme) res" where
  "console_release l s = lock_release l s"

definition console_put_str :: "lock \<Rightarrow> string \<Rightarrow> 'a kernel_scheme \<Rightarrow> (lock \<times> 'a kernel_scheme) res" where
  "console_put_str l str s = bindR (console_acquire l s) (\<lambda>(l1, s1). console_release l1 (put_str str s1))"

definition console_put_char :: "lock \<Rightarrow> u8 \<Rightarrow> 'a kernel_scheme \<Rightarrow> (lock \<times> 'a kernel_scheme) res" where
  "console_put_char l char_asci s =
     bindR (console_acquire l s) (\<lambda>(l1, s1). console_release l1 (emit (Put_char (char_of (unat char_asci))) s1))"

definition console_put_int :: "lock \<Rightarrow> u32 \<Rightarrow> 'a kernel_scheme \<Rightarrow> (lock \<times> 'a kernel_scheme) res" where
  "console_put_int l n s = bindR (console_acquire l s) (\<lambda>(l1, s1). console_release l1 (emit (Put_int n) s1))"

lemma console_free:
  assumes "running_thread s \<noteq> NULL"
  shows "console_put_str console_init str s = Inr (console_init, put_str str s)"
    "console_put_char console_init c s = Inr (console_init, emit (Put_char (char_of (unat c))) s)"
    "console_put_int console_init n s = Inr (console_init, emit (Put_int n) s)"
proof -
  have e: "running_thread (emit ev s) = running_thread s" for ev by (simp add: running_thread_def emit_def)
  have r: "running_thread (put_str str s) = running_thread s" by (simp add: put_str_def e)
  show "console_put_str console_init str s = Inr (console_init, put_str str s)"
    using lock_acquire_free [OF assms] lock_release_held [of "put_str str s"]
    by (simp add: console_put_str_def console_acquire_def console_release_def console_init_def r)
  show "console_put_char console_init c s = Inr (console_init, emit (Put_char (char_of (unat c))) s)"
    using lock_acquire_free [OF assms] lock_release_held [of "emit (Put_char (char_of (unat c))) s"]
    by (simp add: console_put_char_def console_acquire_def console_release_def console_init_def e)
  show "console_put_int console_init n s = Inr (console_init, emit (Put_int n) s)"
    using lock_acquire_free [OF assms] lock_release_held [of "emit (Put_int n) s"]
    by (simp add: console_put_int_def console_acquire_def console_release_def console_init_def e)
qed

end
