(* ===== verification/Screen.thy ===== *)
theory Screen
  imports Prelude Bytes Stdio
begin

text \<open>
  The text screen (\<^verbatim>\<open>kernel/print.S\<close>): 25 lines of 80 cells of two bytes, a character and its attribute, and a cursor
  that the video controller keeps in 16 bits. The segment of the video memory has 32768 bytes; a write beyond
  it faults. Registers are kept at their width, and the comparisons with 2000 are signed, as the code makes them.
  The lemmas show that \<^verbatim>\<open>put_char\<close> refines a terminal: a list of 2000 characters and a place in it.
\<close>

record screen =
  vram :: "u8 list"
  cursor :: u16

definition VIDEO_BYTES :: nat where
  "VIDEO_BYTES = 0x8000"

definition poke :: "u16 \<Rightarrow> u8 \<Rightarrow> screen \<Rightarrow> screen res" where
  "poke bx b s = (if unat bx < length (vram s) then Inr (s\<lparr>vram := (vram s)[unat bx := b]\<rparr>)
     else Inl (Bad_access ''past the limit of the video segment''))"

definition set_cursor_to :: "u16 \<Rightarrow> screen \<Rightarrow> screen" where
  "set_cursor_to bx s = s\<lparr>cursor := bx\<rparr>"

text \<open>\<^verbatim>\<open>rep movsd\<close> of 960 dwords from \<^verbatim>\<open>0xc00b80a0\<close> to \<^verbatim>\<open>0xc00b8000\<close>, and the 80 words of the last line.\<close>

definition blank_line :: "u8 list" where
  "blank_line = concat (replicate 80 [0x20, 0x07])"

definition roll_screen :: "screen \<Rightarrow> screen" where
  "roll_screen s = s\<lparr>vram := take 3840 (drop 160 (vram s)) @ blank_line @ drop 4000 (vram s)\<rparr>"

definition line_feed :: "u16 \<Rightarrow> screen \<Rightarrow> screen" where
  "line_feed bx s =
     (let bx = bx - bx mod 80 + 80 in
      if bx <s 2000 then set_cursor_to bx s else set_cursor_to 1920 (roll_screen s))"

definition put_char :: "u8 \<Rightarrow> screen \<Rightarrow> screen res" where
  "put_char cl s =
     (let bx = cursor s in
      if cl = 0xd \<or> cl = 0xa then Inr (line_feed bx s)
      else if cl = 8 then
        let bx = push_bit 1 (bx - 1) in
        bindR (poke bx 0x20 s) (\<lambda>s1.
        let bx = bx + 1 in
        bindR (poke bx 0x07 s1) (\<lambda>s2. Inr (set_cursor_to (drop_bit 1 bx) s2)))
      else
        let bx = push_bit 1 bx in
        bindR (poke bx cl s) (\<lambda>s1.
        let bx = bx + 1 in
        bindR (poke bx 0x07 s1) (\<lambda>s2.
        let bx = drop_bit 1 bx + 1 in
        Inr (if bx <s 2000 then set_cursor_to bx s2 else line_feed bx s2))))"

fun put_string :: "u8 list \<Rightarrow> screen \<Rightarrow> screen res" where
  "put_string [] s = Inr s"
| "put_string (c # cs) s = (if c = 0 then Inr s else bindR (put_char c s) (put_string cs))"

definition cls_screen :: "screen \<Rightarrow> screen" where
  "cls_screen s = set_cursor_to 0 (s\<lparr>vram := concat (replicate (80 * 25) [0x20, 0x07]) @ drop 4000 (vram s)\<rparr>)"

section \<open>Numbers\<close>

text \<open>The loop that fills the buffer from its end: \<open>n\<close> digits of \<open>eax\<close>, in the order of the buffer.\<close>

definition hex_digit :: "u32 \<Rightarrow> u8" where
  "hex_digit edx = (if edx \<le> 9 then ucast edx + 0x30 else ucast (edx - 10) + 0x41)"

fun hex_buffer :: "nat \<Rightarrow> u32 \<Rightarrow> u8 list \<Rightarrow> u8 list" where
  "hex_buffer 0 eax buf = buf"
| "hex_buffer (Suc n) eax buf = hex_buffer n (drop_bit 4 eax) (hex_digit (eax AND 0xf) # buf)"

fun put_all_chars :: "u8 list \<Rightarrow> screen \<Rightarrow> screen res" where
  "put_all_chars [] s = Inr s"
| "put_all_chars (c # cs) s = bindR (put_char c s) (put_all_chars cs)"

definition put_int :: "u32 \<Rightarrow> screen \<Rightarrow> screen res" where
  "put_int w s =
     (let digits = dropWhile (\<lambda>c. c = 0x30) (hex_buffer 8 w []) in
      if digits = [] then put_char 0x30 s else put_all_chars digits s)"

section \<open>The terminal\<close>

type_synonym terminal = "u8 list \<times> nat"

definition term_newline :: "terminal \<Rightarrow> terminal" where
  "term_newline = (\<lambda>(cells, p). let q = (p div 80 + 1) * 80 in
     if q < 2000 then (cells, q) else (drop 80 cells @ replicate 80 32, 1920))"

definition term_put :: "u8 \<Rightarrow> terminal \<Rightarrow> terminal" where
  "term_put c = (\<lambda>(cells, p).
     if c = 13 \<or> c = 10 then term_newline (cells, p)
     else if c = 8 then (cells[p - 1 := 32], p - 1)
     else if p + 1 < 2000 then (cells[p := c], p + 1)
     else term_newline (cells[p := c], p + 1))"

definition cells_of :: "screen \<Rightarrow> u8 list" where
  "cells_of s = map (\<lambda>i. vram s ! (2 * i)) [0..<2000]"

definition shown :: "screen \<Rightarrow> terminal" where
  "shown s = (cells_of s, unat (cursor s))"

text \<open>Every cell has the attribute of light grey on black, and the cursor is on the screen.\<close>

definition screen_ok :: "screen \<Rightarrow> bool" where
  "screen_ok s \<longleftrightarrow> length (vram s) = VIDEO_BYTES \<and> unat (cursor s) < 2000 \<and> (\<forall>i<2000. vram s ! (2 * i + 1) = 7)"

lemma unat_u16: "n < 65536 \<Longrightarrow> unat (of_nat n :: u16) = n"
  by (simp add: unsigned_of_nat take_bit_nat_eq_self)

lemma word_u16: "(w :: u16) = of_nat (unat w)"
  by simp

lemma sless_2000: "n < 32768 \<Longrightarrow> (of_nat n :: u16) <s 2000 \<longleftrightarrow> n < 2000"
proof -
  assume "n < 32768"
  then have "sint (of_nat n :: u16) = int n" by (simp add: sint_uint unsigned_of_nat signed_take_bit_int_eq_self take_bit_nat_eq_self)
  then show ?thesis by (simp add: word_sless_alt)
qed

lemma concat_pair: "j < 2 * n \<Longrightarrow> concat (replicate n [a, b]) ! j = (if even j then a else b)"
proof (induction n arbitrary: j)
  case (Suc n)
  show ?case
  proof (cases "j < 2")
    case True
    then show ?thesis by (cases j) auto
  next
    case False
    then obtain k where "j = Suc (Suc k)" using add_2_eq_Suc le_Suc_ex not_less by metis
    then show ?thesis using Suc by simp
  qed
qed simp

lemma concat_pair_length [simp]: "length (concat (replicate n [a, b])) = 2 * n"
  by (induction n) simp_all

lemma cells_of_nth: "i < 2000 \<Longrightarrow> cells_of s ! i = vram s ! (2 * i)"
  by (simp add: cells_of_def)

lemma cells_of_length [simp]: "length (cells_of s) = 2000"
  by (simp add: cells_of_def)

text \<open>A cell is written by its two bytes.\<close>

lemma poke_cell:
  assumes "screen_ok s" "p < 2000"
  shows "\<exists>s2. bindR (poke (of_nat (2 * p)) c s) (\<lambda>s1. poke (of_nat (2 * p) + 1) 7 s1) = Inr s2 \<and>
    cells_of s2 = (cells_of s)[p := c] \<and> cursor s2 = cursor s \<and> (\<forall>i<2000. vram s2 ! (2 * i + 1) = 7) \<and> length (vram s2) = VIDEO_BYTES"
proof -
  have l: "length (vram s) = VIDEO_BYTES" using assms by (simp add: screen_ok_def)
  have u: "unat (of_nat (2 * p) :: u16) = 2 * p" "unat (of_nat (2 * p) + 1 :: u16) = 2 * p + 1"
    using assms(2) unat_u16 [of "2 * p"] unat_u16 [of "2 * p + 1"] by (simp_all add: add.commute)
  let ?s2 = "s\<lparr>vram := (vram s)[2 * p := c, 2 * p + 1 := 7]\<rparr>"
  have "bindR (poke (of_nat (2 * p)) c s) (\<lambda>s1. poke (of_nat (2 * p) + 1) 7 s1) = Inr ?s2"
    unfolding poke_def u using assms(2) l by (simp add: VIDEO_BYTES_def)
  moreover have "cells_of ?s2 = (cells_of s)[p := c]"
    using l assms(2) by (intro nth_equalityI) (auto simp: cells_of_nth nth_list_update VIDEO_BYTES_def)
  moreover have "\<forall>i<2000. vram ?s2 ! (2 * i + 1) = 7"
    using l assms by (auto simp: nth_list_update screen_ok_def VIDEO_BYTES_def)
  ultimately show ?thesis using l by (intro exI [of _ ?s2]) simp
qed

lemma rolled:
  assumes "length (vram s) = VIDEO_BYTES" "\<forall>i<2000. vram s ! (2 * i + 1) = 7"
  shows "cells_of (roll_screen s) = drop 80 (cells_of s) @ replicate 80 32" "length (vram (roll_screen s)) = VIDEO_BYTES"
    "\<forall>i<2000. vram (roll_screen s) ! (2 * i + 1) = 7"
proof -
  have at: "vram (roll_screen s) ! j = (if j < 3840 then vram s ! (j + 160) else if even j then 32 else 7)" if "j < 4000" for j
    using assms(1) that concat_pair [of "j - 3840" 80 32 "7 :: u8"]
    by (auto simp: roll_screen_def blank_line_def nth_append VIDEO_BYTES_def add.commute)
  show "length (vram (roll_screen s)) = VIDEO_BYTES" using assms(1) by (simp add: roll_screen_def blank_line_def VIDEO_BYTES_def)
  show "cells_of (roll_screen s) = drop 80 (cells_of s) @ replicate 80 32"
  proof (intro nth_equalityI)
    fix i assume "i < length (cells_of (roll_screen s))"
    then have i: "i < 2000" by simp
    then have "cells_of (roll_screen s) ! i = (if i < 1920 then vram s ! (2 * (i + 80)) else 32)"
      using at [of "2 * i"] by (simp add: cells_of_nth)
    moreover have "(drop 80 (cells_of s) @ replicate 80 32) ! i = (if i < 1920 then vram s ! (2 * (i + 80)) else 32)"
      using i by (auto simp: nth_append cells_of_nth add.commute)
    ultimately show "cells_of (roll_screen s) ! i = (drop 80 (cells_of s) @ replicate 80 32) ! i" by simp
  qed simp
  show "\<forall>i<2000. vram (roll_screen s) ! (2 * i + 1) = 7"
  proof (intro allI impI)
    fix i :: nat assume i: "i < 2000"
    have "vram s ! (2 * i + 161) = 7" if "i < 1920" using assms(2) [rule_format, of "i + 80"] that by (simp add: add.commute)
    then show "vram (roll_screen s) ! (2 * i + 1) = 7" using at [of "2 * i + 1"] i by (auto simp: add.commute)
  qed
qed

lemma line_feed_terminal:
  assumes "length (vram s) = VIDEO_BYTES" "\<forall>i<2000. vram s ! (2 * i + 1) = 7" "p \<le> 2000"
  shows "screen_ok (line_feed (of_nat p) s) \<and> shown (line_feed (of_nat p) s) = term_newline (cells_of s, p)"
proof -
  define q where "q = (p div 80 + 1) * 80"
  have pq: "p - p mod 80 + 80 = q" unfolding q_def by (metis add_mult_distrib minus_mod_eq_div_mult mult_1)
  have "unat ((of_nat p :: u16) mod 80) = p mod 80" using assms(3) by (simp add: unat_mod_distrib unat_u16)
  then have "(of_nat p :: u16) mod 80 = of_nat (p mod 80)" by (metis word_u16)
  then have bx: "(of_nat p :: u16) - of_nat p mod 80 + 80 = of_nat q"
    using pq [symmetric] by (simp add: of_nat_diff)
  have q: "q < 65536" "q < 32768" using assms(3) pq by linarith+
  have tn: "term_newline (cells, p) = (if q < 2000 then (cells, q) else (drop 80 cells @ replicate 80 32, 1920))" for cells
    by (simp only: term_newline_def q_def Let_def prod.case)
  show ?thesis
  proof (cases "q < 2000")
    case True
    then show ?thesis using assms q unat_u16 [OF q(1)]
      by (simp add: line_feed_def Let_def bx sless_2000 set_cursor_to_def screen_ok_def shown_def tn cells_of_def)
  next
    case False
    then show ?thesis using rolled [OF assms(1,2)] q
      by (simp add: line_feed_def Let_def bx sless_2000 set_cursor_to_def screen_ok_def shown_def tn cells_of_def)
  qed
qed

lemma half_cursor: "p < 2000 \<Longrightarrow> drop_bit 1 (of_nat (2 * p) + 1 :: u16) = of_nat p"
proof -
  assume p: "p < 2000"
  then have "unat (of_nat (2 * p) + 1 :: u16) = 2 * p + 1"
    using unat_u16 [of "2 * p + 1"] by (simp add: add.commute)
  moreover have "unat (drop_bit 1 w) = unat w div 2" for w :: u16
  proof -
    have "unat (2 :: u16) = 2" by simp
    then show ?thesis by (simp only: drop_bit_eq_div power_one_right unat_div)
  qed
  ultimately have "unat (drop_bit 1 (of_nat (2 * p) + 1 :: u16)) = p" by presburger
  then show ?thesis by (metis word_u16)
qed

lemma put_char_other:
  assumes "screen_ok s" "c \<notin> {13, 10, 8}"
  shows "\<exists>s'. put_char c s = Inr s' \<and> screen_ok s' \<and> shown s' = term_put c (shown s)"
proof -
  define p where "p = unat (cursor s)"
  have p: "p < 2000" and cur: "cursor s = of_nat p" using assms(1) by (simp_all add: screen_ok_def p_def)
  have sh: "push_bit 1 (cursor s) = of_nat (2 * p)" by (simp add: cur push_bit_eq_mult)
  obtain s2 where s2: "bindR (poke (of_nat (2 * p)) c s) (\<lambda>s1. poke (of_nat (2 * p) + 1) 7 s1) = Inr s2"
    "cells_of s2 = (cells_of s)[p := c]" "cursor s2 = cursor s" "\<forall>i<2000. vram s2 ! (2 * i + 1) = 7" "length (vram s2) = VIDEO_BYTES"
    using poke_cell [OF assms(1) p] by blast
  obtain s1 where s1: "poke (of_nat (2 * p)) c s = Inr s1" "poke (of_nat (2 * p) + 1) 7 s1 = Inr s2"
    using s2(1) by (auto simp: bindR_Inr_iff)
  have bx: "drop_bit 1 (of_nat (2 * p) + 1 :: u16) + 1 = of_nat (p + 1)" unfolding half_cursor [OF p] by simp
  have put: "put_char c s = Inr (if p + 1 < 2000 then set_cursor_to (of_nat (p + 1)) s2 else line_feed (of_nat (p + 1)) s2)"
    using assms(2) p unfolding put_char_def Let_def sh bx by (simp only: s1 bindR_simps sless_2000) (simp add: sless_2000)
  show ?thesis
  proof (cases "p + 1 < 2000")
    case True
    then show ?thesis using put s2 assms(2) p unat_u16 [of "p + 1"]
      by (auto simp: set_cursor_to_def screen_ok_def shown_def term_put_def p_def [symmetric] cells_of_def)
  next
    case False
    then show ?thesis using put s2 assms(2) p line_feed_terminal [OF s2(5,4), of "p + 1"]
      by (simp add: shown_def [of s] term_put_def p_def [symmetric])
  qed
qed

lemma put_char_back:
  assumes "screen_ok s" "cursor s \<noteq> 0"
  shows "\<exists>s'. put_char 8 s = Inr s' \<and> screen_ok s' \<and> shown s' = term_put 8 (shown s)"
proof -
  define p where "p = unat (cursor s) - 1"
  have c: "unat (cursor s) = p + 1" using assms(2) by (cases "unat (cursor s)") (auto simp: p_def unsigned_eq_0_iff)
  then have p: "p < 2000" and cur: "cursor s - 1 = of_nat p"
    using assms(1) word_u16 [of "cursor s"] by (simp_all add: screen_ok_def)
  have sh: "push_bit 1 (cursor s - 1) = of_nat (2 * p)" by (simp add: cur push_bit_eq_mult)
  obtain s2 where s2: "bindR (poke (of_nat (2 * p)) 0x20 s) (\<lambda>s1. poke (of_nat (2 * p) + 1) 7 s1) = Inr s2"
    "cells_of s2 = (cells_of s)[p := 0x20]" "cursor s2 = cursor s" "\<forall>i<2000. vram s2 ! (2 * i + 1) = 7" "length (vram s2) = VIDEO_BYTES"
    using poke_cell [OF assms(1) p] by blast
  obtain s1 where s1: "poke (of_nat (2 * p)) 0x20 s = Inr s1" "poke (of_nat (2 * p) + 1) 7 s1 = Inr s2"
    using s2(1) by (auto simp: bindR_Inr_iff)
  have "put_char 8 s = Inr (set_cursor_to (of_nat p) s2)"
    unfolding put_char_def Let_def sh half_cursor [OF p] by (simp only: s1 bindR_simps) simp
  then show ?thesis using s2 p c unat_u16 [of p]
    by (auto simp: set_cursor_to_def screen_ok_def shown_def term_put_def cells_of_def)
qed

text \<open>
  C15. The text screen is a terminal. On a screen whose cursor is inside the 25 lines, \<^verbatim>\<open>put_char\<close> does to the bytes of
  the video memory and the cursor what the terminal does to a list of 2000 characters and a place: it writes the
  character and moves on, goes to the next line at a line feed or carriage return, clears the cell before the
  cursor at a backspace, and drops the first line and appends an empty one when the place runs past the end. The
  cursor stays on the screen. The exception is a backspace in the first cell: the place wraps around to 65535
  and the write is beyond the limit of the video segment.
\<close>

theorem put_char_terminal:
  assumes "screen_ok s"
  shows "if c = 8 \<and> cursor s = 0 then put_char c s = Inl (Bad_access ''past the limit of the video segment'')
    else \<exists>s'. put_char c s = Inr s' \<and> screen_ok s' \<and> shown s' = term_put c (shown s)"
proof -
  consider "c = 13 \<or> c = 10" | "c = 8" "cursor s = 0" | "c = 8" "cursor s \<noteq> 0" | "c \<notin> {13, 10, 8}" by auto
  then show ?thesis
  proof cases
    case 1
    have "screen_ok (line_feed (cursor s) s) \<and> shown (line_feed (cursor s) s) = term_newline (shown s)"
      using line_feed_terminal [of s "unat (cursor s)"] assms by (simp add: screen_ok_def shown_def)
    then show ?thesis using 1 by (auto simp: put_char_def term_put_def shown_def)
  next
    case 2
    then show ?thesis using assms by (simp add: put_char_def poke_def screen_ok_def VIDEO_BYTES_def push_bit_eq_mult)
  next
    case 3
    then show ?thesis using put_char_back [OF assms] by simp
  next
    case 4
    then show ?thesis using put_char_other [OF assms 4] by auto
  qed
qed

theorem put_char_terminal_witness:
  "\<exists>s'. put_char 0x41 \<lparr>vram = concat (replicate 16384 [0x20, 7]), cursor = 1999\<rparr> = Inr s' \<and> screen_ok s' \<and> unat (cursor s') = 1920"
proof -
  let ?s = "\<lparr>vram = concat (replicate 16384 [0x20, 7]), cursor = 1999\<rparr>"
  have "length (concat (replicate 16384 [0x20, 7 :: u8])) = VIDEO_BYTES" by (simp only: concat_pair_length VIDEO_BYTES_def)
  moreover have "concat (replicate 16384 [0x20, 7 :: u8]) ! (2 * i + 1) = 7" if "i < 2000" for i
    using that by (subst concat_pair) auto
  ultimately have "screen_ok ?s" by (simp add: screen_ok_def)
  from put_char_terminal [OF this, where c = "0x41"] show ?thesis
    by (force simp: shown_def term_put_def term_newline_def)
qed

section \<open>Numbers on the screen\<close>

lemma hex_buffer_append: "hex_buffer n w (xs @ ys) = hex_buffer n w xs @ ys"
  by (induction n arbitrary: w xs) (simp_all flip: append_Cons)

lemma low_digit: "w AND 0xf = of_nat (unat w mod 16)" for w :: u32
proof -
  have "w AND 0xf = take_bit 4 w" by (simp add: take_bit_eq_mask mask_eq_exp_minus_1)
  moreover have "unat (take_bit 4 w) = unat w mod 16"
  proof -
    have "unat (16 :: u32) = 16" "(2 :: u32) ^ 4 = 16" by simp_all
    then show ?thesis by (simp only: take_bit_eq_mod unat_mod)
  qed
  ultimately show ?thesis by (metis of_nat_unat ucast_id)
qed

lemma hex_digit_eq: "hex_digit (w AND 0xf) = digit (unat w mod 16)"
proof -
  have "\<forall>m\<in>set [0..<16]. hex_digit (of_nat m) = digit m" by code_simp
  then show ?thesis unfolding low_digit by simp
qed

lemma hex_buffer_digits:
  "unat w < 16 ^ n \<Longrightarrow> dropWhile (\<lambda>c. c = 0x30) (hex_buffer n w []) = (if w = 0 then [] else num_bytes 16 (unat w))"
proof (induction n arbitrary: w)
  case 0
  then show ?case by (simp add: unsigned_eq_0_iff)
next
  case (Suc n)
  let ?h = "hex_buffer n (drop_bit 4 w) []" and ?d = "digit (unat w mod 16)"
  have "unat (16 :: u32) = 16" "(2 :: u32) ^ 4 = 16" by simp_all
  then have u: "unat (drop_bit 4 w) = unat w div 16" by (simp only: drop_bit_eq_div unat_div)
  have IH: "dropWhile (\<lambda>c. c = 0x30) ?h = (if drop_bit 4 w = 0 then [] else num_bytes 16 (unat w div 16))"
    using Suc.IH [of "drop_bit 4 w"] Suc.prems u by (simp add: less_mult_imp_div_less mult.commute)
  have buf: "hex_buffer (Suc n) w [] = ?h @ [?d]" using hex_buffer_append [of n "drop_bit 4 w" "[]" "[?d]"] by (simp add: hex_digit_eq)
  have zero: "drop_bit 4 w = 0 \<longleftrightarrow> unat w < 16" using u by (metis div_eq_0_iff less_numeral_extra(3) unsigned_eq_0_iff zero_less_numeral)
  show ?case
  proof (cases "drop_bit 4 w = 0")
    case True
    then have "\<forall>x\<in>set ?h. x = 0x30" "unat w < 16" using IH zero by simp_all
    then have d: "dropWhile (\<lambda>c. c = 0x30) (hex_buffer (Suc n) w []) = dropWhile (\<lambda>c. c = 0x30) [?d]" unfolding buf by (simp add: dropWhile_append3)
    have "?d = 0x30 \<longleftrightarrow> unat ?d = 0x30" by (simp add: word_unat_eq_iff)
    also have "\<dots> \<longleftrightarrow> w = 0"
      using \<open>unat w < 16\<close> unat_digit [of "unat w"] by (auto simp: unsigned_eq_0_iff)
    finally have "?d = 0x30 \<longleftrightarrow> w = 0" .
    then show ?thesis using d \<open>unat w < 16\<close> by (simp add: num_bytes.simps [of 16])
  next
    case False
    then have "dropWhile (\<lambda>c. c = 0x30) ?h \<noteq> []" using IH num_bytes_nonempty by presburger
    then have "\<exists>x\<in>set ?h. x \<noteq> 0x30" by (simp only: dropWhile_eq_Nil_conv) blast
    moreover have "\<not> unat w < 16" "w \<noteq> 0" using False zero by auto
    ultimately show ?thesis using IH False unfolding buf by (auto simp: dropWhile_append1 num_bytes.simps [of 16 "unat w"])
  qed
qed

text \<open>
  \<^verbatim>\<open>put_int\<close> prints a number in hexadecimal, without leading zeros: the eight digits it computes from the lowest
  on, with the zeros in front skipped and a single zero for the number 0, are the digits of the number.
\<close>

theorem put_int_hexadecimal: "put_int w s = put_all_chars (num_bytes 16 (unat w)) s"
proof -
  have "unat w < 16 ^ 8" using unsigned_less [of w] by simp
  then show ?thesis using hex_buffer_digits [of w 8] num_bytes_nonempty [of 16 "unat w"]
    by (auto simp: put_int_def Let_def num_bytes.simps [of 16 0] digit_def bindR_def split: sum.splits)
qed

end
