(* ===== verification/Keyboard.thy ===== *)
theory Keyboard
  imports IOQueue Interrupt
begin

text \<open>
  The keyboard driver (\<^verbatim>\<open>device/keyboard.c\<close>). The handler of interrupt \<open>0x21\<close> gets one byte of the
  controller, which is an argument here, joins a byte that follows \<open>0xe0\<close> with it, tracks the keys that change
  the meaning of others, and puts the character of every other key into the ring buffer. The flags of the
  driver and its buffer are a record; interrupts are off while a handler runs.

  The lemmas show that the handler never reads past its table and that what the buffer gets is what a
  description of the keyboard in terms of keys gives, of which the flags are a function of the history.
\<close>

section \<open>The driver\<close>

abbreviation (input) shift_l_make :: u16 where "shift_l_make \<equiv> 0x2a"
abbreviation (input) shift_r_make :: u16 where "shift_r_make \<equiv> 0x36"
abbreviation (input) alt_l_make :: u16 where "alt_l_make \<equiv> 0x38"
abbreviation (input) alt_r_make :: u16 where "alt_r_make \<equiv> 0xe038"
abbreviation (input) ctrl_l_make :: u16 where "ctrl_l_make \<equiv> 0x1d"
abbreviation (input) ctrl_r_make :: u16 where "ctrl_r_make \<equiv> 0xe01d"
abbreviation (input) caps_lock_make :: u16 where "caps_lock_make \<equiv> 0x3a"

record kbd =
  ctrl_status :: bool
  shift_status :: bool
  alt_status :: bool
  caps_lock_status :: bool
  ext_scancode :: bool
  kbd_ioq :: ioqueue

definition keymap :: "(char \<times> char) list" where
  "keymap = [
    (CHR 0x00, CHR 0x00), (CHR 0x1b, CHR 0x1b), (CHR ''1'', CHR ''!''), (CHR ''2'', CHR ''@''), (CHR ''3'', CHR ''#''),
    (CHR ''4'', CHR ''$''), (CHR ''5'', CHR ''%''), (CHR ''6'', CHR ''^''), (CHR ''7'', CHR ''&''),
    (CHR ''8'', CHR ''*''), (CHR ''9'', CHR ''(''), (CHR ''0'', CHR '')''), (CHR ''-'', CHR ''_''),
    (CHR ''='', CHR ''+''), (CHR 0x08, CHR 0x08), (CHR 0x09, CHR 0x09), (CHR ''q'', CHR ''Q''), (CHR ''w'', CHR ''W''),
    (CHR ''e'', CHR ''E''), (CHR ''r'', CHR ''R''), (CHR ''t'', CHR ''T''), (CHR ''y'', CHR ''Y''),
    (CHR ''u'', CHR ''U''), (CHR ''i'', CHR ''I''), (CHR ''o'', CHR ''O''), (CHR ''p'', CHR ''P''),
    (CHR ''['', CHR ''{''), (CHR '']'', CHR ''}''), (CHR 0x0d, CHR 0x0d), (CHR 0x00, CHR 0x00), (CHR ''a'', CHR ''A''),
    (CHR ''s'', CHR ''S''), (CHR ''d'', CHR ''D''), (CHR ''f'', CHR ''F''), (CHR ''g'', CHR ''G''),
    (CHR ''h'', CHR ''H''), (CHR ''j'', CHR ''J''), (CHR ''k'', CHR ''K''), (CHR ''l'', CHR ''L''),
    (CHR '';'', CHR '':''), (CHR 0x27, CHR 0x22), (CHR 0x60, CHR ''~''), (CHR 0x00, CHR 0x00), (CHR 0x5c, CHR ''|''),
    (CHR ''z'', CHR ''Z''), (CHR ''x'', CHR ''X''), (CHR ''c'', CHR ''C''), (CHR ''v'', CHR ''V''),
    (CHR ''b'', CHR ''B''), (CHR ''n'', CHR ''N''), (CHR ''m'', CHR ''M''), (CHR '','', CHR ''<''),
    (CHR ''.'', CHR ''>''), (CHR ''/'', CHR ''?''), (CHR 0x00, CHR 0x00), (CHR ''*'', CHR ''*''), (CHR 0x00, CHR 0x00),
    (CHR '' '', CHR '' ''), (CHR 0x00, CHR 0x00)]"

text \<open>\<^verbatim>\<open>keymap[index][shift]\<close>, which the table bounds.\<close>

definition keymap_at :: "nat \<Rightarrow> bool \<Rightarrow> u8 res" where
  "keymap_at index shift =
     (if index < length keymap then Inr (of_char ((if shift then snd else fst) (keymap ! index)))
      else Inl (Bad_access ''keymap''))"

text \<open>The keys with two symbols, whose second one only the shift key selects.\<close>

definition two_symbols :: "u16 \<Rightarrow> bool" where
  "two_symbols scancode \<longleftrightarrow> scancode < 0x0e \<or> scancode = 0x29 \<or> scancode = 0x1a \<or> scancode = 0x1b \<or> scancode = 0x2b \<or>
     scancode = 0x27 \<or> scancode = 0x28 \<or> scancode = 0x33 \<or> scancode = 0x34 \<or> scancode = 0x35"

text \<open>The two branches of the handler, for a key that is released and for one that is pressed.\<close>

definition key_break :: "u16 \<Rightarrow> kbd \<Rightarrow> kbd" where
  "key_break scancode k =
     (let make_code = scancode AND 0xff7f in
      if make_code = ctrl_l_make \<or> make_code = ctrl_r_make then k\<lparr>ctrl_status := False\<rparr>
      else if make_code = shift_l_make \<or> make_code = shift_r_make then k\<lparr>shift_status := False\<rparr>
      else if make_code = alt_l_make \<or> make_code = alt_r_make then k\<lparr>alt_status := False\<rparr>
      else k)"

definition key_make :: "u16 \<Rightarrow> kbd \<Rightarrow> 'a kernel_scheme \<Rightarrow> (kbd \<times> 'a kernel_scheme) res" where
  "key_make scancode0 k s =
     (let shift = (if two_symbols scancode0 then shift_status k
                   else if shift_status k \<and> caps_lock_status k then False
                   else if shift_status k \<or> caps_lock_status k then True else False);
          scancode = scancode0 AND 0x00ff in
      bindR (keymap_at (unat (ucast scancode :: u8)) shift) (\<lambda>cur_char0.
      if cur_char0 \<noteq> 0 then
        let cur_char = (if (ctrl_status k \<and> cur_char0 = of_char CHR ''l'') \<or> (ctrl_status k \<and> cur_char0 = of_char CHR ''u'')
                        then cur_char0 - of_char CHR ''a'' else cur_char0) in
        bindR (ioq_full (kbd_ioq k) s) (\<lambda>full.
        if \<not> full then
          bindR (ioq_putchar (kbd_ioq k) cur_char s) (\<lambda>(q, s', _). Inr (k\<lparr>kbd_ioq := q\<rparr>, s'))
        else Inr (k, s))
      else
        Inr (if scancode = ctrl_l_make \<or> scancode = ctrl_r_make then k\<lparr>ctrl_status := True\<rparr>
             else if scancode = shift_l_make \<or> scancode = shift_r_make then k\<lparr>shift_status := True\<rparr>
             else if scancode = alt_l_make \<or> scancode = alt_r_make then k\<lparr>alt_status := True\<rparr>
             else if scancode = caps_lock_make then k\<lparr>caps_lock_status := \<not> caps_lock_status k\<rparr>
             else k, s)))"

definition intr_keyboard_handler :: "u8 \<Rightarrow> kbd \<Rightarrow> 'a kernel_scheme \<Rightarrow> (kbd \<times> 'a kernel_scheme) res" where
  "intr_keyboard_handler inb k0 s =
     (if inb = 0xe0 then Inr (k0\<lparr>ext_scancode := True\<rparr>, s)
      else
        let scancode = (if ext_scancode k0 then 0xe000 OR ucast inb else ucast inb) :: u16;
            k = (if ext_scancode k0 then k0\<lparr>ext_scancode := False\<rparr> else k0) in
        if scancode AND 0x0080 \<noteq> 0 then Inr (key_break scancode k, s)
        else if (scancode > 0x00 \<and> scancode < 0x3b) \<or> scancode = alt_r_make \<or> scancode = ctrl_r_make
        then key_make scancode k s
        else Inr (k, put_str (''unknown key'' @ NL) s))"

fun kbd_run :: "u8 list \<Rightarrow> kbd \<Rightarrow> 'a kernel_scheme \<Rightarrow> (kbd \<times> 'a kernel_scheme) res" where
  "kbd_run [] k s = Inr (k, s)"
| "kbd_run (b # bs) k s = bindR (intr_keyboard_handler b k s) (\<lambda>(k', s'). kbd_run bs k' s')"

text \<open>\<^verbatim>\<open>keyboard_init\<close>; the address of the handler is the linker's.\<close>

definition keyboard_init :: "addr \<Rightarrow> kbd \<Rightarrow> 'a intr_ctl_scheme \<Rightarrow> (kbd \<times> 'a intr_ctl_scheme) res" where
  "keyboard_init handler k m =
     (let m1 = put_str (''keyboard init start'' @ NL) m; k1 = k\<lparr>kbd_ioq := ioqueue_init (kbd_ioq k)\<rparr> in
      bindR (register_handler 0x21 handler m1) (\<lambda>m2. Inr (k1, put_str (''keyboard init done'' @ NL) m2)))"

section \<open>The keyboard as keys\<close>

text \<open>
  The codes that a sequence of bytes stands for, given whether a prefix is pending. Bit 7 of a code says that the
  key is released; the rest names the key.
\<close>

fun scancodes :: "bool \<Rightarrow> u8 list \<Rightarrow> u16 list" where
  "scancodes ext [] = []"
| "scancodes ext (b # bs) =
     (if b = 0xe0 then scancodes True bs else (if ext then 0xe000 OR ucast b else ucast b) # scancodes False bs)"

fun pending :: "bool \<Rightarrow> u8 list \<Rightarrow> bool" where
  "pending ext [] = ext"
| "pending ext (b # bs) = pending (b = 0xe0) bs"

definition released :: "u16 \<Rightarrow> bool" where
  "released e \<longleftrightarrow> bit e 7"

definition key_of :: "u16 \<Rightarrow> u16" where
  "key_of e = e AND 0xff7f"

text \<open>One of some keys counts as held when the last event of any of them was a press.\<close>

definition is_held :: "u16 set \<Rightarrow> u16 list \<Rightarrow> bool" where
  "is_held keys hist = (let es = filter (\<lambda>e. key_of e \<in> keys) hist in es \<noteq> [] \<and> \<not> released (last es))"

definition caps_on :: "u16 list \<Rightarrow> bool" where
  "caps_on hist \<longleftrightarrow> odd (count_list hist caps_lock_make)"

definition ctrl_keys :: "u16 set" where "ctrl_keys = {ctrl_l_make, ctrl_r_make}"
definition shift_keys :: "u16 set" where "shift_keys = {shift_l_make, shift_r_make}"
definition alt_keys :: "u16 set" where "alt_keys = {alt_l_make, alt_r_make}"

text \<open>What a key types: a letter is a capital when exactly one of shift and caps lock is on.\<close>

definition is_letter :: "char \<Rightarrow> bool" where
  "is_letter c \<longleftrightarrow> c \<in> set ''abcdefghijklmnopqrstuvwxyz''"

definition key_char :: "bool \<Rightarrow> bool \<Rightarrow> bool \<Rightarrow> u16 \<Rightarrow> u8 list" where
  "key_char ctrl shift caps e =
     (if 0 < e \<and> e < 0x3b then
        let (lo, up) = keymap ! unat e; c = (if is_letter lo \<and> shift \<noteq> caps \<or> \<not> is_letter lo \<and> shift then up else lo) in
        if c = CHR 0x00 then []
        else if ctrl \<and> c = CHR ''l'' then [11] else if ctrl \<and> c = CHR ''u'' then [20] else [of_char c]
      else [])"

fun typed :: "u16 list \<Rightarrow> u16 list \<Rightarrow> u8 list" where
  "typed hist [] = []"
| "typed hist (e # es) =
     key_char (is_held ctrl_keys hist) (is_held shift_keys hist) (caps_on hist) e @ typed (hist @ [e]) es"

text \<open>The flags of the driver are those of a history.\<close>

definition flags_of :: "u16 list \<Rightarrow> kbd \<Rightarrow> bool" where
  "flags_of hist k \<longleftrightarrow> ctrl_status k = is_held ctrl_keys hist \<and> shift_status k = is_held shift_keys hist \<and>
     alt_status k = is_held alt_keys hist \<and> caps_lock_status k = caps_on hist"

lemma held_snoc: "is_held keys (hist @ [e]) = (if key_of e \<in> keys then \<not> released e else is_held keys hist)"
  by (simp add: is_held_def Let_def)

lemma caps_snoc: "caps_on (hist @ [e]) = (if e = caps_lock_make then \<not> caps_on hist else caps_on hist)"
  by (simp add: caps_on_def)

text \<open>The table: the keys without a character, and that the code's list of keys is that of the keys that are no letters.\<close>

fun key_facts :: "nat \<Rightarrow> char \<times> char \<Rightarrow> bool" where
  "key_facts n (lo, up) \<longleftrightarrow> (lo = CHR 0x00 \<longleftrightarrow> n \<in> set [0x00, 0x1d, 0x2a, 0x36, 0x38, 0x3a]) \<and>
     (up = CHR 0x00 \<longleftrightarrow> lo = CHR 0x00) \<and> (if two_symbols (of_nat n) then \<not> is_letter lo else is_letter lo \<or> up = lo)"

lemma keymap_enum: "list_all (case_prod key_facts) (List.enumerate 0 keymap)"
  unfolding keymap_def by (simp add: two_symbols_def is_letter_def)

lemma keymap_length [simp]: "length keymap = 59"
  by (simp add: keymap_def)

lemma keymap_facts: "n < 59 \<Longrightarrow> key_facts n (keymap ! n)"
  using keymap_enum by (auto simp: list_all_length nth_enumerate_eq)

lemma released_iff: "e AND 0x0080 \<noteq> 0 \<longleftrightarrow> released e" for e :: u16
  using bit_iff_and_push_bit_not_eq_0 [of e 7] by (simp add: released_def)

lemma key_of_pressed: "\<not> released e \<Longrightarrow> key_of e = e"
proof -
  assume "\<not> released e"
  have eq: "(0xff7f :: u16) = NOT (push_bit 7 1)" by simp
  have b: "bit (0xff7f :: u16) n \<longleftrightarrow> n < 16 \<and> n \<noteq> 7" for n unfolding eq by (auto simp del: push_bit_of_1 simp: bit_simps)
  show ?thesis
  proof (rule bit_word_eqI)
    fix n assume "n < LENGTH(16)"
    then show "bit (key_of e) n = bit e n"
      using \<open>\<not> released e\<close> b [of n] unfolding key_of_def released_def bit_and_iff by (cases "n = 7") auto
  qed
qed

lemma low_byte: "e < 0x3b \<Longrightarrow> e AND 0x00ff = e" "\<not> released (0xe038 :: u16)" "\<not> released (0xe01d :: u16)" for e :: u16
proof -
  assume "e < 0x3b"
  then have "unat e < 2 ^ 8" by (simp add: word_less_nat_alt)
  then have "unat (take_bit 8 e) = unat e" by (simp add: unsigned_take_bit_eq take_bit_nat_eq_self)
  then have "take_bit 8 e = e" by (rule unsigned_word_eqI)
  then show "e AND 0xff = e" by (simp add: take_bit_eq_mask mask_eq_exp_minus_1)
qed (simp_all add: released_iff [symmetric])

lemma small_pressed: "e < 0x3b \<Longrightarrow> \<not> released e"
proof -
  assume "e < 0x3b"
  then have "unat (take_bit 7 e) = unat e" by (simp add: word_less_nat_alt unsigned_take_bit_eq take_bit_nat_eq_self)
  then have "take_bit 7 e = e" by (rule unsigned_word_eqI)
  then show ?thesis unfolding released_def by (metis bit_take_bit_iff less_irrefl)
qed

section \<open>The handler types what the keys say\<close>

lemma key_break_flags:
  assumes "flags_of hist k" and "released e"
  shows "flags_of (hist @ [e]) (key_break e k)" and "kbd_ioq (key_break e k) = kbd_ioq k" and "ext_scancode (key_break e k) = ext_scancode k"
proof -
  have "e \<noteq> caps_lock_make" using assms(2) by (auto simp: released_iff [symmetric])
  then show "flags_of (hist @ [e]) (key_break e k)"
    using assms by (auto simp: flags_of_def held_snoc caps_snoc key_break_def Let_def key_of_def [symmetric] ctrl_keys_def shift_keys_def alt_keys_def)
  show "kbd_ioq (key_break e k) = kbd_ioq k" "ext_scancode (key_break e k) = ext_scancode k" by (simp_all add: key_break_def Let_def)
qed

lemma of_char_u8: "of_char c = (of_char d :: u8) \<longleftrightarrow> c = d" "of_char c = (0 :: u8) \<longleftrightarrow> c = CHR 0x00"
proof -
  have u: "unat (of_char x :: u8) = of_char x" for x :: char
  proof -
    have "of_char x < (256 :: nat)" by (cases x) (simp add: of_char_def horner_sum_bound)
    then have "unat (word_of_nat (of_char x) :: u8) = of_char x" by (simp add: unat_of_nat)
    then show ?thesis by (simp only: of_nat_of_char)
  qed
  show e: "of_char c = (of_char d :: u8) \<longleftrightarrow> c = d" for d using u [of c] u [of d] by (metis of_char_eq_iff)
  show "of_char c = (0 :: u8) \<longleftrightarrow> c = CHR 0x00" using e [of "CHR 0x00"] by simp
qed

lemma kbd_put:
  assumes "ioq_inv (kbd_ioq k, s)"
  shows "\<exists>q s'. bindR (ioq_full (kbd_ioq k) s) (\<lambda>full.
      if \<not> full then bindR (ioq_putchar (kbd_ioq k) c s) (\<lambda>(q, s', _). Inr (k\<lparr>kbd_ioq := q\<rparr>, s')) else Inr (k, s)) = Inr (k\<lparr>kbd_ioq := q\<rparr>, s') \<and>
    ioq_inv (q, s') \<and> ioq_bytes q = take 2047 (ioq_bytes (kbd_ioq k) @ [c])"
proof -
  let ?q = "kbd_ioq k"
  have i: "ioq_ok ?q" "intr_get_status s = INTR_OFF" using assms by (simp_all add: ioq_inv_def)
  have le: "length (ioq_bytes ?q) \<le> 2047" using ioq_count_bound [of ?q] by simp
  show ?thesis
  proof (cases "length (ioq_bytes ?q) = 2047")
    case True
    then have "ioq_full ?q s = Inr True" using i ioq_full_iff [OF i(1)] by (simp add: ioq_full_def)
    then show ?thesis using True assms by (intro exI [of _ ?q] exI [of _ s]) simp
  next
    case False
    then have "ioq_full ?q s = Inr False" using i ioq_full_iff [OF i(1)] by (simp add: ioq_full_def)
    moreover obtain q' s' where "ioq_put c (?q, s) = Inr (q', s')" "ioq_inv (q', s')" "ioq_bytes q' = ioq_bytes ?q @ [c]"
      using ring.put_rep [OF assms, of c] False le by fastforce
    moreover from this(1) obtain r where "ioq_putchar ?q c s = Inr (q', s', r)"
      by (auto simp: ioq_put_def res_iff split: pass.split_asm) (metis (full_types) old.unit.exhaust pass.exhaust)
    ultimately show ?thesis using False le by (intro exI [of _ q'] exI [of _ s']) simp
  qed
qed

lemma key_make_modifier:
  assumes f: "flags_of hist k" and i: "ioq_inv (kbd_ioq k, s)" and e: "e \<in> {0x1d, 0x2a, 0x36, 0x38, 0x3a, alt_r_make, ctrl_r_make}"
  shows "\<exists>k'. key_make e k s = Inr (k', s) \<and> flags_of (hist @ [e]) k' \<and> ext_scancode k' = ext_scancode k \<and> kbd_ioq k' = kbd_ioq k \<and>
    key_char c sh cp e = []"
proof -
  define n where "n = (if e = alt_r_make then 0x38 else if e = ctrl_r_make then 0x1d else unat e)"
  have n: "n < 59" "unat (ucast (e AND 0xff) :: u8) = n" "n \<in> {0x1d, 0x2a, 0x36, 0x38, 0x3a}" "\<not> released e"
    using e by (auto simp: n_def released_iff [symmetric])
  have z: "fst (keymap ! n) = CHR 0x00" "snd (keymap ! n) = CHR 0x00"
    using keymap_facts [OF n(1)] n(3) by (cases "keymap ! n", auto)+
  have "key_char c sh cp e = []"
  proof (cases "0 < e \<and> e < 0x3b")
    case True
    then have "unat e = n" using e by (auto simp: n_def)
    then show ?thesis using z by (simp add: key_char_def Let_def split_def)
  next
    case False
    then show ?thesis unfolding key_char_def by (simp only: if_False)
  qed
  moreover have "keymap_at (unat (ucast (e AND 0xff) :: u8)) b = Inr 0" for b unfolding n(2) using n(1) z by (simp add: keymap_at_def)
  ultimately show ?thesis
    using e f key_of_pressed [OF n(4)] n(4)
    by (auto simp: key_make_def Let_def flags_of_def held_snoc caps_snoc ctrl_keys_def shift_keys_def alt_keys_def)
qed

lemma key_make_char:
  assumes f: "flags_of hist k" and i: "ioq_inv (kbd_ioq k, s)" and e: "0 < e" "e < 0x3b" "e \<notin> {0x1d, 0x2a, 0x36, 0x38, 0x3a}"
  shows "\<exists>k' s'. key_make e k s = Inr (k', s') \<and> flags_of (hist @ [e]) k' \<and> ext_scancode k' = ext_scancode k \<and>
    ioq_inv (kbd_ioq k', s') \<and> ioq_bytes (kbd_ioq k') =
      take 2047 (ioq_bytes (kbd_ioq k) @ key_char (is_held ctrl_keys hist) (is_held shift_keys hist) (caps_on hist) e)"
proof -
  let ?n = "unat e"
  obtain lo up where lu: "keymap ! ?n = (lo, up)" by force
  have n: "?n < 59" "?n \<noteq> 0" using e by (simp_all add: word_less_nat_alt unat_eq_0 [symmetric])
  have low: "e AND 0xff = e" "unat (ucast e :: u8) = ?n" using low_byte(1) [OF e(2)] n(1) by (simp_all add: unat_ucast)
  have "e = of_nat ?n" by simp
  then have facts: "lo \<noteq> CHR 0x00" "up \<noteq> CHR 0x00" "if two_symbols e then \<not> is_letter lo else is_letter lo \<or> up = lo"
    using keymap_facts [OF n(1)] e(3) n(2) lu by (auto simp: word_unat_eq_iff)
  define sh where "sh = (if two_symbols e then shift_status k else if shift_status k \<and> caps_lock_status k then False
                   else if shift_status k \<or> caps_lock_status k then True else False)"
  define c where "c = (if sh then up else lo)"
  have "keymap_at ?n sh = Inr (of_char c)" using n(1) lu by (simp add: keymap_at_def c_def)
  define ch where "ch = (if (ctrl_status k \<and> of_char c = (of_char CHR ''l'' :: u8)) \<or> (ctrl_status k \<and> of_char c = (of_char CHR ''u'' :: u8))
      then of_char c - of_char CHR ''a'' else of_char c :: u8)"
  obtain q s' where q: "bindR (ioq_full (kbd_ioq k) s) (\<lambda>full.
      if \<not> full then bindR (ioq_putchar (kbd_ioq k) ch s) (\<lambda>(q, s', _). Inr (k\<lparr>kbd_ioq := q\<rparr>, s')) else Inr (k, s)) = Inr (k\<lparr>kbd_ioq := q\<rparr>, s')"
    "ioq_inv (q, s')" "ioq_bytes q = take 2047 (ioq_bytes (kbd_ioq k) @ [ch])" using kbd_put [OF i] by blast
  have "of_char c \<noteq> (0 :: u8)" using facts by (simp add: of_char_u8 c_def)
  then have "key_make e k s = Inr (k\<lparr>kbd_ioq := q\<rparr>, s')"
    unfolding key_make_def low Let_def sh_def [symmetric] \<open>keymap_at ?n sh = _\<close> bindR_simps
    by (simp only: not_False_eq_True if_True ch_def [symmetric] q(1) \<open>of_char c \<noteq> 0\<close> simp_thms)
  moreover have "key_char (is_held ctrl_keys hist) (is_held shift_keys hist) (caps_on hist) e = [ch]"
  proof -
    have "c = (if is_letter lo \<and> shift_status k \<noteq> caps_lock_status k \<or> \<not> is_letter lo \<and> shift_status k then up else lo)"
      using facts(3) by (auto simp: c_def sh_def split: if_splits)
    then have "key_char (ctrl_status k) (shift_status k) (caps_lock_status k) e =
        (if c = CHR 0x00 then [] else if ctrl_status k \<and> c = CHR ''l'' then [11] else if ctrl_status k \<and> c = CHR ''u'' then [20] else [of_char c])"
      unfolding key_char_def lu Let_def using e(1,2) by (simp only: split simp_thms if_True)
    moreover have "c \<noteq> CHR 0x00" using facts(1,2) by (simp add: c_def)
    moreover have "of_char c = (108 :: u8) \<longleftrightarrow> c = CHR ''l''" "of_char c = (117 :: u8) \<longleftrightarrow> c = CHR ''u''"
      using of_char_u8(1) [of c "CHR ''l''"] of_char_u8(1) [of c "CHR ''u''"] by simp_all
    ultimately show ?thesis using f by (auto simp: ch_def flags_of_def)
  qed
  moreover have "\<not> released e" using e(2) by (rule small_pressed)
  ultimately show ?thesis
    using f q(2,3) e(3) key_of_pressed [of e] e(1,2)
    by (intro exI [of _ "k\<lparr>kbd_ioq := q\<rparr>"] exI [of _ s'])
      (auto simp: flags_of_def held_snoc caps_snoc ctrl_keys_def shift_keys_def alt_keys_def)
qed

lemma handler_step:
  fixes b k
  defines "e \<equiv> (if ext_scancode k then 0xe000 OR ucast b else ucast b) :: u16"
  assumes f: "flags_of hist k" and i: "ioq_inv (kbd_ioq k, s)" and b: "b \<noteq> 0xe0"
  shows "\<exists>k' s'. intr_keyboard_handler b k s = Inr (k', s') \<and> flags_of (hist @ [e]) k' \<and> \<not> ext_scancode k' \<and>
    ioq_inv (kbd_ioq k', s') \<and> ioq_bytes (kbd_ioq k') =
      take 2047 (ioq_bytes (kbd_ioq k) @ key_char (is_held ctrl_keys hist) (is_held shift_keys hist) (caps_on hist) e)"
proof -
  define k1 where "k1 = (if ext_scancode k then k\<lparr>ext_scancode := False\<rparr> else k)"
  have k1: "flags_of hist k1" "ioq_inv (kbd_ioq k1, s)" "kbd_ioq k1 = kbd_ioq k" "\<not> ext_scancode k1"
    using f i by (simp_all add: k1_def flags_of_def)
  have le: "length (ioq_bytes (kbd_ioq k)) \<le> 2047" using ioq_count_bound [of "kbd_ioq k"] by simp
  have run: "intr_keyboard_handler b k s = (if released e then Inr (key_break e k1, s)
      else if (0 < e \<and> e < 0x3b) \<or> e = alt_r_make \<or> e = ctrl_r_make then key_make e k1 s else Inr (k1, put_str (''unknown key'' @ NL) s))"
    unfolding intr_keyboard_handler_def Let_def e_def [symmetric] k1_def [symmetric] released_iff using b by simp
  consider "released e" | "e \<in> {0x1d, 0x2a, 0x36, 0x38, 0x3a, alt_r_make, ctrl_r_make}"
    | "0 < e" "e < 0x3b" "e \<notin> {0x1d, 0x2a, 0x36, 0x38, 0x3a}"
    | "\<not> released e" "\<not> (0 < e \<and> e < 0x3b)" "e \<noteq> alt_r_make" "e \<noteq> ctrl_r_make" by blast
  then show ?thesis
  proof cases
    case 1
    then have "key_char c sh cp e = []" for c sh cp using small_pressed [of e] by (auto simp: key_char_def)
    then show ?thesis using 1 key_break_flags [OF k1(1) 1] k1 run le by simp
  next
    case 2
    then have "\<not> released e" "0 < e \<and> e < 0x3b \<or> e = alt_r_make \<or> e = ctrl_r_make" by (auto simp: released_iff [symmetric])
    then show ?thesis using key_make_modifier [OF k1(1,2) 2] run k1 le by fastforce
  next
    case 3
    then show ?thesis using key_make_char [OF k1(1,2) 3] run k1(3,4) small_pressed [OF 3(2)] by auto
  next
    case 4
    then have "key_char c sh cp e = []" for c sh cp unfolding key_char_def by (simp only: if_False)
    moreover have "flags_of (hist @ [e]) k1" using k1(1) 4 key_of_pressed [OF 4(1)]
      by (auto simp: flags_of_def held_snoc caps_snoc ctrl_keys_def shift_keys_def alt_keys_def)
    moreover have "ioq_inv (kbd_ioq k1, put_str w s)" for w
      using k1(2) by (simp add: ioq_inv_def put_str_def emit_def waiter_ok_def intr_get_status_def)
    ultimately show ?thesis using 4 run k1(3,4) le by auto
  qed
qed

text \<open>
  C14. The keyboard types what its keys say. Let the flags of the driver be those of the codes received so far and
  let interrupts be off. For every sequence of bytes of the controller the handler, called for one after the
  other, returns each time: it never reads past its table. The buffer then has its old contents followed by the
  characters of the keys that were pressed, each determined by the keys held and the presses of caps lock before
  it, up to the capacity of the buffer, and the flags are those of the longer history.
\<close>

theorem keyboard_types:
  assumes "flags_of hist k" and "ioq_inv (kbd_ioq k, s)"
  shows "\<exists>k' s'. kbd_run bs k s = Inr (k', s') \<and>
    ioq_bytes (kbd_ioq k') = take 2047 (ioq_bytes (kbd_ioq k) @ typed hist (scancodes (ext_scancode k) bs)) \<and>
    flags_of (hist @ scancodes (ext_scancode k) bs) k' \<and> ext_scancode k' = pending (ext_scancode k) bs \<and> ioq_inv (kbd_ioq k', s')"
  using assms
proof (induction bs arbitrary: k s hist)
  case Nil
  then show ?case using ioq_count_bound [of "kbd_ioq k"] by simp
next
  case (Cons b bs)
  show ?case
  proof (cases "b = 0xe0")
    case True
    have "flags_of hist (k\<lparr>ext_scancode := True\<rparr>)" using Cons.prems(1) by (simp add: flags_of_def)
    with Cons.IH [OF this] Cons.prems(2) True show ?thesis by (simp add: intr_keyboard_handler_def)
  next
    case False
    let ?e = "(if ext_scancode k then 0xe000 OR ucast b else ucast b) :: u16"
    let ?c = "key_char (is_held ctrl_keys hist) (is_held shift_keys hist) (caps_on hist) ?e"
    obtain k1 s1 where 1: "intr_keyboard_handler b k s = Inr (k1, s1)" "flags_of (hist @ [?e]) k1" "\<not> ext_scancode k1" "ioq_inv (kbd_ioq k1, s1)"
      "ioq_bytes (kbd_ioq k1) = take 2047 (ioq_bytes (kbd_ioq k) @ ?c)"
      using handler_step [OF Cons.prems False] by blast
    have "take 2047 (take 2047 (ioq_bytes (kbd_ioq k) @ ?c) @ t) = take 2047 (ioq_bytes (kbd_ioq k) @ ?c @ t)" for t
      by (cases "length (ioq_bytes (kbd_ioq k) @ ?c) < 2047") (simp_all add: min_def)
    with Cons.IH [OF 1(2,4)] 1 False show ?thesis by simp
  qed
qed

definition kbd_example :: kbd where
  "kbd_example = \<lparr>ctrl_status = False, shift_status = False, alt_status = False, caps_lock_status = False, ext_scancode = False,
     kbd_ioq = ioqueue_init ioq_zero\<rparr>"

text \<open>Shift down, \<open>a\<close>, shift up, caps lock, \<open>1\<close>, \<open>b\<close>, and right control with \<open>l\<close>, which caps lock makes a capital.\<close>

theorem keyboard_types_witness:
  "\<exists>k' s'. kbd_run [0x2a, 0x1e, 0xaa, 0x3a, 0xba, 0x02, 0x30, 0xe0, 0x1d, 0x26] kbd_example sched_example = Inr (k', s') \<and>
     ioq_bytes (kbd_ioq k') = [of_char CHR ''A'', of_char CHR ''1'', of_char CHR ''B'', of_char CHR ''L''] \<and> ctrl_status k'"
proof -
  have f: "flags_of [] kbd_example" by (simp add: flags_of_def kbd_example_def is_held_def caps_on_def)
  have q: "ioq_inv (kbd_ioq kbd_example, sched_example)" "ioq_bytes (kbd_ioq kbd_example) = []" "\<not> ext_scancode kbd_example"
    using ioq_example by (simp_all add: kbd_example_def)
  let ?bs = "[0x2a, 0x1e, 0xaa, 0x3a, 0xba, 0x02, 0x30, 0xe0, 0x1d, 0x26] :: u8 list"
  have "scancodes False ?bs = [0x2a, 0x1e, 0xaa, 0x3a, 0xba, 0x02, 0x30, 0xe01d, 0x26]" by simp
  moreover have "typed [] [0x2a, 0x1e, 0xaa, 0x3a, 0xba, 0x02, 0x30, 0xe01d, 0x26] =
      [of_char CHR ''A'', of_char CHR ''1'', of_char CHR ''B'', of_char CHR ''L'']"
    by code_simp
  moreover have "is_held ctrl_keys [0x2a, 0x1e, 0xaa, 0x3a, 0xba, 0x02, 0x30, 0xe01d, 0x26]" by code_simp
  ultimately show ?thesis using keyboard_types [OF f q(1), of ?bs] q(2,3) by (auto simp: flags_of_def)
qed

end
