(* ===== verification/Timer.thy ===== *)
theory Timer
  imports Sync Interrupt
begin

text \<open>
  The interval timer (\<^verbatim>\<open>device/timer.c\<close>): how it is programmed, the handler of its interrupt, which charges the
  running task and takes the processor from it when its slice is used up, and sleeping. The variable \<^verbatim>\<open>ticks\<close>
  is a component of the state of its own. The loop of \<^verbatim>\<open>ticks_to_sleep\<close> is modelled one pass at a time: a pass
  ends it, or gives the processor away.

  The lemmas show that a task with \<open>n\<close> ticks left runs for \<open>n + 1\<close> interrupts before the next of the ready queue
  does, how long a call sleeps, whether or not the counter wraps around in between, and which divisor the
  device gets.
\<close>

section \<open>Programming the device\<close>

definition frequency_set :: "u8 \<Rightarrow> u8 \<Rightarrow> u8 \<Rightarrow> u8 \<Rightarrow> u16 \<Rightarrow> 'a machine_scheme \<Rightarrow> 'a machine_scheme" where
  "frequency_set counter_port counter_no rwl counter_mode counter_value m =
     (let m1 = outb 0x43 (push_bit 6 counter_no OR push_bit 4 rwl OR push_bit 1 counter_mode) m;
          m2 = outb (ucast counter_port) (ucast counter_value) m1
      in outb (ucast counter_port) (drop_bit 8 (ucast counter_value)) m2)"

definition COUNTER0_VALUE :: u16 where
  "COUNTER0_VALUE = of_nat (1193180 div 100)"

definition timer_init :: "addr \<Rightarrow> 'a intr_ctl_scheme \<Rightarrow> 'a intr_ctl_scheme res" where
  "timer_init handler m =
     (let m1 = frequency_set 0x40 0 3 2 COUNTER0_VALUE (put_str (''timer_init start'' @ NL) m) in
      bindR (register_handler 0x20 handler m1) (\<lambda>m2. Inr (put_str (''timer_init done'' @ NL) m2)))"

section \<open>The interrupt\<close>

definition intr_timer_handler :: "u32 \<times> 'a kernel_scheme \<Rightarrow> (u32 \<times> 'a kernel_scheme) res" where
  "intr_timer_handler = (\<lambda>(ticks', s).
     let cur_thread = running_thread s in
     bindR (kassert (stack_magic (tasks s cur_thread) = 0x19870916) ''cur_thread->stack_magic == 0x19870916'') (\<lambda>_.
     let s1 = upd_task cur_thread (\<lambda>t. t\<lparr>elapsed_ticks := elapsed_ticks t + 1\<rparr>) s in
     if ticks (tasks s1 cur_thread) = 0
     then bindR (schedule s1) (\<lambda>s2. Inr (ticks' + 1, s2))
     else Inr (ticks' + 1, upd_task cur_thread (\<lambda>t. t\<lparr>ticks := ticks t - 1\<rparr>) s1)))"

section \<open>Sleeping\<close>

text \<open>
  One test of the loop of \<^verbatim>\<open>ticks_to_sleep\<close>, with the call of \<^verbatim>\<open>thread_yield\<close>; the result says whether the call
  returns, and else what the suspended \<^verbatim>\<open>thread_yield\<close> has to restore.
\<close>

definition sleep_pass :: "u32 \<Rightarrow> u32 \<Rightarrow> u32 \<times> 'a kernel_scheme \<Rightarrow> ((u32 \<times> 'a kernel_scheme) \<times> intr_status option) res" where
  "sleep_pass start_tick sleep_ticks = (\<lambda>(ticks', s).
     if ticks' - start_tick < sleep_ticks
     then bindR (thread_yield s) (\<lambda>(s1, old). Inr ((ticks', s1), Some old))
     else Inr ((ticks', s), None))"

definition mtime_sleep :: "u32 \<Rightarrow> u32 \<times> 'a kernel_scheme \<Rightarrow> ((u32 \<times> 'a kernel_scheme) \<times> intr_status option) res" where
  "mtime_sleep m_seconds = (\<lambda>(ticks', s).
     let sleep_ticks = DIV_ROUND_UP m_seconds (1000 div 100) in
     bindR (kassert (sleep_ticks > 0) ''sleep_ticks > 0'') (\<lambda>_. sleep_pass ticks' sleep_ticks (ticks', s)))"

section \<open>Time slices\<close>

fun timer_ticks :: "nat \<Rightarrow> u32 \<times> 'a kernel_scheme \<Rightarrow> (u32 \<times> 'a kernel_scheme) res" where
  "timer_ticks 0 c = Inr c"
| "timer_ticks (Suc n) c = bindR (intr_timer_handler c) (timer_ticks n)"

text \<open>A change of the counters of a task is none for the scheduler.\<close>

definition charge :: "addr \<Rightarrow> u8 \<Rightarrow> u32 \<Rightarrow> 'a kernel_scheme \<Rightarrow> 'a kernel_scheme" where
  "charge t n e s = upd_task t (\<lambda>t. t\<lparr>elapsed_ticks := e, ticks := n\<rparr>) s"

lemma charge_simps [simp]:
  "thread_ready_list (charge t n e s) = thread_ready_list s" "thread_all_list (charge t n e s) = thread_all_list s"
  "pmem (charge t n e s) = pmem s" "cr3 (charge t n e s) = cr3 s" "idle_thread (charge t n e s) = idle_thread s"
  "esp (charge t n e s) = esp s" "eflags (charge t n e s) = eflags s" "running_thread (charge t n e s) = running_thread s"
  "tasks (charge t n e s) = (tasks s)(t := (tasks s t)\<lparr>elapsed_ticks := e, ticks := n\<rparr>)"
  by (simp_all add: charge_def upd_task_def running_thread_def)

lemma charge_inv: "sched_inv s \<Longrightarrow> sched_inv (charge t n e s)"
proof -
  assume s: "sched_inv s"
  have "spaces_ok (charge t n e s)"
    by (rule spaces_ok_cong [of s]) (use s in \<open>simp_all add: sched_inv_def sched_core_def\<close>)
  moreover have "task_ok (charge t n e s) u = task_ok s u" for u by (simp add: task_ok_def)
  ultimately show ?thesis using s unfolding sched_inv_def sched_core_def by auto
qed

lemma timer_counts:
  assumes "n \<le> unat (ticks (tasks s (running_thread s)))" "stack_magic (tasks s (running_thread s)) = 0x19870916"
  shows "timer_ticks n (t, s) = Inr (t + of_nat n, charge (running_thread s) (ticks (tasks s (running_thread s)) - of_nat n)
    (elapsed_ticks (tasks s (running_thread s)) + of_nat n) s)"
  using assms
proof (induction n arbitrary: t s)
  case 0
  then show ?case by (simp add: charge_def upd_task_def)
next
  case (Suc n)
  let ?c = "running_thread s"
  let ?k = "tasks s ?c"
  have nz: "ticks ?k \<noteq> 0" using Suc.prems(1) by auto
  let ?s = "charge ?c (ticks ?k - 1) (elapsed_ticks ?k + 1) s"
  have "intr_timer_handler (t, s) = Inr (t + 1, ?s)"
    using nz Suc.prems(2) by (simp add: intr_timer_handler_def Let_def charge_def upd_task_def running_thread_def)
  moreover have "timer_ticks n (t + 1, ?s) = Inr (t + 1 + of_nat n, charge ?c (ticks ?k - 1 - of_nat n) (elapsed_ticks ?k + 1 + of_nat n) ?s)"
    using Suc.IH [of ?s "t + 1"] Suc.prems nz by (simp add: unat_sub_le unat_minus_one)
  moreover have "charge ?c a b ?s = charge ?c a b s" for a b by (simp add: charge_def upd_task_def)
  ultimately show ?case by (simp add: add.assoc diff_diff_eq)
qed

lemma charge_one: "upd_task c (\<lambda>t. t\<lparr>elapsed_ticks := elapsed_ticks t + 1\<rparr>) (charge c n e s) = charge c n (e + 1) s"
proof -
  have swap: "x\<lparr>ticks := n, elapsed_ticks := e + 1\<rparr> = x\<lparr>elapsed_ticks := e + 1, ticks := n\<rparr>" for x :: task_struct
    by (rule task_struct.equality) simp_all
  show ?thesis by (simp add: charge_def upd_task_def) (simp only: swap)
qed

lemma timer_ticks_Suc: "timer_ticks (Suc n) c = bindR (timer_ticks n c) intr_timer_handler"
proof (induction n arbitrary: c)
  case 0
  have "bindR m Inr = m" for m :: "('b \<times> 'c kernel_scheme) res" by (cases m) simp_all
  then show ?case by (simp add: bindR_def split: sum.split)
next
  case (Suc n)
  show ?case
  proof (cases "intr_timer_handler c")
    case (Inr c1)
    then have "timer_ticks (Suc (Suc n)) c = timer_ticks (Suc n) c1" "timer_ticks (Suc n) c = timer_ticks n c1" by simp_all
    then show ?thesis using Suc [of c1] by simp
  qed simp
qed

text \<open>
  C26. A time slice. When the running task has \<open>n\<close> ticks left, \<open>n\<close> timer interrupts leave it running; the next
  one gives the processor to the first task of the ready queue, puts the task at its end and refills its slice
  from its priority. Every interrupt is charged to the task that it found running, no assertion fails and the
  invariant of the scheduler is kept.
\<close>

theorem timer_slice:
  fixes s
  defines "c \<equiv> running_thread s"
  assumes "sched_inv s" and "intr_get_status s = INTR_OFF" and "stack_magic (tasks s c) = 0x19870916"
    and "n = unat (ticks (tasks s c))"
  shows "(\<forall>m\<le>n. \<exists>s1. timer_ticks m (t, s) = Inr (t + of_nat m, s1) \<and> running_thread s1 = c \<and> ticks (tasks s1 c) = of_nat (n - m)) \<and>
    (\<exists>s'. timer_ticks (Suc n) (t, s) = Inr (t + of_nat (Suc n), s') \<and> sched_inv s' \<and>
      running_thread s' # thread_ready_list s' = thread_ready_list s @ [c] \<and> ticks (tasks s' c) = priority (tasks s c) \<and>
      elapsed_ticks (tasks s' c) = elapsed_ticks (tasks s c) + of_nat (Suc n) \<and>
      (\<forall>u. u \<noteq> c \<longrightarrow> elapsed_ticks (tasks s' u) = elapsed_ticks (tasks s u)))"
proof
  let ?k = "tasks s c"
  have tk: "ticks ?k = of_nat n" using assms(5) by simp
  have run: "timer_ticks m (t, s) = Inr (t + of_nat m, charge c (ticks ?k - of_nat m) (elapsed_ticks ?k + of_nat m) s)" if "m \<le> n" for m
    using timer_counts [of m s t] that assms(4,5) by (simp add: c_def)
  show "\<forall>m\<le>n. \<exists>s1. timer_ticks m (t, s) = Inr (t + of_nat m, s1) \<and> running_thread s1 = c \<and> ticks (tasks s1 c) = of_nat (n - m)"
    using run tk by (auto simp: c_def of_nat_diff)
  let ?s = "charge c 0 (elapsed_ticks ?k + of_nat n) s" and ?e = "elapsed_ticks ?k + of_nat n + 1"
  have "timer_ticks n (t, s) = Inr (t + of_nat n, ?s)" using run [of n] tk by simp
  moreover have "intr_timer_handler (t + of_nat n, ?s) = bindR (schedule (charge c 0 ?e s)) (\<lambda>s2. Inr (t + of_nat n + 1, s2))"
    using assms(4) by (simp add: intr_timer_handler_def c_def Let_def charge_one)
  ultimately have "timer_ticks (Suc n) (t, s) = bindR (schedule (charge c 0 ?e s)) (\<lambda>s2. Inr (t + of_nat n + 1, s2))"
    by (simp only: timer_ticks_Suc bindR_simps)
  moreover obtain s' where s': "schedule (charge c 0 ?e s) = Inr s'" "runs_next (hd (next_queue (charge c 0 ?e s))) (tl (next_queue (charge c 0 ?e s))) (before_pick (charge c 0 ?e s)) s'"
    using schedule_round [of "charge c 0 ?e s"] charge_inv [OF assms(2), of c 0 ?e] assms(3) by (auto simp: sched_inv_def intr_get_status_def)
  moreover have st: "status ?k = TASK_RUNNING" using assms(2) by (simp add: sched_inv_def c_def)
  then have bp: "before_pick (charge c 0 ?e s) = requeue (charge c 0 ?e s)" "next_queue (charge c 0 ?e s) = thread_ready_list s @ [c]"
    by (simp_all add: before_pick_def next_queue_def Let_def c_def)
  have pcb: "same_pcb (tasks (requeue (charge c 0 ?e s)) u) (tasks s' u)" for u using s'(2) bp by (simp add: runs_next_def)
  have "ticks (tasks s' c) = priority ?k" "elapsed_ticks (tasks s' c) = ?e" "u \<noteq> c \<Longrightarrow> elapsed_ticks (tasks s' u) = elapsed_ticks (tasks s u)" for u
    using same_pcb_fields(1,3) [OF pcb [of c]] same_pcb_fields(3) [OF pcb [of u]] by (simp_all add: c_def)
  ultimately show "\<exists>s'. timer_ticks (Suc n) (t, s) = Inr (t + of_nat (Suc n), s') \<and> sched_inv s' \<and>
      running_thread s' # thread_ready_list s' = thread_ready_list s @ [c] \<and> ticks (tasks s' c) = priority (tasks s c) \<and>
      elapsed_ticks (tasks s' c) = elapsed_ticks (tasks s c) + of_nat (Suc n) \<and>
      (\<forall>u. u \<noteq> c \<longrightarrow> elapsed_ticks (tasks s' u) = elapsed_ticks (tasks s u))"
    using bp(2) by (intro exI [of _ s']) (auto simp: runs_next_def algebra_simps)
qed

theorem timer_slice_witness:
  "\<exists>s'. timer_ticks (Suc 2) (5, charge 0xc009e000 2 7 (upd_task 0xc009e000 (\<lambda>t. t\<lparr>stack_magic := 0x19870916\<rparr>) sched_example)) = Inr (8, s') \<and>
     running_thread s' = 0xc0101000 \<and> elapsed_ticks (tasks s' 0xc009e000) = 10"
proof -
  let ?u = "upd_task 0xc009e000 (\<lambda>t. t\<lparr>stack_magic := 0x19870916\<rparr>) sched_example"
  let ?s = "charge 0xc009e000 2 7 ?u"
  have u: "running_thread ?u = running_thread sched_example" "thread_ready_list ?u = thread_ready_list sched_example" "eflags ?u = eflags sched_example"
    by (simp_all add: upd_task_def running_thread_def)
  have "task_ok ?u t = task_ok sched_example t" for t by (simp add: task_ok_def upd_task_def running_thread_def)
  moreover have "spaces_ok ?u"
    by (rule spaces_ok_cong [of sched_example]) (use sched_example_inv(1) in \<open>simp_all add: sched_inv_def sched_core_def upd_task_def\<close>)
  ultimately have "sched_inv ?u"
    using sched_example_inv(1) unfolding sched_inv_def sched_core_def u by (auto simp: upd_task_def)
  then have i: "sched_inv ?s" by (rule charge_inv)
  have off: "intr_get_status ?s = INTR_OFF" using sched_example_inv(2) by (simp add: intr_get_status_def u)
  have r: "running_thread sched_example = 0xc009e000" by (simp add: sched_example_def running_thread_def)
  have "thread_ready_list sched_example = [0xc0101000]" by (simp add: sched_example_def)
  moreover have "stack_magic (tasks ?s 0xc009e000) = 0x19870916" "unat (ticks (tasks ?s 0xc009e000)) = 2" "elapsed_ticks (tasks ?s 0xc009e000) = 7"
    by (simp_all add: upd_task_def)
  ultimately show ?thesis
    using conjunct2 [OF timer_slice [OF i off, of 2 5]] by (auto simp: r u simp del: timer_ticks.simps)
qed

section \<open>How long a call sleeps\<close>

text \<open>
  Bounds of a sleep. For at most \<open>2 ^ 32 - 10\<close> milliseconds, not 0, the number \<open>n\<close> of ticks to sleep is the least one
  with \<open>10 n\<close> at least the milliseconds; a test of the loop after \<open>d\<close> more ticks, with \<open>d < 2 ^ 32\<close>, ends the
  sleep exactly when \<open>n \<le> d\<close>, whether or not the counter has wrapped around. Any other argument, 0 or one of
  the nine largest, fails the assertion, in the second case because the rounding overflows.
\<close>

theorem mtime_sleep_bounds:
  fixes m :: u32 and s :: "'a kernel_scheme"
  defines "n \<equiv> DIV_ROUND_UP m 10"
  shows "(if 0 < m \<and> unat m \<le> 2 ^ 32 - 10
     then unat m \<le> 10 * unat n \<and> 10 * unat n < unat m + 10 \<and> mtime_sleep m (t, s) = sleep_pass t n (t, s) \<and>
       (\<forall>d. d < 2 ^ 32 \<longrightarrow> (sleep_pass t n (t + of_nat d, s) = Inr ((t + of_nat d, s), None) \<longleftrightarrow> unat n \<le> d))
     else mtime_sleep m (t, s) = Inl (Assert_failed ''sleep_ticks > 0''))"
proof -
  have div: "unat n = unat (m + 9) div 10" 
  proof -
    have "m + 10 - 1 = m + 9" "unat (10 :: u32) = 10" by simp_all
    then show ?thesis by (simp only: n_def DIV_ROUND_UP_def unat_div)
  qed
  show ?thesis
  proof (cases "0 < m \<and> unat m \<le> 2 ^ 32 - 10")
    case True
    then have p: "0 < unat m" and "unat (m + 9) = unat m + 9" by (auto simp: word_less_nat_alt unat_add_lt)
    then have b: "unat n = (unat m + 9) div 10" using div by simp
    then have nz: "0 < unat n" using p by (simp add: div_greater_zero_iff)
    have e: "sleep_pass t n (t + of_nat d, s) = Inr ((t + of_nat d, s), None) \<longleftrightarrow> unat n \<le> d" if "d < 2 ^ 32" for d
    proof -
      have "unat (of_nat d :: u32) = d" using that by (simp add: unat_of_nat)
      then have "(of_nat d :: u32) < n \<longleftrightarrow> d < unat n" by (simp add: word_less_nat_alt)
      then show ?thesis by (auto simp: sleep_pass_def res_iff split: sum.split)
    qed
    have "unat m \<le> 10 * unat n" "10 * unat n < unat m + 10" unfolding b by linarith+
    moreover have "mtime_sleep m (t, s) = sleep_pass t n (t, s)" using nz by (simp add: mtime_sleep_def n_def word_less_nat_alt)
    ultimately show ?thesis using True e by simp
  next
    case False
    have "unat (m + 9) < 10"
    proof (cases "m = 0")
      case False
      with \<open>\<not> (0 < m \<and> unat m \<le> 2 ^ 32 - 10)\<close> have "2 ^ 32 - 10 < unat m" by (simp add: word_neq_0_conv)
      moreover have "unat m < 2 ^ 32" using unsigned_less [of m] by simp
      moreover have "unat (m + 9) = (unat m + 9) mod 2 ^ 32" by (simp add: unat_word_ariths)
      ultimately show ?thesis by (simp add: mod_if) linarith
    qed simp
    then have "n = 0" using div by (simp add: unat_eq_0 [symmetric])
    then have "mtime_sleep m (t, s) = Inl (Assert_failed ''sleep_ticks > 0'')" by (simp add: mtime_sleep_def n_def)
    then show ?thesis using False by (simp only: if_False)
  qed
qed

theorem mtime_sleep_bounds_witness:
  "mtime_sleep 25 (7, sched_example) = sleep_pass 7 3 (7, sched_example) \<and>
   sleep_pass 7 3 (10, sched_example) = Inr ((10, sched_example), None)"
proof -
  have n: "DIV_ROUND_UP 25 10 = 3" by (simp add: DIV_ROUND_UP_def)
  have "mtime_sleep 25 (7, sched_example) = sleep_pass 7 3 (7, sched_example)"
    "\<forall>d<2 ^ 32. sleep_pass 7 3 (7 + of_nat d, sched_example) = Inr ((7 + of_nat d, sched_example), None) \<longleftrightarrow> 3 \<le> d"
    using mtime_sleep_bounds [of 25 7 sched_example] unfolding n by simp_all
  then show ?thesis by (auto dest: spec [of _ 3])
qed

text \<open>
  What the timer is programmed with. The value for 100 interrupts a second is 11931, but its high byte is
  computed after the cast to 8 bits and is always 0: the device gets the divisor \<open>11931 mod 256 = 155\<close> and
  interrupts more than 7600 times a second.
\<close>

theorem timer_divisor:
  assumes "timer_init handler m = Inr m'"
  shows "\<exists>lo hi. io_log m' = io_log m @ [Put_str (''timer_init start'' @ NL), Outb 0x43 0x34, Outb 0x40 lo, Outb 0x40 hi, Put_str (''timer_init done'' @ NL)] \<and>
    unat hi * 256 + unat lo = 155 \<and> unat COUNTER0_VALUE = 11931 \<and> idt_table m' ! 0x20 = handler"
proof -
  have "io_log m' = io_log m @ [Put_str (''timer_init start'' @ NL), Outb 0x43 0x34, Outb 0x40 155, Outb 0x40 0, Put_str (''timer_init done'' @ NL)] \<and> idt_table m' ! 0x20 = handler"
    using assms by (auto simp: timer_init_def frequency_set_def Let_def register_handler_def outb_def emit_def put_str_def COUNTER0_VALUE_def split: if_splits)
  then show ?thesis by (intro exI [of _ 155] exI [of _ 0]) (simp add: COUNTER0_VALUE_def)
qed

theorem timer_divisor_witness:
  "timer_init 0xc0001000 (intr_ctl_zero\<lparr>idt_table := replicate 0x81 0\<rparr>) \<noteq> Inl (Bad_access ''idt_table'') \<and>
   (\<exists>m'. timer_init 0xc0001000 (intr_ctl_zero\<lparr>idt_table := replicate 0x81 0\<rparr>) = Inr m' \<and> idt_table m' ! 0x20 = 0xc0001000)"
proof -
  obtain m' where m: "timer_init 0xc0001000 (intr_ctl_zero\<lparr>idt_table := replicate 0x81 0\<rparr>) = Inr m'"
    by (simp add: timer_init_def Let_def register_handler_def frequency_set_def outb_def emit_def put_str_def)
  then show ?thesis using timer_divisor [OF m] by auto
qed

end
