(* ===== verification/Spec2Isabelle.thy ===== *)
theory Spec2Isabelle
  imports DList Format PartScan FileWrite Buildin Entry Syscall Console Screen Keyboard Timer
begin

text \<open>
  \<^bold>\<open>A verification development for LaiMiniOs\<close>, a small 32-bit x86 kernel with its shell. Names in typewriter style are
  those of the sources, and paths are relative to \<^verbatim>\<open>src/\<close>.

  \<^bold>\<open>How the program hangs together.\<close> The loader builds the first page tables and starts the kernel. The kernel sets up
  its interrupt table, its memory, the threads, the timer, the keyboard, the disk driver and the file system, and
  starts the shell as a user process. From then on everything happens in interrupts: the timer takes the processor
  from a task, the keyboard fills a ring buffer, the disk wakes a task that waits for it, and a system call runs a
  routine of the kernel for a program. Tasks that have to wait go through semaphores and locks, and these through
  the scheduler.

  \<^bold>\<open>How it is modelled.\<close> A routine is a function on an explicit state. It returns a value of the sum type \<open>'a res\<close>: the
  reason why the kernel stopped (an assertion, a panic, a bad access, a task that is suspended) or the result.
  Routines with many calls are written in the state monad of \<open>Prelude\<close>. The records of the state extend each other:
  \<open>machine\<close> (the flags and control registers, and the writes to devices in their order), \<open>kernel\<close> (the variables of
  the kernel, the tasks, the physical memory), \<open>fs\<close> (the mounted partition, the disk, the open files), \<open>shell\<close>;
  \<open>intr_ctl\<close> and \<open>ide\<close> extend \<open>machine\<close> for the interrupt table and the driver. Integers are words of their width.
  A routine that gives the processor away is split where it does: the first part ends in the state in which another
  task continues. A loop that need not end is a function into \<open>'a run\<close>, where \<open>None\<close> is a run without end.

  \<^bold>\<open>The theories, from the bottom up.\<close>

  \<^item> \<open>Prelude\<close>: words, results, the state monad, shared lemmas. \<open>Allocator\<close>: the contract of a set of numbered things that
  are handed out and given back. \<open>Bytes\<close>: memory of bytes and its frame lemmas.

  \<^item> \<open>Bitmap\<close> (\<^verbatim>\<open>kernel/bitmap.c\<close>): the map of bits and its searches, an instance of \<open>Allocator\<close>. \<open>DList\<close> (\<^verbatim>\<open>kernel/list.c\<close>):
  the doubly linked list on a heap of cells; an invariant says that the cells represent a sequence, and the
  operations are those of a queue. \<open>Strings\<close>, \<open>Stdio\<close> (\<^verbatim>\<open>kernel/string.c\<close>, \<^verbatim>\<open>kernel/stdio.c\<close>): what the loops over memory
  compute, and that \<^verbatim>\<open>vsprintf\<close> renders its format.

  \<^item> \<open>Machine\<close>, \<open>Interrupt\<close>, \<open>Entry\<close> (\<^verbatim>\<open>kernel/interrupt.c\<close>, \<^verbatim>\<open>kernel/kernel.S\<close>): the interrupt flag, the table of gates read as
  the processor reads it, and the entries, which leave no trace in the interrupted program. \<open>Screen\<close>
  (\<^verbatim>\<open>kernel/print.S\<close>): the video memory as a terminal. \<open>Console\<close> (\<^verbatim>\<open>device/console.c\<close>): output under a lock.

  \<^item> \<open>KTypes\<close>, \<open>Paging\<close>, \<open>VMem\<close>, \<open>Malloc\<close> (\<^verbatim>\<open>kernel/memory.c\<close>, \<^verbatim>\<open>setup_page\<close> of \<^verbatim>\<open>boot/loader.S\<close>): page tables as words of memory
  that are reached through the recursive entry, compared with the walk of the processor; the pools of frames and
  of addresses, which refine a map from pages to frames; the heap of arenas, whose blocks do not overlap and go
  back with their pages.

  \<^item> \<open>Sched\<close>, \<open>Sync\<close>, \<open>Timer\<close> (\<^verbatim>\<open>thread/thread.c\<close>, \<^verbatim>\<open>thread/switch.S\<close>, \<^verbatim>\<open>thread/sync.c\<close>, \<^verbatim>\<open>device/timer.c\<close>): the invariant of the
  queues, round robin, and a step relation \<open>lstep\<close> of any number of tasks that use one lock, with preemption at every
  step, in which the lock excludes, no assertion fails and no wake-up is lost. \<open>Thread\<close>, \<open>Tss\<close>, \<open>Process\<close>, \<open>Fork\<close>,
  \<open>WaitExit\<close>, \<open>Exec\<close>, \<open>Ps\<close> (the rest of \<^verbatim>\<open>thread/thread.c\<close>, \<^verbatim>\<open>userprog/\<close>): the operations on threads and processes.

  \<^item> \<open>IOQueue\<close>, \<open>Keyboard\<close>, \<open>Pipe\<close> (\<^verbatim>\<open>device/ioqueue.c\<close>, \<^verbatim>\<open>device/keyboard.c\<close>, \<^verbatim>\<open>shell/pipe.c\<close>): the ring buffer as a bounded queue,
  and the characters that the keyboard puts into it.

  \<^item> \<open>Ide\<close>, \<open>PartScan\<close> (\<^verbatim>\<open>device/ide.c\<close>): the driver over a drive that is a parameter, with the documented behaviour of the
  drive as hypotheses (\<open>ata_ok\<close>), and the partitions that the scan of a disk enters.

  \<^item> \<open>FsTypes\<close>, \<open>DiskView\<close>, \<open>Inode\<close>, \<open>Dir\<close>, \<open>File\<close>, \<open>FileData\<close>, \<open>FileWrite\<close>, \<open>Path\<close>, \<open>Fs\<close>, \<open>FsDir\<close>, \<open>Format\<close> (\<^verbatim>\<open>fs/\<close>): the disk as a sequence of
  bytes; the inode table; the bytes of a file, what a read returns and a write leaves; the components of a path;
  every system call on files and directories; formatting and mounting.

  \<^item> \<open>Syscall\<close>, \<open>Shell\<close>, \<open>Buildin\<close> (\<^verbatim>\<open>user/syscall.c\<close>, \<^verbatim>\<open>userprog/syscall-init.c\<close>, \<^verbatim>\<open>shell/\<close>): from a stub to its routine; the line that
  is read, its words, the path without dots; the built-in commands and a pass of the shell.

  \<^bold>\<open>Interfaces.\<close> \<open>id_allocator\<close> is interpreted on the bitmap, \<open>elem_queue\<close> on the linked list, \<open>byte_queue\<close> on the ring buffer.
  The theories above \<open>DList\<close> use a list of the kernel as a sequence. The file system uses the driver through
  \<open>disk_read\<close> and \<open>disk_write\<close>, and the heap through \<open>sys_malloc_fs\<close> and \<open>sys_free_fs\<close>; an allocation fails when the state says
  so. \<open>Ide\<close> shows the former of the driver for requests of one sector, \<open>Malloc\<close> the latter for the kernel's heap.

  \<^bold>\<open>Fuel and bounds.\<close> Loops that end are total functions. \<^verbatim>\<open>busy_wait\<close> makes at most 29999 passes, the number that its
  16-bit counter allows. \<open>getcwd_loop\<close> has fuel 512, because each round appends to an array of 512 bytes; \<open>ls_long\<close> and
  \<open>ls_short\<close> have fuel 2941, one more than the entries that 140 blocks hold. \<open>count_args\<close> is bounded by the dwords of
  the address space.

  \<^bold>\<open>What is not modelled.\<close> The boot sector and the real-mode part of the loader, which only call the BIOS and copy the
  kernel image; \<^verbatim>\<open>kernel/main.c\<close> and \<^verbatim>\<open>kernel/init.c\<close>, which call the routines above in turn; the sample program in
  \<^verbatim>\<open>command/\<close>; the instruction-level semantics of the compiled code. The general registers are state only where a
  routine of assembly is about them. Requests to the drive for several sectors are outside what is shown of the
  driver.
\<close>

end
